(* ===== verification/Prelude.thy ===== *)
theory Prelude
  imports Main "HOL-Library.Word" "HOL-Library.Char_ord"
begin

text \<open>
  Shared vocabulary of the development: identifiers, Go's \<open>time.Time\<close> and
  \<open>time.Duration\<close>, fixed-width conversions, decimal printing as \<open>fmt.Sprintf("%d")\<close>
  does it, \<open>strings.Split\<close> and \<open>strings.Join\<close> on a one-byte separator, and the
  generic lemmas on lists, sums and words that several components use.
\<close>

section \<open>Collections of rewrite rules\<close>

named_theorems step_simps \<open>unfolding rules of one operation of a component\<close>
named_theorems inv_intros \<open>preservation rules of component invariants\<close>

section \<open>Identifiers and clocks\<close>

text \<open>A UUID is its 128-bit number; \<open>uuid.Nil\<close> is zero.\<close>

type_synonym uuid = nat

definition uuid_Nil :: uuid where
  "uuid_Nil = 0"

text \<open>
  \<open>time.Time\<close> counts nanoseconds from 1 January of year 1 UTC, so that the zero value of
  the Go type is 0 here and \<open>IsZero\<close> is a comparison with 0.  \<open>time.Duration\<close> is a
  signed number of nanoseconds; \<open>Time.Sub\<close> saturates at the ends of \<open>int64\<close>.
\<close>

type_synonym time = int
type_synonym duration = int

definition IsZero :: "time \<Rightarrow> bool" where
  "IsZero t \<longleftrightarrow> t = 0"

definition time_Sub :: "time \<Rightarrow> time \<Rightarrow> duration" where
  "time_Sub a b = max (- (2 ^ 63)) (min (2 ^ 63 - 1) (a - b))"

definition time_After :: "time \<Rightarrow> time \<Rightarrow> bool" where
  "time_After a b \<longleftrightarrow> b < a"

abbreviation Millisecond :: duration where "Millisecond \<equiv> 1000000"
abbreviation Second :: duration where "Second \<equiv> 1000000000"
abbreviation Minute :: duration where "Minute \<equiv> 60000000000"
abbreviation Hour :: duration where "Hour \<equiv> 3600000000000"

text \<open>\<open>Time.Unix\<close>: whole seconds since 1970, rounding down.\<close>

definition Unix :: "time \<Rightarrow> int" where
  "Unix t = t div Second - 62135596800"

lemma Unix_mono: "a \<le> b \<Longrightarrow> Unix a \<le> Unix b"
  by (simp add: Unix_def zdiv_mono1)

lemma Unix_add_seconds: "Unix (t + k * Second) = Unix t + k"
  by (simp add: Unix_def)

lemma time_Sub_exact: "- (2 ^ 63) \<le> a - b \<Longrightarrow> a - b < 2 ^ 63 \<Longrightarrow> time_Sub a b = a - b"
  by (simp add: time_Sub_def)

lemma time_Sub_ge_iff: "d \<le> 2 ^ 63 - 1 \<Longrightarrow> - (2 ^ 63) < d \<Longrightarrow> d \<le> time_Sub a b \<longleftrightarrow> d \<le> a - b"
  by (auto simp: time_Sub_def)

lemma time_Sub_less_iff: "d \<le> 2 ^ 63 - 1 \<Longrightarrow> - (2 ^ 63) < d \<Longrightarrow> time_Sub a b < d \<longleftrightarrow> a - b < d"
  by (auto simp: time_Sub_def)

lemma time_Sub_greater_iff: "d < 2 ^ 63 - 1 \<Longrightarrow> - (2 ^ 63) \<le> d \<Longrightarrow> d < time_Sub a b \<longleftrightarrow> d < a - b"
  by (auto simp: time_Sub_def)

section \<open>Fixed-width conversions\<close>

text \<open>Go's \<open>int16(v)\<close> and \<open>int32(v)\<close> keep the low bits and read them as two's complement.\<close>

definition go_int16 :: "int \<Rightarrow> int" where
  "go_int16 v = sint (word_of_int v :: 16 word)"

definition go_int32 :: "int \<Rightarrow> int" where
  "go_int32 v = sint (word_of_int v :: 32 word)"

lemma go_int16_eq: "go_int16 v = (v + 32768) mod 65536 - 32768"
  by (simp add: go_int16_def sint_sbintrunc' signed_take_bit_eq_take_bit_shift take_bit_eq_mod)

lemma go_int16_id: "- 32768 \<le> v \<Longrightarrow> v < 32768 \<Longrightarrow> go_int16 v = v"
  by (simp add: go_int16_eq)

lemma go_int32_eq: "go_int32 v = (v + 2147483648) mod 4294967296 - 2147483648"
  by (simp add: go_int32_def sint_sbintrunc' signed_take_bit_eq_take_bit_shift take_bit_eq_mod)

lemma go_int32_id: "- 2147483648 \<le> v \<Longrightarrow> v < 2147483648 \<Longrightarrow> go_int32 v = v"
  by (simp add: go_int32_eq)

definition go_int64 :: "int \<Rightarrow> int" where
  "go_int64 v = sint (word_of_int v :: 64 word)"

lemma go_int64_eq: "go_int64 v = (v + 9223372036854775808) mod 18446744073709551616 - 9223372036854775808"
  by (simp add: go_int64_def sint_sbintrunc' signed_take_bit_eq_take_bit_shift take_bit_eq_mod)

lemma go_int64_id: "- (2 ^ 63) \<le> v \<Longrightarrow> v < 2 ^ 63 \<Longrightarrow> go_int64 v = v"
  by (simp add: go_int64_eq)

text \<open>Go's integer division by two truncates towards zero.\<close>

definition go_half :: "int \<Rightarrow> int" where
  "go_half v = (if v < 0 then - ((- v) div 2) else v div 2)"

section \<open>Strings\<close>

definition digit_char :: "nat \<Rightarrow> char" where
  "digit_char d = char_of (48 + d)"

fun show_nat :: "nat \<Rightarrow> string" where
  "show_nat n = (if n < 10 then [digit_char n] else show_nat (n div 10) @ [digit_char (n mod 10)])"

declare show_nat.simps [simp del]

text \<open>\<open>fmt.Sprintf("%d", i)\<close> and \<open>strconv.Itoa\<close>.\<close>

definition show_int :: "int \<Rightarrow> string" where
  "show_int i = (if i < 0 then CHR ''-'' # show_nat (nat (- i)) else show_nat (nat i))"

fun read_digits :: "string \<Rightarrow> nat" where
  "read_digits [] = 0"
| "read_digits (c # cs) = (of_char c - 48) * 10 ^ length cs + read_digits cs"

lemma of_digit_char: "d < 10 \<Longrightarrow> of_char (digit_char d) = 48 + d"
  by (simp add: digit_char_def)

lemma read_digits_append: "read_digits (xs @ ys) = read_digits xs * 10 ^ length ys + read_digits ys"
  by (induction xs) (auto simp: algebra_simps power_add)

lemma read_show_nat: "read_digits (show_nat n) = n"
proof (induction n rule: show_nat.induct)
  case (1 n)
  show ?case
  proof (cases "n < 10")
    case True
    then show ?thesis by (simp add: show_nat.simps [of n] of_digit_char)
  next
    case False
    with "1.IH" show ?thesis
      by (simp add: show_nat.simps [of n] read_digits_append of_digit_char)
  qed
qed

lemma show_nat_inject [simp]: "show_nat m = show_nat n \<longleftrightarrow> m = n"
  by (metis read_show_nat)

lemma show_nat_digits: "c \<in> set (show_nat n) \<Longrightarrow> \<exists>d < 10. c = digit_char d"
proof (induction n rule: show_nat.induct)
  case (1 n)
  show ?case
    using "1.prems" "1.IH" by (auto simp: show_nat.simps [of n] split: if_splits intro: exI [of _ "n mod 10"])
qed

lemma digit_char_neq: "d < 10 \<Longrightarrow> of_char c \<notin> {48..57::nat} \<Longrightarrow> digit_char d \<noteq> c"
  using of_digit_char [of d] by (auto simp: )

lemma show_nat_no: "of_char c \<notin> {48..57::nat} \<Longrightarrow> c \<notin> set (show_nat n)"
  using show_nat_digits [of c n] digit_char_neq by blast

lemma show_nat_nonempty [simp]: "show_nat n \<noteq> []"
  by (subst show_nat.simps) simp

lemma show_int_inject [simp]: "show_int i = show_int j \<longleftrightarrow> i = j"
proof
  assume eq: "show_int i = show_int j"
  have no: "CHR ''-'' \<notin> set (show_nat n)" for n
    by (rule show_nat_no) simp
  have hd_no: "show_nat n \<noteq> CHR ''-'' # xs" for n xs
    using no [of n] by auto
  show "i = j"
    using eq hd_no hd_no [symmetric]
    by (auto simp: show_int_def split: if_splits)
qed simp

lemma show_int_no_colon: "CHR '':'' \<notin> set (show_int i)"
proof -
  have "CHR '':'' \<notin> set (show_nat n)" for n
    by (rule show_nat_no) simp
  then show ?thesis by (simp add: show_int_def)
qed

text \<open>\<open>strconv.Atoi\<close>: an optional sign, at least one digit, and a value of \<open>int64\<close>.\<close>

definition all_digits :: "string \<Rightarrow> bool" where
  "all_digits s \<longleftrightarrow> s \<noteq> [] \<and> list_all (\<lambda>c. 48 \<le> (of_char c :: nat) \<and> (of_char c :: nat) \<le> 57) s"

fun Atoi_parts :: "string \<Rightarrow> bool \<times> string" where
  "Atoi_parts [] = (False, [])"
| "Atoi_parts (c # cs) =
     (if c = CHR ''-'' then (True, cs) else if c = CHR ''+'' then (False, cs) else (False, c # cs))"

definition strconv_Atoi :: "string \<Rightarrow> int option" where
  "strconv_Atoi s = (case Atoi_parts s of (neg, body) \<Rightarrow>
     (let v = (if neg then - int (read_digits body) else int (read_digits body)) in
      if all_digits body \<and> - (2 ^ 63) \<le> v \<and> v < 2 ^ 63 then Some v else None))"

lemma all_digits_show_nat: "all_digits (show_nat n)"
proof -
  have "48 \<le> (of_char c :: nat) \<and> (of_char c :: nat) \<le> 57" if c: "c \<in> set (show_nat n)" for c
  proof -
    obtain d where "d < 10" "c = digit_char d" using show_nat_digits [OF c] by blast
    then show ?thesis by (simp add: of_digit_char)
  qed
  then show ?thesis by (simp add: all_digits_def list_all_iff)
qed

lemma Atoi_parts_digits: "all_digits s \<Longrightarrow> Atoi_parts s = (False, s)"
  by (cases s) (auto simp: all_digits_def)

lemma Atoi_show_int: "- (2 ^ 63) \<le> i \<Longrightarrow> i < 2 ^ 63 \<Longrightarrow> strconv_Atoi (show_int i) = Some i"
  by (cases "i < 0")
    (simp_all add: strconv_Atoi_def show_int_def Atoi_parts_digits all_digits_show_nat read_show_nat)

text \<open>\<open>strings.Split(s, sep)\<close> for a one-byte separator, and \<open>strings.Join\<close>.\<close>

fun split_on :: "char \<Rightarrow> string \<Rightarrow> string list" where
  "split_on d [] = [[]]"
| "split_on d (c # cs) =
     (if c = d then [] # split_on d cs
      else (case split_on d cs of [] \<Rightarrow> [[c]] | p # ps \<Rightarrow> (c # p) # ps))"

fun join_with :: "string \<Rightarrow> string list \<Rightarrow> string" where
  "join_with sep [] = []"
| "join_with sep [p] = p"
| "join_with sep (p # q # ps) = p @ sep @ join_with sep (q # ps)"

lemma split_on_nonempty [simp]: "split_on d s \<noteq> []"
  by (induction s) (auto split: list.splits)

lemma split_on_none: "d \<notin> set s \<Longrightarrow> split_on d s = [s]"
  by (induction s) auto

lemma split_on_append: "d \<notin> set s \<Longrightarrow> split_on d (s @ d # t) = s # split_on d t"
  by (induction s) auto

lemma join_split: "join_with [d] (split_on d s) = s"
proof (induction s)
  case Nil
  then show ?case by simp
next
  case (Cons c cs)
  then show ?case
    by (cases "split_on d cs" rule: list.exhaust; cases "tl (split_on d cs)")
       (auto split: list.splits)
qed

text \<open>The last separator of a string decides its final field.\<close>

lemma append_sep_inject:
  fixes d :: char
  assumes "d \<notin> set u" "d \<notin> set v"
  shows "s @ d # u = t @ d # v \<longleftrightarrow> s = t \<and> u = v"
proof
  assume eq: "s @ d # u = t @ d # v"
  then have "rev u @ d # rev s = rev v @ d # rev t"
    by (metis append.assoc append_Cons append_Nil rev.simps(2) rev_append)
  then have "split_on d (rev u @ d # rev s) = split_on d (rev v @ d # rev t)" by simp
  with assms have "rev u = rev v" by (simp add: split_on_append)
  with eq show "s = t \<and> u = v" by simp
qed simp

section \<open>Lists\<close>

lemma sorted_wrt_append_last:
  "sorted_wrt R (xs @ [x]) \<longleftrightarrow> sorted_wrt R xs \<and> (\<forall>y \<in> set xs. R y x)"
  by (auto simp: sorted_wrt_append)

lemma distinct_remove1_length:
  "distinct xs \<Longrightarrow> x \<in> set xs \<Longrightarrow> length (remove1 x xs) = length xs - 1"
  by (simp add: length_remove1)

section \<open>Unsigned counters\<close>

type_synonym u64 = "64 word"

lemma unat_u64_less: "unat (s :: u64) < 2 ^ 64"
  by (rule order_less_le_trans [OF unsigned_less]) simp

lemma unat_inc: "unat (s :: u64) + 1 < 2 ^ 64 \<Longrightarrow> unat (s + 1) = unat s + 1"
  by (simp add: unat_word_ariths)

lemma split_on_parts: "p \<in> set (split_on d s) \<Longrightarrow> d \<notin> set p"
proof (induction s arbitrary: p)
  case (Cons c cs)
  then show ?case by (cases "split_on d cs") (auto split: if_splits)
qed simp

lemma split_join: "xs \<noteq> [] \<Longrightarrow> \<forall>x \<in> set xs. d \<notin> set x \<Longrightarrow> split_on d (join_with [d] xs) = xs"
  by (induction "[d]" xs rule: join_with.induct) (auto simp: split_on_none split_on_append)

lemma join_with_Nil: "\<forall>x \<in> set xs. x \<noteq> '''' \<Longrightarrow> join_with d xs = '''' \<longleftrightarrow> xs = []"
  by (induction d xs rule: join_with.induct) auto

lemma join_inject:
  assumes xs: "\<forall>x \<in> set xs. d \<notin> set x \<and> x \<noteq> ''''" and ys: "\<forall>y \<in> set ys. d \<notin> set y \<and> y \<noteq> ''''"
    and eq: "join_with [d] xs = join_with [d] ys"
  shows "xs = ys"
proof -
  have "join_with [d] xs = '''' \<longleftrightarrow> xs = []" using xs by (intro join_with_Nil) blast
  moreover have "join_with [d] ys = '''' \<longleftrightarrow> ys = []" using ys by (intro join_with_Nil) blast
  ultimately have nil: "xs = [] \<longleftrightarrow> ys = []" unfolding eq by blast
  have "xs \<noteq> [] \<Longrightarrow> split_on d (join_with [d] xs) = xs" using xs by (intro split_join) blast+
  moreover have "ys \<noteq> [] \<Longrightarrow> split_on d (join_with [d] ys) = ys" using ys by (intro split_join) blast+
  ultimately show ?thesis unfolding eq using nil by fastforce
qed

lemma find_None_list: "find P xs = None \<Longrightarrow> x \<in> set xs \<Longrightarrow> \<not> P x"
  by (simp add: find_None_iff)

lemma find_Some_list: "find P xs = Some x \<Longrightarrow> x \<in> set xs \<and> P x"
  by (induction xs) (auto split: if_splits)

lemma find_None_ex: "find P xs = None \<longleftrightarrow> \<not> list_ex P xs"
  by (auto simp: find_None_iff list_ex_iff)

end
