(* ===== verification/Errors.thy ===== *)
theory Errors
  imports Prelude
begin

text \<open>
  Go error values and internal/kafka/errors.go: the chain that \<open>errors.Is\<close> and
  \<open>errors.As\<close> walk, the rendered text, and the classification that decides whether a
  failed message is retried, dead-lettered or committed as already done.
\<close>

section \<open>Error values\<close>

text \<open>
  \<open>ErrorsNew\<close> is a value of \<open>errors.New\<close>, compared by identity (its qualified name);
  \<open>LibError\<close> is a value made by a library, with whether it implements \<open>net.Error\<close>;
  \<open>UnsupportedSchema\<close> is \<open>*events.ErrUnsupportedSchema\<close>; \<open>PgError\<close> is
  \<open>*pgconn.PgError\<close> with its SQLSTATE; \<open>Wrap pre e post\<close> is \<open>fmt.Errorf(pre + "%w" + post, e)\<close>
  and \<open>PermanentError\<close> is \<open>*kafka.PermanentError\<close>, whose \<open>Err\<close> may be nil.
\<close>

datatype goerr =
    ErrorsNew string string
  | LibError bool string
  | UnsupportedSchema int int
  | PgError string string
  | Wrap string goerr string
  | PermanentError string "goerr option"

type_synonym error = "goerr option"

fun Error_text :: "goerr \<Rightarrow> string" where
  "Error_text (ErrorsNew _ t) = t"
| "Error_text (LibError _ t) = t"
| "Error_text (UnsupportedSchema got expected) =
     ''unsupported schema version '' @ show_int got @ '' (this build reads '' @ show_int expected @ '')''"
| "Error_text (PgError code msg) = ''ERROR: '' @ msg @ '' (SQLSTATE '' @ code @ '')''"
| "Error_text (Wrap pre e post) = pre @ Error_text e @ post"
| "Error_text (PermanentError reason None) = reason"
| "Error_text (PermanentError reason (Some e)) = reason @ '': '' @ Error_text e"

text \<open>\<open>Unwrap\<close>: the next error of the chain; the chain ends where it gives nil.\<close>

fun Unwrap :: "goerr \<Rightarrow> error" where
  "Unwrap (Wrap _ e _) = Some e"
| "Unwrap (PermanentError _ e) = e"
| "Unwrap _ = None"

fun chain :: "goerr \<Rightarrow> goerr list" where
  "chain (Wrap pre e post) = Wrap pre e post # chain e"
| "chain (PermanentError r (Some e)) = PermanentError r (Some e) # chain e"
| "chain e = [e]"

definition errors_Is :: "goerr \<Rightarrow> goerr \<Rightarrow> bool" where
  "errors_Is e target \<longleftrightarrow> target \<in> set (chain e)"

fun is_perm :: "goerr \<Rightarrow> bool" where
  "is_perm (PermanentError _ _) = True"
| "is_perm _ = False"

fun is_net :: "goerr \<Rightarrow> bool" where
  "is_net (LibError n _) = n"
| "is_net _ = False"

fun is_pg :: "goerr \<Rightarrow> bool" where
  "is_pg (PgError _ _) = True"
| "is_pg _ = False"

fun is_unsupported :: "goerr \<Rightarrow> bool" where
  "is_unsupported (UnsupportedSchema _ _) = True"
| "is_unsupported _ = False"

text \<open>\<open>errors.As\<close>: the first error of the chain with the wanted dynamic type.\<close>

definition errors_As :: "(goerr \<Rightarrow> bool) \<Rightarrow> goerr \<Rightarrow> error" where
  "errors_As P e = find P (chain e)"

lemma chain_head [simp]: "e \<in> set (chain e)"
  by (cases e rule: chain.cases) simp_all

lemma errors_Is_refl [simp]: "errors_Is e e"
  by (simp add: errors_Is_def)

lemma errors_Is_Wrap: "errors_Is (Wrap pre e post) t \<longleftrightarrow> t = Wrap pre e post \<or> errors_Is e t"
  by (auto simp: errors_Is_def)

lemma errors_As_Some: "errors_As P e = Some x \<Longrightarrow> P x \<and> x \<in> set (chain e)"
  by (auto simp: errors_As_def find_Some_iff)

lemma errors_As_None: "errors_As P e = None \<longleftrightarrow> (\<forall>x \<in> set (chain e). \<not> P x)"
  by (auto simp: errors_As_def find_None_iff)

lemma chain_Unwrap: "chain e = e # (case Unwrap e of None \<Rightarrow> [] | Some u \<Rightarrow> chain u)"
  by (cases e rule: chain.cases) simp_all

text \<open>\<open>context.Canceled\<close> and \<open>context.DeadlineExceeded\<close>; the second implements \<open>net.Error\<close>.\<close>

definition context_Canceled :: goerr where
  "context_Canceled = ErrorsNew ''context.Canceled'' ''context canceled''"

definition context_DeadlineExceeded :: goerr where
  "context_DeadlineExceeded = LibError True ''context deadline exceeded''"

text \<open>
  What a library call can fail with: an error that implements \<open>net.Error\<close>, any other error
  of the library, or the end of its context.  A library never returns the program's own
  sentinels.
\<close>

datatype lib_error = NetErr string | PlainErr string | CtxCanceled

fun lib :: "lib_error \<Rightarrow> goerr" where
  "lib (NetErr t) = LibError True t"
| "lib (PlainErr t) = LibError False t"
| "lib CtxCanceled = context_Canceled"

lemma chain_lib [simp]: "chain (lib e) = [lib e]"
  by (cases e) (simp_all add: context_Canceled_def)

section \<open>\<open>strings.Contains\<close>\<close>

fun starts_with :: "string \<Rightarrow> string \<Rightarrow> bool" where
  "starts_with [] s = True"
| "starts_with (c # cs) [] = False"
| "starts_with (c # cs) (d # ds) \<longleftrightarrow> c = d \<and> starts_with cs ds"

fun strings_Contains :: "string \<Rightarrow> string \<Rightarrow> bool" where
  "strings_Contains [] sub = starts_with sub []"
| "strings_Contains (c # cs) sub \<longleftrightarrow> starts_with sub (c # cs) \<or> strings_Contains cs sub"

lemma starts_with_append [simp]: "starts_with p (p @ s)"
  by (induction p) auto

lemma contains_append: "strings_Contains (pre @ sub @ post) sub"
proof (induction pre)
  case Nil
  show ?case using starts_with_append [of sub post] by (cases "sub @ post") auto
qed simp

lemma starts_with_iff: "starts_with p s \<longleftrightarrow> (\<exists>t. s = p @ t)"
  by (induction p s rule: starts_with.induct) auto

lemma contains_split: "strings_Contains s sub \<Longrightarrow> \<exists>pre post. s = pre @ sub @ post"
proof (induction s)
  case Nil
  then show ?case by (auto simp: starts_with_iff)
next
  case (Cons c cs)
  then consider t where "c # cs = [] @ sub @ t" | pre post where "c # cs = (c # pre) @ sub @ post"
    by (auto simp: starts_with_iff)
  then show ?case by cases blast+
qed

lemma contains_iff: "strings_Contains s sub \<longleftrightarrow> (\<exists>pre post. s = pre @ sub @ post)"
  using contains_split [of s sub] contains_append by blast

lemma contains_mono: "strings_Contains s sub \<Longrightarrow> strings_Contains (a @ s @ b) sub"
proof -
  assume "strings_Contains s sub"
  then obtain pre post where "s = pre @ sub @ post" by (auto simp: contains_iff)
  then have "a @ s @ b = (a @ pre) @ sub @ (post @ b)" by simp
  then show ?thesis unfolding contains_iff by blast
qed

section \<open>Classification\<close>

datatype Class = ClassTransient | ClassPermanent | ClassDuplicate

fun Class_String :: "Class \<Rightarrow> string" where
  "Class_String ClassTransient = ''transient''"
| "Class_String ClassPermanent = ''permanent''"
| "Class_String ClassDuplicate = ''duplicate''"

definition Permanent :: "string \<Rightarrow> goerr \<Rightarrow> goerr" where
  "Permanent reason err = PermanentError reason (Some err)"

definition ErrDuplicate :: goerr where
  "ErrDuplicate = ErrorsNew ''kafka.ErrDuplicate'' ''message already processed''"

definition isConstraintViolation :: "goerr \<Rightarrow> bool" where
  "isConstraintViolation err = list_ex (strings_Contains (Error_text err))
     [''23502'', ''23503'', ''23505'', ''23514'', ''22P02'']"

definition Classify :: "error \<Rightarrow> Class" where
  "Classify err = (case err of
       None \<Rightarrow> ClassTransient
     | Some e \<Rightarrow>
         if errors_Is e ErrDuplicate then ClassDuplicate
         else if errors_As is_perm e \<noteq> None then ClassPermanent
         else if errors_Is e context_Canceled then ClassTransient
         else if errors_As is_net e \<noteq> None then ClassTransient
         else if isConstraintViolation e then ClassPermanent
         else ClassTransient)"

lemma lib_not_own [simp]:
  "\<not> is_perm (lib e)" "\<not> is_pg (lib e)" "\<not> is_unsupported (lib e)"
  "lib e \<noteq> ErrDuplicate" "ErrDuplicate \<noteq> lib e"
  by (cases e; simp add: context_Canceled_def ErrDuplicate_def)+

lemma lib_not_Duplicate [simp]: "\<not> errors_Is (lib e) ErrDuplicate"
  by (simp add: errors_Is_def)

lemma Wrap_not_Duplicate [simp]:
  "errors_Is (Wrap pre e post) ErrDuplicate \<longleftrightarrow> errors_Is e ErrDuplicate"
  "errors_Is (Permanent r e) ErrDuplicate \<longleftrightarrow> errors_Is e ErrDuplicate"
  "\<not> errors_Is (LibError n t) ErrDuplicate"
  "\<not> errors_Is (PgError c t) ErrDuplicate"
  "\<not> errors_Is (PermanentError r None) ErrDuplicate"
  by (auto simp: errors_Is_def ErrDuplicate_def Permanent_def)

lemma Classify_Duplicate [simp]: "Classify (Some ErrDuplicate) = ClassDuplicate"
  by (simp add: Classify_def)

lemma Classify_Permanent:
  "\<not> errors_Is e ErrDuplicate \<Longrightarrow> Classify (Some (Permanent r e)) = ClassPermanent"
  by (simp add: Classify_def errors_Is_def errors_As_def Permanent_def ErrDuplicate_def)

text \<open>
  A marked error stays permanent, and a duplicate stays a duplicate, however many times
  the code wraps it on the way up.
\<close>

lemma Classify_Wrap_Duplicate:
  "errors_Is e ErrDuplicate \<Longrightarrow> Classify (Some (Wrap pre e post)) = ClassDuplicate"
  by (simp add: Classify_def errors_Is_Wrap)

lemma Error_text_chain: "x \<in> set (chain e) \<Longrightarrow> \<exists>pre post. Error_text e = pre @ Error_text x @ post"
proof (induction e rule: chain.induct)
  case (1 pre e post)
  then show ?case
  proof (cases "x = Wrap pre e post")
    case True
    then have "Error_text (Wrap pre e post) = [] @ Error_text x @ []" by simp
    then show ?thesis by blast
  next
    case False
    with 1 obtain a b where "Error_text e = a @ Error_text x @ b" by auto
    then have "Error_text (Wrap pre e post) = (pre @ a) @ Error_text x @ (b @ post)" by simp
    then show ?thesis by blast
  qed
next
  case (2 r e)
  then show ?case
  proof (cases "x = PermanentError r (Some e)")
    case True
    then have "Error_text (PermanentError r (Some e)) = [] @ Error_text x @ []" by simp
    then show ?thesis by blast
  next
    case False
    with 2 obtain a b where "Error_text e = a @ Error_text x @ b" by auto
    then have "Error_text (PermanentError r (Some e)) = (r @ '': '' @ a) @ Error_text x @ b" by simp
    then show ?thesis by blast
  qed
qed (simp_all, (metis append_Nil append_Nil2)+)

end
