(* ===== verification/Breaker.thy ===== *)
theory Breaker
  imports Errors
begin

text \<open>
  internal/mlclient/breaker.go: the circuit breaker in front of the inference service.
  Each operation takes the reading of \<open>cfg.now\<close> it makes and returns the breaker with the
  transitions it reports to \<open>onStateChange\<close>.  Every operation holds the mutex from its
  first read to its last write, so concurrent callers are interleavings of operations:
  \<open>breaker_reachable\<close> lets them arrive in any order, with any clock readings.
\<close>

section \<open>State and operations\<close>

datatype State = StateClosed | StateOpen | StateHalfOpen

fun State_String :: "State \<Rightarrow> string" where
  "State_String StateClosed = ''closed''"
| "State_String StateOpen = ''open''"
| "State_String StateHalfOpen = ''half_open''"

record BreakerConfig =
  FailureThreshold :: int
  OpenDuration :: duration
  HalfOpenSuccesses :: int

definition DefaultBreakerConfig :: BreakerConfig where
  "DefaultBreakerConfig = \<lparr>FailureThreshold = 5, OpenDuration = 30 * Second, HalfOpenSuccesses = 2\<rparr>"

record Breaker =
  cfg :: BreakerConfig
  state :: State
  consecutiveFails :: int
  halfOpenSuccesses :: int
  openedAt :: time

definition ErrCircuitOpen :: goerr where
  "ErrCircuitOpen = ErrorsNew ''mlclient.ErrCircuitOpen'' ''ml circuit breaker is open''"

definition NewBreaker :: "BreakerConfig \<Rightarrow> Breaker" where
  "NewBreaker c =
     \<lparr>cfg = \<lparr>FailureThreshold = (if FailureThreshold c \<le> 0 then 5 else FailureThreshold c),
             OpenDuration = (if OpenDuration c \<le> 0 then 30 * Second else OpenDuration c),
             HalfOpenSuccesses = (if HalfOpenSuccesses c \<le> 0 then 2 else HalfOpenSuccesses c)\<rparr>,
      state = StateClosed, consecutiveFails = 0, halfOpenSuccesses = 0, openedAt = 0\<rparr>"

type_synonym transitions = "(State \<times> State) list"

definition notify :: "State \<Rightarrow> State \<Rightarrow> transitions" where
  "notify from to = (if from \<noteq> to then [(from, to)] else [])"

definition advanceLocked :: "time \<Rightarrow> Breaker \<Rightarrow> Breaker" where
  "advanceLocked now b =
     (if state b = StateOpen \<and> OpenDuration (cfg b) \<le> time_Sub now (openedAt b)
      then b\<lparr>state := StateHalfOpen, halfOpenSuccesses := 0\<rparr> else b)"

definition Breaker_State :: "time \<Rightarrow> Breaker \<Rightarrow> State \<times> Breaker \<times> transitions" where
  "Breaker_State now b = (let b' = advanceLocked now b in (state b', b', notify (state b) (state b')))"

definition Allow :: "time \<Rightarrow> Breaker \<Rightarrow> bool \<times> Breaker \<times> transitions" where
  "Allow now b = (let (s, b', ts) = Breaker_State now b in (s \<noteq> StateOpen, b', ts))"

definition RecordSuccess :: "Breaker \<Rightarrow> Breaker \<times> transitions" where
  "RecordSuccess b =
     (let b1 = b\<lparr>consecutiveFails := 0\<rparr>;
          b2 = (if state b1 = StateHalfOpen
                then (let b' = b1\<lparr>halfOpenSuccesses := halfOpenSuccesses b1 + 1\<rparr> in
                      if HalfOpenSuccesses (cfg b') \<le> halfOpenSuccesses b'
                      then b'\<lparr>state := StateClosed, halfOpenSuccesses := 0\<rparr> else b')
                else b1)
      in (b2, notify (state b) (state b2)))"

definition RecordFailure :: "time \<Rightarrow> Breaker \<Rightarrow> Breaker \<times> transitions" where
  "RecordFailure now b =
     (let b2 = (case state b of
          StateHalfOpen \<Rightarrow> b\<lparr>state := StateOpen, openedAt := now, halfOpenSuccesses := 0\<rparr>
        | StateClosed \<Rightarrow>
            (let b' = b\<lparr>consecutiveFails := consecutiveFails b + 1\<rparr> in
             if FailureThreshold (cfg b') \<le> consecutiveFails b'
             then b'\<lparr>state := StateOpen, openedAt := now\<rparr> else b')
        | StateOpen \<Rightarrow> b)
      in (b2, notify (state b) (state b2)))"

text \<open>
  \<open>Do\<close>: \<open>fn\<close> is run only when the breaker allows it and may itself change a state \<open>'s\<close>
  (the service behind the client); \<open>t1\<close> is the clock at \<open>Allow\<close>, \<open>t2\<close> after the call.
\<close>

definition Do :: "time \<Rightarrow> time \<Rightarrow> ('s \<Rightarrow> error \<times> 's) \<Rightarrow> Breaker \<Rightarrow> 's
    \<Rightarrow> error \<times> Breaker \<times> 's \<times> transitions" where
  "Do t1 t2 fn b s =
     (let (ok, b1, ts1) = Allow t1 b in
      if \<not> ok then (Some ErrCircuitOpen, b1, s, ts1)
      else (case fn s of
          (Some err, s') \<Rightarrow> (let (b2, ts2) = RecordFailure t2 b1 in (Some err, b2, s', ts1 @ ts2))
        | (None, s') \<Rightarrow> (let (b2, ts2) = RecordSuccess b1 in (None, b2, s', ts1 @ ts2))))"

section \<open>Reachable breakers\<close>

inductive breaker_reachable :: "BreakerConfig \<Rightarrow> Breaker \<Rightarrow> bool" for c where
  reach_new: "breaker_reachable c (NewBreaker c)"
| reach_state: "breaker_reachable c b \<Longrightarrow> breaker_reachable c (advanceLocked now b)"
| reach_success: "breaker_reachable c b \<Longrightarrow> breaker_reachable c (fst (RecordSuccess b))"
| reach_failure: "breaker_reachable c b \<Longrightarrow> breaker_reachable c (fst (RecordFailure now b))"

definition breaker_inv :: "Breaker \<Rightarrow> bool" where
  "breaker_inv b \<longleftrightarrow>
     0 < FailureThreshold (cfg b) \<and> 0 < OpenDuration (cfg b) \<and> 0 < HalfOpenSuccesses (cfg b) \<and>
     0 \<le> consecutiveFails b \<and> 0 \<le> halfOpenSuccesses b \<and>
     (state b = StateClosed \<longrightarrow> consecutiveFails b < FailureThreshold (cfg b)) \<and>
     (state b = StateHalfOpen \<longrightarrow> halfOpenSuccesses b < HalfOpenSuccesses (cfg b)) \<and>
     (state b \<noteq> StateHalfOpen \<longrightarrow> halfOpenSuccesses b = 0)"

lemma breaker_inv_new [inv_intros]: "breaker_inv (NewBreaker c)"
  by (simp add: breaker_inv_def NewBreaker_def)

lemma breaker_inv_advance [inv_intros]: "breaker_inv b \<Longrightarrow> breaker_inv (advanceLocked now b)"
  by (auto simp: breaker_inv_def advanceLocked_def)

lemma breaker_inv_success [inv_intros]: "breaker_inv b \<Longrightarrow> breaker_inv (fst (RecordSuccess b))"
  by (cases "state b") (auto simp: breaker_inv_def RecordSuccess_def Let_def)

lemma breaker_inv_failure [inv_intros]: "breaker_inv b \<Longrightarrow> breaker_inv (fst (RecordFailure now b))"
  by (cases "state b") (auto simp: breaker_inv_def RecordFailure_def Let_def)

lemma breaker_inv_reachable: "breaker_reachable c b \<Longrightarrow> breaker_inv b"
  by (induction rule: breaker_reachable.induct) (auto intro: inv_intros)

lemma cfg_ops [simp]:
  "cfg (advanceLocked now b) = cfg b"
  "cfg (fst (RecordSuccess b)) = cfg b"
  "cfg (fst (RecordFailure now b)) = cfg b"
  by (simp_all add: advanceLocked_def RecordSuccess_def RecordFailure_def Let_def split: State.splits)

lemma cfg_reachable: "breaker_reachable c b \<Longrightarrow> cfg b = cfg (NewBreaker c)"
  by (induction rule: breaker_reachable.induct) auto

section \<open>One guarded call\<close>

lemma Allow_simps [step_simps]:
  "fst (Allow now b) \<longleftrightarrow> state (advanceLocked now b) \<noteq> StateOpen"
  "fst (snd (Allow now b)) = advanceLocked now b"
  by (simp_all add: Allow_def Breaker_State_def Let_def)

lemma Do_rejected:
  "state (advanceLocked t1 b) = StateOpen \<Longrightarrow>
     Do t1 t2 fn b s = (Some ErrCircuitOpen, b, s, [])"
  by (simp add: Do_def Allow_def Breaker_State_def Let_def notify_def advanceLocked_def split: if_splits)

lemma Do_failed:
  assumes "state (advanceLocked t1 b) \<noteq> StateOpen" "fn s = (Some err, s')"
  shows "\<exists>ts. Do t1 t2 fn b s = (Some err, fst (RecordFailure t2 (advanceLocked t1 b)), s', ts)"
  using assms by (simp add: Do_def Allow_def Breaker_State_def Let_def split: prod.splits)

lemma Do_succeeded:
  assumes "state (advanceLocked t1 b) \<noteq> StateOpen" "fn s = (None, s')"
  shows "\<exists>ts. Do t1 t2 fn b s = (None, fst (RecordSuccess (advanceLocked t1 b)), s', ts)"
  using assms by (simp add: Do_def Allow_def Breaker_State_def Let_def split: prod.splits)

lemma breaker_reachable_Do:
  "breaker_reachable c b \<Longrightarrow> breaker_reachable c (fst (snd (Do t1 t2 fn b s)))"
proof (cases "state (advanceLocked t1 b) = StateOpen")
  case True
  assume "breaker_reachable c b"
  with True show ?thesis by (simp add: Do_rejected)
next
  case False
  assume r: "breaker_reachable c b"
  obtain e s' where fn: "fn s = (e, s')" by fastforce
  show ?thesis
  proof (cases e)
    case None
    with fn obtain ts where "Do t1 t2 fn b s = (None, fst (RecordSuccess (advanceLocked t1 b)), s', ts)"
      using Do_succeeded [OF False, of fn s s' t2] by auto
    with r show ?thesis by (auto intro: breaker_reachable.intros)
  next
    case (Some err)
    with fn obtain ts where "Do t1 t2 fn b s = (Some err, fst (RecordFailure t2 (advanceLocked t1 b)), s', ts)"
      using Do_failed [OF False, of fn s err s' t2] by auto
    with r show ?thesis by (auto intro: breaker_reachable.intros)
  qed
qed

section \<open>Runs of calls\<close>

text \<open>
  A sequence of guarded calls against a service that counts how often it is reached:
  each call has its two clock readings and the outcome the service would give.
\<close>

type_synonym call = "time \<times> time \<times> error"

definition counted :: "error \<Rightarrow> nat \<Rightarrow> error \<times> nat" where
  "counted out n = (out, n + 1)"

fun run_calls :: "call list \<Rightarrow> Breaker \<Rightarrow> nat \<Rightarrow> Breaker \<times> nat" where
  "run_calls [] b n = (b, n)"
| "run_calls ((t1, t2, out) # cs) b n =
     (let (_, b', n', _) = Do t1 t2 (counted out) b n in run_calls cs b' n')"

lemma time_Sub_below: "a - b < d \<Longrightarrow> 0 < d \<Longrightarrow> time_Sub a b < d"
  by (auto simp: time_Sub_def)

lemma advance_open_stays:
  "state b = StateOpen \<Longrightarrow> 0 < OpenDuration (cfg b) \<Longrightarrow> now < openedAt b + OpenDuration (cfg b)
     \<Longrightarrow> advanceLocked now b = b"
  using time_Sub_below [of now "openedAt b" "OpenDuration (cfg b)"] by (simp add: advanceLocked_def)

text \<open>What the failures of a closed breaker may still spend before it trips.\<close>

definition budget :: "Breaker \<Rightarrow> nat" where
  "budget b = (case state b of StateClosed \<Rightarrow> nat (FailureThreshold (cfg b) - consecutiveFails b)
     | StateHalfOpen \<Rightarrow> 1 | StateOpen \<Rightarrow> 0)"

lemma failure_budget:
  assumes "breaker_inv b" "state b \<noteq> StateOpen"
  shows "(state (fst (RecordFailure t b)) = StateOpen \<and> openedAt (fst (RecordFailure t b)) = t \<and> 1 \<le> budget b)
       \<or> (state (fst (RecordFailure t b)) = StateClosed \<and> Suc (budget (fst (RecordFailure t b))) = budget b)"
  using assms by (cases "state b") (auto simp: RecordFailure_def Let_def budget_def breaker_inv_def)

section \<open>Concurrent callers during an outage\<close>

text \<open>
  \<open>outage K T b0 f0 b f n\<close>: the service fails every call, at most \<open>K\<close> calls are in flight at a
  time, and each asks the breaker within one open period from \<open>T\<close>.  From the breaker \<open>b0\<close>
  with \<open>f0\<close> calls in flight the callers have got to \<open>b\<close> with \<open>f\<close> in flight, and \<open>n\<close> calls have
  been let through to the service.  The steps are the two critical sections of \<open>Do\<close>, in any
  order: a caller passes \<open>Allow\<close>, and one that was let through records its failure.
\<close>

inductive outage :: "nat \<Rightarrow> time \<Rightarrow> Breaker \<Rightarrow> nat \<Rightarrow> Breaker \<Rightarrow> nat \<Rightarrow> nat \<Rightarrow> bool" for K T b0 f0 where
  outage_start: "f0 \<le> K \<Longrightarrow> outage K T b0 f0 b0 f0 0"
| outage_ask: "outage K T b0 f0 b f n \<Longrightarrow> f < K \<Longrightarrow> T \<le> t \<Longrightarrow> t < T + OpenDuration (cfg b) \<Longrightarrow>
     Allow t b = (ok, b', ts) \<Longrightarrow>
     outage K T b0 f0 b' (if ok then f + 1 else f) (if ok then n + 1 else n)"
| outage_fail: "outage K T b0 f0 b f n \<Longrightarrow> 0 < f \<Longrightarrow> T \<le> t \<Longrightarrow>
     outage K T b0 f0 (fst (RecordFailure t b)) (f - 1) n"

lemma Allow_eq:
  "Allow now b = (ok, b', ts) \<Longrightarrow> b' = advanceLocked now b \<and> (ok \<longleftrightarrow> state b' \<noteq> StateOpen)"
  by (auto simp: Allow_def Breaker_State_def Let_def)

lemma advance_not_open: "state b \<noteq> StateOpen \<Longrightarrow> advanceLocked now b = b"
  by (simp add: advanceLocked_def)

text \<open>
  While the breaker is not open every recorded failure has spent one of its budget; once it is
  open it stays so, and what was let through is the budget plus the callers that had passed.
\<close>

lemma outage_invariant:
  assumes "breaker_inv b0" "state b0 \<noteq> StateOpen"
  shows "outage K T b0 f0 b f n \<Longrightarrow> breaker_inv b \<and> f \<le> K \<and> cfg b = cfg b0
     \<and> (state b \<noteq> StateOpen \<longrightarrow> n + f0 + budget b = budget b0 + f)
     \<and> (state b = StateOpen \<longrightarrow> T \<le> openedAt b \<and> n + f0 + 1 \<le> budget b0 + K)"
proof (induction rule: outage.induct)
  case outage_start
  with assms show ?case by simp
next
  case (outage_ask b f n t ok b' ts)
  have b': "b' = advanceLocked t b" "ok \<longleftrightarrow> state b' \<noteq> StateOpen"
    using Allow_eq [OF outage_ask.hyps(5)] by auto
  have "b' = b"
  proof (cases "state b = StateOpen")
    case True
    then show ?thesis
      unfolding b'(1) using outage_ask.IH outage_ask.hyps(4) by (intro advance_open_stays) (auto simp: breaker_inv_def)
  qed (simp add: b'(1) advance_not_open)
  with b'(2) outage_ask.IH outage_ask.hyps(2) show ?case by auto
next
  case (outage_fail b f n t)
  have inv: "breaker_inv (fst (RecordFailure t b))" using outage_fail.IH by (intro breaker_inv_failure) simp
  show ?case
  proof (cases "state b = StateOpen")
    case True
    then have "fst (RecordFailure t b) = b" by (simp add: RecordFailure_def Let_def)
    with True outage_fail.IH show ?thesis by auto
  next
    case False
    with failure_budget [of b t] outage_fail.IH outage_fail.hyps inv show ?thesis by auto
  qed
qed

section \<open>Properties\<close>

text \<open>
  Every breaker that any interleaving of State, RecordSuccess and RecordFailure can
  reach, with any clock, keeps its counters in range: a closed breaker has fewer failures
  than the threshold, a half-open one fewer successes than it needs, and nothing outside
  half-open carries probe successes over.
\<close>

theorem breaker_invariant: "breaker_reachable c b \<Longrightarrow> breaker_inv b \<and> cfg b = cfg (NewBreaker c)"
  by (simp add: breaker_inv_reachable cfg_reachable)

theorem breaker_invariant_witness:
  "breaker_inv (fst (RecordFailure 7 (NewBreaker DefaultBreakerConfig)))
   \<and> cfg (fst (RecordFailure 7 (NewBreaker DefaultBreakerConfig))) = cfg (NewBreaker DefaultBreakerConfig)"
  by (rule breaker_invariant) (rule reach_failure, rule reach_new)

text \<open>
  An open breaker whose cooldown has not elapsed refuses the call with
  \<open>ErrCircuitOpen\<close>: the function is not run (its state is untouched), the breaker is
  unchanged and no transition is reported.
\<close>

theorem open_rejects_without_calling:
  assumes "breaker_reachable c b" "state b = StateOpen"
    and "t1 < openedAt b + OpenDuration (cfg b)"
  shows "Do t1 t2 fn b s = (Some ErrCircuitOpen, b, s, [])"
proof -
  have "advanceLocked t1 b = b"
    using assms breaker_inv_reachable [OF assms(1)] by (intro advance_open_stays) (auto simp: breaker_inv_def)
  with assms(2) show ?thesis by (simp add: Do_rejected)
qed

definition one_strike :: BreakerConfig where
  "one_strike = \<lparr>FailureThreshold = 1, OpenDuration = 100, HalfOpenSuccesses = 1\<rparr>"

theorem open_rejects_without_calling_witness:
  "Do 50 60 (counted None) (fst (RecordFailure 7 (NewBreaker one_strike))) 0
     = (Some ErrCircuitOpen, fst (RecordFailure 7 (NewBreaker one_strike)), 0, [])"
proof (rule open_rejects_without_calling [where c = one_strike])
  show "breaker_reachable one_strike (fst (RecordFailure 7 (NewBreaker one_strike)))"
    by (intro breaker_reachable.intros)
qed (simp_all add: one_strike_def NewBreaker_def RecordFailure_def Let_def)


text \<open>Two callers pass a breaker that trips at one failure: both reach the service, a third does not.\<close>

lemma two_callers:
  "\<exists>b. outage 2 0 (NewBreaker one_strike) 0 b 1 2"
proof -
  let ?b = "NewBreaker one_strike"
  have d: "OpenDuration (cfg ?b) = 100" by (simp add: one_strike_def NewBreaker_def)
  have ask: "Allow t ?b = (True, ?b, [])" for t
    by (simp add: Allow_def Breaker_State_def advanceLocked_def NewBreaker_def notify_def Let_def)
  have "outage 2 0 ?b 0 ?b 1 1"
    using outage_ask [OF outage_start [of 0 2 0 ?b] _ _ _ ask [of 1]] d by simp
  from outage_ask [OF this _ _ _ ask [of 2]] d have "outage 2 0 ?b 0 ?b 2 2" by (simp add: numeral_2_eq_2)
  from outage_fail [OF this, of 3] have "outage 2 0 ?b 0 (fst (RecordFailure 3 ?b)) 1 2" by simp
  moreover have "Allow 4 (fst (RecordFailure 3 ?b)) = (False, fst (RecordFailure 3 ?b), [])"
    by (simp add: Allow_def Breaker_State_def advanceLocked_def RecordFailure_def NewBreaker_def one_strike_def
        time_Sub_def notify_def Let_def)
  ultimately have "outage 2 0 ?b 0 (fst (RecordFailure 3 ?b)) 1 2"
    using outage_ask [of 2 0 ?b 0 "fst (RecordFailure 3 ?b)" 1 2 4 False] d by simp
  then show ?thesis by blast
qed


fun failures :: "time list \<Rightarrow> Breaker \<Rightarrow> Breaker" where
  "failures [] b = b"
| "failures (t # ts) b = failures ts (fst (RecordFailure t b))"

lemma failures_append: "failures (ts @ us) b = failures us (failures ts b)"
  by (induction ts arbitrary: b) auto

lemma failures_closed:
  "state b = StateClosed \<Longrightarrow> consecutiveFails b + int (length ts) < FailureThreshold (cfg b) \<Longrightarrow>
   failures ts b = b\<lparr>consecutiveFails := consecutiveFails b + int (length ts)\<rparr>"
  by (induction ts arbitrary: b) (auto simp: RecordFailure_def Let_def)

text \<open>
  The breaker opens at exactly the configured number of consecutive failures: after
  \<open>n\<close> failures on a fresh breaker it is still closed and counts \<open>n\<close> while \<open>n\<close> is below the
  threshold, and at the threshold it is open, its cooldown starting at the last failure.
\<close>

theorem trips_at_threshold:
  "(int (length ts) < FailureThreshold (cfg (NewBreaker c)) \<longrightarrow>
      state (failures ts (NewBreaker c)) = StateClosed
      \<and> consecutiveFails (failures ts (NewBreaker c)) = int (length ts))
   \<and> (int (length ts) + 1 = FailureThreshold (cfg (NewBreaker c)) \<longrightarrow>
      state (failures (ts @ [t]) (NewBreaker c)) = StateOpen
      \<and> openedAt (failures (ts @ [t]) (NewBreaker c)) = t)"
  using failures_closed [of "NewBreaker c" ts]
  by (simp add: NewBreaker_def failures_append RecordFailure_def Let_def)

theorem trips_at_threshold_witness:
  "state (failures ([1, 2, 3, 4] @ [5]) (NewBreaker DefaultBreakerConfig)) = StateOpen"
  using trips_at_threshold [of "[1, 2, 3, 4]" DefaultBreakerConfig 5]
  by (simp add: NewBreaker_def DefaultBreakerConfig_def)

lemma recover_half_open:
  assumes "breaker_inv b" "state b = StateHalfOpen"
    "halfOpenSuccesses b + int (length ts) < HalfOpenSuccesses (cfg b)"
  shows "run_calls (map (\<lambda>t. (t, t, None)) ts) b n =
    (b\<lparr>halfOpenSuccesses := halfOpenSuccesses b + int (length ts),
       consecutiveFails := (if ts = [] then consecutiveFails b else 0)\<rparr>, n + length ts)"
  using assms
proof (induction ts arbitrary: b n)
  case (Cons t ts)
  let ?b = "fst (RecordSuccess b)"
  have adv: "advanceLocked t b = b" using Cons.prems(2) by (simp add: advanceLocked_def)
  have b: "?b = b\<lparr>halfOpenSuccesses := halfOpenSuccesses b + 1, consecutiveFails := 0\<rparr>"
    using Cons.prems by (simp add: RecordSuccess_def Let_def)
  from Do_succeeded [of t b "counted None" n "n + 1" t] Cons.prems(2) adv
  have run: "run_calls (map (\<lambda>t. (t, t, None)) (t # ts)) b n
      = run_calls (map (\<lambda>t. (t, t, None)) ts) ?b (n + 1)"
    by (auto simp: counted_def)
  have "breaker_inv ?b" using Cons.prems(1) by (rule breaker_inv_success)
  from Cons.IH [OF this, of "n + 1"] Cons.prems show ?case
    unfolding run by (simp add: b)
qed simp

lemma recover_step:
  assumes "state b = StateHalfOpen" "halfOpenSuccesses b + 1 = HalfOpenSuccesses (cfg b)"
  shows "run_calls [(t, t, None)] b n =
    (b\<lparr>halfOpenSuccesses := 0, consecutiveFails := 0, state := StateClosed\<rparr>, n + 1)"
proof -
  have "advanceLocked t b = b" using assms(1) by (simp add: advanceLocked_def)
  with Do_succeeded [of t b "counted None" n "n + 1" t] assms show ?thesis
    by (auto simp: counted_def RecordSuccess_def Let_def)
qed

lemma run_calls_append:
  "run_calls (xs @ ys) b n = (let (b', n') = run_calls xs b n in run_calls ys b' n')"
  by (induction xs arbitrary: b n) (auto simp: Let_def split: prod.splits)

lemma run_calls_advance:
  assumes "state (advanceLocked t b) = StateHalfOpen"
  shows "run_calls ((t, t', out) # cs) b n = run_calls ((t, t', out) # cs) (advanceLocked t b) n"
proof -
  have "advanceLocked t (advanceLocked t b) = advanceLocked t b"
    using assms by (simp add: advanceLocked_def split: if_splits)
  then have "snd (Do t t' (counted out) b n) = (fst (snd (Do t t' (counted out) (advanceLocked t b) n)),
      fst (snd (snd (Do t t' (counted out) (advanceLocked t b) n))),
      snd (snd (snd (Do t t' (counted out) b n))))"
    using assms by (auto simp: Do_def Allow_def Breaker_State_def Let_def counted_def split: prod.splits option.splits)
  then show ?thesis by (auto simp: Let_def split: prod.splits)
qed

text \<open>
  C18: recovery: once the cooldown of an open breaker has elapsed, calls that succeed are all
  let through; the breaker stays half-open until \<open>HalfOpenSuccesses\<close> of them have succeeded
  and is then closed with no failure held against the service.
\<close>

theorem recovery_closes:
  assumes "breaker_reachable c b" "state b = StateOpen"
    and "OpenDuration (cfg b) \<le> time_Sub t0 (openedAt b)"
    and "int (length ts) + 1 = HalfOpenSuccesses (cfg b)"
  shows "\<exists>b'. run_calls (map (\<lambda>t. (t, t, None)) (t0 # ts)) b n = (b', n + length ts + 1)
      \<and> state b' = StateClosed \<and> consecutiveFails b' = 0"
proof -
  let ?f = "\<lambda>t. (t :: time, t, None :: error)"
  let ?h = "advanceLocked t0 b"
  have inv: "breaker_inv ?h" using assms(1) by (intro inv_intros breaker_inv_reachable)
  have h: "state ?h = StateHalfOpen" "halfOpenSuccesses ?h = 0"
    using assms(2,3) by (simp_all add: advanceLocked_def)
  obtain us u where us: "t0 # ts = us @ [u]" by (metis list.distinct(1) rev_exhaust)
  then have len: "length us = length ts" by (metis length_append_singleton length_Cons nat.inject)
  have "run_calls (map ?f (t0 # ts)) b n = run_calls (map ?f (us @ [u])) ?h n"
    using run_calls_advance [OF h(1), of t0 None "map ?f ts" n] by (simp add: us [symmetric])
  also have "\<dots> = (let (b', n') = run_calls (map ?f us) ?h n in run_calls [?f u] b' n')"
    by (simp add: run_calls_append)
  finally have run: "run_calls (map ?f (t0 # ts)) b n
      = (let (b', n') = run_calls (map ?f us) ?h n in run_calls [?f u] b' n')" .
  obtain m where m: "run_calls (map ?f us) ?h n = (m, n + length us)"
    and st: "state m = StateHalfOpen" "halfOpenSuccesses m + 1 = HalfOpenSuccesses (cfg m)"
    using recover_half_open [OF inv h(1), of us n] h assms(4) len by auto
  show ?thesis
    unfolding run m using recover_step [OF st, of u "n + length us"] len
    by (simp only: Let_def prod.case) simp
qed

theorem recovery_closes_witness:
  "\<exists>b'. run_calls (map (\<lambda>t. (t, t, None)) (107 # [])) (fst (RecordFailure 7 (NewBreaker one_strike))) 0
       = (b', 0 + length ([] :: time list) + 1) \<and> state b' = StateClosed \<and> consecutiveFails b' = 0"
proof (rule recovery_closes [where c = one_strike])
  show "breaker_reachable one_strike (fst (RecordFailure 7 (NewBreaker one_strike)))"
    by (intro breaker_reachable.intros)
qed (simp_all add: one_strike_def NewBreaker_def RecordFailure_def Let_def time_Sub_def)

fun allows :: "time list \<Rightarrow> Breaker \<Rightarrow> bool list \<times> Breaker" where
  "allows [] b = ([], b)"
| "allows (t # ts) b = (let (ok, b', _) = Allow t b; (oks, b'') = allows ts b' in (ok # oks, b''))"

text \<open>
  Half-open admits every concurrent caller, not a single probe: any number of callers
  that ask before an outcome has been recorded are all allowed through.
\<close>

theorem half_open_admits_all:
  "state b = StateHalfOpen \<Longrightarrow> allows ts b = (replicate (length ts) True, b)"
  by (induction ts) (auto simp: Allow_def Breaker_State_def Let_def notify_def advanceLocked_def)

theorem half_open_admits_all_witness:
  "allows [200, 200, 200] (advanceLocked 200 (fst (RecordFailure 7 (NewBreaker one_strike))))
     = (replicate (length [200, 200, 200 :: time]) True,
        advanceLocked 200 (fst (RecordFailure 7 (NewBreaker one_strike))))"
  by (rule half_open_admits_all)
    (simp add: one_strike_def NewBreaker_def RecordFailure_def advanceLocked_def Let_def time_Sub_def)

end
