(* ===== verification/Floats.thy ===== *)
theory Floats
  imports Prelude Complex_Main
begin

text \<open>
  Go's \<open>float64\<close>: NaN, the two infinities and the finite values, which are rationals.
  Every arithmetic operation computes the exact rational result and rounds it with
  \<open>rnd64\<close>, IEEE-754 round-to-nearest, ties to even, on binary64 (53-bit significand,
  subnormals down to \<open>2 ^ -1074\<close>, overflow to infinity from \<open>2 ^ 1024\<close> on);
  the database columns hold binary32, to which \<open>float32\<close> rounds.
  The two zeros are one value: the code never divides by a zero it has not excluded.
  The comparisons \<open>f64_lt\<close> and \<open>f64_le\<close> are Go's operators (false on NaN); the
  \<open>linorder\<close> instance is the order of \<open>sort.Float64s\<close>, which puts NaN first.
\<close>

section \<open>Values\<close>

datatype f64 = NaN | NInf | Fin rat | PInf

definition math_IsNaN :: "f64 \<Rightarrow> bool" where
  "math_IsNaN x \<longleftrightarrow> x = NaN"

definition math_IsInf :: "f64 \<Rightarrow> bool" where
  "math_IsInf x \<longleftrightarrow> x = PInf \<or> x = NInf"

fun f64_lt :: "f64 \<Rightarrow> f64 \<Rightarrow> bool" where
  "f64_lt (Fin x) (Fin y) \<longleftrightarrow> x < y"
| "f64_lt (Fin x) PInf \<longleftrightarrow> True"
| "f64_lt NInf (Fin y) \<longleftrightarrow> True"
| "f64_lt NInf PInf \<longleftrightarrow> True"
| "f64_lt _ _ \<longleftrightarrow> False"

definition f64_le :: "f64 \<Rightarrow> f64 \<Rightarrow> bool" where
  "f64_le x y \<longleftrightarrow> f64_lt x y \<or> (x = y \<and> x \<noteq> NaN)"

lemma f64_le_Fin [simp]: "f64_le (Fin x) (Fin y) \<longleftrightarrow> x \<le> y"
  by (auto simp: f64_le_def)

lemma f64_le_trans: "f64_le x y \<Longrightarrow> f64_le y z \<Longrightarrow> f64_le x z"
  by (cases x; cases y; cases z) (auto simp: f64_le_def)

lemma f64_not_le: "x \<noteq> NaN \<Longrightarrow> y \<noteq> NaN \<Longrightarrow> \<not> f64_le x y \<longleftrightarrow> f64_lt y x"
  by (cases x; cases y) (auto simp: f64_le_def)

subsection \<open>The order of \<open>sort.Float64s\<close>\<close>

instantiation f64 :: linorder
begin

definition less_f64 :: "f64 \<Rightarrow> f64 \<Rightarrow> bool" where
  "less_f64 x y \<longleftrightarrow> f64_lt x y \<or> (x = NaN \<and> y \<noteq> NaN)"

definition less_eq_f64 :: "f64 \<Rightarrow> f64 \<Rightarrow> bool" where
  "less_eq_f64 x y \<longleftrightarrow> x = y \<or> f64_lt x y \<or> x = NaN"

instance
proof
  fix x y z :: f64
  show "(x < y) = (x \<le> y \<and> \<not> y \<le> x)"
    by (cases x; cases y) (auto simp: less_f64_def less_eq_f64_def)
  show "x \<le> x" by (simp add: less_eq_f64_def)
  show "x \<le> y \<Longrightarrow> y \<le> z \<Longrightarrow> x \<le> z"
    by (cases x; cases y; cases z) (auto simp: less_eq_f64_def)
  show "x \<le> y \<Longrightarrow> y \<le> x \<Longrightarrow> x = y"
    by (cases x; cases y) (auto simp: less_eq_f64_def)
  show "x \<le> y \<or> y \<le> x"
    by (cases x; cases y) (auto simp: less_eq_f64_def)
qed

end

lemma f64_order_simps [simp]:
  "Fin x \<le> Fin y \<longleftrightarrow> x \<le> y" "Fin x < Fin y \<longleftrightarrow> x < y" "NaN \<le> v" "v \<le> PInf"
  by (auto simp: less_eq_f64_def less_f64_def) (cases v; simp)

lemma f64_le_order: "f64_le x y \<longleftrightarrow> x \<le> y \<and> x \<noteq> NaN"
  by (cases x; cases y) (auto simp: f64_le_def less_eq_f64_def)

section \<open>Rounding to binary64\<close>

fun bits :: "nat \<Rightarrow> nat" where
  "bits n = (if n = 0 then 0 else Suc (bits (n div 2)))"

declare bits.simps [simp del]

lemma bits_bounds: "0 < n \<Longrightarrow> 2 ^ (bits n - 1) \<le> n \<and> n < 2 ^ bits n \<and> 0 < bits n"
proof (induction n rule: bits.induct)
  case (1 n)
  show ?case
  proof (cases "n = 1")
    case True
    then show ?thesis by (simp add: bits.simps [of "Suc 0"] bits.simps [of 0])
  next
    case False
    with "1.prems" have pos: "0 < n div 2" by simp
    with "1.IH" "1.prems"
    have ih: "2 ^ (bits (n div 2) - 1) \<le> n div 2" "n div 2 < 2 ^ bits (n div 2)" "0 < bits (n div 2)"
      by auto
    have eq: "bits n = Suc (bits (n div 2))" using "1.prems" by (simp add: bits.simps [of n])
    from ih(3) obtain m where m: "bits (n div 2) = Suc m" by (cases "bits (n div 2)") auto
    show ?thesis using ih unfolding eq m by auto
  qed
qed

definition pow2 :: "int \<Rightarrow> rat" where
  "pow2 k = (if 0 \<le> k then 2 ^ nat k else 1 / 2 ^ nat (- k))"

lemma pow2_pos [simp]: "0 < pow2 k"
  by (simp add: pow2_def)

lemma pow2_nonzero [simp]: "pow2 k \<noteq> 0"
  by (simp add: pow2_def)

lemma pow2_powi: "pow2 k = 2 powi k"
proof (cases "0 \<le> k")
  case True
  then show ?thesis by (simp add: pow2_def power_int_def)
next
  case False
  then show ?thesis by (simp add: pow2_def power_int_def inverse_eq_divide power_one_over)
qed

lemma pow2_add: "pow2 (a + b) = pow2 a * pow2 b"
  by (simp add: pow2_powi power_int_add)

lemma pow2_diff: "pow2 (a - b) = pow2 a / pow2 b"
  by (simp add: pow2_powi power_int_diff)

lemma pow2_mono: "a \<le> b \<Longrightarrow> pow2 a \<le> pow2 b"
  by (simp add: pow2_powi power_int_increasing)

lemma pow2_less: "a < b \<Longrightarrow> pow2 a < pow2 b"
  by (simp add: pow2_powi power_int_strict_increasing)

lemma pow2_less_iff: "pow2 a < pow2 b \<longleftrightarrow> a < b"
  using pow2_less [of a b] pow2_mono [of b a] by (meson leD leI)

lemma pow2_of_nat: "pow2 (int n) = 2 ^ n"
  by (simp add: pow2_def)

text \<open>The binary exponent of a positive rational: \<open>pow2 (ilog2 q) \<le> q < pow2 (ilog2 q + 1)\<close>.\<close>

definition ilog2 :: "rat \<Rightarrow> int" where
  "ilog2 q = (case quotient_of q of (n, d) \<Rightarrow>
     (let k = int (bits (nat n)) - int (bits (nat d)) in if pow2 k \<le> q then k else k - 1))"

lemma ilog2_bounds:
  assumes "0 < q"
  shows "pow2 (ilog2 q) \<le> q \<and> q < pow2 (ilog2 q + 1)"
proof -
  obtain n d where nd: "quotient_of q = (n, d)" by (cases "quotient_of q")
  have d: "0 < d" using quotient_of_denom_pos [OF nd] .
  have q: "q = of_int n / of_int d" using quotient_of_div [OF nd] .
  with d assms have n: "0 < n" by (simp add: zero_less_divide_iff)
  let ?bn = "bits (nat n)" and ?bd = "bits (nat d)"
  from bits_bounds [of "nat n"] n
  have bn: "2 ^ (?bn - 1) \<le> nat n" "nat n < 2 ^ ?bn" "0 < ?bn" by auto
  from bits_bounds [of "nat d"] d
  have bd: "2 ^ (?bd - 1) \<le> nat d" "nat d < 2 ^ ?bd" "0 < ?bd" by auto
  define k where "k = int ?bn - int ?bd"
  have up_n: "(of_int n :: rat) < 2 ^ ?bn"
    using bn(2) n by (metis of_int_less_iff of_int_numeral of_int_power of_nat_less_numeral_power_cancel_iff zless_nat_conj nat_less_numeral_power_cancel_iff)
  have lo_n: "(2 :: rat) ^ (?bn - 1) \<le> of_int n"
    using bn(1) n by (metis of_int_le_iff of_int_numeral of_int_power numeral_power_le_nat_cancel_iff)
  have up_d: "(of_int d :: rat) < 2 ^ ?bd"
    using bd(2) d by (metis of_int_less_iff of_int_numeral of_int_power nat_less_numeral_power_cancel_iff)
  have lo_d: "(2 :: rat) ^ (?bd - 1) \<le> of_int d"
    using bd(1) d by (metis of_int_le_iff of_int_numeral of_int_power numeral_power_le_nat_cancel_iff)
  have "q < 2 ^ ?bn / 2 ^ (?bd - 1)"
    unfolding q using up_n lo_d d n by (intro frac_less) auto
  also have "\<dots> = pow2 (k + 1)"
    using bd(3) by (simp add: k_def pow2_of_nat [symmetric] pow2_diff [symmetric] of_nat_diff algebra_simps)
  finally have hi: "q < pow2 (k + 1)" .
  have "pow2 (k - 1) = 2 ^ (?bn - 1) / 2 ^ ?bd"
    using bn(3) by (simp add: k_def pow2_of_nat [symmetric] pow2_diff [symmetric] of_nat_diff algebra_simps)
  also have "\<dots> \<le> q"
    unfolding q using lo_n up_d d n by (intro frac_le) auto
  finally have lo: "pow2 (k - 1) \<le> q" .
  show ?thesis
    using hi lo by (auto simp: ilog2_def nd Let_def k_def [symmetric])
qed

lemma ilog2_mono: "0 < p \<Longrightarrow> p \<le> q \<Longrightarrow> ilog2 p \<le> ilog2 q"
proof -
  assume "0 < p" "p \<le> q"
  then have "pow2 (ilog2 p) < pow2 (ilog2 q + 1)"
    using ilog2_bounds [of p] ilog2_bounds [of q] by auto
  then show ?thesis by (simp add: pow2_less_iff)
qed

text \<open>
  A binary format: the number of stored significand bits, the exponent of the smallest
  subnormal, and the exponent from which values overflow.  \<open>ulp_exp\<close> is the exponent of
  the spacing of its values around \<open>q\<close>; rounding goes to the nearest multiple of it.
\<close>

record fmt =
  frac_bits :: nat
  min_exp :: int
  max_exp :: nat

definition binary64 :: fmt where
  "binary64 = \<lparr>frac_bits = 52, min_exp = - 1074, max_exp = 1024\<rparr>"

definition binary32 :: fmt where
  "binary32 = \<lparr>frac_bits = 23, min_exp = - 149, max_exp = 128\<rparr>"

definition ulp_exp :: "fmt \<Rightarrow> rat \<Rightarrow> int" where
  "ulp_exp F q = max (ilog2 q - int (frac_bits F)) (min_exp F)"

definition round_even :: "rat \<Rightarrow> int" where
  "round_even x = (let f = \<lfloor>x\<rfloor>; r = x - of_int f in
     if r < 1 / 2 then f else if 1 / 2 < r then f + 1 else if even f then f else f + 1)"

definition rne_pos :: "fmt \<Rightarrow> rat \<Rightarrow> rat" where
  "rne_pos F q = of_int (round_even (q / pow2 (ulp_exp F q))) * pow2 (ulp_exp F q)"

definition rnd_fmt :: "fmt \<Rightarrow> rat \<Rightarrow> f64" where
  "rnd_fmt F q =
     (if q = 0 then Fin 0
      else if 0 < q then (let v = rne_pos F q in if 2 ^ max_exp F \<le> v then PInf else Fin v)
      else (let v = rne_pos F (- q) in if 2 ^ max_exp F \<le> v then NInf else Fin (- v)))"

abbreviation rnd64 :: "rat \<Rightarrow> f64" where
  "rnd64 \<equiv> rnd_fmt binary64"

lemma round_even_of_int [simp]: "round_even (of_int n) = n"
  by (simp add: round_even_def)

lemma round_even_range: "\<lfloor>x\<rfloor> \<le> round_even x \<and> round_even x \<le> \<lfloor>x\<rfloor> + 1"
  by (simp add: round_even_def Let_def)

lemma round_even_mono: "x \<le> y \<Longrightarrow> round_even x \<le> round_even y"
proof (cases "\<lfloor>x\<rfloor> = \<lfloor>y\<rfloor>")
  case True
  assume "x \<le> y"
  with True show ?thesis by (auto simp: round_even_def Let_def)
next
  case False
  assume "x \<le> y"
  with False have "\<lfloor>x\<rfloor> + 1 \<le> \<lfloor>y\<rfloor>" using floor_mono [of x y] by simp
  with round_even_range [of x] round_even_range [of y] show ?thesis by linarith
qed

lemma rne_pos_nonneg: "0 \<le> q \<Longrightarrow> 0 \<le> rne_pos F q"
proof -
  assume "0 \<le> q"
  then have "(of_int 0 :: rat) \<le> q / pow2 (ulp_exp F q)" by (simp add: divide_nonneg_pos)
  from round_even_mono [OF this] have "0 \<le> round_even (q / pow2 (ulp_exp F q))"
    by (simp only: round_even_of_int)
  then show ?thesis by (simp add: rne_pos_def less_imp_le)
qed

lemma rne_pos_mono:
  assumes "0 < p" "p \<le> q"
  shows "rne_pos F p \<le> rne_pos F q"
proof (cases "ulp_exp F p = ulp_exp F q")
  case True
  have "p / pow2 (ulp_exp F q) \<le> q / pow2 (ulp_exp F q)"
    using assms by (intro divide_right_mono) (auto intro: less_imp_le)
  from round_even_mono [OF this] True show ?thesis
    by (auto simp: rne_pos_def intro!: mult_right_mono less_imp_le)
next
  case False
  let ?e = "ulp_exp F p" and ?f = "ulp_exp F q" and ?B = "pow2 (ilog2 q)"
  from assms have "ilog2 p \<le> ilog2 q" by (rule ilog2_mono)
  with False have f: "?f = ilog2 q - int (frac_bits F)" and e: "?e < ?f" and less: "ilog2 p + 1 \<le> ilog2 q"
    by (auto simp: ulp_exp_def max_def split: if_splits)
  have p: "p \<le> ?B"
    using ilog2_bounds [OF assms(1)] pow2_mono [OF less] by linarith
  have q: "?B \<le> q" using ilog2_bounds [of q] assms by auto
  have "?B / pow2 ?e = pow2 (int (nat (ilog2 q - ?e)))"
    using e f by (simp add: pow2_diff)
  then have Be: "?B / pow2 ?e = of_int (2 ^ nat (ilog2 q - ?e))"
    by (simp only: pow2_of_nat of_int_power of_int_numeral)
  have "p / pow2 ?e \<le> ?B / pow2 ?e"
    using p by (intro divide_right_mono) (auto intro: less_imp_le)
  from round_even_mono [OF this] have "round_even (p / pow2 ?e) \<le> 2 ^ nat (ilog2 q - ?e)"
    unfolding Be by (simp only: round_even_of_int)
  then have "(of_int (round_even (p / pow2 ?e)) :: rat) \<le> ?B / pow2 ?e"
    unfolding Be by (simp only: of_int_le_iff)
  then have lo: "rne_pos F p \<le> ?B" by (simp add: rne_pos_def pos_le_divide_eq)
  have "?B / pow2 ?f = pow2 (int (frac_bits F))"
    by (simp add: pow2_diff [symmetric] f)
  then have Bf: "?B / pow2 ?f = of_int (2 ^ frac_bits F)"
    by (simp only: pow2_of_nat of_int_power of_int_numeral)
  have "?B / pow2 ?f \<le> q / pow2 ?f"
    using q by (intro divide_right_mono) (auto intro: less_imp_le)
  from round_even_mono [OF this] have "2 ^ frac_bits F \<le> round_even (q / pow2 ?f)"
    unfolding Bf by (simp only: round_even_of_int)
  then have "?B / pow2 ?f \<le> (of_int (round_even (q / pow2 ?f)) :: rat)"
    unfolding Bf by (simp only: of_int_le_iff)
  then have "?B \<le> rne_pos F q" by (simp add: rne_pos_def pos_divide_le_eq)
  with lo show ?thesis by linarith
qed

text \<open>A positive value that rounds to itself still does when doubled.\<close>

lemma ilog2_unique: "pow2 k \<le> q \<Longrightarrow> q < pow2 (k + 1) \<Longrightarrow> ilog2 q = k"
proof -
  assume a: "pow2 k \<le> q" "q < pow2 (k + 1)"
  then have "0 < q" using pow2_pos [of k] by linarith
  from ilog2_bounds [OF this] a have "pow2 (ilog2 q) < pow2 (k + 1)" "pow2 k < pow2 (ilog2 q + 1)"
    by linarith+
  then show ?thesis by (simp add: pow2_less_iff)
qed

lemma pow2_Suc: "pow2 (k + 1) = 2 * pow2 k"
  by (simp add: pow2_powi power_int_add)

lemma ilog2_double: "0 < q \<Longrightarrow> ilog2 (2 * q) = ilog2 q + 1"
  using ilog2_bounds [of q] pow2_Suc [of "ilog2 q"] pow2_Suc [of "ilog2 q + 1"]
  by (intro ilog2_unique) linarith+

lemma rne_pos_double:
  assumes "0 < q" "rne_pos F q = q"
  shows "rne_pos F (2 * q) = 2 * q"
proof -
  define k where "k = round_even (q / pow2 (ulp_exp F q))"
  have q: "q = of_int k * pow2 (ulp_exp F q)"
    using assms(2) by (simp add: rne_pos_def k_def)
  from ilog2_double [OF assms(1)]
  consider "ulp_exp F (2 * q) = ulp_exp F q" | "ulp_exp F (2 * q) = ulp_exp F q + 1"
    unfolding ulp_exp_def by linarith
  then show ?thesis
  proof cases
    case 1
    have "2 * q / pow2 (ulp_exp F q) = of_int (2 * k)" by (subst q) simp
    then have "rne_pos F (2 * q) = of_int (2 * k) * pow2 (ulp_exp F q)"
      unfolding rne_pos_def 1 by (simp only: round_even_of_int)
    then show ?thesis using q by simp
  next
    case 2
    have "2 * q / pow2 (ulp_exp F q + 1) = of_int k"
      by (subst q) (simp add: pow2_Suc)
    then have "rne_pos F (2 * q) = of_int k * pow2 (ulp_exp F q + 1)"
      unfolding rne_pos_def 2 by (simp only: round_even_of_int)
    then show ?thesis using q by (simp add: pow2_Suc)
  qed
qed

subsection \<open>What the rounding function promises\<close>

text \<open>
  The client side of rounding: what the statistics rely on is that it fixes zero, is
  monotone, is odd and never makes a NaN of a rational.
\<close>

definition f64_neg :: "f64 \<Rightarrow> f64" where
  "f64_neg x = (case x of NaN \<Rightarrow> NaN | NInf \<Rightarrow> PInf | PInf \<Rightarrow> NInf | Fin q \<Rightarrow> Fin (- q))"

locale rounding =
  fixes rnd :: "rat \<Rightarrow> f64" and top :: rat
  assumes rnd_0: "rnd 0 = Fin 0"
    and rnd_mono: "x \<le> y \<Longrightarrow> rnd x \<le> rnd y"
    and rnd_odd: "rnd (- x) = f64_neg (rnd x)"
    and rnd_not_NaN: "rnd x \<noteq> NaN"
    and rnd_double: "rnd x = Fin x \<Longrightarrow> \<bar>2 * x\<bar> < top \<Longrightarrow> rnd (2 * x) = Fin (2 * x)"
begin

lemma rnd_nonneg: "0 \<le> x \<Longrightarrow> Fin 0 \<le> rnd x"
  using rnd_mono [of 0 x] by (simp add: rnd_0)

lemma rnd_nonpos: "x \<le> 0 \<Longrightarrow> rnd x \<le> Fin 0"
  using rnd_mono [of x 0] by (simp add: rnd_0)

lemma rnd_le_exact: "x \<le> y \<Longrightarrow> rnd y = Fin y \<Longrightarrow> rnd x \<le> Fin y"
  using rnd_mono [of x y] by simp

lemma rnd_ge_exact: "y \<le> x \<Longrightarrow> rnd y = Fin y \<Longrightarrow> Fin y \<le> rnd x"
  using rnd_mono [of y x] by simp

text \<open>The midpoint of two values between exact bounds is between them, both roundings included.\<close>

lemma rnd_mid_between:
  assumes "rnd lo = Fin lo" "rnd hi = Fin hi" "\<bar>2 * lo\<bar> < top" "\<bar>2 * hi\<bar> < top"
    and "lo \<le> a" "lo \<le> b" "a \<le> hi" "b \<le> hi"
  shows "\<exists>s. rnd (a + b) = Fin s \<and> Fin lo \<le> rnd (s / 2) \<and> rnd (s / 2) \<le> Fin hi"
proof -
  have l: "Fin (2 * lo) \<le> rnd (a + b)"
    using rnd_mono [of "2 * lo" "a + b"] rnd_double [OF assms(1,3)] assms by auto
  have h: "rnd (a + b) \<le> Fin (2 * hi)"
    using rnd_mono [of "a + b" "2 * hi"] rnd_double [OF assms(2,4)] assms by auto
  from l h obtain s where s: "rnd (a + b) = Fin s" "2 * lo \<le> s" "s \<le> 2 * hi"
    using rnd_not_NaN [of "a + b"] by (cases "rnd (a + b)") (auto simp: less_eq_f64_def)
  then have "Fin lo \<le> rnd (s / 2)" "rnd (s / 2) \<le> Fin hi"
    using rnd_mono [of lo "s / 2"] rnd_mono [of "s / 2" hi] assms(1,2) by auto
  with s show ?thesis by blast
qed

end

lemma rne_pos_0: "rne_pos F 0 = 0"
  using round_even_of_int [of 0] by (simp add: rne_pos_def)

lemma rnd_fmt_pos_mono: "0 \<le> x \<Longrightarrow> x \<le> y \<Longrightarrow> rnd_fmt F x \<le> rnd_fmt F y"
  using rne_pos_mono [of x y F] rne_pos_nonneg [of y F]
  by (cases "x = 0") (auto simp: rnd_fmt_def Let_def)

lemma rnd_fmt_odd: "rnd_fmt F (- x) = f64_neg (rnd_fmt F x)"
  by (auto simp: rnd_fmt_def Let_def f64_neg_def)

lemma f64_neg_mono: "x \<noteq> NaN \<Longrightarrow> y \<noteq> NaN \<Longrightarrow> x \<le> y \<Longrightarrow> f64_neg y \<le> f64_neg x"
  by (cases x; cases y) (auto simp: f64_neg_def less_eq_f64_def)

lemma rnd_fmt_not_NaN: "rnd_fmt F x \<noteq> NaN"
  by (simp add: rnd_fmt_def Let_def)

lemma rnd_fmt_0 [simp]: "rnd_fmt F 0 = Fin 0"
  by (simp add: rnd_fmt_def)

lemma rnd_fmt_mono: "x \<le> y \<Longrightarrow> rnd_fmt F x \<le> rnd_fmt F y"
proof -
  assume le: "x \<le> y"
  consider "0 \<le> x" | "y \<le> 0" | "x \<le> 0" "0 \<le> y" by linarith
  then show ?thesis
  proof cases
    case 1
    with le show ?thesis by (simp add: rnd_fmt_pos_mono)
  next
    case 2
    with le have "rnd_fmt F (- y) \<le> rnd_fmt F (- x)" by (simp add: rnd_fmt_pos_mono)
    then have "f64_neg (rnd_fmt F (- x)) \<le> f64_neg (rnd_fmt F (- y))"
      by (simp add: f64_neg_mono rnd_fmt_not_NaN)
    then show ?thesis using rnd_fmt_odd [of _ "- x"] rnd_fmt_odd [of _ "- y"] by simp
  next
    case 3
    have "rnd_fmt F 0 \<le> rnd_fmt F y" using 3 by (intro rnd_fmt_pos_mono) auto
    moreover have "rnd_fmt F 0 \<le> rnd_fmt F (- x)" using 3 by (intro rnd_fmt_pos_mono) auto
    then have "rnd_fmt F x \<le> rnd_fmt F 0"
      using f64_neg_mono [of "rnd_fmt F 0" "rnd_fmt F (- x)"] rnd_fmt_odd [of _ "- x"]
      by (simp add: rnd_fmt_not_NaN f64_neg_def)
    ultimately show ?thesis by (meson order_trans)
  qed
qed

lemma rnd_fmt_double_pos:
  "0 < x \<Longrightarrow> rnd_fmt F x = Fin x \<Longrightarrow> 2 * x < 2 ^ max_exp F \<Longrightarrow> rnd_fmt F (2 * x) = Fin (2 * x)"
  using rne_pos_double [of x] by (auto simp: rnd_fmt_def Let_def split: if_splits)

lemma rnd_fmt_double:
  assumes "rnd_fmt F x = Fin x" "\<bar>2 * x\<bar> < 2 ^ max_exp F"
  shows "rnd_fmt F (2 * x) = Fin (2 * x)"
proof -
  consider "x = 0" | "0 < x" | "0 < - x" by linarith
  then show ?thesis
  proof cases
    case 3
    have "rnd_fmt F (- x) = Fin (- x)" using assms(1) rnd_fmt_odd [of _ x] by (simp add: f64_neg_def)
    from rnd_fmt_double_pos [OF 3 this] assms(2) have "rnd_fmt F (2 * - x) = Fin (2 * - x)" by linarith
    then show ?thesis using rnd_fmt_odd [of _ "2 * x"] by (auto simp: f64_neg_def split: f64.splits)
  qed (use assms rnd_fmt_double_pos [of x] in auto)
qed

lemma rounding_fmt: "rounding (rnd_fmt F) (2 ^ max_exp F)"
  by unfold_locales
    (simp_all only: rnd_fmt_0 rnd_fmt_mono rnd_fmt_odd rnd_fmt_not_NaN rnd_fmt_double not_False_eq_True)

interpretation rnd: rounding "rnd_fmt binary64" "2 ^ max_exp binary64"
  by (rule rounding_fmt)

interpretation rnd32: rounding "rnd_fmt binary32" "2 ^ max_exp binary32"
  by (rule rounding_fmt)

text \<open>An integer of at most \<open>frac_bits + 1\<close> bits is a value of the format.\<close>

lemma rnd_fmt_of_nat:
  assumes "0 < m" "m < 2 ^ Suc (frac_bits F)" "min_exp F \<le> 0" "frac_bits F < max_exp F"
  shows "rnd_fmt F (of_nat m) = Fin (of_nat m)"
proof -
  let ?q = "of_nat m :: rat" and ?e = "ulp_exp F (of_nat m)"
  have "?q < pow2 (int (Suc (frac_bits F)))"
    unfolding pow2_of_nat using assms(2) by (metis of_nat_less_iff of_nat_numeral of_nat_power)
  with ilog2_bounds [of ?q] assms(1) have "pow2 (ilog2 ?q) < pow2 (int (Suc (frac_bits F)))" by auto
  then have "ilog2 ?q \<le> int (frac_bits F)" by (simp add: pow2_less_iff)
  then have e: "?e \<le> 0" using assms(3) by (simp add: ulp_exp_def)
  then have "1 / pow2 ?e = 2 ^ nat (- ?e)" by (auto simp: pow2_def)
  then have "?q / pow2 ?e = of_int (int m * 2 ^ nat (- ?e))" by (simp add: divide_inverse)
  then have v: "rne_pos F ?q = ?q"
    unfolding rne_pos_def by (simp only: round_even_of_int) (simp add: e pow2_def)
  have "?q < 2 ^ Suc (frac_bits F)" using assms(2) by (metis of_nat_less_iff of_nat_numeral of_nat_power)
  also have "(2 :: rat) ^ Suc (frac_bits F) \<le> 2 ^ max_exp F"
    using assms(4) by (intro power_increasing) auto
  finally show ?thesis using v assms(1) by (simp add: rnd_fmt_def Let_def)
qed

lemma rnd_fmt_numeral:
  assumes "(numeral k :: nat) < 2 ^ Suc (frac_bits F)" "min_exp F \<le> 0" "frac_bits F < max_exp F"
  shows "rnd_fmt F (numeral k) = Fin (numeral k)" "rnd_fmt F (- numeral k) = Fin (- numeral k)"
  using rnd_fmt_of_nat [of "numeral k" F] assms rnd_fmt_odd [of F "numeral k"]
  by (simp_all add: f64_neg_def)

lemma rnd64_1: "rnd64 1 = Fin 1"
proof -
  have "ilog2 1 = 0" by (rule ilog2_unique) (simp_all add: pow2_def)
  then have "ulp_exp binary64 1 = - 52" by (simp add: ulp_exp_def binary64_def)
  moreover have "(1 :: rat) / pow2 (- 52) = of_int (2 ^ 52)" by (simp add: pow2_def)
  ultimately have "rne_pos binary64 1 = of_int (2 ^ 52) * pow2 (- 52)"
    unfolding rne_pos_def by (simp only: round_even_of_int)
  then have "rne_pos binary64 1 = 1" by (simp add: pow2_def)
  then show ?thesis by (simp add: rnd_fmt_def binary64_def)
qed

text \<open>Powers of two, and with monotonicity everything between them, stay finite.\<close>

lemma rnd64_double: "rnd64 x = Fin x \<Longrightarrow> \<bar>2 * x\<bar> < 2 ^ 1000 \<Longrightarrow> rnd64 (2 * x) = Fin (2 * x)"
proof -
  assume "rnd64 x = Fin x" "\<bar>2 * x\<bar> < 2 ^ 1000"
  moreover have "(2 :: rat) ^ 1000 \<le> 2 ^ 1024" by (rule power_increasing) simp_all
  ultimately show ?thesis by (intro rnd.rnd_double) (auto simp: binary64_def)
qed

lemma rnd64_8: "rnd64 8 = Fin 8"
  using rnd64_double [of 1] rnd64_double [of 2] rnd64_double [of 4] rnd64_1 by simp

section \<open>Arithmetic\<close>

fun f64_add :: "f64 \<Rightarrow> f64 \<Rightarrow> f64" where
  "f64_add (Fin x) (Fin y) = rnd64 (x + y)"
| "f64_add NaN y = NaN"
| "f64_add x NaN = NaN"
| "f64_add PInf NInf = NaN"
| "f64_add NInf PInf = NaN"
| "f64_add PInf y = PInf"
| "f64_add NInf y = NInf"
| "f64_add x y = y"

definition f64_sub :: "f64 \<Rightarrow> f64 \<Rightarrow> f64" where
  "f64_sub x y = f64_add x (f64_neg y)"

definition f64_sgn :: "f64 \<Rightarrow> int" where
  "f64_sgn x = (case x of NaN \<Rightarrow> 0 | NInf \<Rightarrow> - 1 | PInf \<Rightarrow> 1 | Fin q \<Rightarrow> \<lfloor>sgn q\<rfloor>)"

definition f64_mul :: "f64 \<Rightarrow> f64 \<Rightarrow> f64" where
  "f64_mul x y = (case (x, y) of
       (Fin a, Fin b) \<Rightarrow> rnd64 (a * b)
     | _ \<Rightarrow> (let s = f64_sgn x * f64_sgn y in
         if x = NaN \<or> y = NaN \<or> s = 0 then NaN else if 0 < s then PInf else NInf))"

text \<open>The divisor zero is read as the positive zero.\<close>

definition f64_div :: "f64 \<Rightarrow> f64 \<Rightarrow> f64" where
  "f64_div x y = (case (x, y) of
       (NaN, _) \<Rightarrow> NaN
     | (_, NaN) \<Rightarrow> NaN
     | (Fin a, Fin b) \<Rightarrow>
         if b = 0 then (if a = 0 then NaN else if 0 < a then PInf else NInf) else rnd64 (a / b)
     | (Fin a, _) \<Rightarrow> Fin 0
     | (_, Fin b) \<Rightarrow> (if b < 0 then f64_neg x else x)
     | _ \<Rightarrow> NaN)"

definition math_Abs :: "f64 \<Rightarrow> f64" where
  "math_Abs x = (case x of NaN \<Rightarrow> NaN | NInf \<Rightarrow> PInf | PInf \<Rightarrow> PInf | Fin q \<Rightarrow> Fin \<bar>q\<bar>)"

text \<open>Go's conversion of an integer, and an untyped decimal constant used as a \<open>float64\<close>.\<close>

definition float64 :: "int \<Rightarrow> f64" where
  "float64 i = rnd64 (of_int i)"

text \<open>\<open>float32(x)\<close>, read back as a \<open>float64\<close>: every \<open>float32\<close> is one.\<close>

definition float32 :: "f64 \<Rightarrow> f64" where
  "float32 x = (case x of Fin q \<Rightarrow> rnd_fmt binary32 q | _ \<Rightarrow> x)"

lemma float32_neg: "float32 (f64_neg x) = f64_neg (float32 x)"
  by (cases x) (simp_all add: float32_def f64_neg_def rnd_fmt_odd)

lemma f64_NInf_le: "v \<noteq> NaN \<Longrightarrow> NInf \<le> v"
  by (cases v) (simp_all add: less_eq_f64_def)

lemma float32_mono: "x \<le> y \<Longrightarrow> float32 x \<le> float32 y"
  by (cases x; cases y)
    (simp_all add: float32_def f64_NInf_le rnd_fmt_not_NaN rnd_fmt_mono, simp_all add: less_eq_f64_def)

lemma f64_neg_neg [simp]: "f64_neg (f64_neg x) = x"
  by (cases x) (simp_all add: f64_neg_def)

lemma math_Abs_neg [simp]: "math_Abs (f64_neg x) = math_Abs x"
  by (cases x) (simp_all add: f64_neg_def math_Abs_def)

lemma f64_sub_Fin [simp]: "f64_sub (Fin x) (Fin y) = rnd64 (x - y)"
  by (simp add: f64_sub_def f64_neg_def)

lemma f64_sub_swap: "f64_sub (Fin y) (Fin x) = f64_neg (f64_sub (Fin x) (Fin y))"
  using rnd_fmt_odd [of _ "x - y"] by simp

lemma f64_mul_Fin [simp]: "f64_mul (Fin x) (Fin y) = rnd64 (x * y)"
  by (simp add: f64_mul_def)

lemma f64_div_Fin [simp]: "y \<noteq> 0 \<Longrightarrow> f64_div (Fin x) (Fin y) = rnd64 (x / y)"
  by (simp add: f64_div_def)

lemma f64_sub_sign:
  "x \<le> y \<Longrightarrow> f64_sub (Fin x) (Fin y) \<le> Fin 0"
  "y \<le> x \<Longrightarrow> Fin 0 \<le> f64_sub (Fin x) (Fin y)"
  by (simp_all add: rnd.rnd_nonpos rnd.rnd_nonneg)

end
