(* ===== verification/Events.thy ===== *)
theory Events
  imports Errors Floats
begin

text \<open>
  internal/events: the envelope that wraps every Kafka message, its validation, the causal
  chain that \<open>Derive\<close> builds, the natural keys, and the payload types.  Bytes are a
  \<open>string\<close>; the JSON codec is a parameter of the definitions that encode or decode, and so
  are the random id of a new envelope and SHA-256.
\<close>

section \<open>The envelope\<close>

definition TopicPitchRaw :: string where "TopicPitchRaw = ''pitchlab.pitch.raw.v1''"
definition TopicPitchAnalyzed :: string where "TopicPitchAnalyzed = ''pitchlab.pitch.analyzed.v1''"
definition TopicAnomaly :: string where "TopicAnomaly = ''pitchlab.anomaly.detected.v1''"
definition TopicPitchRawDLQ :: string where "TopicPitchRawDLQ = TopicPitchRaw @ ''.dlq''"
definition TopicPitchAnalyzedDLQ :: string where "TopicPitchAnalyzedDLQ = TopicPitchAnalyzed @ ''.dlq''"

definition TypePitchRaw :: string where "TypePitchRaw = ''pitchlab.pitch.raw''"
definition TypePitchAnalyzed :: string where "TypePitchAnalyzed = ''pitchlab.pitch.analyzed''"
definition TypeAnomaly :: string where "TypeAnomaly = ''pitchlab.anomaly.detected''"

definition SchemaVersion :: int where "SchemaVersion = 1"

record Envelope =
  EventID :: uuid
  EventType :: string
  env_SchemaVersion :: int
  OccurredAt :: time
  ProducedAt :: time
  Producer :: string
  CorrelationID :: uuid
  CausationID :: "uuid option"
  IdempotencyKey :: string
  PartitionKey :: string
  Synthetic :: bool
  Data :: string

definition ErrMissingEventID :: goerr where
  "ErrMissingEventID = ErrorsNew ''events.ErrMissingEventID'' ''event_id is required''"
definition ErrMissingEventType :: goerr where
  "ErrMissingEventType = ErrorsNew ''events.ErrMissingEventType'' ''event_type is required''"
definition ErrMissingCorrelationID :: goerr where
  "ErrMissingCorrelationID = ErrorsNew ''events.ErrMissingCorrelationID'' ''correlation_id is required''"
definition ErrMissingIdempotency :: goerr where
  "ErrMissingIdempotency = ErrorsNew ''events.ErrMissingIdempotency'' ''idempotency_key is required''"
definition ErrMissingPartitionKey :: goerr where
  "ErrMissingPartitionKey = ErrorsNew ''events.ErrMissingPartitionKey'' ''partition_key is required''"
definition ErrMissingOccurredAt :: goerr where
  "ErrMissingOccurredAt = ErrorsNew ''events.ErrMissingOccurredAt'' ''occurred_at is required''"
definition ErrEmptyData :: goerr where
  "ErrEmptyData = ErrorsNew ''events.ErrEmptyData'' ''data is required''"

lemmas envelope_error_defs =
  ErrMissingEventID_def ErrMissingEventType_def ErrMissingCorrelationID_def
  ErrMissingIdempotency_def ErrMissingPartitionKey_def ErrMissingOccurredAt_def ErrEmptyData_def

definition Validate :: "Envelope \<Rightarrow> error" where
  "Validate e =
     (if EventID e = uuid_Nil then Some ErrMissingEventID
      else if EventType e = '''' then Some ErrMissingEventType
      else if CorrelationID e = uuid_Nil then Some ErrMissingCorrelationID
      else if IdempotencyKey e = '''' then Some ErrMissingIdempotency
      else if PartitionKey e = '''' then Some ErrMissingPartitionKey
      else if IsZero (OccurredAt e) then Some ErrMissingOccurredAt
      else if length (Data e) = 0 then Some ErrEmptyData
      else if env_SchemaVersion e \<noteq> SchemaVersion
        then Some (UnsupportedSchema (env_SchemaVersion e) SchemaVersion)
      else None)"

text \<open>\<open>payload\<close> is what \<open>json.Marshal\<close> returns, \<open>newID\<close> what \<open>uuid.NewV7\<close> returns.\<close>

definition NewEnvelope ::
  "string \<Rightarrow> string \<Rightarrow> string \<Rightarrow> string \<Rightarrow> time \<Rightarrow> lib_error + string \<Rightarrow> lib_error + uuid \<Rightarrow> time
   \<Rightarrow> goerr + Envelope" where
  "NewEnvelope eventType producer idempotencyKey partitionKey occurredAt payload newID now =
     (case payload of
        Inl err \<Rightarrow> Inl (Wrap ''encode payload: '' (lib err) '''')
      | Inr data \<Rightarrow> (case newID of
          Inl err \<Rightarrow> Inl (Wrap ''generate event id: '' (lib err) '''')
        | Inr i \<Rightarrow> Inr \<lparr>EventID = i, EventType = eventType, env_SchemaVersion = SchemaVersion,
            OccurredAt = occurredAt, ProducedAt = now, Producer = producer, CorrelationID = i,
            CausationID = None, IdempotencyKey = idempotencyKey, PartitionKey = partitionKey,
            Synthetic = False, Data = data\<rparr>))"

definition Derive ::
  "Envelope \<Rightarrow> string \<Rightarrow> string \<Rightarrow> string \<Rightarrow> string \<Rightarrow> lib_error + string \<Rightarrow> lib_error + uuid \<Rightarrow> time
   \<Rightarrow> goerr + Envelope" where
  "Derive e eventType producer idempotencyKey partitionKey payload newID now =
     (case NewEnvelope eventType producer idempotencyKey partitionKey (OccurredAt e) payload newID now of
        Inl err \<Rightarrow> Inl err
      | Inr out \<Rightarrow> Inr (out\<lparr>CorrelationID := CorrelationID e, CausationID := Some (EventID e),
                           Synthetic := Synthetic e\<rparr>))"

definition Unmarshal :: "(string \<Rightarrow> lib_error + 'p) \<Rightarrow> Envelope \<Rightarrow> goerr + 'p" where
  "Unmarshal json_Unmarshal e = (case json_Unmarshal (Data e) of
       Inl err \<Rightarrow> Inl (Wrap (''decode '' @ EventType e @ '' payload: '') (lib err) '''')
     | Inr p \<Rightarrow> Inr p)"

definition Parse :: "(string \<Rightarrow> lib_error + Envelope) \<Rightarrow> string \<Rightarrow> goerr + Envelope" where
  "Parse json_Unmarshal raw = (case json_Unmarshal raw of
       Inl err \<Rightarrow> Inl (Wrap ''decode envelope: '' (lib err) '''')
     | Inr env \<Rightarrow> (case Validate env of None \<Rightarrow> Inr env | Some err \<Rightarrow> Inl err))"

definition Lag :: "Envelope \<Rightarrow> duration" where
  "Lag e = time_Sub (ProducedAt e) (OccurredAt e)"

section \<open>Natural keys\<close>

definition IdempotencyKeyFor :: "(string \<Rightarrow> string) \<Rightarrow> string list \<Rightarrow> string" where
  "IdempotencyKeyFor sha256_hex parts = ''sha256:'' @ sha256_hex (join_with ''|'' parts)"

definition PitchUID :: "string \<Rightarrow> int \<Rightarrow> int \<Rightarrow> string" where
  "PitchUID gameRef atBat pitchNumber =
     gameRef @ '':'' @ show_int atBat @ '':'' @ show_int pitchNumber"

definition SessionUID :: "string \<Rightarrow> int \<Rightarrow> string" where
  "SessionUID gameRef pitcherMLBAMID = gameRef @ '':'' @ show_int pitcherMLBAMID"

section \<open>Payloads\<close>

record SessionRef =
  SessionRef_SessionUID :: string
  PitcherMLBAMID :: int
  PitcherName :: string
  SessionRef_PThrows :: string
  OpponentTeam :: string

record BatterRef =
  MLBAMID :: int
  Name :: string
  BatterRef_Stand :: string

record PitchContext =
  Balls :: int
  Strikes :: int
  OutsWhenUp :: int
  Inning :: int
  InningTopBot :: string
  On1B :: bool
  On2B :: bool
  On3B :: bool
  BatScore :: "int option"
  FldScore :: "int option"
  NThruOrderPitcher :: "int option"

record RawMeasurement =
  PitchType :: string
  PitchName :: string
  ReleaseSpeed :: "f64 option"
  ReleaseSpinRate :: "f64 option"
  SpinAxis :: "f64 option"
  ReleasePosX :: "f64 option"
  ReleasePosY :: "f64 option"
  ReleasePosZ :: "f64 option"
  ReleaseExtension :: "f64 option"
  PfxX :: "f64 option"
  PfxZ :: "f64 option"
  PlateX :: "f64 option"
  PlateZ :: "f64 option"
  SzTop :: "f64 option"
  SzBot :: "f64 option"
  EffectiveSpeed :: "f64 option"
  ArmAngle :: "f64 option"

record GroundTruth =
  Outcome :: string

record PitchRaw =
  raw_DeviceID :: string
  raw_DeviceKind :: string
  ExternalGameRef :: string
  AtBatNumber :: int
  PitchNumber :: int
  ThrownAt :: time
  SourceGameDate :: string
  raw_Session :: SessionRef
  raw_Batter :: BatterRef
  raw_Context :: PitchContext
  raw_Measurement :: RawMeasurement
  raw_GroundTruth :: "GroundTruth option"

definition PitchRaw_PitchUID :: "PitchRaw \<Rightarrow> string" where
  "PitchRaw_PitchUID p = PitchUID (ExternalGameRef p) (AtBatNumber p) (PitchNumber p)"

record NormalizedMeasurement = RawMeasurement +
  PfxXArm :: "f64 option"
  ReleasePosXArm :: "f64 option"
  PlateXBat :: "f64 option"
  ZoneHeightNorm :: "f64 option"
  InZone :: "bool option"
  NormalizationVersion :: int
  MeasurementQuality :: string

record Sequence =
  seq_AtBatNumber :: int
  seq_PitchNumber :: int
  seq_SessionPitchIndex :: int

record PredictionResult =
  res_Variant :: string
  res_ModelVersion :: string
  res_Target :: string
  res_Probabilities :: "(string \<times> f64) list"
  res_PredictedClass :: string
  res_WhiffProbability :: "f64 option"
  res_ScoredQuantity :: f64
  res_Score :: f64

record PitchAnalyzed =
  an_PitchID :: uuid
  an_ExternalPitchUID :: string
  an_SessionID :: uuid
  an_PitcherAthleteID :: uuid
  an_BatterAthleteID :: "uuid option"
  an_Sequence :: Sequence
  an_ThrownAt :: time
  an_Context :: PitchContext
  an_Stand :: string
  an_PThrows :: string
  an_PitchType :: string
  an_PitchName :: string
  an_Measurement :: NormalizedMeasurement
  an_Predictions :: "PredictionResult list"
  an_ActualOutcome :: string
  an_PredictionStatus :: string
  an_IsSynthetic :: bool

record AnomalyDetected =
  ad_AnomalyID :: uuid
  ad_AthleteID :: uuid
  ad_SessionID :: uuid
  ad_Metric :: string
  ad_PitchType :: string
  ad_ObservedValue :: f64
  ad_BaselineMedian :: f64
  ad_RobustSigma :: f64
  ad_ZRobust :: f64
  ad_Direction :: string
  ad_Severity :: string
  ad_WindowSessions :: int
  ad_DetectorVersion :: string
  ad_DetectedAt :: time

section \<open>Validation\<close>

lemma Validate_None_iff:
  "Validate e = None \<longleftrightarrow>
     EventID e \<noteq> uuid_Nil \<and> EventType e \<noteq> '''' \<and> CorrelationID e \<noteq> uuid_Nil \<and>
     IdempotencyKey e \<noteq> '''' \<and> PartitionKey e \<noteq> '''' \<and> \<not> IsZero (OccurredAt e) \<and>
     Data e \<noteq> '''' \<and> env_SchemaVersion e = SchemaVersion"
  by (simp add: Validate_def)

lemma Validate_cases:
  "Validate e = Some err \<Longrightarrow>
     err \<in> {ErrMissingEventID, ErrMissingEventType, ErrMissingCorrelationID, ErrMissingIdempotency,
            ErrMissingPartitionKey, ErrMissingOccurredAt, ErrEmptyData}
     \<or> err = UnsupportedSchema (env_SchemaVersion e) SchemaVersion"
  by (auto simp: Validate_def split: if_splits)

lemma Parse_Inr_iff: "Parse dec raw = Inr env \<longleftrightarrow> dec raw = Inr env \<and> Validate env = None"
  by (auto simp: Parse_def split: sum.splits option.splits)

lemma Parse_Inl_cases:
  assumes "Parse dec raw = Inl err"
  obtains e where "dec raw = Inl e" "err = Wrap ''decode envelope: '' (lib e) ''''"
  | env where "dec raw = Inr env" "Validate env = Some err"
  using assms by (auto simp: Parse_def split: sum.splits option.splits)

lemma Derive_Inr_iff:
  "Derive e ty pr key part payload newID now = Inr out \<longleftrightarrow>
     (\<exists>d i. payload = Inr d \<and> newID = Inr i \<and>
        out = \<lparr>EventID = i, EventType = ty, env_SchemaVersion = SchemaVersion,
            OccurredAt = OccurredAt e, ProducedAt = now, Producer = pr,
            CorrelationID = CorrelationID e, CausationID = Some (EventID e),
            IdempotencyKey = key, PartitionKey = part, Synthetic = Synthetic e, Data = d\<rparr>)"
  by (auto simp: Derive_def NewEnvelope_def split: sum.splits)

text \<open>
  A chain of derivations: each event is derived from the one before it.  Correlation,
  the instant in the world and the synthetic mark never change along it.
\<close>

inductive derived :: "Envelope \<Rightarrow> Envelope \<Rightarrow> bool" where
  derived_refl: "derived e e"
| derived_step: "derived e f \<Longrightarrow> Derive f ty pr key part payload newID now = Inr g \<Longrightarrow> derived e g"

lemma derived_invariant:
  "derived e f \<Longrightarrow> CorrelationID f = CorrelationID e \<and> OccurredAt f = OccurredAt e
     \<and> Synthetic f = Synthetic e"
  by (induction rule: derived.induct) (auto simp: Derive_Inr_iff)

section \<open>Keys\<close>

lemma SessionUID_inject: "SessionUID g p = SessionUID h q \<longleftrightarrow> g = h \<and> p = q"
  using show_int_no_colon append_sep_inject [of "CHR '':''" "show_int p" "show_int q" g h]
  by (auto simp: SessionUID_def)

lemma PitchUID_inject: "PitchUID g a n = PitchUID h b m \<longleftrightarrow> g = h \<and> a = b \<and> n = m"
  using show_int_no_colon
    append_sep_inject [of "CHR '':''" "show_int n" "show_int m"
      "g @ CHR '':'' # show_int a" "h @ CHR '':'' # show_int b"]
    append_sep_inject [of "CHR '':''" "show_int a" "show_int b" g h]
  by (auto simp: PitchUID_def)

end
