(* ===== verification/MLClient.thy ===== *)
theory MLClient
  imports Breaker Events
begin

text \<open>
  internal/mlclient/client.go: the HTTP client of the inference service.  The service, the
  transport and the JSON codec are the record \<open>Backend\<close> of parameters: what encoding a
  request gives, what the transport answers (or the error it returns) and what decoding a
  body gives.  The service's own state is the type variable \<open>'s\<close>; it is touched only by
  the transport, so "the service was not called" is "its state is unchanged".
\<close>

section \<open>Requests and responses\<close>

type_synonym Variant = string

definition VariantPitching :: Variant where "VariantPitching = ''pitching''"
definition VariantStuff :: Variant where "VariantStuff = ''stuff''"

text \<open>The dynamic values the feature map of a request holds.\<close>

datatype fval = FFloat f64 | FInt int | FStr string

record PitchFeatures =
  pf_PitchID :: string
  pf_CountState :: string
  Features :: "string \<rightharpoonup> fval"

record predictRequest =
  req_Variant :: Variant
  Pitches :: "PitchFeatures list"
  req_Explain :: bool
  TopN :: int

record Contribution =
  con_Feature :: string
  con_Value :: "f64 option"
  SHAP :: f64

record Explanation =
  TargetClass :: string
  Space :: string
  BaseValue :: f64
  PredictedValue :: f64
  PredictedProbability :: f64
  Contributions :: "Contribution list"
  OtherContribution :: f64

record Prediction =
  pred_PitchID :: string
  Probabilities :: "(string \<times> f64) list"
  PredictedClass :: "string option"
  WhiffProbability :: "f64 option"
  ScoredQuantity :: f64
  Score :: f64
  pred_Explanation :: "Explanation option"

record PredictResponse =
  ModelVersion :: string
  resp_Variant :: string
  resp_Target :: string
  Predictions :: "Prediction list"
  InferenceMs :: f64

definition empty_response :: PredictResponse where
  "empty_response = \<lparr>ModelVersion = '''', resp_Variant = '''', resp_Target = '''', Predictions = [],
     InferenceMs = Fin 0\<rparr>"

record Config =
  BaseURL :: string
  Timeout :: duration
  MaxBatch :: int
  cfg_Breaker :: BreakerConfig

definition DefaultConfig :: "string \<Rightarrow> Config" where
  "DefaultConfig baseURL = \<lparr>BaseURL = baseURL, Timeout = 2 * Second, MaxBatch = 500,
     cfg_Breaker = DefaultBreakerConfig\<rparr>"

record Client =
  client_cfg :: Config
  breaker :: Breaker

definition ErrFeatureContract :: goerr where
  "ErrFeatureContract = ErrorsNew ''mlclient.ErrFeatureContract'' ''feature contract violation''"

definition New :: "Config \<Rightarrow> Client" where
  "New c = \<lparr>client_cfg = c\<lparr>Timeout := (if Timeout c \<le> 0 then 2 * Second else Timeout c),
                        MaxBatch := (if MaxBatch c \<le> 0 then 500 else MaxBatch c)\<rparr>,
            breaker = NewBreaker (cfg_Breaker c)\<rparr>"

section \<open>One request\<close>

record problem =
  Detail :: string
  prob_Errors :: "(string \<times> string) list"

record ('s, 'req, 'body) Backend =
  encode_request :: "predictRequest \<Rightarrow> lib_error + 'req"
  transport :: "string \<Rightarrow> 'req \<Rightarrow> 's \<Rightarrow> (lib_error + int \<times> 'body) \<times> 's"
  decode_prediction :: "'body \<Rightarrow> lib_error + PredictResponse"
  decode_problem :: "'body \<Rightarrow> problem option"

definition readProblem :: "problem option \<Rightarrow> string" where
  "readProblem r = (case r of
       None \<Rightarrow> ''unreadable error body''
     | Some p \<Rightarrow> (case prob_Errors p of
          [] \<Rightarrow> Detail p
        | (field, message) # _ \<Rightarrow> Detail p @ '' ('' @ field @ '': '' @ message @ '')''))"

definition Client_post ::
  "('s, 'req, 'body) Backend \<Rightarrow> Client \<Rightarrow> string \<Rightarrow> predictRequest \<Rightarrow> 's
   \<Rightarrow> (goerr + PredictResponse) \<times> 's" where
  "Client_post be c path payload s =
     (case encode_request be payload of
        Inl err \<Rightarrow> (Inl (Wrap ''encode request: '' (lib err) ''''), s)
      | Inr req \<Rightarrow> (case transport be (BaseURL (client_cfg c) @ path) req s of
          (Inl err, s') \<Rightarrow> (Inl (Wrap ''call inference service: '' (lib err) ''''), s')
        | (Inr (status, body), s') \<Rightarrow>
            (if status = 200 then
               (case decode_prediction be body of
                  Inl err \<Rightarrow> (Inl (Wrap ''decode prediction: '' (lib err) ''''), s')
                | Inr out \<Rightarrow> (Inr out, s'))
             else if status = 400 then
               (Inl (Wrap '''' ErrFeatureContract ('': '' @ readProblem (decode_problem be body))), s')
             else
               (Inl (LibError False (''inference service returned '' @ show_int status @ '': ''
                  @ readProblem (decode_problem be body))), s'))))"

section \<open>Guarded calls\<close>

text \<open>The closure given to \<open>Do\<close>: its \<open>out\<close> variable is carried beside the service's state.\<close>

definition guarded_post ::
  "('s, 'req, 'body) Backend \<Rightarrow> Client \<Rightarrow> predictRequest
   \<Rightarrow> PredictResponse option \<times> 's \<Rightarrow> error \<times> (PredictResponse option \<times> 's)" where
  "guarded_post be c req os = (case os of (out, s) \<Rightarrow>
     (case Client_post be c ''/v1/predict'' req s of
        (Inl err, s') \<Rightarrow> (Some err, (out, s'))
      | (Inr resp, s') \<Rightarrow> (None, (Some resp, s'))))"

definition call_guarded ::
  "time \<Rightarrow> time \<Rightarrow> ('s, 'req, 'body) Backend \<Rightarrow> Client \<Rightarrow> predictRequest \<Rightarrow> 's
   \<Rightarrow> (goerr + PredictResponse option) \<times> Client \<times> 's" where
  "call_guarded t1 t2 be c req s =
     (case Do t1 t2 (guarded_post be c req) (breaker c) (None, s) of
        (err, b', (out, s'), _) \<Rightarrow>
          ((case err of Some e \<Rightarrow> Inl e | None \<Rightarrow> Inr out), c\<lparr>breaker := b'\<rparr>, s'))"

definition Predict ::
  "time \<Rightarrow> time \<Rightarrow> ('s, 'req, 'body) Backend \<Rightarrow> Client \<Rightarrow> Variant \<Rightarrow> PitchFeatures list \<Rightarrow> 's
   \<Rightarrow> (goerr + PredictResponse option) \<times> Client \<times> 's" where
  "Predict t1 t2 be c variant pitches s =
     (if length pitches = 0 then (Inr (Some empty_response), c, s)
      else if MaxBatch (client_cfg c) < int (length pitches) then
        (Inl (LibError False (''batch of '' @ show_int (int (length pitches)) @ '' exceeds the limit of ''
           @ show_int (MaxBatch (client_cfg c)))), c, s)
      else call_guarded t1 t2 be c
        \<lparr>req_Variant = variant, Pitches = pitches, req_Explain = False, TopN = 0\<rparr> s)"

definition Explain ::
  "time \<Rightarrow> time \<Rightarrow> ('s, 'req, 'body) Backend \<Rightarrow> Client \<Rightarrow> Variant \<Rightarrow> PitchFeatures \<Rightarrow> int \<Rightarrow> 's
   \<Rightarrow> (goerr + PredictResponse option) \<times> Client \<times> 's" where
  "Explain t1 t2 be c variant pitch topN s =
     call_guarded t1 t2 be c
       \<lparr>req_Variant = variant, Pitches = [pitch], req_Explain = True,
        TopN = (if topN \<le> 0 then 5 else topN)\<rparr> s"

section \<open>What a guarded call returns\<close>

lemma call_guarded_cases:
  "call_guarded t1 t2 be c req s =
     (if state (advanceLocked t1 (breaker c)) = StateOpen then (Inl ErrCircuitOpen, c, s)
      else (case Client_post be c ''/v1/predict'' req s of
         (Inl err, s') \<Rightarrow> (Inl err, c\<lparr>breaker := fst (RecordFailure t2 (advanceLocked t1 (breaker c)))\<rparr>, s')
       | (Inr resp, s') \<Rightarrow> (Inr (Some resp), c\<lparr>breaker := fst (RecordSuccess (advanceLocked t1 (breaker c)))\<rparr>, s')))"
proof (cases "state (advanceLocked t1 (breaker c)) = StateOpen")
  case True
  then show ?thesis by (simp add: call_guarded_def Do_rejected)
next
  case False
  obtain r s' where p: "Client_post be c ''/v1/predict'' req s = (r, s')" by fastforce
  show ?thesis
  proof (cases r)
    case (Inl err)
    then have "guarded_post be c req (None, s) = (Some err, (None, s'))"
      by (simp add: guarded_post_def p)
    from Do_failed [of t1 "breaker c" "guarded_post be c req", OF False this, of t2] Inl False show ?thesis
      by (auto simp: call_guarded_def p)
  next
    case (Inr resp)
    then have "guarded_post be c req (None, s) = (None, (Some resp, s'))"
      by (simp add: guarded_post_def p)
    from Do_succeeded [of t1 "breaker c" "guarded_post be c req", OF False this, of t2] Inr False show ?thesis
      by (auto simp: call_guarded_def p)
  qed
qed

lemma call_guarded_response:
  "call_guarded t1 t2 be c req s = (Inr out, c', s') \<Longrightarrow> \<exists>resp. out = Some resp"
  by (auto simp: call_guarded_cases split: if_splits prod.splits sum.splits)

lemma call_guarded_breaker:
  "breaker_reachable bc (breaker c) \<Longrightarrow> call_guarded t1 t2 be c req s = (r, c', s')
     \<Longrightarrow> breaker_reachable bc (breaker c')"
  by (auto simp: call_guarded_cases reach_state reach_success reach_failure
      split: if_splits prod.splits sum.splits)

lemmas Predict_simps = Predict_def call_guarded_cases

lemma Predict_open:
  assumes "pitches \<noteq> []" "int (length pitches) \<le> MaxBatch (client_cfg c)"
    "state (advanceLocked t1 (breaker c)) = StateOpen"
  shows "Predict t1 t2 be c v pitches s = (Inl ErrCircuitOpen, c, s)"
  using assms by (simp add: Predict_simps)

text \<open>
  A prediction that returns without an error carries the service's decoded response:
  the caller never receives a nil response to read \<open>Predictions\<close> from, and only a status
  of 200 with a decodable body produces one (the empty batch aside).
\<close>

theorem Predict_success_is_real:
  assumes "Predict t1 t2 be c v pitches s = (Inr out, c', s')" "pitches \<noteq> []"
  shows "\<exists>resp req body.
     out = Some resp
     \<and> encode_request be \<lparr>req_Variant = v, Pitches = pitches, req_Explain = False, TopN = 0\<rparr> = Inr req
     \<and> transport be (BaseURL (client_cfg c) @ ''/v1/predict'') req s = (Inr (200, body), s')
     \<and> decode_prediction be body = Inr resp"
  using assms
  by (auto simp: Predict_simps Client_post_def split: if_splits prod.splits sum.splits)

definition echo_backend :: "(nat, predictRequest, predictRequest) Backend" where
  "echo_backend = \<lparr>encode_request = Inr, transport = (\<lambda>url req n. (Inr (if n = 0 then 200 else 400, req), n + 1)),
     decode_prediction = (\<lambda>body. Inr empty_response), decode_problem = (\<lambda>body. None)\<rparr>"

definition a_pitch :: PitchFeatures where
  "a_pitch = \<lparr>pf_PitchID = ''1'', pf_CountState = ''0-0'', Features = Map.empty\<rparr>"

theorem Predict_success_is_real_witness:
  "\<exists>resp req body.
     Some empty_response = Some resp
     \<and> encode_request echo_backend \<lparr>req_Variant = VariantStuff, Pitches = [a_pitch], req_Explain = False, TopN = 0\<rparr> = Inr req
     \<and> transport echo_backend (BaseURL (client_cfg (New (DefaultConfig ''http://ml''))) @ ''/v1/predict'') req 0
         = (Inr (200, body), 1)
     \<and> decode_prediction echo_backend body = Inr resp"
  by (rule Predict_success_is_real [of 1 2 _ _ _ _ _ _
        "(New (DefaultConfig ''http://ml''))\<lparr>breaker := NewBreaker DefaultBreakerConfig\<rparr>"])
    (simp_all add: Predict_simps Client_post_def echo_backend_def New_def DefaultConfig_def NewBreaker_def
       DefaultBreakerConfig_def advanceLocked_def RecordSuccess_def Let_def)

lemma contract_errors [simp]:
  "errors_Is (Wrap pre e pst) ErrFeatureContract \<longleftrightarrow> errors_Is e ErrFeatureContract"
  "\<not> errors_Is (LibError n t) ErrFeatureContract"
  "\<not> errors_Is (lib l) ErrFeatureContract"
  by (auto simp: errors_Is_def ErrFeatureContract_def) (cases l; simp add: context_Canceled_def)

text \<open>
  The error of a request is \<open>ErrFeatureContract\<close> exactly when the service answered 400:
  no transport failure, encoding error or other status is taken for a contract violation.
\<close>

theorem contract_violation_iff_400:
  assumes "Client_post be c path req s = (Inl err, s')"
  shows "errors_Is err ErrFeatureContract \<longleftrightarrow>
     (\<exists>r body. encode_request be req = Inr r \<and> transport be (BaseURL (client_cfg c) @ path) r s = (Inr (400, body), s'))"
  using assms
  by (auto simp: Client_post_def split: sum.splits prod.splits if_splits)

theorem contract_violation_iff_400_witness:
  "errors_Is (Wrap '''' ErrFeatureContract '': unreadable error body'') ErrFeatureContract \<longleftrightarrow>
     (\<exists>r body. encode_request echo_backend \<lparr>req_Variant = VariantStuff, Pitches = [a_pitch], req_Explain = False, TopN = 0\<rparr> = Inr r
        \<and> transport echo_backend (BaseURL (client_cfg (New (DefaultConfig ''http://ml''))) @ ''/v1/predict'') r 1
            = (Inr (400, body), 2))"
  by (rule contract_violation_iff_400) (simp add: echo_backend_def Client_post_def readProblem_def)

end
