(* ===== verification/Consumer.thy ===== *)
theory Consumer
  imports Events
begin

text \<open>
  internal/kafka/consumer.go and producer.go: one reader of a topic.  \<open>processMessage\<close> is
  the retry loop with its classification, backoff and dead-letter queue; \<open>run_reader\<close>
  fetches, processes and commits.  The handler is a parameter that acts on the program
  state \<open>'w\<close>; the broker is the list of messages the writer has stored, and the outcome of
  each write, of each commit and of the context checks is an oracle.  \<open>None\<close> is a panic of
  \<open>rand.Int63n\<close> or of a nil error.
\<close>

section \<open>Messages, configuration, letters\<close>

type_synonym header = "string \<times> string"

record kmsg =
  m_Topic :: string
  m_Partition :: int
  m_Offset :: int
  m_Key :: string
  m_Value :: string
  m_Headers :: "header list"

record ConsumerConfig =
  Topic :: string
  GroupID :: string
  DLQTopic :: string
  Concurrency :: int
  StartFromLatest :: bool
  HasProducer :: bool
  MaxAttempts :: int
  InitialBackoff :: duration
  MaxBackoff :: duration

text \<open>\<open>HasProducer\<close> is that the consumer was built with a producer for its dead letters.\<close>

definition DefaultConsumerConfig :: "string \<Rightarrow> string \<Rightarrow> ConsumerConfig" where
  "DefaultConsumerConfig topic groupID =
     \<lparr>Topic = topic, GroupID = groupID, DLQTopic = '''', Concurrency = 3, StartFromLatest = False,
      HasProducer = False, MaxAttempts = 5, InitialBackoff = 100 * Millisecond, MaxBackoff = 2 * Second\<rparr>"

definition NewConsumer :: "ConsumerConfig \<Rightarrow> bool \<Rightarrow> ConsumerConfig" where
  "NewConsumer c producer = c\<lparr>
     HasProducer := producer,
     Concurrency := (if Concurrency c \<le> 0 then 1 else Concurrency c),
     MaxAttempts := (if MaxAttempts c \<le> 0 then 5 else MaxAttempts c),
     InitialBackoff := (if InitialBackoff c \<le> 0 then 100 * Millisecond else InitialBackoff c),
     MaxBackoff := (if MaxBackoff c \<le> 0 then 2 * Second else MaxBackoff c)\<rparr>"

record DeadLetterFailure =
  ErrorClass :: string
  ErrorMessage :: string
  Attempts :: int
  FailedAt :: time
  fail_Consumer :: string
  ConsumerGroup :: string
  fail_CorrelationID :: string

record DeadLetter =
  OriginalPayload :: string
  OriginalEvent :: "string option"
  OriginalTopic :: string
  OriginalPartition :: int
  OriginalOffset :: int
  OriginalKey :: string
  ReplayCount :: int
  Failure :: DeadLetterFailure

definition ReplayCountHeader :: string where
  "ReplayCountHeader = ''replay_count''"

definition ResultOK :: string where "ResultOK = ''ok''"
definition ResultDuplicate :: string where "ResultDuplicate = ''duplicate''"
definition ResultDLQ :: string where "ResultDLQ = ''dlq''"

text \<open>The JSON codec and the rendering of a UUID.\<close>

record codec =
  json_Envelope :: "string \<Rightarrow> lib_error + Envelope"
  json_Valid :: "string \<Rightarrow> bool"
  marshal_letter :: "DeadLetter \<Rightarrow> lib_error + string"
  marshal_envelope :: "Envelope \<Rightarrow> lib_error + string"
  uuid_String :: "uuid \<Rightarrow> string"

section \<open>Naming a failure\<close>

definition schema_validation_errors :: "goerr list" where
  "schema_validation_errors = [ErrMissingEventID, ErrMissingEventType, ErrMissingCorrelationID,
     ErrMissingIdempotency, ErrMissingPartitionKey]"

definition parseErrorClass :: "goerr \<Rightarrow> string" where
  "parseErrorClass err =
     (if errors_As is_unsupported err \<noteq> None then ''UNKNOWN_SCHEMA_VERSION''
      else if list_ex (errors_Is err) (schema_validation_errors @ [ErrMissingOccurredAt, ErrEmptyData])
        then ''SCHEMA_VALIDATION''
      else ''DESERIALIZATION'')"

definition errorClass :: "goerr \<Rightarrow> string" where
  "errorClass err =
     (if list_ex (errors_Is err) (schema_validation_errors @ [ErrEmptyData]) then ''SCHEMA_VALIDATION''
      else if errors_As is_unsupported err \<noteq> None then ''UNKNOWN_SCHEMA_VERSION''
      else if isConstraintViolation err then ''PERSISTENCE_PERMANENT''
      else if errors_As is_perm err \<noteq> None then ''BUSINESS_RULE_VIOLATION''
      else ''UNKNOWN'')"

section \<open>Backoff\<close>

definition Int63n :: "int \<Rightarrow> int \<Rightarrow> int option" where
  "Int63n r n = (if n \<le> 0 then None else Some (r mod n))"

text \<open>\<open>r\<close> is the number the random source gives; the shift is Go's on an \<open>int64\<close>.\<close>

definition backoff :: "ConsumerConfig \<Rightarrow> int \<Rightarrow> int \<Rightarrow> duration option" where
  "backoff c r attempt =
     (let d0 = go_int64 (InitialBackoff c * 2 ^ nat (attempt - 1));
          delay = (if MaxBackoff c < d0 then MaxBackoff c else d0)
      in (case Int63n r (go_half delay + 1) of
            None \<Rightarrow> None
          | Some jitter \<Rightarrow> Some (go_half delay + jitter)))"

section \<open>The dead-letter queue\<close>

fun replayCount :: "header list \<Rightarrow> int" where
  "replayCount [] = 0"
| "replayCount ((k, v) # hs) =
     (if k \<noteq> ReplayCountHeader then replayCount hs
      else (case strconv_Atoi v of None \<Rightarrow> 0 | Some n \<Rightarrow> if n < 0 then 0 else n))"

text \<open>
  What one consumer acts on: the program state behind the handler, the messages its writer
  has stored, how many writes it has tried, and what it reported to the metrics.
\<close>

record 'w cstate =
  app :: 'w
  written :: "kmsg list"
  writes :: nat
  results :: "(string \<times> int) list"
  dlq_metric :: "(string \<times> string) list"
  waits :: "duration list"

text \<open>
  The environment: broker writes, clock, random source, and the context at each attempt.
  A write that returns an error may have been kept by the broker all the same, when only its
  acknowledgement was lost: \<open>write_kept\<close> says which.
\<close>

record runtime =
  write_fault :: "nat \<Rightarrow> lib_error option"
  write_kept :: "nat \<Rightarrow> bool"
  now_utc :: time
  rand_source :: "int \<Rightarrow> int"
  ctx_err_after :: "int \<Rightarrow> bool"
  ctx_done_in_wait :: "int \<Rightarrow> bool"

definition write_message :: "runtime \<Rightarrow> kmsg \<Rightarrow> 'w cstate \<Rightarrow> lib_error option \<times> 'w cstate" where
  "write_message rt m st =
     (let st' = st\<lparr>writes := writes st + 1\<rparr> in
      case write_fault rt (writes st) of
        Some err \<Rightarrow> (Some err, if write_kept rt (writes st) then st'\<lparr>written := written st @ [m]\<rparr> else st')
      | None \<Rightarrow> (None, st'\<lparr>written := written st @ [m]\<rparr>))"

definition letter_for ::
  "codec \<Rightarrow> ConsumerConfig \<Rightarrow> time \<Rightarrow> kmsg \<Rightarrow> string \<Rightarrow> goerr \<Rightarrow> int \<Rightarrow> DeadLetter" where
  "letter_for cd c now msg class cause attempts =
     \<lparr>OriginalPayload = m_Value msg,
      OriginalEvent = (if json_Valid cd (m_Value msg) then Some (m_Value msg) else None),
      OriginalTopic = m_Topic msg, OriginalPartition = m_Partition msg,
      OriginalOffset = m_Offset msg, OriginalKey = m_Key msg,
      ReplayCount = replayCount (m_Headers msg),
      Failure = \<lparr>ErrorClass = class, ErrorMessage = Error_text cause, Attempts = attempts,
        FailedAt = now, fail_Consumer = ''pitchlab-processor'', ConsumerGroup = GroupID c,
        fail_CorrelationID = (case Parse (json_Envelope cd) (m_Value msg) of
            Inr env \<Rightarrow> uuid_String cd (CorrelationID env) | Inl _ \<Rightarrow> '''')\<rparr>\<rparr>"

definition dlq_message :: "ConsumerConfig \<Rightarrow> kmsg \<Rightarrow> string \<Rightarrow> DeadLetter \<Rightarrow> string \<Rightarrow> kmsg" where
  "dlq_message c msg class letter body =
     \<lparr>m_Topic = DLQTopic c, m_Partition = 0, m_Offset = 0, m_Key = m_Key msg, m_Value = body,
      m_Headers = [(''error_class'', class), (''original_topic'', m_Topic msg),
        (''correlation_id'', fail_CorrelationID (Failure letter)),
        (ReplayCountHeader, show_int (ReplayCount letter))]\<rparr>"

definition deadLetter ::
  "codec \<Rightarrow> ConsumerConfig \<Rightarrow> runtime \<Rightarrow> kmsg \<Rightarrow> string \<Rightarrow> goerr \<Rightarrow> int \<Rightarrow> 'w cstate \<Rightarrow> 'w cstate" where
  "deadLetter cd c rt msg class cause attempts st =
     (if DLQTopic c = '''' \<or> \<not> HasProducer c then st
      else (let letter = letter_for cd c (now_utc rt) msg class cause attempts in
        (case marshal_letter cd letter of
           Inl err \<Rightarrow> st
         | Inr body \<Rightarrow> (case write_message rt (dlq_message c msg class letter body) st of
              (Some err, st') \<Rightarrow> st'
            | (None, st') \<Rightarrow> st'\<lparr>dlq_metric := dlq_metric st' @ [(m_Topic msg, class)]\<rparr>))))"

definition recordProcessed :: "string \<Rightarrow> int \<Rightarrow> 'w cstate \<Rightarrow> 'w cstate" where
  "recordProcessed result attempts st = st\<lparr>results := results st @ [(result, attempts)]\<rparr>"

section \<open>One message\<close>

type_synonym 'w handler = "Envelope \<Rightarrow> 'w \<Rightarrow> error \<times> 'w"

text \<open>
  The attempt loop: the first argument is how many iterations are left, so that the loop
  condition \<open>attempt <= MaxAttempts\<close> is that it is not zero.
\<close>

fun attempt_loop ::
  "codec \<Rightarrow> ConsumerConfig \<Rightarrow> runtime \<Rightarrow> 'w handler \<Rightarrow> kmsg \<Rightarrow> Envelope \<Rightarrow> nat \<Rightarrow> int \<Rightarrow> error
   \<Rightarrow> 'w cstate \<Rightarrow> 'w cstate option" where
  "attempt_loop cd c rt handle msg env 0 attempt lastErr st =
     (case lastErr of
        None \<Rightarrow> None
      | Some e \<Rightarrow> Some (recordProcessed ResultDLQ (MaxAttempts c)
          (deadLetter cd c rt msg ''RETRY_EXHAUSTED'' e (MaxAttempts c) st)))"
| "attempt_loop cd c rt handle msg env (Suc left) attempt lastErr st =
     (case handle env (app st) of (err, w) \<Rightarrow>
       (let st = st\<lparr>app := w\<rparr> in
        case err of
          None \<Rightarrow> Some (recordProcessed ResultOK attempt st)
        | Some e \<Rightarrow> (case Classify (Some e) of
            ClassDuplicate \<Rightarrow> Some (recordProcessed ResultDuplicate attempt st)
          | ClassPermanent \<Rightarrow> Some (recordProcessed ResultDLQ attempt
              (deadLetter cd c rt msg (errorClass e) e attempt st))
          | ClassTransient \<Rightarrow>
              (if attempt = MaxAttempts c
               then attempt_loop cd c rt handle msg env left (attempt + 1) (Some e) st
               else if ctx_err_after rt attempt then Some st
               else (case backoff c (rand_source rt attempt) attempt of
                   None \<Rightarrow> None
                 | Some delay \<Rightarrow>
                     if ctx_done_in_wait rt attempt then Some st
                     else attempt_loop cd c rt handle msg env left (attempt + 1) (Some e)
                            (st\<lparr>waits := waits st @ [delay]\<rparr>))))))"

definition processMessage ::
  "codec \<Rightarrow> ConsumerConfig \<Rightarrow> runtime \<Rightarrow> 'w handler \<Rightarrow> kmsg \<Rightarrow> 'w cstate \<Rightarrow> 'w cstate option" where
  "processMessage cd c rt handle msg st =
     (case Parse (json_Envelope cd) (m_Value msg) of
        Inl err \<Rightarrow> Some (recordProcessed ResultDLQ 1
          (deadLetter cd c rt msg (parseErrorClass err) err 1 st))
      | Inr env \<Rightarrow> attempt_loop cd c rt handle msg env (nat (MaxAttempts c)) 1 None st)"

section \<open>The reader\<close>

text \<open>
  What the broker and the context do at each turn of the loop: a message arrives, with what
  \<open>CommitMessages\<close> will answer; a fetch fails, with whether the context ends during the
  wait; or the fetch reports the end of the context.
\<close>

datatype fetch =
    Fetched kmsg runtime "lib_error option"
  | FetchFailed lib_error int bool
  | FetchStopped

record 'w rstate =
  consumer :: "'w cstate"
  committed :: "kmsg list"
  fetchFailures :: int
  fetch_errors :: nat

fun run_reader ::
  "codec \<Rightarrow> ConsumerConfig \<Rightarrow> 'w handler \<Rightarrow> fetch list \<Rightarrow> 'w rstate \<Rightarrow> 'w rstate option" where
  "run_reader cd c handle [] st = Some st"
| "run_reader cd c handle (FetchStopped # fs) st = Some st"
| "run_reader cd c handle (FetchFailed err r stopped # fs) st =
     (if errors_Is (lib err) context_Canceled then Some st
      else (let n = fetchFailures st + 1 in
        case backoff c r (min n (MaxAttempts c)) of
          None \<Rightarrow> None
        | Some delay \<Rightarrow>
            (let st = st\<lparr>fetchFailures := n, fetch_errors := fetch_errors st + 1\<rparr> in
             if stopped then Some st else run_reader cd c handle fs st)))"
| "run_reader cd c handle (Fetched msg rt commit # fs) st =
     (case processMessage cd c rt handle msg (consumer st) of
        None \<Rightarrow> None
      | Some cs \<Rightarrow>
          (let st = st\<lparr>consumer := cs, fetchFailures := 0\<rparr> in
           case commit of
             None \<Rightarrow> run_reader cd c handle fs (st\<lparr>committed := committed st @ [msg]\<rparr>)
           | Some err \<Rightarrow>
               if errors_Is (lib err) context_Canceled then Some st
               else run_reader cd c handle fs st))"

section \<open>The producer\<close>

definition envelope_message :: "codec \<Rightarrow> string \<Rightarrow> Envelope \<Rightarrow> string \<Rightarrow> kmsg" where
  "envelope_message cd topic env value =
     \<lparr>m_Topic = topic, m_Partition = 0, m_Offset = 0, m_Key = PartitionKey env, m_Value = value,
      m_Headers = [(''event_type'', EventType env), (''correlation_id'', uuid_String cd (CorrelationID env)),
        (''idempotency_key'', IdempotencyKey env)]\<rparr>"

definition Publish ::
  "codec \<Rightarrow> runtime \<Rightarrow> string \<Rightarrow> Envelope \<Rightarrow> 'w cstate \<Rightarrow> error \<times> 'w cstate" where
  "Publish cd rt topic env st =
     (case Validate env of
        Some err \<Rightarrow> (Some (Permanent ''refusing to publish an invalid envelope'' err), st)
      | None \<Rightarrow> (case marshal_envelope cd env of
          Inl err \<Rightarrow> (Some (Permanent ''encode envelope'' (lib err)), st)
        | Inr value \<Rightarrow> (case write_message rt (envelope_message cd topic env value) st of
            (Some err, st') \<Rightarrow> (Some (Wrap (''publish to '' @ topic @ '': '') (lib err) ''''), st')
          | (None, st') \<Rightarrow> (None, st'))))"

end
