(* ===== verification/Delivery.thy ===== *)
theory Delivery
  imports Consumer
begin

text \<open>
  What the consumer of internal/kafka promises: its retry budget, its termination, which
  failures reach the dead-letter queue and under which name, and that no message is
  committed before it is settled.  The contract between the consumer and its handler is
  the locale \<open>idempotent_handler\<close>.
\<close>

section \<open>Backoff\<close>

definition backoff_safe :: "ConsumerConfig \<Rightarrow> bool" where
  "backoff_safe c \<longleftrightarrow> 0 < InitialBackoff c \<and> 0 < MaxBackoff c \<and> 0 < MaxAttempts c
     \<and> InitialBackoff c * 2 ^ nat (MaxAttempts c - 1) < 2 ^ 63"

lemma backoff_shift:
  assumes "backoff_safe c" "1 \<le> a" "a \<le> MaxAttempts c"
  shows "go_int64 (InitialBackoff c * 2 ^ nat (a - 1)) = InitialBackoff c * 2 ^ nat (a - 1)"
    "0 < InitialBackoff c * 2 ^ nat (a - 1)"
proof -
  have "InitialBackoff c * 2 ^ nat (a - 1) \<le> InitialBackoff c * 2 ^ nat (MaxAttempts c - 1)"
    using assms by (intro mult_left_mono power_increasing) (auto simp: backoff_safe_def)
  moreover show pos: "0 < InitialBackoff c * 2 ^ nat (a - 1)" using assms(1) by (simp add: backoff_safe_def)
  ultimately show "go_int64 (InitialBackoff c * 2 ^ nat (a - 1)) = InitialBackoff c * 2 ^ nat (a - 1)"
    using assms(1) unfolding backoff_safe_def by (intro go_int64_id) linarith+
qed

lemma half_jitter: "0 \<le> (D :: int) \<Longrightarrow> D div 2 + r mod (D div 2 + 1) \<le> D"
  using pos_mod_bound [of "D div 2 + 1" r] by (simp add: pos_imp_zdiv_nonneg_iff)

lemma backoff_bounds:
  assumes "backoff_safe c" "1 \<le> a" "a \<le> MaxAttempts c"
  shows "\<exists>d. backoff c r a = Some d \<and> 0 \<le> d \<and> d \<le> MaxBackoff c
     \<and> min (MaxBackoff c) (InitialBackoff c * 2 ^ nat (a - 1)) div 2 \<le> d
     \<and> d \<le> min (MaxBackoff c) (InitialBackoff c * 2 ^ nat (a - 1))"
proof -
  define P where "P = InitialBackoff c * 2 ^ nat (a - 1)"
  define D where "D = min (MaxBackoff c) P"
  have P: "go_int64 P = P" "0 < P" using backoff_shift [OF assms] by (simp_all add: P_def)
  have D: "0 < D" "D \<le> MaxBackoff c" using P(2) assms(1) by (auto simp: D_def backoff_safe_def)
  have "(if MaxBackoff c < P then MaxBackoff c else P) = D" by (simp add: D_def)
  then have "backoff c r a = Some (D div 2 + r mod (D div 2 + 1))"
    using P(1) D(1) by (simp add: backoff_def P_def [symmetric] Int63n_def go_half_def Let_def)
  moreover have "0 \<le> r mod (D div 2 + 1)" "0 \<le> D div 2" using D(1) by simp_all
  ultimately show ?thesis
    using half_jitter [of D r] D unfolding P_def [symmetric] D_def [symmetric] by auto
qed

section \<open>The dead-letter queue\<close>

definition dead_lettered :: "codec \<Rightarrow> ConsumerConfig \<Rightarrow> kmsg \<Rightarrow> string \<Rightarrow> string \<Rightarrow> int \<Rightarrow> kmsg \<Rightarrow> bool" where
  "dead_lettered cd c msg cls text attempts m \<longleftrightarrow>
     (\<exists>now cause body. let letter = letter_for cd c now msg cls cause attempts in
        Error_text cause = text \<and> marshal_letter cd letter = Inr body
        \<and> OriginalPayload letter = m_Value msg \<and> m = dlq_message c msg cls letter body)"

text \<open>
  The ways a dead letter for a message can be lost: there is no queue or no producer for it,
  it does not encode, or the broker neither acknowledged nor kept the write \<open>k\<close>.
\<close>

definition letter_lost :: "codec \<Rightarrow> ConsumerConfig \<Rightarrow> runtime \<Rightarrow> kmsg \<Rightarrow> nat \<Rightarrow> bool" where
  "letter_lost cd c rt msg k \<longleftrightarrow> DLQTopic c = '''' \<or> \<not> HasProducer c
     \<or> (\<exists>cls cause attempts. \<exists>err. marshal_letter cd (letter_for cd c (now_utc rt) msg cls cause attempts) = Inl err)
     \<or> (write_fault rt k \<noteq> None \<and> \<not> write_kept rt k)"

definition dlq_healthy :: "codec \<Rightarrow> ConsumerConfig \<Rightarrow> runtime \<Rightarrow> bool" where
  "dlq_healthy cd c rt \<longleftrightarrow> (\<forall>msg k. \<not> letter_lost cd c rt msg k)"

definition ctx_alive :: "runtime \<Rightarrow> bool" where
  "ctx_alive rt \<longleftrightarrow> (\<forall>a. \<not> ctx_err_after rt a \<and> \<not> ctx_done_in_wait rt a)"

lemma deadLetter_same [simp]:
  "app (deadLetter cd c rt msg cls e a st) = app st"
  "results (deadLetter cd c rt msg cls e a st) = results st"
  "waits (deadLetter cd c rt msg cls e a st) = waits st"
  by (auto simp: deadLetter_def write_message_def Let_def split: sum.splits option.splits prod.splits)

lemma recordProcessed_simps [simp]:
  "app (recordProcessed r a st) = app st"
  "written (recordProcessed r a st) = written st"
  "writes (recordProcessed r a st) = writes st"
  "waits (recordProcessed r a st) = waits st"
  "results (recordProcessed r a st) = results st @ [(r, a)]"
  by (simp_all add: recordProcessed_def)

lemma deadLetter_files:
  "(\<exists>m. written (deadLetter cd c rt msg cls e a st) = written st @ [m] \<and> dead_lettered cd c msg cls (Error_text e) a m)
   \<or> (written (deadLetter cd c rt msg cls e a st) = written st \<and> letter_lost cd c rt msg (writes st))"
proof (cases "letter_lost cd c rt msg (writes st)")
  case True
  then show ?thesis
    by (auto simp: deadLetter_def write_message_def dead_lettered_def letter_for_def Let_def
        split: sum.splits option.splits prod.splits intro!: exI)
next
  case False
  let ?l = "letter_for cd c (now_utc rt) msg cls e a"
  from False obtain body where body: "marshal_letter cd ?l = Inr body"
    unfolding letter_lost_def by (metis old.sum.exhaust)
  have "written (deadLetter cd c rt msg cls e a st) = written st @ [dlq_message c msg cls ?l body]"
    using False body
    by (auto simp: deadLetter_def letter_lost_def write_message_def Let_def split: option.splits)
  moreover have "dead_lettered cd c msg cls (Error_text e) a (dlq_message c msg cls ?l body)"
    unfolding dead_lettered_def Let_def using body by (auto simp: letter_for_def intro!: exI)
  ultimately show ?thesis by blast
qed

lemma deadLetter_written_prefix:
  "\<exists>ms. written (deadLetter cd c rt msg cls e a st) = written st @ ms"
  by (auto simp: deadLetter_def write_message_def Let_def split: sum.splits option.splits prod.splits)

lemma replayCount_range: "0 \<le> replayCount hs \<and> replayCount hs < 2 ^ 63"
  by (induction hs rule: replayCount.induct)
    (auto simp: strconv_Atoi_def Let_def split: option.splits prod.splits if_splits)

lemma replayCount_dlq_message:
  "replayCount (m_Headers (dlq_message c msg cls (letter_for cd c now msg cls e a) body))
     = replayCount (m_Headers msg)"
  using replayCount_range [of "m_Headers msg"]
  by (simp add: dlq_message_def letter_for_def ReplayCountHeader_def Atoi_show_int)

section \<open>The attempt loop\<close>

text \<open>
  How a message can end: handled or already handled, dead-lettered, counted as dead-lettered
  although its letter is lost, or given up because the context ended between two attempts.
\<close>

definition ended_ok :: "'w cstate \<Rightarrow> 'w cstate \<Rightarrow> int \<Rightarrow> bool" where
  "ended_ok st st' b \<longleftrightarrow> results st' \<in> {results st @ [(ResultOK, b)], results st @ [(ResultDuplicate, b)]}
     \<and> written st' = written st"

definition ended_dlq :: "codec \<Rightarrow> ConsumerConfig \<Rightarrow> kmsg \<Rightarrow> 'w cstate \<Rightarrow> 'w cstate \<Rightarrow> int \<Rightarrow> bool" where
  "ended_dlq cd c msg st st' b \<longleftrightarrow> results st' = results st @ [(ResultDLQ, b)]
     \<and> (\<exists>m cls text. written st' = written st @ [m] \<and> dead_lettered cd c msg cls text b m)"

definition ended_lost ::
  "codec \<Rightarrow> ConsumerConfig \<Rightarrow> runtime \<Rightarrow> kmsg \<Rightarrow> 'w cstate \<Rightarrow> 'w cstate \<Rightarrow> int \<Rightarrow> bool" where
  "ended_lost cd c rt msg st st' b \<longleftrightarrow> results st' = results st @ [(ResultDLQ, b)]
     \<and> written st' = written st \<and> letter_lost cd c rt msg (writes st)"

definition ctx_stopped :: "ConsumerConfig \<Rightarrow> runtime \<Rightarrow> bool" where
  "ctx_stopped c rt \<longleftrightarrow> (\<exists>a \<in> {1 ..< MaxAttempts c}. ctx_err_after rt a \<or> ctx_done_in_wait rt a)"

definition ended_stopped :: "ConsumerConfig \<Rightarrow> runtime \<Rightarrow> 'w cstate \<Rightarrow> 'w cstate \<Rightarrow> bool" where
  "ended_stopped c rt st st' \<longleftrightarrow> results st' = results st \<and> written st' = written st \<and> ctx_stopped c rt"

definition ended ::
  "codec \<Rightarrow> ConsumerConfig \<Rightarrow> runtime \<Rightarrow> kmsg \<Rightarrow> 'w cstate \<Rightarrow> 'w cstate \<Rightarrow> int \<Rightarrow> bool" where
  "ended cd c rt msg st st' b \<longleftrightarrow> ended_ok st st' b \<or> ended_dlq cd c msg st st' b
     \<or> ended_lost cd c rt msg st st' b \<or> ended_stopped c rt st st'"

lemma ended_deadLetter:
  assumes "results st0 = results st" "written st0 = written st" "writes st0 = writes st"
  shows "ended cd c rt msg st (recordProcessed ResultDLQ b (deadLetter cd c rt msg cls e b st0)) b"
  using deadLetter_files [of cd c rt msg cls e b st0] assms
  by (auto simp: ended_def ended_dlq_def ended_lost_def)

lemma ended_same:
  "results st0 = results st \<Longrightarrow> written st0 = written st \<Longrightarrow> writes st0 = writes st \<Longrightarrow>
     ended cd c rt msg st0 st' b = ended cd c rt msg st st' b"
  by (simp add: ended_def ended_ok_def ended_dlq_def ended_lost_def ended_stopped_def)

lemma attempt_loop_ends:
  assumes "backoff_safe c" "1 \<le> a" "a + int n = MaxAttempts c + 1" "n = 0 \<longrightarrow> lastE \<noteq> None"
  shows "\<exists>st' b. attempt_loop cd c rt h msg env n a lastE st = Some st'
     \<and> 1 \<le> b \<and> b \<le> MaxAttempts c \<and> ended cd c rt msg st st' b"
  using assms(2-)
proof (induction n arbitrary: a lastE st)
  case 0
  then obtain e where "lastE = Some e" by blast
  moreover have "1 \<le> MaxAttempts c" using assms(1) by (simp add: backoff_safe_def)
  ultimately show ?case using ended_deadLetter [of st st] by auto
next
  case (Suc n)
  obtain err w where h: "h env (app st) = (err, w)" by fastforce
  let ?st = "st\<lparr>app := w\<rparr>"
  have a: "a \<le> MaxAttempts c" using Suc.prems by simp
  have stop: "ended cd c rt msg st ?st a" if "a \<noteq> MaxAttempts c" "ctx_err_after rt a \<or> ctx_done_in_wait rt a"
    using that a Suc.prems(1) by (auto simp: ended_def ended_stopped_def ctx_stopped_def)
  show ?case
  proof (cases err)
    case None
    with h Suc.prems(1) a show ?thesis by (auto simp: ended_def ended_ok_def intro!: exI [of _ a])
  next
    case (Some e)
    show ?thesis
    proof (cases "Classify (Some e)")
      case ClassDuplicate
      with Some h Suc.prems(1) a show ?thesis by (auto simp: ended_def ended_ok_def intro!: exI [of _ a])
    next
      case ClassPermanent
      with Some h Suc.prems(1) a ended_deadLetter [of ?st st cd c rt msg a "errorClass e" e]
      show ?thesis by auto
    next
      case ClassTransient
      note now = Some h ClassTransient
      show ?thesis
      proof (cases "a = MaxAttempts c")
        case True
        with Suc.prems have "n = 0" by simp
        with True Suc.IH [of "a + 1" "Some e" ?st] Suc.prems now ended_same [of ?st st]
        show ?thesis by auto
      next
        case False
        obtain d where d: "backoff c (rand_source rt a) a = Some d"
          using backoff_bounds [OF assms(1) Suc.prems(1) a] by blast
        let ?w = "?st\<lparr>waits := waits ?st @ [d]\<rparr>"
        have "\<exists>st' b. attempt_loop cd c rt h msg env n (a + 1) (Some e) ?w = Some st'
           \<and> 1 \<le> b \<and> b \<le> MaxAttempts c \<and> ended cd c rt msg ?w st' b"
          using Suc.prems False by (intro Suc.IH) auto
        then obtain st' b where go: "attempt_loop cd c rt h msg env n (a + 1) (Some e) ?w = Some st'"
          "1 \<le> b" "b \<le> MaxAttempts c" "ended cd c rt msg st st' b"
          using ended_same [of ?w st] by auto
        show ?thesis
        proof (cases "ctx_err_after rt a \<or> ctx_done_in_wait rt a")
          case True
          with False d now stop Suc.prems(1) a show ?thesis by (auto simp: Let_def)
        next
          case alive: False
          with False d now go show ?thesis by (auto simp: Let_def)
        qed
      qed
    qed
  qed
qed

lemma processMessage_ends:
  assumes "backoff_safe c"
  shows "\<exists>st' b. processMessage cd c rt h msg st = Some st' \<and> 1 \<le> b \<and> b \<le> MaxAttempts c
     \<and> ended cd c rt msg st st' b"
proof (cases "Parse (json_Envelope cd) (m_Value msg)")
  case (Inl err)
  have "1 \<le> MaxAttempts c" using assms by (simp add: backoff_safe_def)
  with ended_deadLetter [of st st cd c rt msg 1 "parseErrorClass err" err] Inl show ?thesis
    by (auto simp: processMessage_def)
next
  case (Inr env)
  with attempt_loop_ends [OF assms, of 1 "nat (MaxAttempts c)" None cd rt h msg env st] assms
  show ?thesis by (simp add: processMessage_def backoff_safe_def)
qed

text \<open>Processing a message gave it up: its letter is lost, or the context ended first.\<close>

definition given_up :: "codec \<Rightarrow> ConsumerConfig \<Rightarrow> runtime \<Rightarrow> 'w handler \<Rightarrow> 'w cstate \<Rightarrow> kmsg \<Rightarrow> bool" where
  "given_up cd c rt h st m \<longleftrightarrow> (\<exists>st' b. processMessage cd c rt h m st = Some st'
     \<and> (ended_lost cd c rt m st st' b \<or> ended_stopped c rt st st'))"

text \<open>With a queue that takes every letter and a live context only the first two ways are left.\<close>

lemma ended_healthy:
  assumes "ended cd c rt msg st st' b" "dlq_healthy cd c rt" "ctx_alive rt"
  shows "ended_ok st st' b \<or> ended_dlq cd c msg st st' b"
  using assms by (auto simp: ended_def ended_lost_def ended_stopped_def ctx_stopped_def dlq_healthy_def ctx_alive_def)

text \<open>The loop calls the handler at most once per remaining attempt and waits between attempts only.\<close>

definition counting :: "'w handler \<Rightarrow> (nat \<times> 'w) handler" where
  "counting h env nw = (case nw of (n, w) \<Rightarrow> (case h env w of (err, w') \<Rightarrow> (err, (n + 1, w'))))"

lemma attempt_loop_calls:
  "attempt_loop cd c rt (counting h) msg env n a lastE st = Some st' \<Longrightarrow>
     fst (app st') \<le> fst (app st) + n"
proof (induction n arbitrary: a lastE st)
  case 0
  then show ?case by (auto split: option.splits)
next
  case (Suc n)
  obtain k w where st: "app st = (k, w)" by fastforce
  obtain err w' where h: "h env w = (err, w')" by fastforce
  have c: "counting h env (app st) = (err, (k + 1, w'))" by (simp add: counting_def st h)
  have IH: "attempt_loop cd c rt (counting h) msg env n b l s = Some st' \<Longrightarrow> fst (app s) = k + 1
      \<Longrightarrow> fst (app st') \<le> Suc (k + n)" for b l s
    using Suc.IH [of b l s] by simp
  show ?case
    using Suc.prems unfolding attempt_loop.simps c
    by (auto simp: Let_def st split: option.splits Class.splits if_splits intro: IH)
qed

lemma attempt_loop_waits:
  assumes "backoff_safe c" "1 \<le> a" "a + int n = MaxAttempts c + 1"
    "attempt_loop cd c rt h msg env n a lastE st = Some st'"
  shows "\<exists>ws. waits st' = waits st @ ws \<and> length ws \<le> n - 1 \<and> (\<forall>d \<in> set ws. 0 \<le> d \<and> d \<le> MaxBackoff c)"
  using assms(2-)
proof (induction n arbitrary: a lastE st)
  case 0
  then show ?case by (auto split: option.splits)
next
  case (Suc n)
  obtain err w where h: "h env (app st) = (err, w)" by fastforce
  show ?case
  proof (cases "\<exists>e. err = Some e \<and> Classify (Some e) = ClassTransient \<and> \<not> ctx_err_after rt a
      \<and> \<not> ctx_done_in_wait rt a \<and> a \<noteq> MaxAttempts c")
    case True
    then obtain e where e: "err = Some e" "Classify (Some e) = ClassTransient"
      "\<not> ctx_err_after rt a" "\<not> ctx_done_in_wait rt a" "a \<noteq> MaxAttempts c" by blast
    obtain d where d: "backoff c (rand_source rt a) a = Some d" and d': "0 \<le> d" "d \<le> MaxBackoff c"
      using backoff_bounds [of c a "rand_source rt a"] assms(1) Suc.prems by auto
    from Suc.prems(3) h e d
    have run: "attempt_loop cd c rt h msg env n (a + 1) (Some e) (st\<lparr>app := w, waits := waits st @ [d]\<rparr>) = Some st'"
      by simp
    from Suc.IH [OF _ _ run] Suc.prems(1,2) obtain ws where
      ws: "waits st' = (waits st @ [d]) @ ws" "length ws \<le> n - 1" "\<forall>d \<in> set ws. 0 \<le> d \<and> d \<le> MaxBackoff c"
      by auto
    have "0 < n" using e(5) Suc.prems by auto
    with ws d' show ?thesis by (intro exI [of _ "d # ws"]) auto
  next
    case False
    have "waits st' = waits st"
      using False Suc.prems h
      by (cases n) (auto simp: Let_def split: option.splits Class.splits if_splits)
    then show ?thesis by simp
  qed
qed

section \<open>Writes only grow\<close>

lemma attempt_loop_written:
  "attempt_loop cd c rt h msg env n a le st = Some st' \<Longrightarrow> \<exists>ms. written st' = written st @ ms"
proof (induction n arbitrary: a le st)
  case 0
  then show ?case using deadLetter_written_prefix by (auto split: option.splits)
next
  case (Suc n)
  obtain err w where h: "h env (app st) = (err, w)" by fastforce
  have IH: "attempt_loop cd c rt h msg env n b l s = Some st' \<Longrightarrow> written s = written st
      \<Longrightarrow> \<exists>ms. written st' = written st @ ms" for b l s
    using Suc.IH [of b l s] by simp
  show ?case
    using Suc.prems deadLetter_written_prefix [of cd c rt msg _ _ _ "st\<lparr>app := w\<rparr>"]
    by (auto simp: h Let_def split: option.splits Class.splits if_splits intro: IH)
qed

lemma processMessage_written:
  "processMessage cd c rt h msg st = Some st' \<Longrightarrow> \<exists>ms. written st' = written st @ ms"
  using deadLetter_written_prefix attempt_loop_written
  by (fastforce simp: processMessage_def split: sum.splits)

section \<open>Invariants of the program behind the handler\<close>

lemma attempt_loop_invariant:
  assumes "\<And>e w. I w \<Longrightarrow> I (snd (h e w))"
  shows "I (app st) \<Longrightarrow> attempt_loop cd c rt h msg env n a le st = Some st' \<Longrightarrow> I (app st')"
proof (induction n arbitrary: a le st)
  case 0
  then show ?case by (auto split: option.splits)
next
  case (Suc n)
  obtain err w where h: "h env (app st) = (err, w)" by fastforce
  have w: "I w" using assms [OF Suc.prems(1), of env] h by simp
  have IH: "I (app s) \<Longrightarrow> attempt_loop cd c rt h msg env n b l s = Some st' \<Longrightarrow> I (app st')" for b l s
    by (rule Suc.IH)
  show ?case
    using Suc.prems(2) w
    by (auto simp: h Let_def split: option.splits Class.splits if_splits dest!: IH [rotated])
qed

lemma run_reader_invariant:
  assumes step: "\<And>e w. I w \<Longrightarrow> I (snd (h e w))"
  shows "I (app (consumer st)) \<Longrightarrow> run_reader cd c h fs st = Some st' \<Longrightarrow> I (app (consumer st'))"
proof (induction fs arbitrary: st)
  case (Cons f fs)
  have IH: "I (app (consumer s)) \<Longrightarrow> run_reader cd c h fs s = Some st' \<Longrightarrow> I (app (consumer st'))" for s
    by (rule Cons.IH)
  have msg: "I (app cs')" if "processMessage cd c rt h msg (consumer st) = Some cs'" for rt msg cs'
    using that Cons.prems(1) attempt_loop_invariant [of I h, OF step]
    by (auto simp: processMessage_def split: sum.splits)
  show ?case
    using Cons.prems
    by (cases f) (auto simp: Let_def split: option.splits if_splits dest: msg dest!: IH [rotated])
qed simp

section \<open>The contract with the handler\<close>

text \<open>
  What the consumer asks of a handler so that at-least-once delivery has the effect of
  exactly-once: a message is settled once the handler reported success or a duplicate, it
  stays settled, and handling it again changes nothing observable.
\<close>

locale idempotent_handler =
  fixes handle :: "'w handler"
    and settled :: "Envelope \<Rightarrow> 'w \<Rightarrow> bool"
    and view :: "'w \<Rightarrow> 'v"
  assumes success_settles: "handle e w = (None, w') \<Longrightarrow> settled e w'"
    and duplicate_settles: "handle e w = (Some d, w') \<Longrightarrow> errors_Is d ErrDuplicate \<Longrightarrow> settled e w'"
    and settled_stable: "settled e w \<Longrightarrow> settled e (snd (handle f w))"
    and settled_absorbs: "settled e w \<Longrightarrow> view (snd (handle e w)) = view w \<and> fst (handle e w) \<noteq> None"
begin

lemma loop_stable:
  "settled e (app st) \<Longrightarrow> attempt_loop cd c rt handle msg env n a le st = Some st' \<Longrightarrow> settled e (app st')"
proof (induction n arbitrary: a le st)
  case 0
  then show ?case by (auto split: option.splits)
next
  case (Suc n)
  obtain err w where h: "handle env (app st) = (err, w)" by fastforce
  have w: "settled e w" using settled_stable [OF Suc.prems(1), of env] h by simp
  have IH: "settled e (app s) \<Longrightarrow> attempt_loop cd c rt handle msg env n b l s = Some st' \<Longrightarrow> settled e (app st')"
    for b l s by (rule Suc.IH)
  show ?case
    using Suc.prems(2) w
    by (auto simp: h Let_def split: option.splits Class.splits if_splits dest!: IH [rotated])
qed

lemma loop_absorbs:
  "settled env (app st) \<Longrightarrow> attempt_loop cd c rt handle msg env n a le st = Some st' \<Longrightarrow>
     view (app st') = view (app st)"
proof (induction n arbitrary: a le st)
  case 0
  then show ?case by (auto split: option.splits)
next
  case (Suc n)
  obtain err w where h: "handle env (app st) = (err, w)" by fastforce
  have w: "settled env w" "view w = view (app st)"
    using settled_stable [OF Suc.prems(1), of env] settled_absorbs [OF Suc.prems(1)] h by auto
  have IH: "app s = w \<Longrightarrow> attempt_loop cd c rt handle msg env n b l s = Some st' \<Longrightarrow> view (app st') = view (app st)"
    for b l s using Suc.IH [of s b l] w by simp
  show ?case
    using Suc.prems(2) w
    by (auto simp: h Let_def split: option.splits Class.splits if_splits dest: IH [rotated])
qed

lemma loop_settles:
  "attempt_loop cd c rt handle msg env n a le st = Some st' \<Longrightarrow> ended_ok st st' b \<Longrightarrow> settled env (app st')"
proof (induction n arbitrary: a le st)
  case 0
  then show ?case
    by (auto simp: ended_ok_def ResultOK_def ResultDuplicate_def ResultDLQ_def split: option.splits)
next
  case (Suc n)
  obtain err w where h: "handle env (app st) = (err, w)" by fastforce
  have ok: "err = None \<Longrightarrow> settled env w" using h success_settles by auto
  have dup: "err = Some e \<Longrightarrow> Classify (Some e) = ClassDuplicate \<Longrightarrow> settled env w" for e
    using h duplicate_settles [of env "app st" e w] by (auto simp: Classify_def split: if_splits)
  have IH: "attempt_loop cd c rt handle msg env n a2 l s = Some st' \<Longrightarrow> results s = results st
      \<Longrightarrow> written s = written st \<Longrightarrow> settled env (app st')" for a2 l s
    using Suc.IH [of a2 l s] Suc.prems(2) by (simp add: ended_ok_def)
  show ?case
    using Suc.prems ok dup
    by (auto simp: h Let_def ended_ok_def ResultOK_def ResultDuplicate_def ResultDLQ_def
        split: option.splits Class.splits if_splits dest: IH)
qed

text \<open>A redelivered message leaves what the rest of the system sees as it was.\<close>

lemma redelivery_absorbed:
  assumes "Parse (json_Envelope cd) (m_Value msg) = Inr env" "settled env (app st)"
    "processMessage cd c rt handle msg st = Some st'"
  shows "view (app st') = view (app st) \<and> settled env (app st')"
  using assms loop_absorbs [of env st] loop_stable [of env st] by (simp add: processMessage_def)

definition accounted :: "codec \<Rightarrow> ConsumerConfig \<Rightarrow> 'w cstate \<Rightarrow> kmsg \<Rightarrow> bool" where
  "accounted cd c st m \<longleftrightarrow>
     (\<exists>env. Parse (json_Envelope cd) (m_Value m) = Inr env \<and> settled env (app st))
   \<or> (\<exists>l \<in> set (written st). \<exists>cls text b. dead_lettered cd c m cls text b l)"

lemma process_accounts:
  assumes "backoff_safe c"
  shows "\<exists>st'. processMessage cd c rt handle msg st = Some st'
     \<and> (accounted cd c st' msg \<or> given_up cd c rt handle st msg)"
proof -
  from processMessage_ends [OF assms, of cd rt handle msg st] obtain st' b where
    run: "processMessage cd c rt handle msg st = Some st'" and e: "ended cd c rt msg st st' b" by blast
  have "accounted cd c st' msg" if "ended_ok st st' b"
  proof (cases "Parse (json_Envelope cd) (m_Value msg)")
    case (Inl err)
    with run that show ?thesis
      by (auto simp: processMessage_def ended_ok_def ResultOK_def ResultDuplicate_def ResultDLQ_def)
  next
    case (Inr env)
    with run have "attempt_loop cd c rt handle msg env (nat (MaxAttempts c)) 1 None st = Some st'"
      by (simp add: processMessage_def)
    from loop_settles [OF this that] Inr show ?thesis by (auto simp: accounted_def)
  qed
  with run e show ?thesis
    unfolding ended_def given_up_def by (auto simp: ended_dlq_def accounted_def)
qed

lemma accounted_stable:
  assumes "processMessage cd c rt handle msg st = Some st'" "accounted cd c st m"
  shows "accounted cd c st' m"
proof -
  have "\<exists>ms. written st' = written st @ ms"
    using assms(1) by (rule processMessage_written)
  moreover have "settled env (app st) \<Longrightarrow> settled env (app st')" for env
    using assms(1) loop_stable [of env st] by (auto simp: processMessage_def split: sum.splits)
  ultimately show ?thesis using assms(2) by (auto simp: accounted_def)
qed

text \<open>
  A reader's run: every message it commits is accounted for, or the run up to that message
  ended in a state from which it was given up.
\<close>

definition dropped ::
  "codec \<Rightarrow> ConsumerConfig \<Rightarrow> fetch list \<Rightarrow> 'w rstate \<Rightarrow> kmsg list \<Rightarrow> nat \<Rightarrow> bool" where
  "dropped cd c fs st cs i \<longleftrightarrow> (\<exists>fs1 rt fs2 s. fs = fs1 @ Fetched (cs ! i) rt None # fs2
     \<and> run_reader cd c handle fs1 st = Some s \<and> committed s = committed st @ take i cs
     \<and> given_up cd c rt handle (consumer s) (cs ! i))"

definition reader_ok :: "codec \<Rightarrow> ConsumerConfig \<Rightarrow> fetch list \<Rightarrow> 'w rstate \<Rightarrow> 'w rstate option \<Rightarrow> bool" where
  "reader_ok cd c fs st res \<longleftrightarrow> (\<exists>st' cs. res = Some st' \<and> committed st' = committed st @ cs
     \<and> (\<forall>m. accounted cd c (consumer st) m \<longrightarrow> accounted cd c (consumer st') m)
     \<and> (\<forall>i < length cs. accounted cd c (consumer st') (cs ! i) \<or> dropped cd c fs st cs i))"

lemma reader_ok_end:
  assumes "committed st' = committed st"
    "\<And>m. accounted cd c (consumer st) m \<Longrightarrow> accounted cd c (consumer st') m"
  shows "reader_ok cd c fs st (Some st')"
  using assms by (auto simp: reader_ok_def intro!: exI [of _ "[]"])

text \<open>One turn of the loop that commits nothing, and one that commits its message.\<close>

lemma reader_ok_skip:
  assumes "\<And>gs. run_reader cd c handle (f # gs) st = run_reader cd c handle gs s"
    "committed s = committed st" "\<And>m. accounted cd c (consumer st) m \<Longrightarrow> accounted cd c (consumer s) m"
    "reader_ok cd c fs s res"
  shows "reader_ok cd c (f # fs) st res"
proof -
  from assms(4) obtain st' cs where st': "res = Some st'" "committed st' = committed s @ cs"
    "\<And>m. accounted cd c (consumer s) m \<Longrightarrow> accounted cd c (consumer st') m"
    "\<And>i. i < length cs \<Longrightarrow> accounted cd c (consumer st') (cs ! i) \<or> dropped cd c fs s cs i"
    by (auto simp: reader_ok_def)
  have "dropped cd c (f # fs) st cs i" if "dropped cd c fs s cs i" for i
    using that assms(1,2) unfolding dropped_def by (metis append_Cons)
  with st' assms(2,3) show ?thesis unfolding reader_ok_def by (intro exI [of _ st'] exI [of _ cs]) auto
qed

lemma reader_ok_commit:
  assumes "\<And>gs. run_reader cd c handle (Fetched msg rt None # gs) st = run_reader cd c handle gs s"
    "committed s = committed st @ [msg]" "\<And>m. accounted cd c (consumer st) m \<Longrightarrow> accounted cd c (consumer s) m"
    "accounted cd c (consumer s) msg \<or> given_up cd c rt handle (consumer st) msg" "reader_ok cd c fs s res"
  shows "reader_ok cd c (Fetched msg rt None # fs) st res"
proof -
  from assms(5) obtain st' cs where st': "res = Some st'" "committed st' = committed s @ cs"
    "\<And>m. accounted cd c (consumer s) m \<Longrightarrow> accounted cd c (consumer st') m"
    "\<And>i. i < length cs \<Longrightarrow> accounted cd c (consumer st') (cs ! i) \<or> dropped cd c fs s cs i"
    by (auto simp: reader_ok_def)
  let ?fs = "Fetched msg rt None # fs"
  have "accounted cd c (consumer st') ((msg # cs) ! i) \<or> dropped cd c ?fs st (msg # cs) i"
    if "i < length (msg # cs)" for i
  proof (cases i)
    case 0
    have "dropped cd c ?fs st (msg # cs) 0" if "given_up cd c rt handle (consumer st) msg"
      using that unfolding dropped_def by (intro exI [of _ "[]"] exI [of _ rt] exI [of _ fs] exI [of _ st]) simp
    with 0 assms(4) st'(3) show ?thesis by auto
  next
    case (Suc k)
    have "dropped cd c ?fs st (msg # cs) (Suc k)" if "dropped cd c fs s cs k"
    proof -
      from that obtain fs1 rt' fs2 s' where d: "fs = fs1 @ Fetched (cs ! k) rt' None # fs2"
        "run_reader cd c handle fs1 s = Some s'" "committed s' = committed s @ take k cs"
        "given_up cd c rt' handle (consumer s') (cs ! k)" by (auto simp: dropped_def)
      with assms(1) [of fs1] assms(2) show ?thesis
        unfolding dropped_def
        by (intro exI [of _ "Fetched msg rt None # fs1"] exI [of _ rt'] exI [of _ fs2] exI [of _ s']) simp
    qed
    with Suc that st'(4) [of k] show ?thesis by auto
  qed
  with st' assms(2,3) show ?thesis
    unfolding reader_ok_def by (intro exI [of _ st'] exI [of _ "msg # cs"]) auto
qed

lemma reader_accounts:
  assumes "backoff_safe c" "0 \<le> fetchFailures st"
  shows "reader_ok cd c fs st (run_reader cd c handle fs st)"
  using assms(2)
proof (induction fs arbitrary: st)
  case Nil
  then show ?case by (simp add: reader_ok_end)
next
  case (Cons f fs)
  show ?case
  proof (cases f)
    case (Fetched msg rt commit)
    from process_accounts [OF assms(1)] obtain cs where
      p: "processMessage cd c rt handle msg (consumer st) = Some cs"
        "accounted cd c cs msg \<or> given_up cd c rt handle (consumer st) msg" by blast
    have stable: "accounted cd c (consumer st) m \<Longrightarrow> accounted cd c cs m" for m
      using accounted_stable [OF p(1)] .
    let ?s = "st\<lparr>consumer := cs, fetchFailures := 0\<rparr>"
    show ?thesis
    proof (cases commit)
      case None
      let ?c = "?s\<lparr>committed := committed ?s @ [msg]\<rparr>"
      have "reader_ok cd c fs ?c (run_reader cd c handle fs ?c)" by (rule Cons.IH) simp
      from reader_ok_commit [where s = ?c, OF _ _ _ _ this, of msg rt st] p stable None Fetched
      show ?thesis by simp
    next
      case (Some err)
      show ?thesis
      proof (cases "errors_Is (lib err) context_Canceled")
        case True
        with Some Fetched p(1) stable reader_ok_end [of ?s st] show ?thesis by simp
      next
        case False
        have "reader_ok cd c fs ?s (run_reader cd c handle fs ?s)" by (rule Cons.IH) simp
        from reader_ok_skip [where s = ?s, OF _ _ _ this, of "Fetched msg rt commit" st] False Some p(1) stable Fetched
        show ?thesis by simp
      qed
    qed
  next
    case (FetchFailed err r stopped)
    obtain d where d: "backoff c r (min (fetchFailures st + 1) (MaxAttempts c)) = Some d"
      using backoff_bounds [OF assms(1), of "min (fetchFailures st + 1) (MaxAttempts c)" r]
        Cons.prems assms(1) by (auto simp: backoff_safe_def)
    let ?s = "st\<lparr>fetchFailures := fetchFailures st + 1, fetch_errors := fetch_errors st + 1\<rparr>"
    have "reader_ok cd c fs ?s (run_reader cd c handle fs ?s)" using Cons.prems by (intro Cons.IH) simp
    from reader_ok_skip [where s = ?s, OF _ _ _ this, of "FetchFailed err r stopped" st] FetchFailed d
      reader_ok_end [of st st] reader_ok_end [of ?s st]
    show ?thesis by (cases "errors_Is (lib err) context_Canceled \<or> stopped") (auto simp: Let_def)
  next
    case FetchStopped
    then show ?thesis by (simp add: reader_ok_end)
  qed
qed

end

section \<open>Properties\<close>

text \<open>A healthy world to evaluate on, and a message that does not parse.\<close>

definition plain_codec :: codec where
  "plain_codec = \<lparr>json_Envelope = (\<lambda>s. Inl (PlainErr ''unexpected end of JSON input'')),
     json_Valid = (\<lambda>s. False), marshal_letter = (\<lambda>l. Inr (OriginalPayload l)),
     marshal_envelope = (\<lambda>e. Inr (Data e)), uuid_String = show_nat\<rparr>"

definition raw_consumer :: ConsumerConfig where
  "raw_consumer = (DefaultConsumerConfig TopicPitchRaw ''g'')\<lparr>DLQTopic := TopicPitchRawDLQ, HasProducer := True\<rparr>"

definition calm :: runtime where
  "calm = \<lparr>write_fault = (\<lambda>n. None), write_kept = (\<lambda>n. False), now_utc = 1, rand_source = (\<lambda>a. 0),
     ctx_err_after = (\<lambda>a. False), ctx_done_in_wait = (\<lambda>a. False)\<rparr>"

definition garbage :: kmsg where
  "garbage = \<lparr>m_Topic = TopicPitchRaw, m_Partition = 0, m_Offset = 9, m_Key = ''k'',
     m_Value = ''{'', m_Headers = [(ReplayCountHeader, ''2'')]\<rparr>"

definition an_envelope :: Envelope where
  "an_envelope = \<lparr>EventID = 1, EventType = TypePitchRaw, env_SchemaVersion = 1, OccurredAt = 5,
     ProducedAt = 6, Producer = ''p'', CorrelationID = 1, CausationID = None, IdempotencyKey = ''i'',
     PartitionKey = ''s'', Synthetic = False, Data = ''{}''\<rparr>"

definition one_envelope :: codec where
  "one_envelope = plain_codec\<lparr>json_Envelope := (\<lambda>s. Inr an_envelope)\<rparr>"

definition idle :: "'w \<Rightarrow> 'w cstate" where
  "idle w = \<lparr>app = w, written = [], writes = 0, results = [], dlq_metric = [], waits = []\<rparr>"

lemma safe_default: "backoff_safe raw_consumer"
  by (simp add: backoff_safe_def raw_consumer_def DefaultConsumerConfig_def)

lemma calm_alive: "ctx_alive calm"
  by (simp add: ctx_alive_def calm_def)

lemma calm_healthy:
  "dlq_healthy plain_codec raw_consumer calm" "dlq_healthy one_envelope raw_consumer calm"
  by (simp_all add: dlq_healthy_def letter_lost_def raw_consumer_def DefaultConsumerConfig_def calm_def plain_codec_def
      one_envelope_def TopicPitchRawDLQ_def TopicPitchRaw_def)

lemma one_envelope_Parse: "Parse (json_Envelope one_envelope) v = Inr an_envelope"
  by (simp add: one_envelope_def Parse_def Validate_def an_envelope_def uuid_Nil_def IsZero_def
      TypePitchRaw_def SchemaVersion_def)



text \<open>All four endings happen: with no queue the letter of a message that does not parse is lost.\<close>

lemma no_queue_loses:
  "\<exists>st'. processMessage plain_codec (raw_consumer\<lparr>DLQTopic := ''''\<rparr>) calm (\<lambda>e w. (None, w)) garbage (idle ()) = Some st'
     \<and> ended_lost plain_codec (raw_consumer\<lparr>DLQTopic := ''''\<rparr>) calm garbage (idle ()) st' 1"
  by (simp add: processMessage_def plain_codec_def Parse_def deadLetter_def ended_lost_def letter_lost_def)

lemma stopped_gives_up:
  "\<exists>st'. processMessage one_envelope raw_consumer (calm\<lparr>ctx_err_after := (\<lambda>a. True)\<rparr>)
        (\<lambda>e w. (Some (LibError True ''reset''), w)) garbage (idle ()) = Some st'
     \<and> ended_stopped raw_consumer (calm\<lparr>ctx_err_after := (\<lambda>a. True)\<rparr>) (idle ()) st'"
  by (auto simp: processMessage_def one_envelope_Parse raw_consumer_def DefaultConsumerConfig_def eval_nat_numeral
      Classify_def errors_Is_def errors_As_def ErrDuplicate_def context_Canceled_def ended_stopped_def ctx_stopped_def
      calm_def idle_def intro!: exI [of _ 1])

text \<open>
  The retry budget bounds how long one message can hold its partition: the handler is
  called at most \<open>MaxAttempts\<close> times, and the delays between attempts are at most
  \<open>MaxAttempts - 1\<close>, each between 0 and \<open>MaxBackoff\<close>.
\<close>

theorem processMessage_budget:
  assumes "backoff_safe c" "processMessage cd c rt (counting h) msg st = Some st'"
  shows "fst (app st') \<le> fst (app st) + nat (MaxAttempts c)
     \<and> (\<exists>ws. waits st' = waits st @ ws \<and> int (length ws) \<le> MaxAttempts c - 1
          \<and> (\<forall>d \<in> set ws. 0 \<le> d \<and> d \<le> MaxBackoff c))"
proof (cases "Parse (json_Envelope cd) (m_Value msg)")
  case (Inl err)
  with assms show ?thesis by (auto simp: processMessage_def backoff_safe_def)
next
  case (Inr env)
  with assms(2) have run: "attempt_loop cd c rt (counting h) msg env (nat (MaxAttempts c)) 1 None st = Some st'"
    by (simp add: processMessage_def)
  have "0 < MaxAttempts c" using assms(1) by (simp add: backoff_safe_def)
  with attempt_loop_waits [OF assms(1) _ _ run] attempt_loop_calls [OF run] show ?thesis by force
qed

theorem processMessage_budget_witness:
  "\<exists>st'. processMessage one_envelope raw_consumer calm (counting (\<lambda>e w. (Some (LibError True ''reset''), w))) garbage
        (idle (0, ())) = Some st'
     \<and> fst (app st') \<le> fst (app (idle (0 :: nat, ()))) + nat (MaxAttempts raw_consumer)"
proof -
  obtain st' where "processMessage one_envelope raw_consumer calm (counting (\<lambda>e w. (Some (LibError True ''reset''), w)))
      garbage (idle (0, ())) = Some st'"
    using processMessage_ends [OF safe_default] by blast
  with processMessage_budget [OF safe_default this] show ?thesis by blast
qed

text \<open>
  A handler that fails transiently \<open>k\<close> times and then succeeds is called \<open>k + 1\<close> times
  and the message counts as processed at attempt \<open>k + 1\<close>, as long as \<open>k\<close> is below the
  budget; one that never stops failing is dead-lettered as RETRY_EXHAUSTED after exactly
  \<open>MaxAttempts\<close> calls.
\<close>

definition scripted :: "error list handler" where
  "scripted env script = (hd script, tl script)"

lemma scripted_loop:
  assumes "backoff_safe c" "ctx_alive rt" "Classify (Some e) = ClassTransient"
  shows "1 \<le> a \<Longrightarrow> a + int n = MaxAttempts c + 1 \<Longrightarrow> app st = replicate k (Some e) @ rest \<Longrightarrow> k < n \<Longrightarrow>
    \<exists>ws. attempt_loop cd c rt scripted msg env n a le st =
      attempt_loop cd c rt scripted msg env (n - k) (a + int k) (if k = 0 then le else Some e)
        (st\<lparr>app := rest, waits := waits st @ ws\<rparr>)"
proof (induction k arbitrary: n a le st)
  case 0
  then have "st\<lparr>app := rest, waits := waits st @ []\<rparr> = st" by simp
  then show ?case by (intro exI [of _ "[]"]) simp
next
  case (Suc k)
  obtain m where n: "n = Suc m" using Suc.prems(4) by (cases n) auto
  have ne: "a \<noteq> MaxAttempts c" "a \<le> MaxAttempts c" using Suc.prems n by auto
  obtain d where d: "backoff c (rand_source rt a) a = Some d"
    using backoff_bounds [OF assms(1) Suc.prems(1) ne(2)] by blast
  let ?st = "st\<lparr>app := replicate k (Some e) @ rest, waits := waits st @ [d]\<rparr>"
  have "attempt_loop cd c rt scripted msg env n a le st
      = attempt_loop cd c rt scripted msg env m (a + 1) (Some e) ?st"
    using assms(2,3) Suc.prems ne d by (simp add: n scripted_def ctx_alive_def)
  moreover obtain ws where "attempt_loop cd c rt scripted msg env m (a + 1) (Some e) ?st =
      attempt_loop cd c rt scripted msg env (m - k) (a + 1 + int k) (if k = 0 then Some e else Some e)
        (?st\<lparr>app := rest, waits := waits ?st @ ws\<rparr>)"
    using Suc.IH [of "a + 1" m ?st "Some e"] Suc.prems n by auto
  ultimately show ?case by (intro exI [of _ "d # ws"]) (simp add: n algebra_simps)
qed

theorem transient_then_success:
  assumes "backoff_safe c" "ctx_alive rt" "Classify (Some e) = ClassTransient"
    and "Parse (json_Envelope cd) (m_Value msg) = Inr env"
    and "int k < MaxAttempts c" "app st = replicate k (Some e) @ None # rest"
  shows "\<exists>st'. processMessage cd c rt scripted msg st = Some st' \<and> app st' = rest
     \<and> results st' = results st @ [(ResultOK, int k + 1)] \<and> written st' = written st"
proof -
  have m: "1 + int (nat (MaxAttempts c)) = MaxAttempts c + 1" "k < nat (MaxAttempts c)"
    using assms(5) by auto
  from scripted_loop [OF assms(1-3) _ m(1) assms(6) m(2), of cd msg env None] obtain ws where
    "processMessage cd c rt scripted msg st = attempt_loop cd c rt scripted msg env (nat (MaxAttempts c) - k)
       (1 + int k) (if k = 0 then None else Some e) (st\<lparr>app := None # rest, waits := waits st @ ws\<rparr>)"
    by (auto simp: processMessage_def assms(4))
  then show ?thesis using m(2) by (cases "nat (MaxAttempts c) - k") (auto simp: scripted_def)
qed

theorem transient_then_success_witness:
  "\<exists>st'. processMessage one_envelope raw_consumer calm scripted garbage
        (idle (replicate 3 (Some (LibError True ''reset'')) @ None # [])) = Some st' \<and> app st' = []
     \<and> results st' = results (idle (replicate 3 (Some (LibError True ''reset'')) @ None # [])) @ [(ResultOK, int 3 + 1)]
     \<and> written st' = written (idle (replicate 3 (Some (LibError True ''reset'')) @ None # []))"
  by (rule transient_then_success [OF safe_default calm_alive _ one_envelope_Parse])
    (simp_all add: Classify_def errors_Is_def errors_As_def ErrDuplicate_def context_Canceled_def idle_def
      raw_consumer_def DefaultConsumerConfig_def)

text \<open>
  The two vocabularies agree: an error that \<open>Classify\<close> sends to the dead-letter queue
  as permanent is never filed as UNKNOWN, and one filed as UNKNOWN is only ever given up on
  after its retries.
\<close>

theorem permanent_is_named: "Classify (Some e) = ClassPermanent \<Longrightarrow> errorClass e \<noteq> ''UNKNOWN''"
  by (auto simp: Classify_def errorClass_def split: if_splits)

theorem permanent_is_named_witness:
  "errorClass (Wrap ''insert pitch: '' (PgError ''23514'' ''check'') '''') \<noteq> ''UNKNOWN''"
  by (rule permanent_is_named)
    (simp add: Classify_def errors_Is_def errors_As_def ErrDuplicate_def context_Canceled_def
       isConstraintViolation_def)

text \<open>
  The replay count survives the round trip through the queue: the header of a dead
  letter's Kafka message reads back as the count of the message it was filed for.
\<close>

theorem replay_count_carried:
  "replayCount (m_Headers (dlq_message c msg cls (letter_for cd c now msg cls e a) body))
     = replayCount (m_Headers msg)"
  by (rule replayCount_dlq_message)

text \<open>
  When the write to the dead-letter queue fails, the reader commits the message all the
  same: a message that cannot be parsed is then in no topic the program will read again.
\<close>

theorem failed_letter_is_committed:
  assumes "Parse (json_Envelope cd) (m_Value msg) = Inl err" "write_fault rt (writes (consumer st)) = Some f"
    "\<not> write_kept rt (writes (consumer st))"
  shows "\<exists>st'. run_reader cd c h [Fetched msg rt None] st = Some st'
     \<and> committed st' = committed st @ [msg] \<and> written (consumer st') = written (consumer st)
     \<and> results (consumer st') = results (consumer st) @ [(ResultDLQ, 1)]"
  using assms
  by (auto simp: processMessage_def deadLetter_def write_message_def Let_def recordProcessed_def split: sum.splits)

theorem failed_letter_is_committed_witness:
  "\<exists>st'. run_reader plain_codec raw_consumer (\<lambda>e w. (None, w))
       [Fetched garbage (calm\<lparr>write_fault := (\<lambda>n. Some (NetErr ''broken pipe''))\<rparr>) None]
       \<lparr>consumer = idle (), committed = [], fetchFailures = 0, fetch_errors = 0\<rparr> = Some st'
     \<and> committed st' = committed \<lparr>consumer = idle (), committed = [], fetchFailures = 0, fetch_errors = 0\<rparr> @ [garbage]
     \<and> written (consumer st') = written (consumer \<lparr>consumer = idle (), committed = [], fetchFailures = 0, fetch_errors = 0\<rparr>)
     \<and> results (consumer st') = results (consumer \<lparr>consumer = idle (), committed = [], fetchFailures = 0, fetch_errors = 0\<rparr>) @ [(ResultDLQ, 1)]"
  by (rule failed_letter_is_committed [where err = "Wrap ''decode envelope: '' (lib (PlainErr ''unexpected end of JSON input'')) ''''"])
    (simp_all add: plain_codec_def Parse_def calm_def)

text \<open>
  A configuration whose delay overflows makes the retry loop panic instead of waiting:
  with 100 ms initially, the 38th attempt shifts the delay past the int64 range and
  \<open>rand.Int63n\<close> is called with a negative bound.
\<close>

theorem backoff_overflow_panics:
  "backoff (DefaultConsumerConfig topic gid) r 38 = None
   \<and> (\<exists>d. backoff (DefaultConsumerConfig topic gid) r 5 = Some d \<and> 0 \<le> d \<and> d \<le> 1600 * Millisecond)"
proof -
  have "backoff_safe (DefaultConsumerConfig topic gid)"
    by (simp add: backoff_safe_def DefaultConsumerConfig_def)
  from backoff_bounds [OF this, of 5 r] have
    "\<exists>d. backoff (DefaultConsumerConfig topic gid) r 5 = Some d \<and> 0 \<le> d \<and> d \<le> 1600 * Millisecond"
    by (auto simp: DefaultConsumerConfig_def)
  then show ?thesis
    by (simp add: backoff_def DefaultConsumerConfig_def go_int64_eq Int63n_def go_half_def Let_def)
qed

end
