(* ===== verification/Normalize.thy ===== *)
theory Normalize
  imports Events
begin

text \<open>
  internal/processor/normalize.go: the domain rules applied to a raw reading.  Arithmetic is
  binary64 (theory Floats); \<open>math.Sin\<close>, \<open>math.Cos\<close> and \<open>math.Sqrt\<close> are the record
  \<open>mathlib\<close> of functions.
\<close>

section \<open>Bounds\<close>

definition NormalizationVersion_const :: int where
  "NormalizationVersion_const = 1"

definition PlateHalfWidthFt :: f64 where
  "PlateHalfWidthFt = rnd64 (17 / 2 / 12)"

definition measurementBounds :: "string \<rightharpoonup> f64 \<times> f64" where
  "measurementBounds = map_of
     [(''release_speed'', (Fin 40, Fin 110)),
      (''release_spin_rate'', (Fin 0, Fin 4000)),
      (''spin_axis'', (Fin 0, Fin 360)),
      (''release_extension'', (Fin 3, Fin 9)),
      (''release_pos_z'', (Fin 0, Fin 8)),
      (''release_pos_x'', (Fin (- 6), Fin 6)),
      (''pfx_x'', (Fin (- 3), Fin 3)),
      (''pfx_z'', (Fin (- 3), Fin 3)),
      (''plate_x'', (Fin (- 4), Fin 4)),
      (''plate_z'', (Fin (- 3), Fin 8)),
      (''sz_top'', (Fin 2, Fin 5)),
      (''sz_bot'', (Fin (1 / 2), Fin 3))]"

definition withinBounds :: "string \<Rightarrow> f64 option \<Rightarrow> f64 option" where
  "withinBounds field v = (case v of None \<Rightarrow> None | Some x \<Rightarrow>
     (case measurementBounds field of None \<Rightarrow> v | Some (lo, hi) \<Rightarrow>
        if math_IsNaN x \<or> f64_lt x lo \<or> f64_lt hi x then None else v))"

definition clampBounds :: "RawMeasurement \<Rightarrow> RawMeasurement" where
  "clampBounds raw = raw\<lparr>
     ReleaseSpeed := withinBounds ''release_speed'' (ReleaseSpeed raw),
     ReleaseSpinRate := withinBounds ''release_spin_rate'' (ReleaseSpinRate raw),
     SpinAxis := withinBounds ''spin_axis'' (SpinAxis raw),
     ReleaseExtension := withinBounds ''release_extension'' (ReleaseExtension raw),
     ReleasePosX := withinBounds ''release_pos_x'' (ReleasePosX raw),
     ReleasePosZ := withinBounds ''release_pos_z'' (ReleasePosZ raw),
     PfxX := withinBounds ''pfx_x'' (PfxX raw),
     PfxZ := withinBounds ''pfx_z'' (PfxZ raw),
     PlateX := withinBounds ''plate_x'' (PlateX raw),
     PlateZ := withinBounds ''plate_z'' (PlateZ raw),
     SzTop := withinBounds ''sz_top'' (SzTop raw),
     SzBot := withinBounds ''sz_bot'' (SzBot raw)\<rparr>"

definition quality :: "RawMeasurement \<Rightarrow> string" where
  "quality raw =
     (let core = [ReleaseSpeed raw, PlateX raw, PlateZ raw];
          missing = length (filter (\<lambda>v. v = None) core)
      in if missing = length core then ''SUSPECT'' else if 0 < missing then ''PARTIAL'' else ''OK'')"

section \<open>Normalization\<close>

definition mirrorIf :: "bool \<Rightarrow> f64 option \<Rightarrow> f64 option" where
  "mirrorIf isRight v = (case v of None \<Rightarrow> None | Some x \<Rightarrow> Some (if isRight then f64_neg x else x))"

definition zone_height :: "f64 option \<Rightarrow> f64 option \<Rightarrow> f64 option \<Rightarrow> f64 option" where
  "zone_height plateZ szTop szBot = (case (plateZ, szTop, szBot) of
       (Some z, Some zt, Some zb) \<Rightarrow>
         (let height = f64_sub zt zb in
          if f64_lt (Fin (1 / 2)) height then Some (f64_div (f64_sub z zb) height) else None)
     | _ \<Rightarrow> None)"

definition in_zone :: "f64 option \<Rightarrow> f64 option \<Rightarrow> f64 option \<Rightarrow> f64 option \<Rightarrow> bool option" where
  "in_zone plateX plateZ szTop szBot = (case (plateX, plateZ, szTop, szBot) of
       (Some x, Some z, Some zt, Some zb) \<Rightarrow>
         Some (f64_le (math_Abs x) PlateHalfWidthFt \<and> f64_le zb z \<and> f64_le z zt)
     | _ \<Rightarrow> None)"

definition Normalize :: "RawMeasurement \<Rightarrow> string \<Rightarrow> string \<Rightarrow> NormalizedMeasurement" where
  "Normalize raw pThrows stand =
     (let c = clampBounds raw; isRHP = (pThrows = ''R''); isRHB = (stand = ''R'') in
      RawMeasurement.extend c
        (NormalizedMeasurement.fields
          (mirrorIf isRHP (PfxX c)) (mirrorIf isRHP (ReleasePosX c)) (mirrorIf isRHB (PlateX c))
          (zone_height (PlateZ c) (SzTop c) (SzBot c))
          (in_zone (PlateX c) (PlateZ c) (SzTop c) (SzBot c))
          NormalizationVersion_const (quality raw)))"

section \<open>Encodings\<close>

text \<open>\<open>string(rune(r))\<close>: UTF-8, the replacement character for what is not a code point.\<close>

definition string_rune :: "int \<Rightarrow> string" where
  "string_rune v = (let r = go_int32 v in
     if r < 0 \<or> 1114111 < r \<or> (55296 \<le> r \<and> r \<le> 57343)
       then [char_of (239 :: nat), char_of (191 :: nat), char_of (189 :: nat)]
     else if r < 128 then [char_of (nat r)]
     else if r < 2048 then [char_of (nat (192 + r div 64)), char_of (nat (128 + r mod 64))]
     else if r < 65536 then [char_of (nat (224 + r div 4096)), char_of (nat (128 + r div 64 mod 64)),
       char_of (nat (128 + r mod 64))]
     else [char_of (nat (240 + r div 262144)), char_of (nat (128 + r div 4096 mod 64)),
       char_of (nat (128 + r div 64 mod 64)), char_of (nat (128 + r mod 64))])"

definition CountState :: "int \<Rightarrow> int \<Rightarrow> string" where
  "CountState balls strikes = string_rune (48 + balls) @ ''-'' @ string_rune (48 + strikes)"

definition RunnersState :: "bool \<Rightarrow> bool \<Rightarrow> bool \<Rightarrow> string" where
  "RunnersState on1b on2b on3b =
     (let out = ''___'';
          out = (if on1b then out[0 := CHR ''1''] else out);
          out = (if on2b then out[1 := CHR ''2''] else out)
      in if on3b then out[2 := CHR ''3''] else out)"

record mathlib =
  math_Sin :: "f64 \<Rightarrow> f64"
  math_Cos :: "f64 \<Rightarrow> f64"
  math_Sqrt :: "f64 \<Rightarrow> f64"

text \<open>\<open>math.Pi\<close> as a \<open>float64\<close>.\<close>

definition math_Pi :: f64 where
  "math_Pi = Fin (884279719003555 / 281474976710656)"

definition spinAxisComponents :: "mathlib \<Rightarrow> f64 \<Rightarrow> bool \<Rightarrow> f64 \<times> f64" where
  "spinAxisComponents ml degrees isRHP =
     (let rad = f64_div (f64_mul degrees math_Pi) (Fin 180);
          s = math_Sin ml rad; c = math_Cos ml rad
      in (if isRHP then f64_neg s else s, c))"

definition distFromZoneCenter :: "mathlib \<Rightarrow> f64 \<Rightarrow> f64 \<Rightarrow> f64" where
  "distFromZoneCenter ml plateX zoneHeightNorm =
     (let dx = f64_div plateX PlateHalfWidthFt;
          dz = f64_mul (f64_sub zoneHeightNorm (Fin (1 / 2))) (Fin 2)
      in math_Sqrt ml (f64_add (f64_mul dx dx) (f64_mul dz dz)))"

section \<open>Shape of the result\<close>

lemmas normalize_bounds = withinBounds_def measurementBounds_def

lemma Normalize_fields [simp]:
  "PfxXArm (Normalize raw p s) = mirrorIf (p = ''R'') (PfxX (clampBounds raw))"
  "ReleasePosXArm (Normalize raw p s) = mirrorIf (p = ''R'') (ReleasePosX (clampBounds raw))"
  "PlateXBat (Normalize raw p s) = mirrorIf (s = ''R'') (PlateX (clampBounds raw))"
  "ZoneHeightNorm (Normalize raw p s) = zone_height (PlateZ (clampBounds raw)) (SzTop (clampBounds raw)) (SzBot (clampBounds raw))"
  "InZone (Normalize raw p s) = in_zone (PlateX (clampBounds raw)) (PlateZ (clampBounds raw)) (SzTop (clampBounds raw)) (SzBot (clampBounds raw))"
  "MeasurementQuality (Normalize raw p s) = quality raw"
  "NormalizationVersion (Normalize raw p s) = 1"
  "RawMeasurement.truncate (Normalize raw p s) = clampBounds raw"
  by (simp_all add: Normalize_def Let_def RawMeasurement.defs NormalizedMeasurement.defs
      NormalizationVersion_const_def clampBounds_def)

lemma Normalize_raw_fields [simp]:
  "ReleaseSpeed (Normalize raw p s) = withinBounds ''release_speed'' (ReleaseSpeed raw)"
  "ReleaseSpinRate (Normalize raw p s) = withinBounds ''release_spin_rate'' (ReleaseSpinRate raw)"
  "SpinAxis (Normalize raw p s) = withinBounds ''spin_axis'' (SpinAxis raw)"
  "ReleaseExtension (Normalize raw p s) = withinBounds ''release_extension'' (ReleaseExtension raw)"
  "ReleasePosX (Normalize raw p s) = withinBounds ''release_pos_x'' (ReleasePosX raw)"
  "ReleasePosZ (Normalize raw p s) = withinBounds ''release_pos_z'' (ReleasePosZ raw)"
  "PfxX (Normalize raw p s) = withinBounds ''pfx_x'' (PfxX raw)"
  "PfxZ (Normalize raw p s) = withinBounds ''pfx_z'' (PfxZ raw)"
  "PlateX (Normalize raw p s) = withinBounds ''plate_x'' (PlateX raw)"
  "PlateZ (Normalize raw p s) = withinBounds ''plate_z'' (PlateZ raw)"
  "SzTop (Normalize raw p s) = withinBounds ''sz_top'' (SzTop raw)"
  "SzBot (Normalize raw p s) = withinBounds ''sz_bot'' (SzBot raw)"
  by (simp_all add: Normalize_def Let_def RawMeasurement.defs clampBounds_def)

lemma clampBounds_fields [simp]:
  "ReleasePosX (clampBounds raw) = withinBounds ''release_pos_x'' (ReleasePosX raw)"
  "PfxX (clampBounds raw) = withinBounds ''pfx_x'' (PfxX raw)"
  "PlateX (clampBounds raw) = withinBounds ''plate_x'' (PlateX raw)"
  "PlateZ (clampBounds raw) = withinBounds ''plate_z'' (PlateZ raw)"
  "SzTop (clampBounds raw) = withinBounds ''sz_top'' (SzTop raw)"
  "SzBot (clampBounds raw) = withinBounds ''sz_bot'' (SzBot raw)"
  by (simp_all add: clampBounds_def)

lemma withinBounds_range:
  assumes "withinBounds field v = Some x" "measurementBounds field = Some (Fin lo, Fin hi)"
  shows "\<exists>q. x = Fin q \<and> lo \<le> q \<and> q \<le> hi"
  using assms
  by (cases x) (auto simp: withinBounds_def math_IsNaN_def split: option.splits if_splits)

lemma bounds_of [simp]:
  "measurementBounds ''release_speed'' = Some (Fin 40, Fin 110)"
  "measurementBounds ''release_spin_rate'' = Some (Fin 0, Fin 4000)"
  "measurementBounds ''spin_axis'' = Some (Fin 0, Fin 360)"
  "measurementBounds ''release_extension'' = Some (Fin 3, Fin 9)"
  "measurementBounds ''release_pos_z'' = Some (Fin 0, Fin 8)"
  "measurementBounds ''release_pos_x'' = Some (Fin (- 6), Fin 6)"
  "measurementBounds ''pfx_x'' = Some (Fin (- 3), Fin 3)"
  "measurementBounds ''plate_x'' = Some (Fin (- 4), Fin 4)"
  "measurementBounds ''plate_z'' = Some (Fin (- 3), Fin 8)"
  "measurementBounds ''sz_top'' = Some (Fin 2, Fin 5)"
  "measurementBounds ''sz_bot'' = Some (Fin (1 / 2), Fin 3)"
  by (simp_all add: measurementBounds_def)

section \<open>Mirroring\<close>

definition flip_hand :: "string \<Rightarrow> string" where
  "flip_hand h = (if h = ''R'' then ''L'' else ''R'')"

text \<open>The reading of the mirror-image pitch: the horizontal coordinates change sign.\<close>

definition mirror_raw :: "RawMeasurement \<Rightarrow> RawMeasurement" where
  "mirror_raw raw = raw\<lparr>PfxX := map_option f64_neg (PfxX raw),
     ReleasePosX := map_option f64_neg (ReleasePosX raw), PlateX := map_option f64_neg (PlateX raw)\<rparr>"

lemma f64_lt_neg: "f64_lt (f64_neg x) (f64_neg y) \<longleftrightarrow> f64_lt y x"
  by (cases x; cases y) (simp_all add: f64_neg_def)

lemma withinBounds_neg:
  assumes "measurementBounds field = Some (f64_neg b, b)"
  shows "withinBounds field (map_option f64_neg v) = map_option f64_neg (withinBounds field v)"
proof (cases v)
  case (Some x)
  have "f64_lt (f64_neg x) (f64_neg b) \<longleftrightarrow> f64_lt b x" "f64_lt b (f64_neg x) \<longleftrightarrow> f64_lt x (f64_neg b)"
    using f64_lt_neg [of x b] f64_lt_neg [of "f64_neg b" x] by simp_all
  moreover have "math_IsNaN (f64_neg x) \<longleftrightarrow> math_IsNaN x"
    by (cases x) (simp_all add: math_IsNaN_def f64_neg_def)
  ultimately show ?thesis using assms Some by (auto simp: withinBounds_def)
qed (simp add: withinBounds_def)

lemma mirrorIf_neg: "mirrorIf (\<not> r) (map_option f64_neg v) = mirrorIf r v"
  by (cases v) (auto simp: mirrorIf_def)

lemma flip_hand_R: "h \<in> {''L'', ''R''} \<Longrightarrow> (flip_hand h = ''R'') = (\<not> h = ''R'')"
  by (auto simp: flip_hand_def)

lemma in_zone_neg: "in_zone (map_option f64_neg x) z t b = in_zone x z t b"
  by (cases x) (auto simp: in_zone_def split: option.splits)

lemma clamp_mirror:
  "PfxX (clampBounds (mirror_raw raw)) = map_option f64_neg (PfxX (clampBounds raw))"
  "ReleasePosX (clampBounds (mirror_raw raw)) = map_option f64_neg (ReleasePosX (clampBounds raw))"
  "PlateX (clampBounds (mirror_raw raw)) = map_option f64_neg (PlateX (clampBounds raw))"
  "PlateZ (clampBounds (mirror_raw raw)) = PlateZ (clampBounds raw)"
  "SzTop (clampBounds (mirror_raw raw)) = SzTop (clampBounds raw)"
  "SzBot (clampBounds (mirror_raw raw)) = SzBot (clampBounds raw)"
  by (simp_all add: mirror_raw_def withinBounds_neg [of _ "Fin 6"] withinBounds_neg [of _ "Fin 3"]
      withinBounds_neg [of _ "Fin 4"] f64_neg_def)

section \<open>Properties\<close>

text \<open>
  C17: the derived frame is neutral to handedness: the mirror image of a pitch, thrown by the
  other hand to a batter on the other side, has the same arm-side movement, release side,
  inside-outside location, zone height, zone call and quality.
\<close>

theorem mirror_symmetry:
  assumes "p \<in> {''L'', ''R''}" "s \<in> {''L'', ''R''}"
  shows "PfxXArm (Normalize (mirror_raw raw) (flip_hand p) (flip_hand s)) = PfxXArm (Normalize raw p s)
    \<and> ReleasePosXArm (Normalize (mirror_raw raw) (flip_hand p) (flip_hand s)) = ReleasePosXArm (Normalize raw p s)
    \<and> PlateXBat (Normalize (mirror_raw raw) (flip_hand p) (flip_hand s)) = PlateXBat (Normalize raw p s)
    \<and> ZoneHeightNorm (Normalize (mirror_raw raw) (flip_hand p) (flip_hand s)) = ZoneHeightNorm (Normalize raw p s)
    \<and> InZone (Normalize (mirror_raw raw) (flip_hand p) (flip_hand s)) = InZone (Normalize raw p s)
    \<and> MeasurementQuality (Normalize (mirror_raw raw) (flip_hand p) (flip_hand s)) = MeasurementQuality (Normalize raw p s)"
  unfolding Normalize_fields clamp_mirror flip_hand_R [OF assms(1)] flip_hand_R [OF assms(2)]
    mirrorIf_neg in_zone_neg
  by (simp add: quality_def mirror_raw_def)

definition blank_reading :: RawMeasurement where
  "blank_reading = \<lparr>PitchType = ''FF'', PitchName = ''4-Seam'', ReleaseSpeed = None, ReleaseSpinRate = None,
     SpinAxis = None, ReleasePosX = None, ReleasePosY = None, ReleasePosZ = None, ReleaseExtension = None,
     PfxX = None, PfxZ = None, PlateX = None, PlateZ = None, SzTop = None, SzBot = None,
     EffectiveSpeed = None, ArmAngle = None\<rparr>"

theorem mirror_symmetry_witness:
  "PfxXArm (Normalize (mirror_raw (blank_reading\<lparr>PfxX := Some (Fin 1)\<rparr>)) (flip_hand ''L'') (flip_hand ''R''))
     = Some (Fin 1)"
  using mirror_symmetry [of "''L''" "''R''" "blank_reading\<lparr>PfxX := Some (Fin 1)\<rparr>"]
  by (simp add: mirrorIf_def withinBounds_def math_IsNaN_def)

text \<open>
  A pitch called in the zone has a normalized height between 0 and 1, the rounding of
  the subtraction and of the division included.
\<close>

theorem in_zone_height:
  assumes "InZone (Normalize raw p s) = Some True" "ZoneHeightNorm (Normalize raw p s) = Some v"
  shows "Fin 0 \<le> v \<and> v \<le> Fin 1"
proof -
  let ?c = "clampBounds raw"
  from assms obtain z t b where v: "PlateZ ?c = Some z" "SzTop ?c = Some t" "SzBot ?c = Some b"
    "f64_le b z" "f64_le z t" "f64_lt (Fin (1 / 2)) (f64_sub t b)"
    "v = f64_div (f64_sub z b) (f64_sub t b)"
    by (auto simp: in_zone_def zone_height_def Let_def simp del: clampBounds_fields
        split: option.splits if_splits)
  have w: "withinBounds ''plate_z'' (PlateZ raw) = Some z" "withinBounds ''sz_top'' (SzTop raw) = Some t"
    "withinBounds ''sz_bot'' (SzBot raw) = Some b" using v(1-3) by simp_all
  obtain qz where qz: "z = Fin qz" using withinBounds_range [OF w(1) bounds_of(9)] by blast
  obtain qt where qt: "t = Fin qt" "qt \<le> 5" using withinBounds_range [OF w(2) bounds_of(10)] by blast
  obtain qb where qb: "b = Fin qb" "1 / 2 \<le> qb" using withinBounds_range [OF w(3) bounds_of(11)] by blast
  note q = qz qt(1) qb(1) and r = qt(2) qb(2)
  from v q have le: "qb \<le> qz" "qz \<le> qt" by auto
  define h where "h = rnd64 (qt - qb)"
  have "h \<le> Fin 8" unfolding h_def using r by (intro rnd.rnd_le_exact [OF _ rnd64_8]) linarith
  moreover have "f64_lt (Fin (1 / 2)) h" using v(6) by (simp add: h_def q)
  ultimately obtain qh where qh: "h = Fin qh" "1 / 2 < qh" by (cases h) (auto simp: less_eq_f64_def)
  have "Fin 0 \<le> rnd64 (qz - qb)" "rnd64 (qz - qb) \<le> Fin qh"
    using le qh(1) rnd_fmt_mono [of "qz - qb" "qt - qb" binary64] by (auto simp: h_def rnd.rnd_nonneg)
  then obtain qn where qn: "rnd64 (qz - qb) = Fin qn" "0 \<le> qn" "qn \<le> qh"
    by (cases "rnd64 (qz - qb)") (auto simp: less_eq_f64_def)
  have "v = rnd64 (qn / qh)" using v(7) qn(1) qh by (simp add: q h_def [symmetric])
  moreover have "0 \<le> qn / qh" "qn / qh \<le> 1" using qn qh by auto
  ultimately show ?thesis using rnd.rnd_nonneg rnd.rnd_le_exact [OF _ rnd64_1] by blast
qed

definition a_strike :: RawMeasurement where
  "a_strike = blank_reading\<lparr>PlateX := Some (Fin 0), PlateZ := Some (Fin 3), SzTop := Some (Fin 4),
     SzBot := Some (Fin 2)\<rparr>"

theorem in_zone_height_witness:
  "\<exists>v. ZoneHeightNorm (Normalize a_strike ''R'' ''L'') = Some v \<and> Fin 0 \<le> v \<and> v \<le> Fin 1"
proof -
  have two: "rnd64 2 = Fin 2" using rnd64_double [of 1] rnd64_1 by simp
  have "Fin 0 \<le> PlateHalfWidthFt" by (simp add: PlateHalfWidthFt_def rnd.rnd_nonneg)
  then have plate: "f64_le (Fin 0) PlateHalfWidthFt"
    by (simp add: f64_le_order)
  have "InZone (Normalize a_strike ''R'' ''L'') = Some True"
    using plate by (simp add: a_strike_def blank_reading_def withinBounds_def math_IsNaN_def in_zone_def math_Abs_def)
  moreover obtain v where v: "ZoneHeightNorm (Normalize a_strike ''R'' ''L'') = Some v"
    by (simp add: a_strike_def blank_reading_def withinBounds_def math_IsNaN_def zone_height_def two)
  ultimately have "Fin 0 \<le> v \<and> v \<le> Fin 1" by (rule in_zone_height)
  with v show ?thesis by blast
qed

end
