(* ===== verification/Features.thy ===== *)
theory Features
  imports Normalize MLClient
begin

text \<open>
  internal/processor/features.go: the feature map sent to the inference service.  The
  builder's input record has no field for the outcome of the pitch, as in the code.
\<close>

section \<open>The builder\<close>

definition pitchGroup :: "string \<rightharpoonup> string" where
  "pitchGroup = map_of
     [(''FF'', ''FASTBALL''), (''SI'', ''FASTBALL''), (''FC'', ''FASTBALL''), (''FA'', ''FASTBALL''),
      (''SL'', ''BREAKING''), (''ST'', ''BREAKING''), (''SV'', ''BREAKING''),
      (''CU'', ''BREAKING''), (''KC'', ''BREAKING''), (''CS'', ''BREAKING''), (''SC'', ''BREAKING''),
      (''CH'', ''OFFSPEED''), (''FS'', ''OFFSPEED''), (''FO'', ''OFFSPEED''),
      (''KN'', ''OTHER''), (''EP'', ''OTHER''), (''PO'', ''OTHER''), (''IN'', ''OTHER'')]"

record FeatureInput =
  in_Measurement :: NormalizedMeasurement
  in_Context :: PitchContext
  in_Stand :: string
  in_PThrows :: string
  in_PitchType :: string
  VeloDiffVsFB :: "f64 option"
  PfxXDiffVsFB :: "f64 option"
  PfxZDiffVsFB :: "f64 option"
  ReleaseDistFromFB :: "f64 option"
  in_PitchNumber :: int
  DaysSincePrev :: "f64 option"

type_synonym features = "string \<rightharpoonup> fval"

definition putFloat :: "string \<Rightarrow> f64 option \<Rightarrow> features \<Rightarrow> features" where
  "putFloat key v f = (case v of None \<Rightarrow> f | Some x \<Rightarrow> f(key \<mapsto> FFloat x))"

definition boolToInt :: "bool \<Rightarrow> int" where
  "boolToInt b = (if b then 1 else 0)"

definition put_spin :: "mathlib \<Rightarrow> FeatureInput \<Rightarrow> features \<Rightarrow> features" where
  "put_spin ml i f = (case SpinAxis (in_Measurement i) of
       None \<Rightarrow> f
     | Some deg \<Rightarrow> (case spinAxisComponents ml deg (in_PThrows i = ''R'') of
         (s, c) \<Rightarrow> f(''spin_axis_sin'' \<mapsto> FFloat s, ''spin_axis_cos'' \<mapsto> FFloat c)))"

text \<open>The part both variants share: the shape of the pitch and the platoon matchup.\<close>

definition shape_features :: "mathlib \<Rightarrow> FeatureInput \<Rightarrow> features" where
  "shape_features ml i =
     (let m = in_Measurement i;
          f = putFloat ''release_speed'' (ReleaseSpeed m) Map.empty;
          f = putFloat ''release_spin_rate'' (ReleaseSpinRate m) f;
          f = putFloat ''pfx_x_arm'' (PfxXArm m) f;
          f = putFloat ''pfx_z'' (PfxZ m) f;
          f = putFloat ''release_extension'' (ReleaseExtension m) f;
          f = putFloat ''release_pos_z'' (ReleasePosZ m) f;
          f = putFloat ''release_pos_x_arm'' (ReleasePosXArm m) f;
          f = putFloat ''arm_angle'' (ArmAngle m) f;
          f = put_spin ml i f;
          pitchType = (if in_PitchType i = '''' then ''UNKNOWN'' else in_PitchType i);
          f = f(''pitch_type'' \<mapsto> FStr pitchType);
          group = (case pitchGroup pitchType of None \<Rightarrow> ''OTHER'' | Some g \<Rightarrow> g);
          f = f(''pitch_group'' \<mapsto> FStr group);
          f = f(''stand'' \<mapsto> FStr (in_Stand i));
          f = f(''p_throws'' \<mapsto> FStr (in_PThrows i));
          f = f(''same_handed'' \<mapsto> FInt (boolToInt (in_Stand i = in_PThrows i)));
          f = putFloat ''velo_diff_vs_fb'' (VeloDiffVsFB i) f;
          f = putFloat ''pfx_x_diff_vs_fb'' (PfxXDiffVsFB i) f;
          f = putFloat ''pfx_z_diff_vs_fb'' (PfxZDiffVsFB i) f
      in putFloat ''release_dist_from_fb'' (ReleaseDistFromFB i) f)"

definition situation_features :: "FeatureInput \<Rightarrow> features \<Rightarrow> features" where
  "situation_features i f =
     (let c = in_Context i;
          f = f(''balls'' \<mapsto> FInt (Balls c));
          f = f(''strikes'' \<mapsto> FInt (Strikes c));
          f = f(''count_state'' \<mapsto> FStr (CountState (Balls c) (Strikes c)));
          f = f(''outs_when_up'' \<mapsto> FInt (OutsWhenUp c));
          f = f(''runners_state'' \<mapsto> FStr (RunnersState (On1B c) (On2B c) (On3B c)));
          f = f(''inning'' \<mapsto> FInt (Inning c));
          f = (case NThruOrderPitcher c of None \<Rightarrow> f | Some n \<Rightarrow> f(''n_thruorder_pitcher'' \<mapsto> FInt n));
          f = (case (BatScore c, FldScore c) of
                 (Some bat, Some fld) \<Rightarrow> f(''score_diff'' \<mapsto> FInt (go_int64 (bat - fld)))
               | _ \<Rightarrow> f);
          f = f(''pitch_number'' \<mapsto> FInt (in_PitchNumber i))
      in putFloat ''pitcher_days_since_prev_game'' (DaysSincePrev i) f)"

definition location_features :: "mathlib \<Rightarrow> FeatureInput \<Rightarrow> features \<Rightarrow> features" where
  "location_features ml i f =
     (let m = in_Measurement i;
          f = putFloat ''plate_x_bat'' (PlateXBat m) f;
          f = putFloat ''zone_height_norm'' (ZoneHeightNorm m) f;
          f = (case InZone m of None \<Rightarrow> f | Some b \<Rightarrow> f(''in_zone'' \<mapsto> FInt (boolToInt b)))
      in (case (PlateX m, ZoneHeightNorm m) of
            (Some x, Some z) \<Rightarrow> f(''dist_from_zone_center'' \<mapsto> FFloat (distFromZoneCenter ml x z))
          | _ \<Rightarrow> f))"

definition BuildFeatures :: "mathlib \<Rightarrow> FeatureInput \<Rightarrow> Variant \<Rightarrow> features" where
  "BuildFeatures ml i variant =
     (let f = shape_features ml i in
      if variant = VariantStuff then f else location_features ml i (situation_features i f))"

section \<open>Keys\<close>

definition shape_keys :: "string set" where
  "shape_keys = {''release_speed'', ''release_spin_rate'', ''pfx_x_arm'', ''pfx_z'', ''release_extension'',
     ''release_pos_z'', ''release_pos_x_arm'', ''arm_angle'', ''spin_axis_sin'', ''spin_axis_cos'',
     ''pitch_type'', ''pitch_group'', ''stand'', ''p_throws'', ''same_handed'', ''velo_diff_vs_fb'',
     ''pfx_x_diff_vs_fb'', ''pfx_z_diff_vs_fb'', ''release_dist_from_fb''}"

definition context_keys :: "string set" where
  "context_keys = {''balls'', ''strikes'', ''count_state'', ''outs_when_up'', ''runners_state'', ''inning'',
     ''n_thruorder_pitcher'', ''score_diff'', ''pitch_number'', ''pitcher_days_since_prev_game'',
     ''plate_x_bat'', ''zone_height_norm'', ''in_zone'', ''dist_from_zone_center''}"

lemma putFloat_apply: "putFloat k v f x = (if x = k \<and> v \<noteq> None then map_option FFloat v else f x)"
  by (auto simp: putFloat_def split: option.splits)

lemma dom_putFloat: "dom (putFloat k v f) \<subseteq> insert k (dom f)"
  by (auto simp: putFloat_def split: option.splits)

lemma putFloat_absent: "x \<noteq> k \<Longrightarrow> putFloat k v f x = f x"
  by (simp add: putFloat_apply)

lemma put_spin_absent: "x \<notin> {''spin_axis_sin'', ''spin_axis_cos''} \<Longrightarrow> put_spin ml i f x = f x"
  by (auto simp: put_spin_def split: option.splits prod.splits)

lemma shape_dom: "x \<notin> shape_keys \<Longrightarrow> shape_features ml i x = None"
  by (simp add: shape_features_def shape_keys_def Let_def putFloat_absent put_spin_absent)

lemma situation_absent: "x \<notin> context_keys \<Longrightarrow> situation_features i f x = f x"
  by (simp add: situation_features_def context_keys_def Let_def putFloat_absent split: option.splits prod.splits)

lemma location_absent: "x \<notin> context_keys \<Longrightarrow> location_features ml i f x = f x"
  by (simp add: location_features_def context_keys_def Let_def putFloat_absent split: option.splits prod.splits)

lemma keys_disjoint: "shape_keys \<inter> context_keys = {}"
  by (simp add: shape_keys_def context_keys_def)

section \<open>Properties\<close>

definition same_shape :: "FeatureInput \<Rightarrow> FeatureInput \<Rightarrow> bool" where
  "same_shape i j \<longleftrightarrow>
     (let m = in_Measurement i; n = in_Measurement j in
        ReleaseSpeed m = ReleaseSpeed n \<and> ReleaseSpinRate m = ReleaseSpinRate n \<and> SpinAxis m = SpinAxis n
      \<and> PfxXArm m = PfxXArm n \<and> PfxZ m = PfxZ n \<and> ReleaseExtension m = ReleaseExtension n
      \<and> ReleasePosZ m = ReleasePosZ n \<and> ReleasePosXArm m = ReleasePosXArm n \<and> ArmAngle m = ArmAngle n)
     \<and> in_Stand i = in_Stand j \<and> in_PThrows i = in_PThrows j \<and> in_PitchType i = in_PitchType j
     \<and> VeloDiffVsFB i = VeloDiffVsFB j \<and> PfxXDiffVsFB i = PfxXDiffVsFB j
     \<and> PfxZDiffVsFB i = PfxZDiffVsFB j \<and> ReleaseDistFromFB i = ReleaseDistFromFB j"

text \<open>
  The stuff model sees the shape of the pitch only: two inputs with the same release,
  movement, spin, arm angle, handedness, pitch type and arsenal differences have the same
  features, whatever their game situation, location, pitch number and rest.
\<close>

theorem stuff_ignores_situation:
  "same_shape i j \<Longrightarrow> BuildFeatures ml i VariantStuff = BuildFeatures ml j VariantStuff"
proof -
  assume s: "same_shape i j"
  then have "put_spin ml i f = put_spin ml j f" for f
    by (cases "SpinAxis (in_Measurement j)") (simp_all add: same_shape_def put_spin_def Let_def)
  with s show ?thesis by (simp add: same_shape_def BuildFeatures_def shape_features_def Let_def)
qed

definition a_context :: PitchContext where
  "a_context = \<lparr>Balls = 3, Strikes = 2, OutsWhenUp = 1, Inning = 9, InningTopBot = ''Bot'', On1B = True,
     On2B = False, On3B = True, BatScore = Some 3, FldScore = Some 4, NThruOrderPitcher = Some 2\<rparr>"

definition an_input :: FeatureInput where
  "an_input = \<lparr>in_Measurement = Normalize (blank_reading\<lparr>PlateX := Some (Fin 1), ReleaseSpeed := Some (Fin 95)\<rparr>) ''R'' ''L'',
     in_Context = a_context, in_Stand = ''L'', in_PThrows = ''R'', in_PitchType = ''FF'', VeloDiffVsFB = None,
     PfxXDiffVsFB = None, PfxZDiffVsFB = None, ReleaseDistFromFB = None, in_PitchNumber = 4, DaysSincePrev = None\<rparr>"

theorem stuff_ignores_situation_witness:
  "\<forall>ml. BuildFeatures ml (an_input\<lparr>in_Measurement := Normalize (blank_reading\<lparr>ReleaseSpeed := Some (Fin 95)\<rparr>) ''R'' ''L'',
       in_Context := a_context\<lparr>Balls := 0\<rparr>, in_PitchNumber := 1\<rparr>) VariantStuff
   = BuildFeatures ml an_input VariantStuff"
  by (rule allI, rule stuff_ignores_situation)
    (simp add: same_shape_def an_input_def blank_reading_def Normalize_def RawMeasurement.defs
       NormalizedMeasurement.defs clampBounds_def Let_def)

text \<open>
  The feature map holds only keys of the model's contract, 19 for the stuff variant and
  33 for the other, the pitching variant extends the stuff variant without changing a value,
  and a measured key is present exactly when the device reported it.
\<close>

theorem feature_keys:
  "dom (BuildFeatures ml i VariantStuff) \<subseteq> shape_keys
   \<and> dom (BuildFeatures ml i VariantPitching) \<subseteq> shape_keys \<union> context_keys
   \<and> BuildFeatures ml i VariantStuff \<subseteq>\<^sub>m BuildFeatures ml i VariantPitching
   \<and> (\<forall>v. BuildFeatures ml i v ''release_speed'' = map_option FFloat (ReleaseSpeed (in_Measurement i)))
   \<and> BuildFeatures ml i VariantPitching ''zone_height_norm'' = map_option FFloat (ZoneHeightNorm (in_Measurement i))
   \<and> card shape_keys = 19 \<and> card (shape_keys \<union> context_keys) = 33"
proof (intro conjI)
  have ne: "VariantPitching \<noteq> VariantStuff" by (simp add: VariantPitching_def VariantStuff_def)
  show stuff: "dom (BuildFeatures ml i VariantStuff) \<subseteq> shape_keys"
    using shape_dom by (fastforce simp: BuildFeatures_def Let_def)
  have absent: "x \<notin> context_keys \<Longrightarrow> BuildFeatures ml i VariantPitching x = shape_features ml i x" for x
    using ne by (simp add: BuildFeatures_def Let_def location_absent situation_absent)
  then show "dom (BuildFeatures ml i VariantPitching) \<subseteq> shape_keys \<union> context_keys"
    using shape_dom by fastforce
  show "BuildFeatures ml i VariantStuff \<subseteq>\<^sub>m BuildFeatures ml i VariantPitching"
  proof (unfold map_le_def, intro ballI)
    fix x assume "x \<in> dom (BuildFeatures ml i VariantStuff)"
    with stuff keys_disjoint have "x \<notin> context_keys" by blast
    then show "BuildFeatures ml i VariantStuff x = BuildFeatures ml i VariantPitching x"
      by (simp add: absent) (simp add: BuildFeatures_def Let_def)
  qed
  have "shape_features ml i ''release_speed'' = map_option FFloat (ReleaseSpeed (in_Measurement i))"
    by (simp add: shape_features_def Let_def putFloat_absent put_spin_absent)
      (simp add: putFloat_apply)
  then show "\<forall>v. BuildFeatures ml i v ''release_speed'' = map_option FFloat (ReleaseSpeed (in_Measurement i))"
    by (simp add: BuildFeatures_def Let_def location_absent situation_absent context_keys_def)
  have "situation_features i f ''zone_height_norm'' = f ''zone_height_norm''" for f
    by (simp add: situation_features_def Let_def putFloat_absent split: option.splits prod.splits)
  moreover have "shape_features ml i ''zone_height_norm'' = None"
    by (rule shape_dom) (simp add: shape_keys_def)
  ultimately show "BuildFeatures ml i VariantPitching ''zone_height_norm'' = map_option FFloat (ZoneHeightNorm (in_Measurement i))"
    using ne by (simp add: BuildFeatures_def Let_def location_features_def putFloat_apply split: option.splits prod.splits)
  show "card shape_keys = 19" by (simp add: shape_keys_def)
  show "card (shape_keys \<union> context_keys) = 33" by (simp add: shape_keys_def context_keys_def)
qed

end
