(* ===== verification/Store.thy ===== *)
theory Store
  imports Events
begin

text \<open>
  The database behind internal/db: the tables the pipeline writes, the statements of
  internal/db/dbgen (their SQL, with the CHECK, UNIQUE and foreign-key constraints of
  migrations/ they run into), and the transaction helper of internal/db/store.go.  A table
  is a list of rows, a statement a function from the transaction's state to a result and a
  state; a constraint violation is a \<open>PgError\<close> with its SQLSTATE, and any statement, the
  BEGIN and the COMMIT may fail as the oracle \<open>txfaults\<close> says.
\<close>

section \<open>Rows\<close>

record Athlete =
  ath_ID :: uuid
  ath_MlbamID :: int
  ath_FullName :: string
  ath_Throws :: "string option"
  ath_Bats :: "string option"
  ath_PrimaryRole :: string

record Device =
  dev_ID :: uuid
  dev_DeviceKey :: string
  dev_DeviceKind :: string

record Session =
  ses_ID :: uuid
  ses_ExternalSessionUid :: string
  ses_PitcherAthleteID :: uuid
  ses_DeviceID :: "uuid option"
  ses_ExternalGameRef :: "string option"
  ses_SourceGameDate :: "time option"
  ses_OpponentTeam :: "string option"
  ses_StartedAt :: time
  ses_EndedAt :: "time option"
  ses_Status :: string
  ses_IsSynthetic :: bool

record Pitch =
  p_ID :: uuid
  p_ExternalPitchUid :: string
  p_SessionID :: uuid
  p_PitcherAthleteID :: uuid
  p_BatterAthleteID :: "uuid option"
  p_AtBatNumber :: int
  p_PitchNumber :: int
  p_SessionPitchIndex :: int
  p_ThrownAt :: time
  p_Balls :: int
  p_Strikes :: int
  p_OutsWhenUp :: int
  p_Inning :: int
  p_InningTopbot :: "string option"
  p_Stand :: string
  p_PThrows :: string
  p_On1b :: bool
  p_On2b :: bool
  p_On3b :: bool
  p_BatScore :: "int option"
  p_FldScore :: "int option"
  p_NThruorderPitcher :: "int option"
  p_PitchType :: "string option"
  p_PitchName :: "string option"
  p_ActualOutcome :: "string option"
  p_PredictionStatus :: string
  p_CorrelationID :: "uuid option"
  p_SourceEventID :: "uuid option"

record PitchMeasurement =
  me_PitchID :: uuid
  me_DeviceID :: "uuid option"
  me_ReleaseSpeed :: "f64 option"
  me_ReleaseSpinRate :: "f64 option"
  me_SpinAxis :: "f64 option"
  me_ReleasePosX :: "f64 option"
  me_ReleasePosY :: "f64 option"
  me_ReleasePosZ :: "f64 option"
  me_ReleaseExtension :: "f64 option"
  me_PfxX :: "f64 option"
  me_PfxZ :: "f64 option"
  me_PlateX :: "f64 option"
  me_PlateZ :: "f64 option"
  me_SzTop :: "f64 option"
  me_SzBot :: "f64 option"
  me_EffectiveSpeed :: "f64 option"
  me_ArmAngle :: "f64 option"
  me_PfxXArm :: "f64 option"
  me_ReleasePosXArm :: "f64 option"
  me_PlateXBat :: "f64 option"
  me_ZoneHeightNorm :: "f64 option"
  me_InZone :: "bool option"
  me_NormalizationVersion :: int
  me_MeasurementQuality :: string

record ModelVersion =
  mv_ID :: uuid
  mv_Version :: string
  mv_Variant :: string
  mv_IsActive :: bool

record PitchPrediction =
  pp_ID :: uuid
  pp_PitchID :: uuid
  pp_ModelVersionID :: uuid
  pp_Probabilities :: "string option"
  pp_PredictedClass :: "string option"
  pp_WhiffProbability :: "f64 option"
  pp_ScoredQuantity :: f64
  pp_Score :: f64

record database =
  athletes :: "Athlete list"
  devices :: "Device list"
  sessions :: "Session list"
  pitches :: "Pitch list"
  measurements :: "PitchMeasurement list"
  model_versions :: "ModelVersion list"
  predictions :: "PitchPrediction list"

section \<open>Transactions\<close>

text \<open>
  \<open>commit_fault\<close> says whether COMMIT fails, and whether the server had applied the
  transaction by then: the error of a lost connection does not tell.
\<close>

record txfaults =
  begin_fault :: "lib_error option"
  stmt_fault :: "nat \<Rightarrow> lib_error option"
  commit_fault :: "(lib_error \<times> bool) option"

definition no_faults :: txfaults where
  "no_faults = \<lparr>begin_fault = None, stmt_fault = (\<lambda>n. None), commit_fault = None\<rparr>"

type_synonym tx = "database \<times> nat"
type_synonym 'a txm = "txfaults \<Rightarrow> tx \<Rightarrow> (goerr + 'a) \<times> tx"

definition tx_return :: "'a \<Rightarrow> 'a txm" where
  "tx_return a fl s = (Inr a, s)"

definition tx_fail :: "goerr \<Rightarrow> 'a txm" where
  "tx_fail e fl s = (Inl e, s)"

definition tx_bind :: "'a txm \<Rightarrow> ('a \<Rightarrow> 'b txm) \<Rightarrow> 'b txm" where
  "tx_bind m k fl s = (case m fl s of (Inl e, s') \<Rightarrow> (Inl e, s') | (Inr a, s') \<Rightarrow> k a fl s')"

text \<open>\<open>return fmt.Errorf(pre + "%w", err)\<close> around a statement.\<close>

definition tx_wrap :: "string \<Rightarrow> 'a txm \<Rightarrow> 'a txm" where
  "tx_wrap pre m fl s = (case m fl s of (Inl e, s') \<Rightarrow> (Inl (Wrap pre e ''''), s') | (Inr a, s') \<Rightarrow> (Inr a, s'))"

text \<open>A statement: one round trip, which may fail, and the effect of its SQL.\<close>

definition statement :: "(database \<Rightarrow> (goerr + 'a) \<times> database) \<Rightarrow> 'a txm" where
  "statement q fl s = (case s of (d, n) \<Rightarrow>
     (case stmt_fault fl n of
        Some e \<Rightarrow> (Inl (lib e), (d, n + 1))
      | None \<Rightarrow> (case q d of (Inl e, d') \<Rightarrow> (Inl e, (d, n + 1)) | (Inr a, d') \<Rightarrow> (Inr a, (d', n + 1)))))"

definition InTx :: "txfaults \<Rightarrow> 'a txm \<Rightarrow> database \<Rightarrow> (goerr + 'a) \<times> database" where
  "InTx fl fn d =
     (case begin_fault fl of
        Some e \<Rightarrow> (Inl (Wrap ''begin transaction: '' (lib e) ''''), d)
      | None \<Rightarrow> (case fn fl (d, 0) of
          (Inl e, _) \<Rightarrow> (Inl e, d)
        | (Inr a, (d', _)) \<Rightarrow> (case commit_fault fl of
            None \<Rightarrow> (Inr a, d')
          | Some (e, applied) \<Rightarrow> (Inl (Wrap ''commit transaction: '' (lib e) ''''), if applied then d' else d))))"

definition ErrNoRows :: goerr where
  "ErrNoRows = ErrorsNew ''pgx.ErrNoRows'' ''no rows in result set''"

definition IsNoRows :: "goerr \<Rightarrow> bool" where
  "IsNoRows err = errors_Is err ErrNoRows"

lemma lib_not_NoRows [simp]: "\<not> IsNoRows (lib e)"
  by (cases e) (simp_all add: IsNoRows_def errors_Is_def ErrNoRows_def context_Canceled_def)

lemma NoRows [simp]: "IsNoRows ErrNoRows"
  by (simp add: IsNoRows_def errors_Is_def ErrNoRows_def)

section \<open>Constraints\<close>

definition check_violation :: goerr where
  "check_violation = PgError ''23514'' ''new row violates check constraint''"
definition unique_violation :: goerr where
  "unique_violation = PgError ''23505'' ''duplicate key value violates unique constraint''"
definition foreign_key_violation :: goerr where
  "foreign_key_violation = PgError ''23503'' ''insert or update violates foreign key constraint''"
definition out_of_range :: goerr where
  "out_of_range = PgError ''22003'' ''integer out of range''"

definition opt_in :: "'a option \<Rightarrow> 'a list \<Rightarrow> bool" where
  "opt_in v xs = (case v of None \<Rightarrow> True | Some x \<Rightarrow> List.member xs x)"

definition between :: "f64 \<Rightarrow> f64 \<Rightarrow> f64 \<Rightarrow> bool" where
  "between lo hi x \<longleftrightarrow> f64_le lo x \<and> f64_le x hi"

definition opt_between :: "f64 \<Rightarrow> f64 \<Rightarrow> f64 option \<Rightarrow> bool" where
  "opt_between lo hi v = (case v of None \<Rightarrow> True | Some x \<Rightarrow> between lo hi x)"

definition athlete_ok :: "Athlete \<Rightarrow> bool" where
  "athlete_ok a \<longleftrightarrow> opt_in (ath_Throws a) [''L'', ''R''] \<and> opt_in (ath_Bats a) [''L'', ''R'', ''S'']
     \<and> List.member [''PITCHER'', ''BATTER'', ''TWO_WAY'', ''UNKNOWN''] (ath_PrimaryRole a)
     \<and> list_ex (\<lambda>c. c \<noteq> CHR '' '') (ath_FullName a)"

definition pitch_ok :: "Pitch \<Rightarrow> bool" where
  "pitch_ok p \<longleftrightarrow> 0 \<le> p_Balls p \<and> p_Balls p \<le> 3 \<and> 0 \<le> p_Strikes p \<and> p_Strikes p \<le> 2
     \<and> 0 \<le> p_OutsWhenUp p \<and> p_OutsWhenUp p \<le> 2 \<and> 1 \<le> p_Inning p
     \<and> 1 \<le> p_AtBatNumber p \<and> 1 \<le> p_PitchNumber p \<and> 1 \<le> p_SessionPitchIndex p
     \<and> List.member [''L'', ''R''] (p_Stand p) \<and> List.member [''L'', ''R''] (p_PThrows p)
     \<and> opt_in (p_InningTopbot p) [''Top'', ''Bot'']
     \<and> opt_in (p_ActualOutcome p) [''BALL'', ''CALLED_STRIKE'', ''SWINGING_STRIKE'', ''FOUL'', ''IN_PLAY'', ''OTHER'']
     \<and> List.member [''PENDING'', ''OK'', ''FAILED'', ''SKIPPED''] (p_PredictionStatus p)"

definition measurement_ok :: "PitchMeasurement \<Rightarrow> bool" where
  "measurement_ok r \<longleftrightarrow> opt_between (Fin 40) (Fin 110) (me_ReleaseSpeed r)
     \<and> opt_between (Fin 0) (Fin 4000) (me_ReleaseSpinRate r)
     \<and> opt_between (Fin 0) (Fin 360) (me_SpinAxis r)
     \<and> opt_between (Fin 3) (Fin 9) (me_ReleaseExtension r)
     \<and> opt_between (Fin 0) (Fin 8) (me_ReleasePosZ r)
     \<and> List.member [''OK'', ''PARTIAL'', ''SUSPECT''] (me_MeasurementQuality r)
     \<and> 1 \<le> me_NormalizationVersion r"

definition prediction_ok :: "PitchPrediction \<Rightarrow> bool" where
  "prediction_ok r \<longleftrightarrow>
     opt_in (pp_PredictedClass r) [''BALL'', ''CALLED_STRIKE'', ''SWINGING_STRIKE'', ''FOUL'', ''IN_PLAY'']
     \<and> between (Fin 0) (Fin 200) (pp_Score r)
     \<and> opt_between (Fin 0) (Fin 1) (pp_WhiffProbability r)
     \<and> ((pp_Probabilities r \<noteq> None \<and> pp_PredictedClass r \<noteq> None \<and> pp_WhiffProbability r = None)
        \<or> (pp_Probabilities r = None \<and> pp_PredictedClass r = None \<and> pp_WhiffProbability r \<noteq> None))"

section \<open>Statements\<close>

text \<open>Replace the first row that satisfies a condition (at most one does).\<close>

definition update_where :: "('r \<Rightarrow> bool) \<Rightarrow> ('r \<Rightarrow> 'r) \<Rightarrow> 'r list \<Rightarrow> 'r list" where
  "update_where P f rs = map (\<lambda>r. if P r then f r else r) rs"

definition coalesce :: "'a option \<Rightarrow> 'a option \<Rightarrow> 'a option" where
  "coalesce a b = (case a of Some x \<Rightarrow> Some x | None \<Rightarrow> b)"

definition merge_role :: "string \<Rightarrow> string \<Rightarrow> string" where
  "merge_role old new =
     (if old = ''UNKNOWN'' then new
      else if old \<noteq> new \<and> new \<noteq> ''UNKNOWN'' then ''TWO_WAY'' else old)"

definition UpsertAthlete :: "Athlete \<Rightarrow> Athlete txm" where
  "UpsertAthlete a = statement (\<lambda>d.
     if \<not> athlete_ok a then (Inl check_violation, d)
     else (case find (\<lambda>r. ath_MlbamID r = ath_MlbamID a) (athletes d) of
       Some old \<Rightarrow>
         (let new = old\<lparr>ath_FullName := ath_FullName a,
                        ath_Throws := coalesce (ath_Throws a) (ath_Throws old),
                        ath_Bats := coalesce (ath_Bats a) (ath_Bats old),
                        ath_PrimaryRole := merge_role (ath_PrimaryRole old) (ath_PrimaryRole a)\<rparr>
          in (Inr new, d\<lparr>athletes := update_where (\<lambda>r. ath_MlbamID r = ath_MlbamID a) (\<lambda>r. new) (athletes d)\<rparr>))
     | None \<Rightarrow>
         if list_ex (\<lambda>r. ath_ID r = ath_ID a) (athletes d) then (Inl unique_violation, d)
         else (Inr a, d\<lparr>athletes := athletes d @ [a]\<rparr>)))"

definition UpsertDevice :: "Device \<Rightarrow> Device txm" where
  "UpsertDevice v = statement (\<lambda>d.
     if \<not> List.member [''REPLAY_SIMULATOR'', ''HAWKEYE'', ''TRACKMAN'', ''OTHER''] (dev_DeviceKind v)
     then (Inl check_violation, d)
     else (case find (\<lambda>r. dev_DeviceKey r = dev_DeviceKey v) (devices d) of
       Some old \<Rightarrow>
         (let new = old\<lparr>dev_DeviceKind := dev_DeviceKind v\<rparr>
          in (Inr new, d\<lparr>devices := update_where (\<lambda>r. dev_DeviceKey r = dev_DeviceKey v) (\<lambda>r. new) (devices d)\<rparr>))
     | None \<Rightarrow>
         if list_ex (\<lambda>r. dev_ID r = dev_ID v) (devices d) then (Inl unique_violation, d)
         else (Inr v, d\<lparr>devices := devices d @ [v]\<rparr>)))"

definition device_exists :: "database \<Rightarrow> uuid option \<Rightarrow> bool" where
  "device_exists d i = (case i of None \<Rightarrow> True | Some x \<Rightarrow> list_ex (\<lambda>r. dev_ID r = x) (devices d))"

definition athlete_exists :: "database \<Rightarrow> uuid \<Rightarrow> bool" where
  "athlete_exists d i = list_ex (\<lambda>r. ath_ID r = i) (athletes d)"

definition UpsertSession :: "Session \<Rightarrow> Session txm" where
  "UpsertSession s = statement (\<lambda>d.
     if \<not> List.member [''ACTIVE'', ''COMPLETED'', ''ABORTED''] (ses_Status s) then (Inl check_violation, d)
     else (case find (\<lambda>r. ses_ExternalSessionUid r = ses_ExternalSessionUid s) (sessions d) of
       Some old \<Rightarrow>
         (let new = old\<lparr>ses_DeviceID := coalesce (ses_DeviceID s) (ses_DeviceID old),
                        ses_OpponentTeam := coalesce (ses_OpponentTeam s) (ses_OpponentTeam old)\<rparr>
          in if device_exists d (ses_DeviceID new)
             then (Inr new, d\<lparr>sessions := update_where
                 (\<lambda>r. ses_ExternalSessionUid r = ses_ExternalSessionUid s) (\<lambda>r. new) (sessions d)\<rparr>)
             else (Inl foreign_key_violation, d))
     | None \<Rightarrow>
         if list_ex (\<lambda>r. ses_ID r = ses_ID s) (sessions d) then (Inl unique_violation, d)
         else if \<not> athlete_exists d (ses_PitcherAthleteID s) \<or> \<not> device_exists d (ses_DeviceID s)
           then (Inl foreign_key_violation, d)
         else (Inr s, d\<lparr>sessions := sessions d @ [s]\<rparr>)))"

definition session_indices :: "database \<Rightarrow> uuid \<Rightarrow> int list" where
  "session_indices d i = map p_SessionPitchIndex (filter (\<lambda>p. p_SessionID p = i) (pitches d))"

definition NextSessionPitchIndex :: "uuid \<Rightarrow> int txm" where
  "NextSessionPitchIndex i = statement (\<lambda>d.
     (let ns = session_indices d i; n = (if ns = [] then 0 else Max (set ns)) + 1
      in if 2 ^ 31 \<le> n then (Inl out_of_range, d) else (Inr n, d)))"

definition InsertPitch :: "Pitch \<Rightarrow> Pitch txm" where
  "InsertPitch p = statement (\<lambda>d.
     if \<not> pitch_ok p then (Inl check_violation, d)
     else if list_ex (\<lambda>r. p_ExternalPitchUid r = p_ExternalPitchUid p) (pitches d) then (Inl ErrNoRows, d)
     else if list_ex (\<lambda>r. p_ID r = p_ID p) (pitches d) then (Inl unique_violation, d)
     else if \<not> list_ex (\<lambda>r. ses_ID r = p_SessionID p) (sessions d)
        \<or> \<not> athlete_exists d (p_PitcherAthleteID p)
        \<or> (case p_BatterAthleteID p of None \<Rightarrow> False | Some b \<Rightarrow> \<not> athlete_exists d b)
       then (Inl foreign_key_violation, d)
     else (Inr p, d\<lparr>pitches := pitches d @ [p]\<rparr>))"

definition UpsertPitchMeasurement :: "PitchMeasurement \<Rightarrow> PitchMeasurement txm" where
  "UpsertPitchMeasurement r = statement (\<lambda>d.
     if \<not> measurement_ok r then (Inl check_violation, d)
     else if \<not> list_ex (\<lambda>p. p_ID p = me_PitchID r) (pitches d) \<or> \<not> device_exists d (me_DeviceID r)
       then (Inl foreign_key_violation, d)
     else if list_ex (\<lambda>o'. me_PitchID o' = me_PitchID r) (measurements d)
       then (Inr r, d\<lparr>measurements := update_where (\<lambda>o'. me_PitchID o' = me_PitchID r) (\<lambda>_. r) (measurements d)\<rparr>)
     else (Inr r, d\<lparr>measurements := measurements d @ [r]\<rparr>))"

definition GetActiveModelVersion :: "string \<Rightarrow> ModelVersion txm" where
  "GetActiveModelVersion variant = statement (\<lambda>d.
     case find (\<lambda>r. mv_Variant r = variant \<and> mv_IsActive r) (model_versions d) of
       None \<Rightarrow> (Inl ErrNoRows, d) | Some r \<Rightarrow> (Inr r, d))"

definition GetModelVersion :: "uuid \<Rightarrow> ModelVersion txm" where
  "GetModelVersion i = statement (\<lambda>d.
     case find (\<lambda>r. mv_ID r = i) (model_versions d) of
       None \<Rightarrow> (Inl ErrNoRows, d) | Some r \<Rightarrow> (Inr r, d))"

definition DeactivateModelVariant :: "string \<Rightarrow> unit txm" where
  "DeactivateModelVariant variant = statement (\<lambda>d.
     (Inr (), d\<lparr>model_versions := update_where (\<lambda>r. mv_Variant r = variant \<and> mv_IsActive r)
        (\<lambda>r. r\<lparr>mv_IsActive := False\<rparr>) (model_versions d)\<rparr>))"

text \<open>The partial unique index on (variant) WHERE is_active is checked row by row.\<close>

definition active_unique :: "ModelVersion list \<Rightarrow> bool" where
  "active_unique ms = distinct (map mv_Variant (filter mv_IsActive ms))"

definition MarkModelVersionActive :: "uuid \<Rightarrow> ModelVersion txm" where
  "MarkModelVersionActive i = statement (\<lambda>d.
     (let ms = update_where (\<lambda>r. mv_ID r = i) (\<lambda>r. r\<lparr>mv_IsActive := True\<rparr>) (model_versions d) in
      case find (\<lambda>r. mv_ID r = i) ms of
        None \<Rightarrow> (Inl ErrNoRows, d)
      | Some r \<Rightarrow> if active_unique ms then (Inr r, d\<lparr>model_versions := ms\<rparr>)
                  else (Inl unique_violation, d)))"

definition UpsertPitchPrediction :: "PitchPrediction \<Rightarrow> PitchPrediction txm" where
  "UpsertPitchPrediction r = statement (\<lambda>d.
     if \<not> prediction_ok r then (Inl check_violation, d)
     else if \<not> list_ex (\<lambda>p. p_ID p = pp_PitchID r) (pitches d)
        \<or> \<not> list_ex (\<lambda>v. mv_ID v = pp_ModelVersionID r) (model_versions d)
       then (Inl foreign_key_violation, d)
     else (case find (\<lambda>o'. pp_PitchID o' = pp_PitchID r \<and> pp_ModelVersionID o' = pp_ModelVersionID r) (predictions d) of
       Some old \<Rightarrow>
         (let new = r\<lparr>pp_ID := pp_ID old\<rparr> in
          (Inr new, d\<lparr>predictions := update_where
             (\<lambda>o'. pp_PitchID o' = pp_PitchID r \<and> pp_ModelVersionID o' = pp_ModelVersionID r) (\<lambda>_. new) (predictions d)\<rparr>))
     | None \<Rightarrow>
         if list_ex (\<lambda>o'. pp_ID o' = pp_ID r) (predictions d) then (Inl unique_violation, d)
         else (Inr r, d\<lparr>predictions := predictions d @ [r]\<rparr>)))"

definition ActivateModelVersion :: "txfaults \<Rightarrow> uuid \<Rightarrow> database \<Rightarrow> (goerr + ModelVersion) \<times> database" where
  "ActivateModelVersion fl i = InTx fl
     (tx_bind (tx_wrap ''load model version: '' (GetModelVersion i)) (\<lambda>target.
      tx_bind (tx_wrap (''deactivate current '' @ mv_Variant target @ '' model: '') (DeactivateModelVariant (mv_Variant target))) (\<lambda>_.
      tx_wrap ''activate model version: '' (MarkModelVersionActive i))))"

section \<open>Reasoning about transactions\<close>

text \<open>
  \<open>tx_valid P m Q\<close>: from a state in \<open>P\<close>, every successful run of \<open>m\<close>, whatever faults the
  environment chooses, ends in \<open>Q\<close> of its result.  \<open>tx_clean\<close>: no error of \<open>m\<close> is a
  duplicate signal.
\<close>

named_theorems tx_rules \<open>rules for tx_valid, one per construct and statement\<close>
named_theorems tx_clean_rules \<open>rules for tx_clean\<close>

definition tx_valid :: "(database \<Rightarrow> bool) \<Rightarrow> 'a txm \<Rightarrow> ('a \<Rightarrow> database \<Rightarrow> bool) \<Rightarrow> bool" where
  "tx_valid P m Q \<longleftrightarrow> (\<forall>fl d n a d' n'. P d \<longrightarrow> m fl (d, n) = (Inr a, (d', n')) \<longrightarrow> Q a d')"

definition tx_clean :: "'a txm \<Rightarrow> bool" where
  "tx_clean m \<longleftrightarrow> (\<forall>fl s e s'. m fl s = (Inl e, s') \<longrightarrow> \<not> errors_Is e ErrDuplicate)"

lemma tx_validD: "tx_valid P m Q \<Longrightarrow> P d \<Longrightarrow> m fl (d, n) = (Inr a, (d', n')) \<Longrightarrow> Q a d'"
  unfolding tx_valid_def by blast

lemma tx_valid_conseq: "tx_valid P m Q \<Longrightarrow> (\<And>d. P' d \<Longrightarrow> P d) \<Longrightarrow> (\<And>a d. Q a d \<Longrightarrow> Q' a d) \<Longrightarrow> tx_valid P' m Q'"
  unfolding tx_valid_def by meson

lemma tx_valid_return [tx_rules]: "(\<And>d. P d \<Longrightarrow> Q a d) \<Longrightarrow> tx_valid P (tx_return a) Q"
  by (simp add: tx_valid_def tx_return_def)

lemma tx_valid_fail [tx_rules]: "tx_valid P (tx_fail e) Q"
  by (simp add: tx_valid_def tx_fail_def)

lemma tx_valid_bind:
  "tx_valid P m R \<Longrightarrow> (\<And>a. tx_valid (R a) (k a) Q) \<Longrightarrow> tx_valid P (tx_bind m k) Q"
  unfolding tx_valid_def tx_bind_def by (fastforce split: prod.splits sum.splits)

lemma tx_valid_wrap: "tx_valid P m Q \<Longrightarrow> tx_valid P (tx_wrap pre m) Q"
  unfolding tx_valid_def tx_wrap_def by (fastforce split: prod.splits sum.splits)

lemma tx_valid_statement:
  "(\<And>d a d'. P d \<Longrightarrow> q d = (Inr a, d') \<Longrightarrow> Q a d') \<Longrightarrow> tx_valid P (statement q) Q"
  unfolding tx_valid_def statement_def by (fastforce split: option.splits prod.splits sum.splits)

lemma tx_clean_return [tx_clean_rules]: "tx_clean (tx_return a)"
  by (simp add: tx_clean_def tx_return_def)

lemma tx_clean_fail: "\<not> errors_Is e ErrDuplicate \<Longrightarrow> tx_clean (tx_fail e)"
  by (simp add: tx_clean_def tx_fail_def)

lemma tx_clean_bind [tx_clean_rules]: "tx_clean m \<Longrightarrow> (\<And>a. tx_clean (k a)) \<Longrightarrow> tx_clean (tx_bind m k)"
  unfolding tx_clean_def tx_bind_def by (fastforce split: prod.splits sum.splits)

lemma tx_clean_wrap [tx_clean_rules]: "tx_clean m \<Longrightarrow> tx_clean (tx_wrap pre m)"
  unfolding tx_clean_def tx_wrap_def by (fastforce split: prod.splits sum.splits)

lemma tx_clean_statement:
  "(\<And>d e d'. q d = (Inl e, d') \<Longrightarrow> \<not> errors_Is e ErrDuplicate) \<Longrightarrow> tx_clean (statement q)"
  unfolding tx_clean_def statement_def by (fastforce split: option.splits prod.splits sum.splits)

lemma violations_clean [simp]:
  "\<not> errors_Is check_violation ErrDuplicate" "\<not> errors_Is unique_violation ErrDuplicate"
  "\<not> errors_Is foreign_key_violation ErrDuplicate" "\<not> errors_Is out_of_range ErrDuplicate"
  "\<not> errors_Is ErrNoRows ErrDuplicate"
  by (simp_all add: check_violation_def unique_violation_def foreign_key_violation_def out_of_range_def
      errors_Is_def ErrNoRows_def ErrDuplicate_def)

lemma statements_clean [tx_clean_rules]:
  "tx_clean (UpsertAthlete a)" "tx_clean (UpsertDevice v)" "tx_clean (UpsertSession s)"
  "tx_clean (NextSessionPitchIndex i)" "tx_clean (InsertPitch r)" "tx_clean (UpsertPitchMeasurement m)"
  "tx_clean (GetActiveModelVersion x)" "tx_clean (UpsertPitchPrediction y)"
  unfolding UpsertAthlete_def UpsertDevice_def UpsertSession_def NextSessionPitchIndex_def InsertPitch_def
    UpsertPitchMeasurement_def GetActiveModelVersion_def UpsertPitchPrediction_def
  by (rule tx_clean_statement; auto simp: Let_def split: if_splits option.splits)+

text \<open>A transaction either leaves the database alone or applies a successful run of its body.\<close>

lemma InTx_cases:
  assumes "InTx fl fn d = (r, d')"
  shows "d' = d \<or> (\<exists>a n. fn fl (d, 0) = (Inr a, (d', n)))"
  using assms by (auto simp: InTx_def split: option.splits prod.splits sum.splits if_splits)

lemma InTx_Inr: "InTx fl fn d = (Inr a, d') \<Longrightarrow> \<exists>n. fn fl (d, 0) = (Inr a, (d', n))"
  by (auto simp: InTx_def split: option.splits prod.splits sum.splits if_splits)

lemma InTx_clean: "tx_clean fn \<Longrightarrow> InTx fl fn d = (Inl e, d') \<Longrightarrow> \<not> errors_Is e ErrDuplicate"
  unfolding InTx_def tx_clean_def by (auto split: option.splits prod.splits sum.splits if_splits) blast

lemma InTx_invariant: "tx_valid P fn (\<lambda>a. P) \<Longrightarrow> P d \<Longrightarrow> P (snd (InTx fl fn d))"
  using InTx_cases [of fl fn d] tx_validD [of P fn "\<lambda>a. P" d fl 0] by (metis prod.collapse)

text \<open>What the statements of the pipeline change in the three tables a pitch lives in.\<close>

definition tables :: "database \<Rightarrow> Pitch list \<times> PitchMeasurement list \<times> PitchPrediction list" where
  "tables d = (pitches d, measurements d, predictions d)"

lemma upserts_frame [tx_rules]:
  "tx_valid (\<lambda>d. P (tables d)) (UpsertAthlete a) (\<lambda>_ d. P (tables d))"
  "tx_valid (\<lambda>d. P (tables d)) (UpsertDevice v) (\<lambda>_ d. P (tables d))"
  "tx_valid (\<lambda>d. P (tables d)) (UpsertSession s) (\<lambda>_ d. P (tables d))"
  "tx_valid (\<lambda>d. P (tables d)) (GetActiveModelVersion x) (\<lambda>_ d. P (tables d))"
  unfolding UpsertAthlete_def UpsertDevice_def UpsertSession_def GetActiveModelVersion_def
  by (rule tx_valid_statement; auto simp: Let_def tables_def split: if_splits option.splits)+

lemma next_index_valid:
  "tx_valid (\<lambda>d. P (tables d)) (NextSessionPitchIndex s)
     (\<lambda>n d. P (tables d) \<and> n = (if session_indices d s = [] then 0 else Max (set (session_indices d s))) + 1)"
  unfolding NextSessionPitchIndex_def
  by (rule tx_valid_statement) (auto simp: Let_def split: if_splits)

lemma InsertPitch_valid:
  "tx_valid (\<lambda>d. P (tables d)) (InsertPitch p)
     (\<lambda>r d. r = p \<and> pitch_ok p \<and> (\<exists>ps ms prs. P (ps, ms, prs) \<and> tables d = (ps @ [p], ms, prs)
        \<and> p_ExternalPitchUid p \<notin> p_ExternalPitchUid ` set ps \<and> p_ID p \<notin> p_ID ` set ps))"
  unfolding InsertPitch_def
  by (rule tx_valid_statement) (auto simp: tables_def list_ex_iff split: if_splits)

lemma UpsertPitchMeasurement_valid:
  "tx_valid (\<lambda>d. P (tables d)) (UpsertPitchMeasurement r)
     (\<lambda>_ d. measurement_ok r \<and> (\<exists>ps ms prs. P (ps, ms, prs) \<and> tables d = (ps,
        (if me_PitchID r \<in> me_PitchID ` set ms then update_where (\<lambda>o'. me_PitchID o' = me_PitchID r) (\<lambda>_. r) ms
         else ms @ [r]), prs)))"
  unfolding UpsertPitchMeasurement_def
  by (rule tx_valid_statement)
    (auto simp: tables_def list_ex_iff image_iff split: if_splits; metis)

definition put_prediction :: "PitchPrediction \<Rightarrow> PitchPrediction list \<Rightarrow> PitchPrediction list" where
  "put_prediction r prs =
     (case find (\<lambda>o'. pp_PitchID o' = pp_PitchID r \<and> pp_ModelVersionID o' = pp_ModelVersionID r) prs of
        Some old \<Rightarrow> update_where (\<lambda>o'. pp_PitchID o' = pp_PitchID r \<and> pp_ModelVersionID o' = pp_ModelVersionID r)
                      (\<lambda>_. r\<lparr>pp_ID := pp_ID old\<rparr>) prs
      | None \<Rightarrow> prs @ [r])"

lemma UpsertPitchPrediction_valid:
  "tx_valid (\<lambda>d. P (tables d)) (UpsertPitchPrediction r)
     (\<lambda>_ d. prediction_ok r \<and> (\<exists>ps ms prs. P (ps, ms, prs) \<and> tables d = (ps, ms, put_prediction r prs)))"
  unfolding UpsertPitchPrediction_def put_prediction_def
  by (rule tx_valid_statement) (auto simp: tables_def Let_def split: if_splits option.splits)

section \<open>Transactions that succeed\<close>

text \<open>\<open>tx_runs P m Q\<close>: without faults, \<open>m\<close> started in \<open>P\<close> succeeds and ends in \<open>Q\<close>.\<close>

definition tx_runs :: "(database \<Rightarrow> bool) \<Rightarrow> 'a txm \<Rightarrow> ('a \<Rightarrow> database \<Rightarrow> bool) \<Rightarrow> bool" where
  "tx_runs P m Q \<longleftrightarrow> (\<forall>fl d n. (\<forall>k. stmt_fault fl k = None) \<longrightarrow> P d \<longrightarrow>
     (\<exists>a d' n'. m fl (d, n) = (Inr a, (d', n')) \<and> Q a d'))"

lemma tx_runs_return: "(\<And>d. P d \<Longrightarrow> Q a d) \<Longrightarrow> tx_runs P (tx_return a) Q"
  by (simp add: tx_runs_def tx_return_def)

lemma tx_runsD:
  "tx_runs P m Q \<Longrightarrow> \<forall>k. stmt_fault fl k = None \<Longrightarrow> P d \<Longrightarrow> \<exists>a d' n'. m fl (d, n) = (Inr a, (d', n')) \<and> Q a d'"
  unfolding tx_runs_def by blast

lemma tx_runs_bind:
  assumes "tx_runs P m R" "\<And>a. tx_runs (R a) (k a) Q"
  shows "tx_runs P (tx_bind m k) Q"
  unfolding tx_runs_def
proof (intro allI impI)
  fix fl :: txfaults and d and n :: nat
  assume fl: "\<forall>k. stmt_fault fl k = None" and "P d"
  then obtain a d' n' where m: "m fl (d, n) = (Inr a, (d', n'))" "R a d'"
    using tx_runsD [OF assms(1)] by blast
  from tx_runsD [OF assms(2) fl m(2)] m(1)
  show "\<exists>b d' n'. tx_bind m k fl (d, n) = (Inr b, (d', n')) \<and> Q b d'" by (simp add: tx_bind_def)
qed

lemma tx_runs_wrap:
  assumes "tx_runs P m Q"
  shows "tx_runs P (tx_wrap pre m) Q"
  unfolding tx_runs_def
proof (intro allI impI)
  fix fl :: txfaults and d and n :: nat
  assume "\<forall>k. stmt_fault fl k = None" "P d"
  with tx_runsD [OF assms] obtain a d' n' where "m fl (d, n) = (Inr a, (d', n'))" "Q a d'" by blast
  then show "\<exists>a d' n'. tx_wrap pre m fl (d, n) = (Inr a, (d', n')) \<and> Q a d'" by (simp add: tx_wrap_def)
qed

lemma tx_runs_conseq: "tx_runs P m Q \<Longrightarrow> (\<And>d. P' d \<Longrightarrow> P d) \<Longrightarrow> (\<And>a d. Q a d \<Longrightarrow> Q' a d) \<Longrightarrow> tx_runs P' m Q'"
  unfolding tx_runs_def by meson

lemma tx_runs_statement:
  assumes "\<And>d. P d \<Longrightarrow> \<exists>a d'. q d = (Inr a, d') \<and> Q a d'"
  shows "tx_runs P (statement q) Q"
  unfolding tx_runs_def
proof (intro allI impI)
  fix fl :: txfaults and d and n :: nat
  assume "\<forall>k. stmt_fault fl k = None" "P d"
  with assms [of d] show "\<exists>a d' n'. statement q fl (d, n) = (Inr a, (d', n')) \<and> Q a d'"
    by (auto simp: statement_def)
qed

lemma tx_runs_pre: "(C \<Longrightarrow> tx_runs P m Q) \<Longrightarrow> (\<And>d. P d \<Longrightarrow> C) \<Longrightarrow> tx_runs P m Q"
  unfolding tx_runs_def by blast

lemma tx_runs_frame:
  assumes "tx_runs P m Q" "tx_valid F m (\<lambda>_. F)"
  shows "tx_runs (\<lambda>d. P d \<and> F d) m (\<lambda>a d. Q a d \<and> F d)"
  unfolding tx_runs_def
proof (intro allI impI)
  fix fl :: txfaults and d and n :: nat
  assume "\<forall>k. stmt_fault fl k = None" "P d \<and> F d"
  with tx_runsD [OF assms(1)] obtain a d' n' where r: "m fl (d, n) = (Inr a, (d', n'))" "Q a d'" by blast
  with tx_validD [OF assms(2)] \<open>P d \<and> F d\<close> show "\<exists>a d' n'. m fl (d, n) = (Inr a, (d', n')) \<and> Q a d' \<and> F d'" by blast
qed

lemma InTx_runs:
  assumes "tx_runs P fn Q" "P d"
  shows "\<exists>a d'. InTx no_faults fn d = (Inr a, d') \<and> Q a d'"
proof -
  have "\<forall>k. stmt_fault no_faults k = None" by (simp add: no_faults_def)
  from tx_runsD [OF assms(1) this assms(2)] obtain a d' n' where "fn no_faults (d, 0) = (Inr a, (d', n'))" "Q a d'" by blast
  then show ?thesis by (simp add: InTx_def) (simp add: no_faults_def)
qed

section \<open>Model activation\<close>

lemma deactivate_unique:
  "active_unique ms \<Longrightarrow> active_unique (update_where (\<lambda>r. mv_Variant r = v \<and> mv_IsActive r) (\<lambda>r. r\<lparr>mv_IsActive := False\<rparr>) ms)"
  by (induction ms) (auto simp: active_unique_def update_where_def)

lemma activation_valid:
  "tx_valid (\<lambda>d. active_unique (model_versions d)) (GetModelVersion i) (\<lambda>r d. active_unique (model_versions d))"
  "tx_valid (\<lambda>d. active_unique (model_versions d)) (DeactivateModelVariant v) (\<lambda>r d. active_unique (model_versions d))"
  unfolding GetModelVersion_def DeactivateModelVariant_def
  by (rule tx_valid_statement; auto simp: deactivate_unique split: option.splits)+

lemma mark_valid:
  "tx_valid P (MarkModelVersionActive i)
     (\<lambda>r d. active_unique (model_versions d) \<and> mv_IsActive r \<and> mv_ID r = i \<and> r \<in> set (model_versions d))"
  unfolding MarkModelVersionActive_def
proof (rule tx_valid_statement, goal_cases)
  case (1 d r d')
  define ms where "ms = update_where (\<lambda>r. mv_ID r = i) (\<lambda>r. r\<lparr>mv_IsActive := True\<rparr>) (model_versions d)"
  from 1(2) have found: "find (\<lambda>r. mv_ID r = i) ms = Some r" "active_unique ms" "model_versions d' = ms"
    by (auto simp: Let_def ms_def [symmetric] split: option.splits if_splits)
  moreover have r: "r \<in> set ms" "mv_ID r = i" using found(1) unfolding find_Some_iff by (metis nth_mem)+
  moreover have "mv_IsActive r"
  proof -
    from r(1) obtain x where x: "r = (if mv_ID x = i then x\<lparr>mv_IsActive := True\<rparr> else x)"
      unfolding ms_def update_where_def set_map by (elim imageE) blast
    show ?thesis
    proof (cases "mv_ID x = i")
      case False
      with x r(2) show ?thesis by simp
    qed (simp add: x)
  qed
  ultimately show ?case by simp
qed

lemma the_active_version:
  "active_unique ms \<Longrightarrow> v \<in> set ms \<Longrightarrow> mv_IsActive v \<Longrightarrow>
     filter (\<lambda>r. mv_Variant r = mv_Variant v \<and> mv_IsActive r) ms = [v]"
proof (induction ms)
  case (Cons m ms)
  show ?case
  proof (cases "m = v")
    case True
    with Cons.prems show ?thesis by (auto simp: active_unique_def filter_empty_conv image_iff)
  next
    case False
    with Cons.prems have "v \<in> set ms" "\<not> (mv_Variant m = mv_Variant v \<and> mv_IsActive m)"
      by (force simp: active_unique_def)+
    moreover have "active_unique ms" using Cons.prems(1) by (auto simp: active_unique_def split: if_splits)
    ultimately show ?thesis using Cons.IH Cons.prems(3) by simp
  qed
qed simp

section \<open>Properties\<close>

text \<open>
  C9: activating a model keeps at most one active version per variant, whatever fails; a
  success leaves exactly the requested version active for its variant, and a failure before
  the commit leaves the database as it was.
\<close>

theorem activation_atomic:
  assumes "active_unique (model_versions d)" "ActivateModelVersion fl i d = (r, d')"
  shows "active_unique (model_versions d')
     \<and> (case r of
          Inr v \<Rightarrow> mv_ID v = i \<and> filter (\<lambda>x. mv_Variant x = mv_Variant v \<and> mv_IsActive x) (model_versions d') = [v]
        | Inl e \<Rightarrow> commit_fault fl = None \<longrightarrow> d' = d)"
proof -
  let ?body = "tx_bind (tx_wrap ''load model version: '' (GetModelVersion i)) (\<lambda>target.
      tx_bind (tx_wrap (''deactivate current '' @ mv_Variant target @ '' model: '') (DeactivateModelVariant (mv_Variant target))) (\<lambda>_.
      tx_wrap ''activate model version: '' (MarkModelVersionActive i)))"
  have valid: "tx_valid (\<lambda>d. active_unique (model_versions d)) ?body
     (\<lambda>r d. active_unique (model_versions d) \<and> mv_IsActive r \<and> mv_ID r = i \<and> r \<in> set (model_versions d))"
    by (rule tx_valid_bind tx_valid_wrap activation_valid mark_valid)+
  have run: "InTx fl ?body d = (r, d')" using assms(2) by (simp add: ActivateModelVersion_def)
  from InTx_cases [OF run] assms(1) tx_validD [OF valid] have "active_unique (model_versions d')" by blast
  moreover have "mv_ID v = i \<and> filter (\<lambda>x. mv_Variant x = mv_Variant v \<and> mv_IsActive x) (model_versions d') = [v]"
    if "r = Inr v" for v
    using InTx_Inr [of fl ?body d v d'] run that tx_validD [OF valid, of d fl 0 v d'] assms(1) the_active_version
    by blast
  moreover have "commit_fault fl = None \<longrightarrow> d' = d" if "r = Inl e" for e
    using run that by (auto simp: InTx_def split: option.splits prod.splits sum.splits)
  ultimately show ?thesis by (cases r) auto
qed

definition empty_db :: database where
  "empty_db = \<lparr>athletes = [], devices = [], sessions = [], pitches = [], measurements = [],
     model_versions = [], predictions = []\<rparr>"

definition two_models :: database where
  "two_models = empty_db\<lparr>model_versions :=
     [\<lparr>mv_ID = 1, mv_Version = ''v1'', mv_Variant = ''stuff'', mv_IsActive = True\<rparr>,
      \<lparr>mv_ID = 2, mv_Version = ''v2'', mv_Variant = ''stuff'', mv_IsActive = False\<rparr>]\<rparr>"

theorem activation_atomic_witness:
  "\<exists>v d'. ActivateModelVersion no_faults 2 two_models = (Inr v, d') \<and> active_unique (model_versions d')
     \<and> filter (\<lambda>x. mv_Variant x = mv_Variant v \<and> mv_IsActive x) (model_versions d') = [v]"
proof -
  obtain v d' where run: "ActivateModelVersion no_faults 2 two_models = (Inr v, d')"
    by (simp add: ActivateModelVersion_def InTx_def no_faults_def tx_bind_def tx_wrap_def statement_def two_models_def
        empty_db_def GetModelVersion_def DeactivateModelVariant_def MarkModelVersionActive_def update_where_def
        active_unique_def)
  have "active_unique (model_versions two_models)" by (simp add: two_models_def active_unique_def)
  from activation_atomic [OF this run] run show ?thesis by simp
qed

end
