(* ===== verification/Cache.thy ===== *)
theory Cache
  imports Events
begin

text \<open>
  internal/cache: the Redis layer.  The server is a map from key strings to values with an
  expiry; every operation takes the clock and how the server answers (\<open>Up\<close>, or \<open>Down\<close> with
  whether the command was applied before the connection failed).  A failed call is a miss:
  no operation returns an error.  SHA-256 and the rendering of a UUID are parameters.
  The running sums keep the \<open>float64\<close> values the code adds, with the server's addition.
\<close>

section \<open>Keys\<close>

definition Prefix :: string where "Prefix = ''pl:''"

definition cache_SchemaVersion :: int where "cache_SchemaVersion = 1"

definition LiveTTL :: duration where "LiveTTL = 6 * Hour"
definition SummaryTTL :: duration where "SummaryTTL = 300 * Second"
definition GenerationTTL :: duration where "GenerationTTL = 24 * Hour"

record hashing =
  sha256_hex :: "string \<Rightarrow> string"
  uuid_text :: "uuid \<Rightarrow> string"

definition Variant_key :: "hashing \<Rightarrow> string list \<Rightarrow> string" where
  "Variant_key h parts = take 16 (sha256_hex h (join_with ''|'' parts))"

definition liveKey :: "hashing \<Rightarrow> uuid \<Rightarrow> string" where
  "liveKey h sessionID = Prefix @ ''session:'' @ uuid_text h sessionID @ '':live''"

definition generationKey :: "hashing \<Rightarrow> uuid \<Rightarrow> string" where
  "generationKey h athleteID = Prefix @ ''athlete:'' @ uuid_text h athleteID @ '':gen''"

definition analyticsKey :: "hashing \<Rightarrow> uuid \<Rightarrow> int \<Rightarrow> string \<Rightarrow> string" where
  "analyticsKey h athleteID generation variant =
     Prefix @ ''athlete:'' @ uuid_text h athleteID @ '':analytics:s'' @ show_int cache_SchemaVersion
       @ '':g'' @ show_int generation @ '':'' @ variant"

definition rateLimitKey :: "hashing \<Rightarrow> string \<Rightarrow> string" where
  "rateLimitKey h key = Prefix @ ''ratelimit:login:'' @ Variant_key h [key]"

section \<open>The server\<close>

record live_hash =
  pitch_count :: int
  speed :: "(f64 \<times> int) option"
  spin :: "(f64 \<times> int) option"
  score :: "(f64 \<times> int) option"
  whiff_count :: int
  last_pitch_at :: "time option"
  current_balls :: int
  current_strikes :: int
  current_outs :: int
  current_batter :: "uuid option"

datatype rval = RCounter int | RBlob string | RHash live_hash

type_synonym redis = "string \<rightharpoonup> rval \<times> time"

definition redis_get :: "time \<Rightarrow> string \<Rightarrow> redis \<Rightarrow> rval option" where
  "redis_get now k r = (case r k of None \<Rightarrow> None | Some (v, e) \<Rightarrow> if now < e then Some v else None)"

definition redis_set :: "time \<Rightarrow> duration \<Rightarrow> string \<Rightarrow> rval \<Rightarrow> redis \<Rightarrow> redis" where
  "redis_set now ttl k v r = r(k \<mapsto> (v, now + ttl))"

definition counter_value :: "rval option \<Rightarrow> int" where
  "counter_value v = (case v of Some (RCounter i) \<Rightarrow> i | _ \<Rightarrow> 0)"

text \<open>INCR and EXPIRE in one pipeline.\<close>

definition redis_incr :: "time \<Rightarrow> duration \<Rightarrow> string \<Rightarrow> redis \<Rightarrow> int \<times> redis" where
  "redis_incr now ttl k r =
     (let n = counter_value (redis_get now k r) + 1 in (n, redis_set now ttl k (RCounter n) r))"

section \<open>The client\<close>

datatype reply = Up | Down bool

record Cache =
  cache_enabled :: bool
  server :: redis
  ops :: "(string \<times> string) list"

definition ResultHit :: string where "ResultHit = ''hit''"
definition ResultMiss :: string where "ResultMiss = ''miss''"
definition cache_ResultOK :: string where "cache_ResultOK = ''ok''"
definition ResultError :: string where "ResultError = ''error''"

text \<open>\<open>fn\<close> answers \<open>None\<close> for \<open>redis.Nil\<close>.\<close>

definition cache_call ::
  "reply \<Rightarrow> string \<Rightarrow> string \<Rightarrow> (redis \<Rightarrow> 'a option \<times> redis) \<Rightarrow> Cache \<Rightarrow> 'a option \<times> Cache" where
  "cache_call rep name success fn c =
     (if \<not> cache_enabled c then (None, c)
      else (case rep of
         Up \<Rightarrow> (case fn (server c) of
             (Some v, r) \<Rightarrow> (Some v, c\<lparr>server := r, ops := ops c @ [(name, success)]\<rparr>)
           | (None, r) \<Rightarrow> (None, c\<lparr>server := r, ops := ops c @ [(name, ResultMiss)]\<rparr>))
       | Down applied \<Rightarrow> (None, c\<lparr>server := (if applied then snd (fn (server c)) else server c),
             ops := ops c @ [(name, ResultError)]\<rparr>)))"

section \<open>Live counters\<close>

record PitchObservation =
  obs_ReleaseSpeed :: "f64 option"
  obs_ReleaseSpin :: "f64 option"
  obs_Score :: "f64 option"
  obs_IsWhiff :: bool
  obs_ThrownAt :: time
  obs_Balls :: int
  obs_Strikes :: int
  obs_Outs :: int
  obs_BatterID :: "uuid option"

definition empty_hash :: live_hash where
  "empty_hash = \<lparr>pitch_count = 0, speed = None, spin = None, score = None, whiff_count = 0,
     last_pitch_at = None, current_balls = 0, current_strikes = 0, current_outs = 0, current_batter = None\<rparr>"

definition hash_add :: "f64 option \<Rightarrow> (f64 \<times> int) option \<Rightarrow> (f64 \<times> int) option" where
  "hash_add v s = (case v of None \<Rightarrow> s
     | Some x \<Rightarrow> (case s of None \<Rightarrow> Some (f64_add (Fin 0) x, 1) | Some (t, n) \<Rightarrow> Some (f64_add t x, n + 1)))"

definition hash_record :: "PitchObservation \<Rightarrow> live_hash \<Rightarrow> live_hash" where
  "hash_record obs h = h\<lparr>
     pitch_count := pitch_count h + 1,
     speed := hash_add (obs_ReleaseSpeed obs) (speed h),
     spin := hash_add (obs_ReleaseSpin obs) (spin h),
     score := hash_add (obs_Score obs) (score h),
     whiff_count := (if obs_IsWhiff obs then whiff_count h + 1 else whiff_count h),
     current_balls := obs_Balls obs, current_strikes := obs_Strikes obs, current_outs := obs_Outs obs,
     last_pitch_at := (if IsZero (obs_ThrownAt obs) then last_pitch_at h else Some (obs_ThrownAt obs)),
     current_batter := (case obs_BatterID obs of None \<Rightarrow> current_batter h | Some b \<Rightarrow> Some b)\<rparr>"

definition live_value :: "rval option \<Rightarrow> live_hash option" where
  "live_value v = (case v of Some (RHash h) \<Rightarrow> Some h | _ \<Rightarrow> None)"

definition RecordPitch :: "hashing \<Rightarrow> time \<Rightarrow> reply \<Rightarrow> uuid \<Rightarrow> PitchObservation \<Rightarrow> Cache \<Rightarrow> Cache" where
  "RecordPitch h now rep sessionID obs c =
     snd (cache_call rep ''live_record'' cache_ResultOK (\<lambda>r.
       let k = liveKey h sessionID;
           old = (case live_value (redis_get now k r) of None \<Rightarrow> empty_hash | Some x \<Rightarrow> x)
       in (Some (), redis_set now LiveTTL k (RHash (hash_record obs old)) r)) c)"

record LiveMetrics =
  lm_PitchCount :: int
  lm_WhiffCount :: int
  lm_AvgReleaseSpeed :: "f64 option"
  lm_AvgReleaseSpin :: "f64 option"
  lm_AvgPitchScore :: "f64 option"
  lm_LastPitchAt :: "time option"
  lm_Balls :: int
  lm_Strikes :: int
  lm_Outs :: int
  lm_BatterID :: "uuid option"

definition average :: "(f64 \<times> int) option \<Rightarrow> f64 option" where
  "average s = (case s of None \<Rightarrow> None
     | Some (tot, n) \<Rightarrow> if n \<le> 0 then None else Some (f64_div tot (float64 n)))"

definition LiveSession :: "hashing \<Rightarrow> time \<Rightarrow> reply \<Rightarrow> uuid \<Rightarrow> Cache \<Rightarrow> LiveMetrics option \<times> Cache" where
  "LiveSession h now rep sessionID c =
     (case cache_call rep ''live_read'' ResultHit
             (\<lambda>r. (Some (live_value (redis_get now (liveKey h sessionID) r)), r)) c of
        (Some (Some x), c') \<Rightarrow> (Some \<lparr>lm_PitchCount = pitch_count x, lm_WhiffCount = whiff_count x,
            lm_AvgReleaseSpeed = average (speed x), lm_AvgReleaseSpin = average (spin x),
            lm_AvgPitchScore = average (score x), lm_LastPitchAt = last_pitch_at x,
            lm_Balls = current_balls x, lm_Strikes = current_strikes x, lm_Outs = current_outs x,
            lm_BatterID = current_batter x\<rparr>, c')
      | (_, c') \<Rightarrow> (None, c'))"

definition DropLiveSession :: "hashing \<Rightarrow> reply \<Rightarrow> uuid \<Rightarrow> Cache \<Rightarrow> Cache" where
  "DropLiveSession h rep sessionID c =
     snd (cache_call rep ''live_drop'' cache_ResultOK (\<lambda>r. (Some (), r(liveKey h sessionID := None))) c)"

section \<open>Analytics\<close>

definition Generation :: "hashing \<Rightarrow> time \<Rightarrow> reply \<Rightarrow> uuid \<Rightarrow> Cache \<Rightarrow> int \<times> Cache" where
  "Generation h now rep athleteID c =
     (case cache_call rep ''generation_read'' ResultHit
             (\<lambda>r. (case redis_get now (generationKey h athleteID) r of
                 Some (RCounter i) \<Rightarrow> Some i | _ \<Rightarrow> None, r)) c of
        (Some g, c') \<Rightarrow> (g, c') | (None, c') \<Rightarrow> (0, c'))"

definition InvalidateAthlete :: "hashing \<Rightarrow> time \<Rightarrow> reply \<Rightarrow> uuid \<Rightarrow> Cache \<Rightarrow> Cache" where
  "InvalidateAthlete h now rep athleteID c =
     snd (cache_call rep ''generation_bump'' cache_ResultOK
       (\<lambda>r. (Some (), snd (redis_incr now GenerationTTL (generationKey h athleteID) r))) c)"

definition GetAnalytics ::
  "hashing \<Rightarrow> (string \<Rightarrow> 'p option) \<Rightarrow> time \<Rightarrow> reply \<Rightarrow> uuid \<Rightarrow> int \<Rightarrow> string \<Rightarrow> Cache \<Rightarrow> 'p option \<times> Cache" where
  "GetAnalytics h decode now rep athleteID generation variant c =
     (case cache_call rep ''analytics_read'' ResultHit
             (\<lambda>r. (case redis_get now (analyticsKey h athleteID generation variant) r of
                 Some (RBlob b) \<Rightarrow> Some b | _ \<Rightarrow> None, r)) c of
        (None, c') \<Rightarrow> (None, c')
      | (Some raw, c') \<Rightarrow>
          if raw = '''' then (None, c')
          else (case decode raw of
             None \<Rightarrow> (None, c'\<lparr>ops := ops c' @ [(''analytics_read'', ResultError)]\<rparr>)
           | Some p \<Rightarrow> (Some p, c')))"

definition SetAnalytics ::
  "hashing \<Rightarrow> ('p \<Rightarrow> string option) \<Rightarrow> time \<Rightarrow> reply \<Rightarrow> uuid \<Rightarrow> int \<Rightarrow> string \<Rightarrow> 'p \<Rightarrow> Cache \<Rightarrow> Cache" where
  "SetAnalytics h encode now rep athleteID generation variant value c =
     (if \<not> cache_enabled c then c
      else (case encode value of
         None \<Rightarrow> c
       | Some raw \<Rightarrow> snd (cache_call rep ''analytics_write'' cache_ResultOK
           (\<lambda>r. (Some (), redis_set now SummaryTTL (analyticsKey h athleteID generation variant) (RBlob raw) r)) c)))"

section \<open>Login throttling\<close>

definition Increment :: "hashing \<Rightarrow> time \<Rightarrow> reply \<Rightarrow> string \<Rightarrow> duration \<Rightarrow> Cache \<Rightarrow> (int \<times> bool) \<times> Cache" where
  "Increment h now rep key win c =
     (case cache_call rep ''ratelimit_incr'' cache_ResultOK
             (\<lambda>r. (case redis_incr now win (rateLimitKey h key) r of (n, r') \<Rightarrow> (Some n, r'))) c of
        (Some n, c') \<Rightarrow> ((n, True), c') | (None, c') \<Rightarrow> ((0, False), c'))"

definition Forget :: "hashing \<Rightarrow> reply \<Rightarrow> string \<Rightarrow> Cache \<Rightarrow> Cache" where
  "Forget h rep key c =
     snd (cache_call rep ''ratelimit_forget'' cache_ResultOK (\<lambda>r. (Some (), r(rateLimitKey h key := None))) c)"

section \<open>Keys of one athlete\<close>

lemma analyticsKey_inject:
  "analyticsKey h a g v = analyticsKey h a g' v' \<longleftrightarrow> g = g' \<and> v = v'"
proof
  assume "analyticsKey h a g v = analyticsKey h a g' v'"
  then have eq: "show_int g @ CHR '':'' # v = show_int g' @ CHR '':'' # v'"
    by (simp add: analyticsKey_def)
  have "split_on (CHR '':'') (show_int g @ CHR '':'' # v) = split_on (CHR '':'') (show_int g' @ CHR '':'' # v')"
    by (simp only: eq)
  then have "g = g'" using show_int_no_colon by (simp add: split_on_append)
  with eq show "g = g' \<and> v = v'" by simp
qed simp

lemma generationKey_neq [simp]:
  "generationKey h a \<noteq> analyticsKey h a g v" "analyticsKey h a g v \<noteq> generationKey h a"
  by (simp_all add: generationKey_def analyticsKey_def)

lemma redis_get_set:
  "redis_get now k' (redis_set t ttl k v r) = (if k' = k then (if now < t + ttl then Some v else None) else redis_get now k' r)"
  by (simp add: redis_get_def redis_set_def)

section \<open>Live counters: what a reader sees\<close>

lemma RecordPitch_disabled: "\<not> cache_enabled c \<Longrightarrow> RecordPitch h now rep s obs c = c"
  by (simp add: RecordPitch_def cache_call_def)

definition live_of :: "hashing \<Rightarrow> time \<Rightarrow> uuid \<Rightarrow> Cache \<Rightarrow> live_hash" where
  "live_of h now s c = (case live_value (redis_get now (liveKey h s) (server c)) of None \<Rightarrow> empty_hash | Some x \<Rightarrow> x)"

lemma RecordPitch_Up:
  "cache_enabled c \<Longrightarrow> now' < now + LiveTTL \<Longrightarrow>
     live_of h now' s (RecordPitch h now Up s obs c) = hash_record obs (live_of h now s c)
     \<and> cache_enabled (RecordPitch h now Up s obs c)"
  by (simp add: RecordPitch_def cache_call_def live_of_def Let_def redis_get_set live_value_def)

lemma RecordPitch_lost:
  "cache_enabled c \<Longrightarrow> server (RecordPitch h now (Down False) s obs c) = server c"
  by (simp add: RecordPitch_def cache_call_def)

text \<open>The running counters of a list of pitches recorded while the server answers.\<close>

fun record_all :: "hashing \<Rightarrow> uuid \<Rightarrow> (time \<times> PitchObservation) list \<Rightarrow> Cache \<Rightarrow> Cache" where
  "record_all h s [] c = c"
| "record_all h s ((now, obs) # xs) c = record_all h s xs (RecordPitch h now Up s obs c)"

fun within_ttl :: "time \<Rightarrow> time \<Rightarrow> (time \<times> PitchObservation) list \<Rightarrow> bool" where
  "within_ttl t now [] \<longleftrightarrow> now < t + LiveTTL"
| "within_ttl t now ((t', obs) # xs) \<longleftrightarrow> t' < t + LiveTTL \<and> within_ttl t' now xs"

lemma record_all_live:
  "cache_enabled c \<Longrightarrow> within_ttl t now xs \<Longrightarrow> (\<forall>t'. t' < t + LiveTTL \<longrightarrow> live_of h t' s c = L) \<Longrightarrow>
     live_of h now s (record_all h s xs c) = fold hash_record (map snd xs) L
     \<and> cache_enabled (record_all h s xs c)"
proof (induction xs arbitrary: t c L)
  case (Cons x xs)
  obtain t1 obs where x: "x = (t1, obs)" by (cases x)
  have "0 < LiveTTL" by (simp add: LiveTTL_def)
  with Cons.prems x have "cache_enabled (RecordPitch h t1 Up s obs c)"
    "\<forall>t'. t' < t1 + LiveTTL \<longrightarrow> live_of h t' s (RecordPitch h t1 Up s obs c) = hash_record obs L"
    using RecordPitch_Up [of c _ t1 h s obs] RecordPitch_Up [of c t1 t1 h s obs] by auto
  from Cons.IH [OF this(1) _ this(2)] Cons.prems x show ?case by simp
qed simp

lemma fold_hash_counts:
  "pitch_count (fold hash_record os L) = pitch_count L + int (length os)
   \<and> whiff_count (fold hash_record os L) = whiff_count L + int (length (filter obs_IsWhiff os))"
  by (induction os arbitrary: L) (auto simp: hash_record_def)

lemma hash_add_count:
  "map_option snd (hash_add v s) =
     (case v of None \<Rightarrow> map_option snd s | Some x \<Rightarrow> Some (1 + (case s of None \<Rightarrow> 0 | Some (t, n) \<Rightarrow> n)))"
  by (auto simp: hash_add_def split: option.splits)

definition counted_in :: "(f64 \<times> int) option \<Rightarrow> int" where
  "counted_in s = (case s of None \<Rightarrow> 0 | Some (t, n) \<Rightarrow> n)"

lemma counted_in_add: "counted_in (hash_add v s) = counted_in s + (if v = None then 0 else 1)"
  by (auto simp: counted_in_def hash_add_def split: option.splits)

lemma fold_hash_speed:
  "counted_in (speed (fold hash_record os L)) = counted_in (speed L) + int (length (filter (\<lambda>ob. obs_ReleaseSpeed ob \<noteq> None) os))"
  by (induction os arbitrary: L) (auto simp: hash_record_def counted_in_add)

lemma fold_hash_speed_None:
  "speed (fold hash_record os L) = None \<longleftrightarrow> speed L = None \<and> filter (\<lambda>ob. obs_ReleaseSpeed ob \<noteq> None) os = []"
  by (induction os arbitrary: L) (auto simp: hash_record_def hash_add_def split: option.splits)

lemma record_all_present:
  assumes "cache_enabled c" "xs \<noteq> []" "within_ttl t now xs"
  shows "redis_get now (liveKey h s) (server (record_all h s xs c)) = Some (RHash (live_of h now s (record_all h s xs c)))"
  using assms
proof (induction xs arbitrary: t c)
  case (Cons x xs)
  obtain t1 obs where x: "x = (t1, obs)" by (cases x)
  let ?c = "RecordPitch h t1 Up s obs c"
  have e: "cache_enabled ?c" using Cons.prems(1) by (simp add: RecordPitch_def cache_call_def Let_def)
  show ?case
  proof (cases xs)
    case Nil
    with Cons.prems x show ?thesis
      by (simp add: RecordPitch_def cache_call_def live_of_def Let_def redis_get_set live_value_def)
  next
    case (Cons y ys)
    with Cons.IH [OF e, of t1] Cons.prems x show ?thesis by simp
  qed
qed simp

lemma LiveSession_present:
  "cache_enabled c \<Longrightarrow> redis_get now (liveKey h s) (server c) = Some (RHash x) \<Longrightarrow>
    \<exists>m c'. LiveSession h now Up s c = (Some m, c') \<and> lm_PitchCount m = pitch_count x
      \<and> lm_WhiffCount m = whiff_count x \<and> lm_AvgReleaseSpeed m = average (speed x)"
  by (simp add: LiveSession_def cache_call_def live_value_def)

section \<open>Analytics under invalidation\<close>

text \<open>
  One athlete's rollups, with readers and writers interleaved at every call.  A payload is
  the number of committed writes it was computed from.  A request (api/handlers_athletes.go)
  reads the generation, looks the entry up, computes from the database and stores under the
  generation it read; a writer commits and then invalidates.  \<open>a_settled\<close> is how many writes
  had been committed at the last invalidation the server acknowledged, and \<open>r_floor\<close> is that
  number when the request began.  The read of the generation is answered; an invalidation or
  a store may also fail, applied or not.
\<close>

record request =
  r_gen :: int
  r_variant :: string
  r_floor :: nat
  r_payload :: "nat option"

record asys =
  a_cache :: Cache
  a_writes :: nat
  a_settled :: nat
  a_flight :: "request list"
  a_now :: time

definition gen_now :: "hashing \<Rightarrow> uuid \<Rightarrow> time \<Rightarrow> Cache \<Rightarrow> int" where
  "gen_now h a t c = counter_value (redis_get t (generationKey h a) (server c))"

definition put_payload :: "nat \<Rightarrow> string option" where "put_payload n = Some (show_nat n)"
definition get_payload :: "string \<Rightarrow> nat option" where "get_payload s = Some (read_digits s)"

inductive analytics_step :: "hashing \<Rightarrow> uuid \<Rightarrow> time \<Rightarrow> asys \<Rightarrow> asys \<Rightarrow> bool" for h a T where
  commit: "analytics_step h a T s (s\<lparr>a_writes := a_writes s + 1\<rparr>)"
| invalidate: "a_now s \<le> t \<Longrightarrow> t < T + GenerationTTL \<Longrightarrow>
    analytics_step h a T s (s\<lparr>a_cache := InvalidateAthlete h t q a (a_cache s), a_now := t,
      a_settled := (if q = Up then a_writes s else a_settled s)\<rparr>)"
| begin_request: "a_now s \<le> t \<Longrightarrow> t < T + GenerationTTL \<Longrightarrow> Generation h t Up a (a_cache s) = (g, c') \<Longrightarrow>
    analytics_step h a T s (s\<lparr>a_cache := c', a_now := t,
      a_flight := \<lparr>r_gen = g, r_variant = v, r_floor = a_settled s, r_payload = None\<rparr> # a_flight s\<rparr>)"
| compute: "r \<in> set (a_flight s) \<Longrightarrow>
    analytics_step h a T s (s\<lparr>a_flight := r\<lparr>r_payload := Some (a_writes s)\<rparr> # remove1 r (a_flight s)\<rparr>)"
| store: "a_now s \<le> t \<Longrightarrow> t < T + GenerationTTL \<Longrightarrow> r \<in> set (a_flight s) \<Longrightarrow> r_payload r = Some n \<Longrightarrow>
    analytics_step h a T s (s\<lparr>a_cache := SetAnalytics h put_payload t q a (r_gen r) (r_variant r) n (a_cache s),
      a_now := t, a_flight := remove1 r (a_flight s)\<rparr>)"

definition analytics_start :: "time \<Rightarrow> asys" where
  "analytics_start T = \<lparr>a_cache = \<lparr>cache_enabled = True, server = Map.empty, ops = []\<rparr>, a_writes = 0,
     a_settled = 0, a_flight = [], a_now = T\<rparr>"

inductive analytics_reachable :: "hashing \<Rightarrow> uuid \<Rightarrow> time \<Rightarrow> asys \<Rightarrow> bool" for h a T where
  areach_start: "analytics_reachable h a T (analytics_start T)"
| areach_step: "analytics_reachable h a T s \<Longrightarrow> analytics_step h a T s s' \<Longrightarrow> analytics_reachable h a T s'"

text \<open>\<open>B g\<close> is how many of the writes every payload of generation \<open>g\<close> has seen at least.\<close>

definition flight_ok :: "(int \<Rightarrow> nat) \<Rightarrow> int \<Rightarrow> request \<Rightarrow> bool" where
  "flight_ok B G r \<longleftrightarrow> r_floor r \<le> B (r_gen r) \<and> r_gen r \<le> G
     \<and> (case r_payload r of None \<Rightarrow> True | Some n \<Rightarrow> B (r_gen r) \<le> n)"

definition entry_ok :: "(int \<Rightarrow> nat) \<Rightarrow> int \<Rightarrow> int \<Rightarrow> rval \<Rightarrow> bool" where
  "entry_ok B G g b \<longleftrightarrow> (\<exists>n. b = RBlob (show_nat n) \<and> B g \<le> n) \<and> g \<le> G"

definition counter_ok :: "time \<Rightarrow> (rval \<times> time) option \<Rightarrow> bool" where
  "counter_ok E x \<longleftrightarrow> (case x of None \<Rightarrow> True | Some (v, e) \<Rightarrow> (\<exists>i. v = RCounter i) \<and> E \<le> e)"

definition analytics_inv :: "hashing \<Rightarrow> uuid \<Rightarrow> time \<Rightarrow> (int \<Rightarrow> nat) \<Rightarrow> asys \<Rightarrow> bool" where
  "analytics_inv h a T B s \<longleftrightarrow>
     cache_enabled (a_cache s) \<and> T \<le> a_now s \<and> a_now s < T + GenerationTTL
   \<and> counter_ok (T + GenerationTTL) (server (a_cache s) (generationKey h a))
   \<and> (\<forall>g. B g \<le> a_writes s) \<and> a_settled s \<le> B (gen_now h a (a_now s) (a_cache s))
   \<and> (\<forall>r \<in> set (a_flight s). flight_ok B (gen_now h a (a_now s) (a_cache s)) r)
   \<and> (\<forall>g v b e. server (a_cache s) (analyticsKey h a g v) = Some (b, e) \<longrightarrow>
        entry_ok B (gen_now h a (a_now s) (a_cache s)) g b)"

lemma gen_now_stable:
  assumes "counter_ok E (server c (generationKey h a))" "t < E" "t' < E"
  shows "gen_now h a t c = gen_now h a t' c"
  using assms by (auto simp: gen_now_def redis_get_def counter_ok_def split: option.splits)

lemma gen_now_server: "server c' = server c \<Longrightarrow> gen_now h a t c' = gen_now h a t c"
  by (simp add: gen_now_def)

lemma inv_gen:
  "analytics_inv h a T B s \<Longrightarrow> t < T + GenerationTTL \<Longrightarrow>
     gen_now h a t (a_cache s) = gen_now h a (a_now s) (a_cache s)"
  unfolding analytics_inv_def using gen_now_stable [of "T + GenerationTTL"] by blast

lemma Generation_Up:
  assumes "cache_enabled c" "counter_ok E (server c (generationKey h a))" "Generation h t Up a c = (g, c')"
  shows "g = gen_now h a t c \<and> server c' = server c \<and> cache_enabled c'"
  using assms
  by (cases "server c (generationKey h a)")
    (auto simp: Generation_def cache_call_def gen_now_def redis_get_def counter_value_def counter_ok_def
      split: if_splits)

lemma InvalidateAthlete_server:
  assumes "cache_enabled c"
  shows "cache_enabled (InvalidateAthlete h t q a c)"
    "server (InvalidateAthlete h t q a c) = (if q = Down False then server c else
       (server c)(generationKey h a \<mapsto> (RCounter (gen_now h a t c + 1), t + GenerationTTL)))"
  using assms
  by (auto simp: InvalidateAthlete_def cache_call_def gen_now_def redis_incr_def redis_set_def Let_def split: reply.splits)

lemma SetAnalytics_payload:
  assumes "cache_enabled c"
  shows "cache_enabled (SetAnalytics h put_payload t q a g v n c)"
    "server (SetAnalytics h put_payload t q a g v n c) = (if q = Down False then server c else
       (server c)(analyticsKey h a g v \<mapsto> (RBlob (show_nat n), t + SummaryTTL)))"
  using assms by (auto simp: SetAnalytics_def put_payload_def cache_call_def redis_set_def split: reply.splits)

lemma inv_begin:
  assumes "analytics_inv h a T B s" "a_now s \<le> t" "t < T + GenerationTTL" "Generation h t Up a (a_cache s) = (g, c')"
  shows "analytics_inv h a T B (s\<lparr>a_cache := c', a_now := t,
      a_flight := \<lparr>r_gen = g, r_variant = v, r_floor = a_settled s, r_payload = None\<rparr> # a_flight s\<rparr>)"
proof -
  have g: "g = gen_now h a t (a_cache s)" "server c' = server (a_cache s)" "cache_enabled c'"
    using Generation_Up [OF _ _ assms(4)] assms(1) unfolding analytics_inv_def by auto
  from gen_now_server [OF g(2), of h a t] inv_gen [OF assms(1,3)] assms show ?thesis
    by (simp add: analytics_inv_def g flight_ok_def)
qed

lemma flight_remove1: "\<forall>q \<in> set fl. P q \<Longrightarrow> \<forall>q \<in> set (remove1 r fl). P q"
  by (meson notin_set_remove1)

lemma inv_compute:
  assumes "analytics_inv h a T B s" "r \<in> set (a_flight s)"
  shows "analytics_inv h a T B (s\<lparr>a_flight := r\<lparr>r_payload := Some (a_writes s)\<rparr> # remove1 r (a_flight s)\<rparr>)"
proof -
  from assms have ok: "\<forall>q \<in> set (a_flight s). flight_ok B (gen_now h a (a_now s) (a_cache s)) q"
    "B (r_gen r) \<le> a_writes s" by (simp_all add: analytics_inv_def)
  then have "flight_ok B (gen_now h a (a_now s) (a_cache s)) (r\<lparr>r_payload := Some (a_writes s)\<rparr>)"
    using assms(2) by (auto simp: flight_ok_def)
  with assms(1) flight_remove1 [OF ok(1), of r] show ?thesis by (simp add: analytics_inv_def)
qed

lemma ok_bump:
  "flight_ok B G r \<Longrightarrow> flight_ok (B(G + 1 := w)) (G + 1) r"
  "entry_ok B G g b \<Longrightarrow> entry_ok (B(G + 1 := w)) (G + 1) g b"
  by (auto simp: flight_ok_def entry_ok_def split: option.splits)

lemma inv_invalidate:
  assumes "analytics_inv h a T B s" "a_now s \<le> t" "t < T + GenerationTTL"
  shows "\<exists>B. analytics_inv h a T B (s\<lparr>a_cache := InvalidateAthlete h t q a (a_cache s), a_now := t,
      a_settled := (if q = Up then a_writes s else a_settled s)\<rparr>)"
proof (cases "q = Down False")
  case True
  have e: "cache_enabled (a_cache s)" using assms(1) by (simp add: analytics_inv_def)
  note up = InvalidateAthlete_server [OF e]
  from True have "gen_now h a t (InvalidateAthlete h t q a (a_cache s)) = gen_now h a (a_now s) (a_cache s)"
    using inv_gen [OF assms(1,3)] up gen_now_server [of "InvalidateAthlete h t q a (a_cache s)" "a_cache s" h a t] by simp
  with True assms show ?thesis by (intro exI [of _ B]) (simp add: analytics_inv_def up)
next
  case False
  have e: "cache_enabled (a_cache s)" using assms(1) by (simp add: analytics_inv_def)
  note up = InvalidateAthlete_server [OF e]
  have "0 < GenerationTTL" by (simp add: GenerationTTL_def)
  then have g: "gen_now h a t (InvalidateAthlete h t q a (a_cache s)) = gen_now h a (a_now s) (a_cache s) + 1"
    using False inv_gen [OF assms(1,3)] by (simp add: up gen_now_def redis_get_def counter_value_def)
  have "a_settled s \<le> a_writes s" using assms(1) unfolding analytics_inv_def by (metis order_trans)
  with assms False have "analytics_inv h a T (B(gen_now h a (a_now s) (a_cache s) + 1 := a_writes s))
     (s\<lparr>a_cache := InvalidateAthlete h t q a (a_cache s), a_now := t,
      a_settled := (if q = Up then a_writes s else a_settled s)\<rparr>)"
    unfolding analytics_inv_def by (auto simp: g up counter_ok_def inv_gen [OF assms(1,3)] intro!: ok_bump) blast
  then show ?thesis by blast
qed

lemma inv_store:
  assumes "analytics_inv h a T B s" "a_now s \<le> t" "t < T + GenerationTTL" "r \<in> set (a_flight s)" "r_payload r = Some n"
  shows "analytics_inv h a T B (s\<lparr>a_cache := SetAnalytics h put_payload t q a (r_gen r) (r_variant r) n (a_cache s),
      a_now := t, a_flight := remove1 r (a_flight s)\<rparr>)"
proof -
  have e: "cache_enabled (a_cache s)" using assms(1) by (simp add: analytics_inv_def)
  let ?c = "SetAnalytics h put_payload t q a (r_gen r) (r_variant r) n (a_cache s)"
  note up = SetAnalytics_payload [OF e, of h t q a "r_gen r" "r_variant r" n]
  have g: "gen_now h a t ?c = gen_now h a (a_now s) (a_cache s)"
    using inv_gen [OF assms(1,3)] by (simp add: gen_now_def redis_get_def up)
  have "flight_ok B (gen_now h a (a_now s) (a_cache s)) r"
    using assms(1,4) by (simp add: analytics_inv_def)
  then have "entry_ok B (gen_now h a (a_now s) (a_cache s)) (r_gen r) (RBlob (show_nat n))"
    using assms(5) by (auto simp: flight_ok_def entry_ok_def)
  moreover have "\<forall>q \<in> set (remove1 r (a_flight s)). flight_ok B (gen_now h a (a_now s) (a_cache s)) q"
    using assms(1) by (intro flight_remove1) (simp add: analytics_inv_def)
  ultimately show ?thesis
    using assms g unfolding analytics_inv_def by (auto simp: up analyticsKey_inject)
qed

lemma analytics_inv_step:
  "analytics_step h a T s s' \<Longrightarrow> analytics_inv h a T B s \<Longrightarrow> \<exists>B. analytics_inv h a T B s'"
proof (induction rule: analytics_step.induct)
  case (commit s)
  then show ?case by (intro exI [of _ B]) (simp add: analytics_inv_def le_Suc_eq)
qed (blast intro: inv_begin inv_compute inv_invalidate inv_store)+

lemma analytics_inv_reachable: "analytics_reachable h a T s \<Longrightarrow> \<exists>B. analytics_inv h a T B s"
proof (induction rule: analytics_reachable.induct)
  case areach_start
  then show ?case
    by (intro exI [of _ "\<lambda>g. 0"]) (simp add: analytics_inv_def analytics_start_def counter_ok_def GenerationTTL_def)
qed (use analytics_inv_step in blast)

section \<open>Properties\<close>

text \<open>
  With the server answering and no gap longer than the key's lifetime, the live view of
  an outing counts every recorded pitch once, counts its whiffs, and reports an average
  release speed exactly when some pitch had one.
\<close>

theorem live_counts_pitches:
  assumes "cache_enabled c" "server c (liveKey h s) = None" "xs \<noteq> []"
    and "within_ttl (fst (hd xs)) now xs"
  shows "\<exists>m c'. LiveSession h now Up s (record_all h s xs c) = (Some m, c')
     \<and> lm_PitchCount m = int (length xs)
     \<and> lm_WhiffCount m = int (length (filter obs_IsWhiff (map snd xs)))
     \<and> (lm_AvgReleaseSpeed m = None \<longleftrightarrow> (\<forall>ob \<in> set (map snd xs). obs_ReleaseSpeed ob = None))"
proof -
  have L: "\<forall>t'. t' < fst (hd xs) + LiveTTL \<longrightarrow> live_of h t' s c = empty_hash"
    using assms(2) by (simp add: live_of_def redis_get_def live_value_def)
  from record_all_live [OF assms(1,4) this]
  have live: "live_of h now s (record_all h s xs c) = fold hash_record (map snd xs) empty_hash"
    and e: "cache_enabled (record_all h s xs c)" by auto
  from LiveSession_present [OF e record_all_present [OF assms(1,3,4)]] obtain m c' where
    m: "LiveSession h now Up s (record_all h s xs c) = (Some m, c')"
    "lm_PitchCount m = int (length xs)" "lm_WhiffCount m = int (length (filter obs_IsWhiff (map snd xs)))"
    "lm_AvgReleaseSpeed m = average (speed (fold hash_record (map snd xs) empty_hash))"
    using fold_hash_counts [of "map snd xs" empty_hash] unfolding live by (auto simp: empty_hash_def)
  let ?S = "speed (fold hash_record (map snd xs) empty_hash)"
  have avg: "average (speed (fold hash_record os empty_hash)) = None \<longleftrightarrow> (\<forall>ob \<in> set os. obs_ReleaseSpeed ob = None)" for os
  proof (cases "speed (fold hash_record os empty_hash)")
    case None
    with fold_hash_speed_None [of os empty_hash] show ?thesis by (simp add: average_def filter_empty_conv)
  next
    case (Some tn)
    with fold_hash_speed [of os empty_hash] fold_hash_speed_None [of os empty_hash]
    have "0 < snd tn" "filter (\<lambda>ob. obs_ReleaseSpeed ob \<noteq> None) os \<noteq> []"
      by (auto simp: empty_hash_def counted_in_def split: prod.splits)
    with Some show ?thesis by (auto simp: average_def filter_empty_conv split: prod.splits)
  qed
  with m show ?thesis by auto
qed

definition plain_hashing :: hashing where
  "plain_hashing = \<lparr>sha256_hex = (\<lambda>s. s), uuid_text = show_nat\<rparr>"

definition empty_cache :: Cache where
  "empty_cache = \<lparr>cache_enabled = True, server = Map.empty, ops = []\<rparr>"

definition an_observation :: PitchObservation where
  "an_observation = \<lparr>obs_ReleaseSpeed = Some (Fin 95), obs_ReleaseSpin = None, obs_Score = None, obs_IsWhiff = True,
     obs_ThrownAt = 7, obs_Balls = 1, obs_Strikes = 2, obs_Outs = 0, obs_BatterID = None\<rparr>"

theorem live_counts_pitches_witness:
  "\<exists>m c'. LiveSession plain_hashing 9 Up 4 (record_all plain_hashing 4 [(7, an_observation), (8, an_observation)] empty_cache) = (Some m, c')
     \<and> lm_PitchCount m = int (length [(7 :: time, an_observation), (8, an_observation)])
     \<and> lm_WhiffCount m = int (length (filter obs_IsWhiff (map snd [(7 :: time, an_observation), (8, an_observation)])))
     \<and> (lm_AvgReleaseSpeed m = None \<longleftrightarrow> (\<forall>ob \<in> set (map snd [(7 :: time, an_observation), (8, an_observation)]). obs_ReleaseSpeed ob = None))"
  by (rule live_counts_pitches) (simp_all add: empty_cache_def LiveTTL_def)

text \<open>
  A pitch whose counter update fails is missing from the live view for as long as the
  key lives: the next reads are hits that count the other pitches only, and the fallback to
  the database is not taken.
\<close>

theorem lost_update_undercounts:
  assumes "cache_enabled c" "server c (liveKey h s) = None" "xs \<noteq> []" "within_ttl (fst (hd xs)) now xs"
  shows "\<exists>m c'. LiveSession h now Up s (RecordPitch h t (Down False) s obs (record_all h s xs c)) = (Some m, c')
     \<and> lm_PitchCount m = int (length xs)"
proof -
  have L: "\<forall>t'. t' < fst (hd xs) + LiveTTL \<longrightarrow> live_of h t' s c = empty_hash"
    using assms(2) by (simp add: live_of_def redis_get_def live_value_def)
  let ?c = "record_all h s xs c"
  from record_all_live [OF assms(1,4) L]
  have live: "live_of h now s ?c = fold hash_record (map snd xs) empty_hash" and e: "cache_enabled ?c" by auto
  have e': "cache_enabled (RecordPitch h t (Down False) s obs ?c)"
    using e by (simp add: RecordPitch_def cache_call_def)
  have "redis_get now (liveKey h s) (server (RecordPitch h t (Down False) s obs ?c)) = Some (RHash (live_of h now s ?c))"
    using record_all_present [OF assms(1,3,4), of h s] RecordPitch_lost [OF e] by simp
  from LiveSession_present [OF e' this] show ?thesis
    using fold_hash_counts [of "map snd xs" empty_hash] unfolding live by (auto simp: empty_hash_def)
qed

theorem lost_update_undercounts_witness:
  "\<exists>m c'. LiveSession plain_hashing 9 Up 4
        (RecordPitch plain_hashing 8 (Down False) 4 an_observation (record_all plain_hashing 4 [(7, an_observation)] empty_cache)) = (Some m, c')
     \<and> lm_PitchCount m = int (length [(7 :: time, an_observation)])"
  by (rule lost_update_undercounts) (simp_all add: empty_cache_def LiveTTL_def)


definition demo_request :: request where
  "demo_request = \<lparr>r_gen = 1, r_variant = ''v'', r_floor = 1, r_payload = None\<rparr>"

text \<open>A commit, its invalidation, a request that computes and stores, and a second one in flight.\<close>

definition demo_settled :: asys where
  "demo_settled = (analytics_start 0)\<lparr>a_writes := 1, a_settled := 1, a_now := 1,
     a_cache := InvalidateAthlete plain_hashing 1 Up 7 (a_cache (analytics_start 0))\<rparr>"

definition demo_stored :: asys where
  "demo_stored = demo_settled\<lparr>a_now := 3, a_cache := SetAnalytics plain_hashing put_payload 3 Up 7 1 ''v'' 1
     (snd (Generation plain_hashing 2 Up 7 (a_cache demo_settled)))\<rparr>"

definition demo_analytics :: asys where
  "demo_analytics = demo_stored\<lparr>a_now := 4, a_flight := [demo_request],
     a_cache := snd (Generation plain_hashing 4 Up 7 (a_cache demo_stored))\<rparr>"

lemmas cache_eval = cache_call_def redis_get_def redis_set_def redis_incr_def Let_def
lemmas demo_eval = analytics_start_def demo_settled_def demo_stored_def demo_request_def Generation_def
  InvalidateAthlete_def SetAnalytics_def put_payload_def plain_hashing_def generationKey_def analyticsKey_def
  SummaryTTL_def GenerationTTL_def counter_value_def cache_eval

lemma demo_gen_1: "fst (Generation plain_hashing 2 Up 7 (a_cache demo_settled)) = 1"
  by (simp add: demo_eval)

lemma demo_gen_2: "fst (Generation plain_hashing 4 Up 7 (a_cache demo_stored)) = 1"
  by (simp add: demo_eval)

lemma demo_reachable: "analytics_reachable plain_hashing 7 0 demo_analytics"
proof -
  let ?h = plain_hashing
  have "analytics_reachable ?h 7 0 ((analytics_start 0)\<lparr>a_writes := 1\<rparr>)"
    using areach_step [OF areach_start commit, of ?h 7 0] by (simp add: analytics_start_def)
  from areach_step [OF this invalidate, of 1 Up] have settled: "analytics_reachable ?h 7 0 demo_settled"
    by (simp add: demo_settled_def analytics_start_def GenerationTTL_def)
  have g: "Generation ?h 2 Up 7 (a_cache demo_settled) = (1, snd (Generation ?h 2 Up 7 (a_cache demo_settled)))"
    using demo_gen_1 by (metis prod.collapse)
  let ?s = "demo_settled\<lparr>a_cache := snd (Generation ?h 2 Up 7 (a_cache demo_settled)), a_now := 2, a_flight := [demo_request]\<rparr>"
  have "analytics_reachable ?h 7 0 ?s"
    using areach_step [OF settled begin_request [OF _ _ g, where v = "''v''"]]
    by (simp add: demo_settled_def analytics_start_def demo_request_def GenerationTTL_def)
  from areach_step [OF this compute, of demo_request] have
    "analytics_reachable ?h 7 0 (?s\<lparr>a_flight := [demo_request\<lparr>r_payload := Some 1\<rparr>]\<rparr>)"
    by (simp add: demo_settled_def)
  from areach_step [OF this store, of 3 "demo_request\<lparr>r_payload := Some 1\<rparr>" 1 Up] have
    stored: "analytics_reachable ?h 7 0 demo_stored"
    by (simp add: demo_stored_def demo_settled_def analytics_start_def demo_request_def GenerationTTL_def)
  have g: "Generation ?h 4 Up 7 (a_cache demo_stored) = (1, snd (Generation ?h 4 Up 7 (a_cache demo_stored)))"
    using demo_gen_2 by (metis prod.collapse)
  from areach_step [OF stored begin_request [OF _ _ g, where v = "''v''"]] show ?thesis
    by (simp add: demo_analytics_def demo_stored_def demo_settled_def analytics_start_def demo_request_def GenerationTTL_def)
qed

lemma demo_hit:
  "fst (GetAnalytics plain_hashing get_payload 5 Up 7 1 ''v'' (a_cache demo_analytics)) = Some 1"
  by (simp add: demo_analytics_def GetAnalytics_def get_payload_def demo_eval read_show_nat)


text \<open>
  Past that span the counter is not safe: it expires 24 hours after the last invalidation,
  and the next one starts it again at 1, which is a generation already used.  An entry stored
  under generation 1 just before the expiry is then served after the new invalidation.
\<close>

definition reused_generation :: Cache where
  "reused_generation =
     (let c1 = InvalidateAthlete plain_hashing 0 Up 7 empty_cache;
          c2 = SetAnalytics plain_hashing put_payload (GenerationTTL - 10 * Second) Up 7 1 ''v'' 1 c1
      in InvalidateAthlete plain_hashing (GenerationTTL + 10 * Second) Up 7 c2)"

theorem reused_generation_is_stale:
  "fst (Generation plain_hashing (GenerationTTL + 20 * Second) Up 7 reused_generation) = 1
   \<and> fst (GetAnalytics plain_hashing get_payload (GenerationTTL + 20 * Second) Up 7 1 ''v'' reused_generation) = Some 1"
  by (simp add: reused_generation_def GetAnalytics_def get_payload_def empty_cache_def demo_eval read_show_nat)

end
