(* ===== verification/RateLimit.thy ===== *)
theory RateLimit
  imports Cache
begin

text \<open>
  internal/auth/ratelimit.go: the login throttle.  The shared counter is the \<open>RemoteCounter\<close>
  interface of the source, provided by theory Cache; the in-process counter is a map of
  fixed windows.  What both promise is the locale \<open>attempt_counter\<close>.
\<close>

section \<open>The limiter\<close>

definition AccountAttemptLimit :: int where "AccountAttemptLimit = 5"
definition AddressAttemptLimit :: int where "AddressAttemptLimit = 50"
definition LoginAttemptWindow :: duration where "LoginAttemptWindow = 5 * Minute"

record window =
  win_count :: int
  win_reset :: time

type_synonym local_windows = "string \<rightharpoonup> window"

definition remaining :: "int \<Rightarrow> int \<Rightarrow> int" where
  "remaining count limit = (let left = limit - count in if 0 < left then left else 0)"

definition local_attempt :: "string \<Rightarrow> time \<Rightarrow> local_windows \<Rightarrow> int \<times> local_windows" where
  "local_attempt key now m =
     (let w0 = (case m key of
                  None \<Rightarrow> \<lparr>win_count = 0, win_reset = now + LoginAttemptWindow\<rparr>
                | Some w \<Rightarrow> if time_After now (win_reset w)
                            then \<lparr>win_count = 0, win_reset = now + LoginAttemptWindow\<rparr> else w);
          w1 = w0\<lparr>win_count := win_count w0 + 1\<rparr>;
          m1 = m(key \<mapsto> w1);
          m2 = (if 4096 < card (dom m1)
                then (\<lambda>k. case m1 k of None \<Rightarrow> None | Some v \<Rightarrow> if time_After now (win_reset v) then None else Some v)
                else m1)
      in (win_count w1, m2))"

definition allowLocal :: "string \<Rightarrow> int \<Rightarrow> time \<Rightarrow> local_windows \<Rightarrow> (bool \<times> int) \<times> local_windows" where
  "allowLocal key limit now m =
     (case local_attempt key now m of (count, m') \<Rightarrow> ((count \<le> limit, remaining count limit), m'))"

record Limiter =
  remote :: "Cache option"
  local_map :: local_windows

definition NewLimiter :: "Cache option \<Rightarrow> Limiter" where
  "NewLimiter c = \<lparr>remote = c, local_map = Map.empty\<rparr>"

definition Limiter_Allow :: "hashing \<Rightarrow> reply \<Rightarrow> string \<Rightarrow> int \<Rightarrow> time \<Rightarrow> Limiter \<Rightarrow> (bool \<times> int) \<times> Limiter" where
  "Limiter_Allow h rep key limit now l =
     (let fallback = (\<lambda>l. case allowLocal key limit now (local_map l) of (r, m) \<Rightarrow> (r, l\<lparr>local_map := m\<rparr>)) in
      case remote l of
        None \<Rightarrow> fallback l
      | Some c \<Rightarrow> (case Increment h now rep key LoginAttemptWindow c of
          ((count, True), c') \<Rightarrow> ((count \<le> limit, remaining count limit), l\<lparr>remote := Some c'\<rparr>)
        | ((count, False), c') \<Rightarrow> fallback (l\<lparr>remote := Some c'\<rparr>)))"

definition Limiter_Reset :: "hashing \<Rightarrow> reply \<Rightarrow> string \<Rightarrow> Limiter \<Rightarrow> Limiter" where
  "Limiter_Reset h rep key l =
     (let l = (case remote l of None \<Rightarrow> l | Some c \<Rightarrow> l\<lparr>remote := Some (Forget h rep key c)\<rparr>)
      in l\<lparr>local_map := (local_map l)(key := None)\<rparr>)"

section \<open>What a counter promises\<close>

text \<open>
  \<open>live k t s\<close> is the number of attempts on \<open>k\<close> a reader at \<open>t\<close> would find counted, and
  \<open>opened k s\<close> the instant until which they are guaranteed to stay counted.
\<close>

locale attempt_counter =
  fixes attempt :: "string \<Rightarrow> time \<Rightarrow> 's \<Rightarrow> int \<times> 's"
    and live :: "string \<Rightarrow> time \<Rightarrow> 's \<Rightarrow> int"
    and opened :: "string \<Rightarrow> 's \<Rightarrow> time"
    and ok :: "time \<Rightarrow> 's \<Rightarrow> bool"
    and keys :: "string set"
    and width :: duration
  assumes ok_mono: "ok t s \<Longrightarrow> t \<le> t' \<Longrightarrow> ok t' s"
    and ok_attempt: "ok t s \<Longrightarrow> k \<in> keys \<Longrightarrow> attempt k t s = (n, s') \<Longrightarrow> ok t s'"
    and attempt_counts: "attempt k t s = (n, s') \<Longrightarrow> n = live k t s + 1"
    and attempt_stays: "attempt k t s = (n, s') \<Longrightarrow> t \<le> t' \<Longrightarrow> t' < opened k s' \<Longrightarrow> live k t' s' = n"
    and attempt_opens: "ok t s \<Longrightarrow> attempt k t s = (n, s') \<Longrightarrow> live k t s = 0 \<Longrightarrow> t + width \<le> opened k s'"
    and attempt_keeps: "ok t s \<Longrightarrow> k \<in> keys \<Longrightarrow> attempt k t s = (n, s') \<Longrightarrow> 0 < live k t s \<Longrightarrow> t < opened k s
        \<Longrightarrow> opened k s \<le> opened k s'"
    and attempt_other: "attempt k t s = (n, s') \<Longrightarrow> k \<noteq> k' \<Longrightarrow> t \<le> t' \<Longrightarrow> live k' t' s' = live k' t' s"
    and attempt_other_opened: "attempt k t s = (n, s') \<Longrightarrow> k \<noteq> k' \<Longrightarrow> t < opened k' s \<Longrightarrow> opened k' s' = opened k' s"
begin

text \<open>A sequence of attempts, and the counts given to one of the keys.\<close>

primrec counts :: "string \<Rightarrow> (string \<times> time) list \<Rightarrow> 's \<Rightarrow> int list" where
  "counts k [] s = []"
| "counts k (kt # kts) s =
     (case attempt (fst kt) (snd kt) s of (n, s') \<Rightarrow>
        (if fst kt = k then n # counts k kts s' else counts k kts s'))"

lemma counts_from:
  assumes "ok t0 s" "fst ` set kts \<subseteq> keys"
    and "sorted (map snd kts)" "\<forall>kt \<in> set kts. t0 \<le> snd kt \<and> snd kt < E" "E \<le> opened k s"
    and "\<forall>t'. t0 \<le> t' \<and> t' < opened k s \<longrightarrow> live k t' s = c" "0 < c"
  shows "counts k kts s = map (\<lambda>i. c + int i + 1) [0..<length (filter (\<lambda>kt. fst kt = k) kts)]"
  using assms
proof (induction kts arbitrary: s c t0)
  case (Cons kt kts)
  obtain k1 t1 where kt: "kt = (k1, t1)" by (cases kt)
  obtain n s' where a: "attempt k1 t1 s = (n, s')" by fastforce
  have t1: "t0 \<le> t1" "t1 < E" "k1 \<in> keys" using Cons.prems(2,4) kt by auto
  have ok: "ok t1 s" using ok_mono [OF Cons.prems(1) t1(1)] .
  have rest: "ok t1 s'" "fst ` set kts \<subseteq> keys" "sorted (map snd kts)" "\<forall>q \<in> set kts. t1 \<le> snd q \<and> snd q < E"
    using Cons.prems(2-4) kt ok_attempt [OF ok t1(3) a] by auto
  show ?case
  proof (cases "k1 = k")
    case True
    have c: "live k t1 s = c" using Cons.prems(5,6) t1 by auto
    then have n: "n = c + 1" using attempt_counts [OF a] True by simp
    have op: "E \<le> opened k s'"
      using attempt_keeps [OF ok t1(3) a] True c Cons.prems(5,7) t1 by auto
    have "\<forall>t'. t1 \<le> t' \<and> t' < opened k s' \<longrightarrow> live k t' s' = c + 1"
      using attempt_stays [OF a] True n by auto
    from Cons.IH [OF rest op this] Cons.prems(7)
    have "counts k kts s' = map (\<lambda>i. c + 1 + int i + 1) [0..<length (filter (\<lambda>kt. fst kt = k) kts)]" by simp
    with True kt a n show ?thesis
      by (simp add: map_upt_Suc algebra_simps del: upt_Suc)
  next
    case False
    have op: "opened k s' = opened k s"
      using attempt_other_opened [OF a False] Cons.prems(5) t1 by auto
    have "\<forall>t'. t1 \<le> t' \<and> t' < opened k s' \<longrightarrow> live k t' s' = c"
      using attempt_other [OF a False] Cons.prems(6) t1 by (auto simp: op)
    from Cons.IH [OF rest _ this Cons.prems(7)] Cons.prems(5) False kt a show ?thesis
      by (simp add: op)
  qed
qed simp

text \<open>From a fresh window, the attempts on a key within the window's width count 1, 2, 3, ...\<close>

lemma counts_window:
  assumes "ok (snd (hd kts)) s" "fst ` set kts \<subseteq> keys"
    and "sorted (map snd kts)" "kts \<noteq> []" "fst (hd kts) = k" "live k (snd (hd kts)) s = 0"
    and "\<forall>kt \<in> set kts. snd kt < snd (hd kts) + width"
  shows "counts k kts s = map (\<lambda>i. int i + 1) [0..<length (filter (\<lambda>kt. fst kt = k) kts)]"
proof -
  obtain t kts' where kts: "kts = (k, t) # kts'" using assms(4,5) by (cases kts) auto
  obtain n s' where a: "attempt k t s = (n, s')" by fastforce
  have ok: "ok t s" "k \<in> keys" using assms(1,2) kts by auto
  have n: "n = 1" using attempt_counts [OF a] assms(6) kts by simp
  have "t + width \<le> opened k s'" using attempt_opens [OF ok(1) a] assms(6) kts by simp
  moreover have "\<forall>t'. t \<le> t' \<and> t' < opened k s' \<longrightarrow> live k t' s' = 1"
    using attempt_stays [OF a] n by auto
  ultimately have "counts k kts' s' = map (\<lambda>i. 1 + int i + 1) [0..<length (filter (\<lambda>kt. fst kt = k) kts')]"
    using assms(2,3,7) kts ok_attempt [OF ok a] by (intro counts_from [of t s' _ "t + width"]) auto
  then show ?thesis using kts a n by (simp add: map_upt_Suc algebra_simps del: upt_Suc)
qed

lemma counts_fresh:
  assumes "ok t0 s" "fst ` set kts \<subseteq> keys" "sorted (map snd kts)"
    and "\<forall>kt \<in> set kts. t0 \<le> snd kt \<and> snd kt < E" "E \<le> t0 + width" "\<forall>t'. t0 \<le> t' \<longrightarrow> live k t' s = 0"
  shows "counts k kts s = map (\<lambda>i. int i + 1) [0..<length (filter (\<lambda>kt. fst kt = k) kts)]"
  using assms
proof (induction kts arbitrary: s t0)
  case (Cons kt kts)
  have t: "t0 \<le> snd kt" "snd kt < E" using Cons.prems(4) by auto
  show ?case
  proof (cases "fst kt = k")
    case True
    have "\<forall>q \<in> set (kt # kts). snd q < snd kt + width" using Cons.prems(4,5) t by fastforce
    with True Cons.prems(1-3,6) t ok_mono [OF Cons.prems(1) t(1)] show ?thesis
      by (intro counts_window) auto
  next
    case False
    obtain n s' where a: "attempt (fst kt) (snd kt) s = (n, s')" by fastforce
    have ok: "ok (snd kt) s" using ok_mono [OF Cons.prems(1) t(1)] .
    have "\<forall>t'. snd kt \<le> t' \<longrightarrow> live k t' s' = 0"
      using attempt_other [OF a False] Cons.prems(6) t(1) by auto
    then have "counts k kts s' = map (\<lambda>i. int i + 1) [0..<length (filter (\<lambda>kt. fst kt = k) kts)]"
      using Cons.prems(2-5) t(1) ok_attempt [OF ok _ a] by (intro Cons.IH [of "snd kt"]) auto
    with False a show ?thesis by simp
  qed
qed simp

text \<open>So at most \<open>limit\<close> of them are within the limit.\<close>

lemma allowed_fresh:
  assumes "ok t0 s" "fst ` set kts \<subseteq> keys" "sorted (map snd kts)"
    and "\<forall>kt \<in> set kts. t0 \<le> snd kt \<and> snd kt < t0 + width" "\<forall>t'. t0 \<le> t' \<longrightarrow> live k t' s = 0" "0 \<le> limit"
  shows "int (length (filter (\<lambda>n. n \<le> limit) (counts k kts s)))
    = min limit (int (length (filter (\<lambda>kt. fst kt = k) kts)))"
proof -
  have "int (length (filter (\<lambda>n. n \<le> limit) (map (\<lambda>i. int i + 1) [0..<m]))) = min limit (int m)" for m
    using assms(6) by (induction m) auto
  then show ?thesis unfolding counts_fresh [OF assms(1-4) order_refl assms(5)] .
qed

end

section \<open>The two counters keep the promise\<close>

definition local_live :: "string \<Rightarrow> time \<Rightarrow> local_windows \<Rightarrow> int" where
  "local_live k t m = (case m k of None \<Rightarrow> 0 | Some w \<Rightarrow> if time_After t (win_reset w) then 0 else win_count w)"

definition local_opened :: "string \<Rightarrow> local_windows \<Rightarrow> time" where
  "local_opened k m = (case m k of None \<Rightarrow> 0 | Some w \<Rightarrow> win_reset w + 1)"

lemma local_attempt_simps:
  assumes "local_attempt k t m = (n, m')"
  shows "n = local_live k t m + 1"
    "m' k = Some \<lparr>win_count = n, win_reset = (if local_opened k m \<le> t \<or> m k = None then t + LoginAttemptWindow else local_opened k m - 1)\<rparr>"
    "k' \<noteq> k \<Longrightarrow> m' k' = m k' \<or> (m' k' = None \<and> (\<exists>w. m k' = Some w \<and> win_reset w < t))"
  using assms
  by (auto simp: local_attempt_def local_live_def local_opened_def Let_def time_After_def LoginAttemptWindow_def
      split: option.splits if_splits)

definition local_ok :: "time \<Rightarrow> local_windows \<Rightarrow> bool" where
  "local_ok t m \<longleftrightarrow> (\<forall>k w. m k = Some w \<longrightarrow> 1 \<le> win_count w)"

lemma local_live_nonneg: "local_ok t m \<Longrightarrow> 0 \<le> local_live k t' m"
  by (auto simp: local_live_def local_ok_def split: option.splits) force

lemma local_ok_attempt: "local_ok t m \<Longrightarrow> local_attempt k t m = (n, m') \<Longrightarrow> local_ok t m'"
  unfolding local_ok_def
proof (intro allI impI)
  fix k' w
  assume m: "\<forall>k w. m k = Some w \<longrightarrow> 1 \<le> win_count w" and a: "local_attempt k t m = (n, m')" and w: "m' k' = Some w"
  show "1 \<le> win_count w"
  proof (cases "k' = k")
    case True
    have "0 \<le> local_live k t m" using m by (intro local_live_nonneg) (simp add: local_ok_def)
    with w True local_attempt_simps(1,2) [OF a] show ?thesis by auto
  next
    case False
    with w m local_attempt_simps(3) [OF a False] show ?thesis by auto
  qed
qed

interpretation loc: attempt_counter local_attempt local_live local_opened local_ok UNIV LoginAttemptWindow
proof (unfold_locales, goal_cases)
  case (1 t s t') then show ?case by (simp add: local_ok_def)
next
  case (2 t s k n s') from local_ok_attempt [OF 2(1,3)] show ?case .
next
  case (3 k t s n s') then show ?case by (rule local_attempt_simps(1))
next
  case (4 k t s n s' t')
  then show ?case by (simp add: local_live_def local_opened_def local_attempt_simps(2) [OF 4(1)] time_After_def)
next
  case (5 t s k n s')
  have "s k = None \<or> local_opened k s \<le> t"
    using 5(1,3) by (fastforce simp: local_ok_def local_live_def local_opened_def time_After_def split: option.splits if_splits)
  then show ?case by (auto simp: local_opened_def [of k s'] local_attempt_simps(2) [OF 5(2)])
next
  case (6 t s k n s')
  then show ?case
    by (auto simp: local_opened_def [of k s'] local_attempt_simps(2) [OF 6(3)] local_live_def split: option.splits)
next
  case (7 k t s n s' k' t')
  from local_attempt_simps(3) [OF 7(1), of k'] 7(2,3) show ?case
    by (auto simp: local_live_def time_After_def)
next
  case (8 k t s n s' k')
  from local_attempt_simps(3) [OF 8(1), of k'] 8(2,3) show ?case
    by (auto simp: local_opened_def)
qed

definition shared_attempt :: "string \<Rightarrow> time \<Rightarrow> redis \<Rightarrow> int \<times> redis" where
  "shared_attempt k now r = redis_incr now LoginAttemptWindow k r"

definition shared_live :: "string \<Rightarrow> time \<Rightarrow> redis \<Rightarrow> int" where
  "shared_live k t r = counter_value (redis_get t k r)"

definition shared_opened :: "string \<Rightarrow> redis \<Rightarrow> time" where
  "shared_opened k r = (case r k of None \<Rightarrow> 0 | Some (v, e) \<Rightarrow> e)"

definition shared_keys :: "hashing \<Rightarrow> string set" where
  "shared_keys h = range (rateLimitKey h)"

definition shared_ok :: "hashing \<Rightarrow> time \<Rightarrow> redis \<Rightarrow> bool" where
  "shared_ok h t r \<longleftrightarrow> 0 \<le> t \<and> (\<forall>k \<in> shared_keys h. shared_opened k r \<le> t + LoginAttemptWindow)"

lemma shared_attempt_simps:
  "shared_attempt k t r = (n, r') \<Longrightarrow>
     n = shared_live k t r + 1 \<and> r' = r(k \<mapsto> (RCounter n, t + LoginAttemptWindow))"
  by (auto simp: shared_attempt_def shared_live_def redis_incr_def redis_set_def Let_def)

interpretation shr: attempt_counter shared_attempt shared_live shared_opened "shared_ok h" "shared_keys h" LoginAttemptWindow
proof (unfold_locales, goal_cases)
  case (1 t s t') then show ?case by (fastforce simp: shared_ok_def)
next
  case (2 t s k n s')
  with shared_attempt_simps [OF 2(3)] show ?case by (auto simp: shared_ok_def shared_opened_def)
next
  case (3 k t s n s') then show ?case using shared_attempt_simps by blast
next
  case (4 k t s n s' t')
  with shared_attempt_simps [OF 4(1)] show ?case
    by (auto simp: shared_live_def [of k t'] redis_get_def counter_value_def shared_opened_def)
next
  case (5 t s k n s') with shared_attempt_simps [OF 5(2)] show ?case by (simp add: shared_opened_def)
next
  case (6 t s k n s')
  then have "shared_opened k s \<le> t + LoginAttemptWindow" by (simp add: shared_ok_def)
  with shared_attempt_simps [OF 6(3)] show ?case by (simp add: shared_opened_def)
next
  case (7 k t s n s' k' t') with shared_attempt_simps [OF 7(1)] show ?case by (simp add: shared_live_def redis_get_def)
next
  case (8 k t s n s' k') with shared_attempt_simps [OF 8(1)] show ?case by (simp add: shared_opened_def)
qed

section \<open>Runs of the limiter\<close>

text \<open>A sequence of attempts, each with how the server answers, and the answers for one key.\<close>

type_synonym attempt_event = "string \<times> time \<times> reply"

fun answers :: "hashing \<Rightarrow> string \<Rightarrow> int \<Rightarrow> attempt_event list \<Rightarrow> Limiter \<Rightarrow> bool list" where
  "answers h k limit [] l = []"
| "answers h k limit ((key, now, rep) # evs) l =
     (case Limiter_Allow h rep key limit now l of (r, l') \<Rightarrow>
        (if key = k then fst r # answers h k limit evs l' else answers h k limit evs l'))"

definition falls_back :: "attempt_event \<Rightarrow> bool" where
  "falls_back e = (snd (snd e) \<noteq> Up)"

definition reaches :: "attempt_event \<Rightarrow> bool" where
  "reaches e = (snd (snd e) \<noteq> Down False)"

definition local_events :: "attempt_event list \<Rightarrow> (string \<times> time) list" where
  "local_events evs = map (\<lambda>e. (fst e, fst (snd e))) (filter falls_back evs)"

definition shared_events :: "hashing \<Rightarrow> attempt_event list \<Rightarrow> (string \<times> time) list" where
  "shared_events h evs = map (\<lambda>e. (rateLimitKey h (fst e), fst (snd e))) (filter reaches evs)"

lemma Allow_local:
  "remote l = None \<Longrightarrow> Limiter_Allow h rep key limit now l =
     (case local_attempt key now (local_map l) of (n, m) \<Rightarrow> ((n \<le> limit, remaining n limit), l\<lparr>local_map := m\<rparr>))"
  by (simp add: Limiter_Allow_def allowLocal_def Let_def split: prod.splits)

lemma Allow_Up:
  "remote l = Some c \<Longrightarrow> cache_enabled c \<Longrightarrow> shared_attempt (rateLimitKey h key) now (server c) = (n, r) \<Longrightarrow>
     \<exists>c'. Limiter_Allow h Up key limit now l = ((n \<le> limit, remaining n limit), l\<lparr>remote := Some c'\<rparr>)
       \<and> cache_enabled c' \<and> server c' = r"
  by (auto simp: Limiter_Allow_def Increment_def cache_call_def shared_attempt_def Let_def split: prod.splits)

lemma Allow_Down:
  "remote l = Some c \<Longrightarrow> cache_enabled c \<Longrightarrow> local_attempt key now (local_map l) = (n, m) \<Longrightarrow>
     \<exists>c'. Limiter_Allow h (Down ap) key limit now l = ((n \<le> limit, remaining n limit), l\<lparr>remote := Some c', local_map := m\<rparr>)
       \<and> cache_enabled c' \<and> server c' = (if ap then snd (shared_attempt (rateLimitKey h key) now (server c)) else server c)"
  by (auto simp: Limiter_Allow_def Increment_def cache_call_def shared_attempt_def allowLocal_def Let_def split: prod.splits)

lemma answers_local:
  "remote l = None \<Longrightarrow> answers h k limit evs l
     = map (\<lambda>n. n \<le> limit) (loc.counts k (map (\<lambda>e. (fst e, fst (snd e))) evs) (local_map l))"
  by (induction h k limit evs l rule: answers.induct) (auto simp: Allow_local split: prod.splits)

lemma answers_shared:
  "remote l = Some c \<Longrightarrow> cache_enabled c \<Longrightarrow>
     length (filter id (answers h k limit evs l))
       \<le> length (filter (\<lambda>n. n \<le> limit) (shr.counts (rateLimitKey h k) (shared_events h evs) (server c)))
        + length (filter (\<lambda>n. n \<le> limit) (loc.counts k (local_events evs) (local_map l)))"
proof (induction evs arbitrary: l c)
  case (Cons e evs)
  obtain key now rep where e: "e = (key, now, rep)" by (cases e)
  obtain n r where sh: "shared_attempt (rateLimitKey h key) now (server c) = (n, r)" by fastforce
  obtain n2 m where lo: "local_attempt key now (local_map l) = (n2, m)" by fastforce
  show ?case
  proof (cases rep)
    case Up
    from Allow_Up [OF Cons.prems sh, of limit] obtain c' where
      "Limiter_Allow h Up key limit now l = ((n \<le> limit, remaining n limit), l\<lparr>remote := Some c'\<rparr>)"
      "cache_enabled c'" "server c' = r" by blast
    with Cons.IH [of "l\<lparr>remote := Some c'\<rparr>" c'] e Up sh show ?thesis
      by (auto simp: shared_events_def local_events_def reaches_def falls_back_def)
  next
    case (Down ap)
    from Allow_Down [OF Cons.prems lo, of h ap limit] obtain c' where
      "Limiter_Allow h (Down ap) key limit now l = ((n2 \<le> limit, remaining n2 limit), l\<lparr>remote := Some c', local_map := m\<rparr>)"
      "cache_enabled c'" "server c' = (if ap then snd (shared_attempt (rateLimitKey h key) now (server c)) else server c)"
      by blast
    with Cons.IH [of "l\<lparr>remote := Some c', local_map := m\<rparr>" c'] e Down sh lo show ?thesis
      by (cases ap) (auto simp: shared_events_def local_events_def reaches_def falls_back_def)
  qed
qed (simp add: shared_events_def local_events_def)

definition in_window :: "time \<Rightarrow> attempt_event list \<Rightarrow> bool" where
  "in_window t0 evs \<longleftrightarrow> 0 \<le> t0 \<and> sorted (map (\<lambda>e. fst (snd e)) evs)
     \<and> (\<forall>e \<in> set evs. t0 \<le> fst (snd e) \<and> fst (snd e) < t0 + LoginAttemptWindow)"

lemma sorted_events: "sorted (map f evs) \<Longrightarrow> sorted (map f (filter P evs))"
  by (simp add: sorted_filter)

section \<open>Properties\<close>

text \<open>
  C8: in process, within one window of the first attempt, exactly the first \<open>limit\<close> attempts
  on a key are allowed, whatever other keys are tried in between and whether or not the
  sweep of expired windows runs.
\<close>

theorem local_limit_exact:
  assumes "in_window t0 evs" "0 \<le> limit" "remote l = None" "local_map l k = None" "local_ok t0 (local_map l)"
  shows "int (length (filter id (answers h k limit evs l))) = min limit (int (length (filter (\<lambda>e. fst e = k) evs)))"
proof -
  let ?kts = "map (\<lambda>e. (fst e, fst (snd e))) evs"
  have "int (length (filter (\<lambda>n. n \<le> limit) (loc.counts k ?kts (local_map l))))
      = min limit (int (length (filter (\<lambda>kt. fst kt = k) ?kts)))"
    using assms by (intro loc.allowed_fresh [where ?t0.0 = t0]) (auto simp: in_window_def comp_def local_live_def)
  moreover have "length (filter (\<lambda>kt. fst kt = k) ?kts) = length (filter (\<lambda>e. fst e = k) evs)"
    by (simp add: filter_map comp_def)
  ultimately show ?thesis by (simp add: answers_local [OF assms(3)] filter_map comp_def)
qed

theorem local_limit_exact_witness:
  "int (length (filter id (answers plain_hashing ''ada'' 5 [(''ada'', 1, Up), (''bob'', 2, Up), (''ada'', 3, Up)] (NewLimiter None))))
     = min 5 (int (length (filter (\<lambda>e. fst e = ''ada'') [(''ada'', 1 :: time, Up), (''bob'', 2, Up), (''ada'', 3, Up)])))"
  by (rule local_limit_exact [where ?t0.0 = 1])
    (simp_all add: in_window_def LoginAttemptWindow_def NewLimiter_def local_ok_def)

text \<open>
  Disturbing the shared counter buys an attacker at most one more budget: with the
  server answering or failing in any pattern, within one window at most \<open>2 * limit\<close>
  attempts on a key are allowed.
\<close>

theorem disturbed_limit:
  assumes "in_window t0 evs" "0 \<le> limit" "remote l = Some c" "cache_enabled c"
    and "local_map l k = None" "local_ok t0 (local_map l)"
    and "\<forall>t. t0 \<le> t \<longrightarrow> redis_get t (rateLimitKey h k) (server c) = None" "shared_ok h t0 (server c)"
  shows "int (length (filter id (answers h k limit evs l))) \<le> 2 * limit"
proof -
  have "int (length (filter (\<lambda>n. n \<le> limit) (loc.counts k (local_events evs) (local_map l)))) =
      min limit (int (length (filter (\<lambda>kt. fst kt = k) (local_events evs))))"
    using assms by (intro loc.allowed_fresh [where ?t0.0 = t0])
      (auto simp: in_window_def local_events_def comp_def local_live_def sorted_events)
  moreover have "int (length (filter (\<lambda>n. n \<le> limit) (shr.counts (rateLimitKey h k) (shared_events h evs) (server c)))) =
      min limit (int (length (filter (\<lambda>kt. fst kt = rateLimitKey h k) (shared_events h evs))))"
    using assms by (intro shr.allowed_fresh [where h = h and ?t0.0 = t0])
      (auto simp: in_window_def shared_events_def comp_def shared_live_def counter_value_def shared_keys_def sorted_events)
  ultimately show ?thesis using answers_shared [OF assms(3,4), of h k limit evs] by linarith
qed

theorem disturbed_limit_witness:
  "int (length (filter id (answers plain_hashing ''ada'' 1 [(''ada'', 1, Up), (''ada'', 2, Down False), (''ada'', 3, Up)]
      (NewLimiter (Some empty_cache))))) \<le> 2 * 1"
  by (rule disturbed_limit [where ?t0.0 = 1 and c = empty_cache])
    (simp_all add: in_window_def LoginAttemptWindow_def NewLimiter_def local_ok_def empty_cache_def redis_get_def
       shared_ok_def shared_opened_def)

end
