(* ===== verification/Pipeline.thy ===== *)
theory Pipeline
  imports Features Store Cache Delivery
begin

text \<open>
  internal/processor/pipeline.go: one raw reading through validation, normalization,
  prediction, one transaction, the live cache and the analyzed event.  The handler acts on
  \<open>world\<close>: the database, the cache, the inference client and the service behind it, and the
  broker the producer writes to.  What is not under src/ is the record \<open>Pipeline\<close> of
  parameters: the JSON codecs, SHA-1 identifiers, \<open>time.Parse\<close>, \<open>%q\<close>, the service; and
  for every call the clocks, new identifiers and failures the environment chooses.
\<close>

section \<open>State and parameters\<close>

record call_env =
  ml_clock :: "Variant \<Rightarrow> time \<times> time"
  tx_faults :: txfaults
  new_id :: "string \<Rightarrow> uuid"
  cache_now :: time
  cache_reply :: "string \<Rightarrow> reply"
  event_id :: "lib_error + uuid"
  event_now :: time
  publish_rt :: runtime

record 's world =
  w_db :: database
  w_cache :: "Cache option"
  w_client :: Client
  w_service :: 's
  w_bus :: "unit cstate"
  w_calls :: nat

record ('s, 'req, 'body) Pipeline =
  pl_backend :: "('s, 'req, 'body) Backend"
  pl_codec :: codec
  pl_hashing :: hashing
  pl_math :: mathlib
  json_PitchRaw :: "string \<Rightarrow> lib_error + PitchRaw"
  marshal_analyzed :: "PitchAnalyzed \<Rightarrow> lib_error + string"
  marshal_probs :: "(string \<times> f64) list \<Rightarrow> lib_error + string"
  NewSHA1 :: "string \<Rightarrow> uuid"
  time_Parse :: "string \<Rightarrow> time option"
  quoted :: "string \<Rightarrow> string"
  version :: string
  call_envs :: "nat \<Rightarrow> call_env"

text \<open>\<open>fmt.Errorf\<close> without a wrapped error.\<close>

definition Errorf :: "string \<Rightarrow> goerr" where
  "Errorf t = LibError False t"

definition AthleteID :: "('s, 'req, 'body) Pipeline \<Rightarrow> int \<Rightarrow> uuid" where
  "AthleteID p mlbamID = NewSHA1 p (''athlete:'' @ show_int mlbamID)"

definition SessionID :: "('s, 'req, 'body) Pipeline \<Rightarrow> string \<Rightarrow> uuid" where
  "SessionID p sessionUID = NewSHA1 p (''session:'' @ sessionUID)"

definition PitchID :: "('s, 'req, 'body) Pipeline \<Rightarrow> string \<Rightarrow> uuid" where
  "PitchID p pitchUID = NewSHA1 p (''pitch:'' @ pitchUID)"

section \<open>Small conversions\<close>

definition strPtr :: "string \<Rightarrow> string option" where
  "strPtr s = (if s = '''' then None else Some s)"

definition int16Ptr :: "int option \<Rightarrow> int option" where
  "int16Ptr v = (case v of None \<Rightarrow> None | Some x \<Rightarrow> Some (go_int16 x))"

definition f32 :: "f64 option \<Rightarrow> f64 option" where
  "f32 v = (case v of None \<Rightarrow> None | Some x \<Rightarrow> Some (float32 x))"

definition groundTruth :: "GroundTruth option \<Rightarrow> string option" where
  "groundTruth gt = (case gt of None \<Rightarrow> None | Some g \<Rightarrow> if Outcome g = '''' then None else Some (Outcome g))"

definition displayName :: "string \<Rightarrow> int \<Rightarrow> string" where
  "displayName name mlbamID = (if name \<noteq> '''' then name else ''Player '' @ show_int mlbamID)"

definition defaultStand :: "string \<Rightarrow> string" where
  "defaultStand s = (if s = '''' then ''R'' else s)"

definition defaultDeviceKind :: "string \<Rightarrow> string" where
  "defaultDeviceKind kind =
     (if List.member [''REPLAY_SIMULATOR'', ''HAWKEYE'', ''TRACKMAN''] kind then kind else ''OTHER'')"

definition parseDate :: "(string \<Rightarrow> time option) \<Rightarrow> string \<Rightarrow> time option" where
  "parseDate parse s = (if s = '''' then None else (case parse s of None \<Rightarrow> None | Some t \<Rightarrow> Some t))"

definition producerName :: "('s, 'req, 'body) Pipeline \<Rightarrow> string" where
  "producerName p = ''pitchlab-processor/'' @ version p"

section \<open>Validation\<close>

definition validateRaw :: "(string \<Rightarrow> string) \<Rightarrow> PitchRaw \<Rightarrow> error" where
  "validateRaw q raw =
     (let c = raw_Context raw in
      if ExternalGameRef raw = '''' then Some (Errorf ''external_game_ref is required'')
      else if AtBatNumber raw < 1 then
        Some (Errorf (''at_bat_number must be positive, got '' @ show_int (AtBatNumber raw)))
      else if PitchNumber raw < 1 then
        Some (Errorf (''pitch_number must be positive, got '' @ show_int (PitchNumber raw)))
      else if SessionRef_SessionUID (raw_Session raw) = '''' then Some (Errorf ''session_uid is required'')
      else if PitcherMLBAMID (raw_Session raw) = 0 then Some (Errorf ''pitcher_mlbam_id is required'')
      else if IsZero (ThrownAt raw) then Some (Errorf ''thrown_at is required'')
      else if Balls c < 0 \<or> 3 < Balls c then Some (Errorf (''balls must be 0-3, got '' @ show_int (Balls c)))
      else if Strikes c < 0 \<or> 2 < Strikes c then Some (Errorf (''strikes must be 0-2, got '' @ show_int (Strikes c)))
      else if OutsWhenUp c < 0 \<or> 2 < OutsWhenUp c then Some (Errorf (''outs must be 0-2, got '' @ show_int (OutsWhenUp c)))
      else if Inning c < 1 then Some (Errorf (''inning must be positive, got '' @ show_int (Inning c)))
      else if SessionRef_PThrows (raw_Session raw) \<noteq> ''L'' \<and> SessionRef_PThrows (raw_Session raw) \<noteq> ''R'' then
        Some (Errorf (''p_throws must be L or R, got '' @ q (SessionRef_PThrows (raw_Session raw))))
      else if BatterRef_Stand (raw_Batter raw) \<noteq> '''' \<and> BatterRef_Stand (raw_Batter raw) \<noteq> ''L''
            \<and> BatterRef_Stand (raw_Batter raw) \<noteq> ''R'' then
        Some (Errorf (''stand must be L or R, got '' @ q (BatterRef_Stand (raw_Batter raw))))
      else None)"

section \<open>Prediction\<close>

definition raw_input :: "NormalizedMeasurement \<Rightarrow> PitchRaw \<Rightarrow> FeatureInput" where
  "raw_input normalized raw =
     \<lparr>in_Measurement = normalized, in_Context = raw_Context raw, in_Stand = BatterRef_Stand (raw_Batter raw),
      in_PThrows = SessionRef_PThrows (raw_Session raw), in_PitchType = PitchType (raw_Measurement raw),
      VeloDiffVsFB = None, PfxXDiffVsFB = None, PfxZDiffVsFB = None, ReleaseDistFromFB = None,
      in_PitchNumber = PitchNumber raw, DaysSincePrev = None\<rparr>"

definition raw_features ::
  "('s, 'req, 'body) Pipeline \<Rightarrow> NormalizedMeasurement \<Rightarrow> PitchRaw \<Rightarrow> Variant \<Rightarrow> PitchFeatures" where
  "raw_features p normalized raw variant =
     \<lparr>pf_PitchID = uuid_String (pl_codec p) (PitchID p (PitchRaw_PitchUID raw)),
      pf_CountState = CountState (Balls (raw_Context raw)) (Strikes (raw_Context raw)),
      Features = BuildFeatures (pl_math p) (raw_input normalized raw) variant\<rparr>"

definition prediction_result :: "Variant \<Rightarrow> PredictResponse \<Rightarrow> Prediction \<Rightarrow> PredictionResult" where
  "prediction_result variant resp pred =
     \<lparr>res_Variant = variant, res_ModelVersion = ModelVersion resp, res_Target = resp_Target resp,
      res_Probabilities = Probabilities pred,
      res_PredictedClass = (case PredictedClass pred of None \<Rightarrow> '''' | Some c \<Rightarrow> c),
      res_WhiffProbability = WhiffProbability pred, res_ScoredQuantity = ScoredQuantity pred,
      res_Score = Score pred\<rparr>"

text \<open>
  The loop over the variants; a nil response, which would panic, is the result of no call
  without an error (theorem \<open>Predict_success_is_real\<close>) and counts as no prediction here.
\<close>

fun predict_variants ::
  "('s, 'req, 'body) Pipeline \<Rightarrow> call_env \<Rightarrow> NormalizedMeasurement \<Rightarrow> PitchRaw \<Rightarrow> Variant list
   \<Rightarrow> Client \<Rightarrow> 's \<Rightarrow> PredictionResult list \<Rightarrow> PredictionResult list \<times> Client \<times> 's" where
  "predict_variants p ce normalized raw [] c s out = (out, c, s)"
| "predict_variants p ce normalized raw (variant # vs) c s out =
     (case Predict (fst (ml_clock ce variant)) (snd (ml_clock ce variant)) (pl_backend p) c variant
             [raw_features p normalized raw variant] s of
        (Inl err, c', s') \<Rightarrow> predict_variants p ce normalized raw vs c' s' out
      | (Inr None, c', s') \<Rightarrow> predict_variants p ce normalized raw vs c' s' out
      | (Inr (Some resp), c', s') \<Rightarrow>
          (case Predictions resp of
             [] \<Rightarrow> predict_variants p ce normalized raw vs c' s' out
           | pred # _ \<Rightarrow> predict_variants p ce normalized raw vs c' s' (out @ [prediction_result variant resp pred])))"

definition predict ::
  "('s, 'req, 'body) Pipeline \<Rightarrow> call_env \<Rightarrow> NormalizedMeasurement \<Rightarrow> PitchRaw \<Rightarrow> Client \<Rightarrow> 's
   \<Rightarrow> PredictionResult list \<times> Client \<times> 's" where
  "predict p ce normalized raw c s =
     predict_variants p ce normalized raw [VariantPitching, VariantStuff] c s []"

section \<open>Persistence\<close>

record persistInput =
  pi_env :: Envelope
  pi_raw :: PitchRaw
  pi_normalized :: NormalizedMeasurement
  pi_pitcherID :: uuid
  pi_batterID :: "uuid option"
  pi_sessionID :: uuid
  pi_pitchID :: uuid
  pi_predictions :: "PredictionResult list"
  pi_status :: string

definition measurementParams :: "uuid \<Rightarrow> uuid option \<Rightarrow> NormalizedMeasurement \<Rightarrow> PitchMeasurement" where
  "measurementParams pitchID deviceID m =
     \<lparr>me_PitchID = pitchID, me_DeviceID = deviceID,
      me_ReleaseSpeed = f32 (ReleaseSpeed m), me_ReleaseSpinRate = f32 (ReleaseSpinRate m),
      me_SpinAxis = f32 (SpinAxis m), me_ReleasePosX = f32 (ReleasePosX m),
      me_ReleasePosY = f32 (ReleasePosY m), me_ReleasePosZ = f32 (ReleasePosZ m),
      me_ReleaseExtension = f32 (ReleaseExtension m), me_PfxX = f32 (PfxX m), me_PfxZ = f32 (PfxZ m),
      me_PlateX = f32 (PlateX m), me_PlateZ = f32 (PlateZ m), me_SzTop = f32 (SzTop m),
      me_SzBot = f32 (SzBot m), me_EffectiveSpeed = f32 (EffectiveSpeed m), me_ArmAngle = f32 (ArmAngle m),
      me_PfxXArm = f32 (PfxXArm m), me_ReleasePosXArm = f32 (ReleasePosXArm m),
      me_PlateXBat = f32 (PlateXBat m), me_ZoneHeightNorm = f32 (ZoneHeightNorm m),
      me_InZone = InZone m, me_NormalizationVersion = go_int16 (NormalizationVersion m),
      me_MeasurementQuality = MeasurementQuality m\<rparr>"

definition buildAnalyzed :: "persistInput \<Rightarrow> Pitch \<Rightarrow> Session \<Rightarrow> PitchAnalyzed" where
  "buildAnalyzed i pitch session =
     \<lparr>an_PitchID = p_ID pitch, an_ExternalPitchUID = p_ExternalPitchUid pitch, an_SessionID = ses_ID session,
      an_PitcherAthleteID = pi_pitcherID i, an_BatterAthleteID = pi_batterID i,
      an_Sequence = \<lparr>seq_AtBatNumber = AtBatNumber (pi_raw i), seq_PitchNumber = PitchNumber (pi_raw i),
        seq_SessionPitchIndex = p_SessionPitchIndex pitch\<rparr>,
      an_ThrownAt = p_ThrownAt pitch, an_Context = raw_Context (pi_raw i), an_Stand = p_Stand pitch,
      an_PThrows = p_PThrows pitch, an_PitchType = PitchType (raw_Measurement (pi_raw i)),
      an_PitchName = PitchName (raw_Measurement (pi_raw i)), an_Measurement = pi_normalized i,
      an_Predictions = pi_predictions i,
      an_ActualOutcome = (case raw_GroundTruth (pi_raw i) of None \<Rightarrow> '''' | Some g \<Rightarrow> Outcome g),
      an_PredictionStatus = pi_status i, an_IsSynthetic = ses_IsSynthetic session\<rparr>"

definition resolveDevice :: "('s, 'req, 'body) Pipeline \<Rightarrow> PitchRaw \<Rightarrow> uuid option txm" where
  "resolveDevice p raw =
     (if raw_DeviceID raw = '''' then tx_return None
      else tx_bind (tx_wrap ''upsert device: '' (UpsertDevice
             \<lparr>dev_ID = NewSHA1 p (''device:'' @ raw_DeviceID raw), dev_DeviceKey = raw_DeviceID raw,
              dev_DeviceKind = defaultDeviceKind (raw_DeviceKind raw)\<rparr>))
           (\<lambda>device. tx_return (Some (dev_ID device))))"

text \<open>\<open>if db.IsNoRows(err)\<close>: the statement found nothing, which is an answer.\<close>

definition tx_optional :: "'a txm \<Rightarrow> 'a option txm" where
  "tx_optional m fl s = (case m fl s of
       (Inl e, s') \<Rightarrow> (if IsNoRows e then Inr None else Inl e, s')
     | (Inr a, s') \<Rightarrow> (Inr (Some a), s'))"

definition prediction_params :: "call_env \<Rightarrow> uuid \<Rightarrow> ModelVersion \<Rightarrow> PredictionResult \<Rightarrow> PitchPrediction" where
  "prediction_params ce pitchID model pred =
     \<lparr>pp_ID = new_id ce (res_Variant pred), pp_PitchID = pitchID, pp_ModelVersionID = mv_ID model,
      pp_Probabilities = None, pp_PredictedClass = None, pp_WhiffProbability = None,
      pp_ScoredQuantity = float32 (res_ScoredQuantity pred), pp_Score = float32 (res_Score pred)\<rparr>"

definition persistPrediction ::
  "('s, 'req, 'body) Pipeline \<Rightarrow> call_env \<Rightarrow> uuid \<Rightarrow> PredictionResult \<Rightarrow> unit txm" where
  "persistPrediction p ce pitchID pred =
     tx_bind (tx_wrap ''load model version: '' (tx_optional (GetActiveModelVersion (res_Variant pred)))) (\<lambda>found.
       case found of
         None \<Rightarrow> tx_return ()
       | Some model \<Rightarrow>
           (let params = prediction_params ce pitchID model pred;
                put = (\<lambda>ps. tx_bind (tx_wrap (''upsert prediction ('' @ res_Variant pred @ ''): '') (UpsertPitchPrediction ps))
                              (\<lambda>_. tx_return ()))
            in if 0 < length (res_Probabilities pred) then
                 (case marshal_probs p (res_Probabilities pred) of
                    Inl err \<Rightarrow> tx_fail (Wrap ''encode probabilities: '' (lib err) '''')
                  | Inr probs \<Rightarrow> put (params\<lparr>pp_Probabilities := Some probs,
                      pp_PredictedClass := strPtr (res_PredictedClass pred)\<rparr>))
               else (case res_WhiffProbability pred of
                    Some w \<Rightarrow> put (params\<lparr>pp_WhiffProbability := Some (float32 w)\<rparr>)
                  | None \<Rightarrow> tx_return ())))"

fun persist_predictions ::
  "('s, 'req, 'body) Pipeline \<Rightarrow> call_env \<Rightarrow> uuid \<Rightarrow> PredictionResult list \<Rightarrow> unit txm" where
  "persist_predictions p ce pitchID [] = tx_return ()"
| "persist_predictions p ce pitchID (pred # preds) =
     tx_bind (persistPrediction p ce pitchID pred) (\<lambda>_. persist_predictions p ce pitchID preds)"

definition pitcher_row :: "persistInput \<Rightarrow> Athlete" where
  "pitcher_row i = (let ses = raw_Session (pi_raw i) in
     \<lparr>ath_ID = pi_pitcherID i, ath_MlbamID = go_int32 (PitcherMLBAMID ses),
      ath_FullName = displayName (PitcherName ses) (PitcherMLBAMID ses), ath_Throws = strPtr (SessionRef_PThrows ses),
      ath_Bats = None, ath_PrimaryRole = ''PITCHER''\<rparr>)"

definition batter_row :: "persistInput \<Rightarrow> uuid \<Rightarrow> Athlete" where
  "batter_row i b = (let bat = raw_Batter (pi_raw i) in
     \<lparr>ath_ID = b, ath_MlbamID = go_int32 (MLBAMID bat), ath_FullName = displayName (Name bat) (MLBAMID bat),
      ath_Throws = None, ath_Bats = strPtr (BatterRef_Stand bat), ath_PrimaryRole = ''BATTER''\<rparr>)"

definition session_row :: "(string \<Rightarrow> time option) \<Rightarrow> persistInput \<Rightarrow> uuid option \<Rightarrow> Session" where
  "session_row parse i deviceID = (let raw = pi_raw i in
     \<lparr>ses_ID = pi_sessionID i, ses_ExternalSessionUid = SessionRef_SessionUID (raw_Session raw),
      ses_PitcherAthleteID = pi_pitcherID i, ses_DeviceID = deviceID, ses_ExternalGameRef = strPtr (ExternalGameRef raw),
      ses_SourceGameDate = parseDate parse (SourceGameDate raw), ses_OpponentTeam = strPtr (OpponentTeam (raw_Session raw)),
      ses_StartedAt = ThrownAt raw, ses_EndedAt = None, ses_Status = ''ACTIVE'', ses_IsSynthetic = Synthetic (pi_env i)\<rparr>)"

definition pitch_row :: "persistInput \<Rightarrow> uuid \<Rightarrow> int \<Rightarrow> Pitch" where
  "pitch_row i sessionID index = (let raw = pi_raw i; c = raw_Context raw in
     \<lparr>p_ID = pi_pitchID i, p_ExternalPitchUid = PitchRaw_PitchUID raw, p_SessionID = sessionID,
      p_PitcherAthleteID = pi_pitcherID i, p_BatterAthleteID = pi_batterID i,
      p_AtBatNumber = go_int16 (AtBatNumber raw), p_PitchNumber = go_int16 (PitchNumber raw),
      p_SessionPitchIndex = index, p_ThrownAt = ThrownAt raw, p_Balls = go_int16 (Balls c),
      p_Strikes = go_int16 (Strikes c), p_OutsWhenUp = go_int16 (OutsWhenUp c), p_Inning = go_int16 (Inning c),
      p_InningTopbot = strPtr (InningTopBot c), p_Stand = defaultStand (BatterRef_Stand (raw_Batter raw)),
      p_PThrows = SessionRef_PThrows (raw_Session raw), p_On1b = On1B c, p_On2b = On2B c, p_On3b = On3B c,
      p_BatScore = int16Ptr (BatScore c), p_FldScore = int16Ptr (FldScore c),
      p_NThruorderPitcher = int16Ptr (NThruOrderPitcher c), p_PitchType = strPtr (PitchType (raw_Measurement raw)),
      p_PitchName = strPtr (PitchName (raw_Measurement raw)), p_ActualOutcome = groundTruth (raw_GroundTruth raw),
      p_PredictionStatus = pi_status i, p_CorrelationID = Some (CorrelationID (pi_env i)),
      p_SourceEventID = Some (EventID (pi_env i))\<rparr>)"

text \<open>The function given to \<open>InTx\<close>; \<open>None\<close> is the nil result of a pitch already stored.\<close>

definition persist_tx :: "('s, 'req, 'body) Pipeline \<Rightarrow> call_env \<Rightarrow> persistInput \<Rightarrow> PitchAnalyzed option txm" where
  "persist_tx p ce i =
     tx_bind (tx_wrap ''upsert pitcher: '' (UpsertAthlete (pitcher_row i))) (\<lambda>_.
     tx_bind (case pi_batterID i of
                None \<Rightarrow> tx_return ()
              | Some b \<Rightarrow> tx_bind (tx_wrap ''upsert batter: '' (UpsertAthlete (batter_row i b))) (\<lambda>_. tx_return ())) (\<lambda>_.
     tx_bind (resolveDevice p (pi_raw i)) (\<lambda>deviceID.
     tx_bind (tx_wrap ''upsert session: '' (UpsertSession (session_row (time_Parse p) i deviceID))) (\<lambda>session.
     tx_bind (tx_wrap ''next pitch index: '' (NextSessionPitchIndex (ses_ID session))) (\<lambda>index.
     tx_bind (tx_wrap ''insert pitch: '' (tx_optional
                (InsertPitch (pitch_row i (ses_ID session) (if index < 1 then 1 else index))))) (\<lambda>inserted.
       case inserted of
         None \<Rightarrow> tx_return None
       | Some pitch \<Rightarrow>
           tx_bind (tx_wrap ''upsert measurement: ''
                      (UpsertPitchMeasurement (measurementParams (p_ID pitch) deviceID (pi_normalized i)))) (\<lambda>_.
           tx_bind (persist_predictions p ce (p_ID pitch) (pi_predictions i)) (\<lambda>_.
           tx_return (Some (buildAnalyzed i pitch session)))))))))) "

definition persist ::
  "('s, 'req, 'body) Pipeline \<Rightarrow> call_env \<Rightarrow> persistInput \<Rightarrow> database \<Rightarrow> (goerr + PitchAnalyzed option) \<times> database" where
  "persist p ce i = InTx (tx_faults ce) (persist_tx p ce i)"

section \<open>The live cache\<close>

definition observation :: "PitchAnalyzed \<Rightarrow> PitchRaw \<Rightarrow> uuid option \<Rightarrow> PitchObservation" where
  "observation analyzed raw batterID =
     \<lparr>obs_ReleaseSpeed = ReleaseSpeed (an_Measurement analyzed), obs_ReleaseSpin = ReleaseSpinRate (an_Measurement analyzed),
      obs_Score = map_option res_Score (find (\<lambda>r. res_Variant r = ''pitching'') (an_Predictions analyzed)),
      obs_IsWhiff = (an_ActualOutcome analyzed = ''SWINGING_STRIKE''), obs_ThrownAt = an_ThrownAt analyzed,
      obs_Balls = Balls (raw_Context raw), obs_Strikes = Strikes (raw_Context raw), obs_Outs = OutsWhenUp (raw_Context raw),
      obs_BatterID = batterID\<rparr>"

definition updateCache ::
  "('s, 'req, 'body) Pipeline \<Rightarrow> call_env \<Rightarrow> PitchAnalyzed \<Rightarrow> PitchRaw \<Rightarrow> uuid \<Rightarrow> uuid \<Rightarrow> uuid option
   \<Rightarrow> Cache option \<Rightarrow> Cache option" where
  "updateCache p ce analyzed raw pitcherID sessionID batterID cache =
     (case cache of
        None \<Rightarrow> None
      | Some c \<Rightarrow>
          (let c1 = RecordPitch (pl_hashing p) (cache_now ce) (cache_reply ce ''live_record'') sessionID
                      (observation analyzed raw batterID) c
           in Some (InvalidateAthlete (pl_hashing p) (cache_now ce) (cache_reply ce ''generation_bump'') pitcherID c1)))"

section \<open>The handler\<close>

definition persist_input ::
  "('s, 'req, 'body) Pipeline \<Rightarrow> Envelope \<Rightarrow> PitchRaw \<Rightarrow> PredictionResult list \<Rightarrow> persistInput" where
  "persist_input p env raw preds =
     \<lparr>pi_env = env, pi_raw = raw,
      pi_normalized = Normalize (raw_Measurement raw) (SessionRef_PThrows (raw_Session raw)) (BatterRef_Stand (raw_Batter raw)),
      pi_pitcherID = AthleteID p (PitcherMLBAMID (raw_Session raw)),
      pi_batterID = (if MLBAMID (raw_Batter raw) \<noteq> 0 then Some (AthleteID p (MLBAMID (raw_Batter raw))) else None),
      pi_sessionID = SessionID p (SessionRef_SessionUID (raw_Session raw)),
      pi_pitchID = PitchID p (PitchRaw_PitchUID raw), pi_predictions = preds,
      pi_status = (if length preds = 0 then ''FAILED'' else ''OK'')\<rparr>"

text \<open>The last part: the cache, the derived event and its publication.\<close>

definition announce ::
  "('s, 'req, 'body) Pipeline \<Rightarrow> call_env \<Rightarrow> Envelope \<Rightarrow> PitchRaw \<Rightarrow> persistInput \<Rightarrow> PitchAnalyzed
   \<Rightarrow> 's world \<Rightarrow> error \<times> 's world" where
  "announce p ce env raw i analyzed w =
     (let w = w\<lparr>w_cache := updateCache p ce analyzed raw (pi_pitcherID i) (pi_sessionID i) (pi_batterID i) (w_cache w)\<rparr> in
      case Derive env TypePitchAnalyzed (producerName p) (IdempotencyKey env) (SessionRef_SessionUID (raw_Session raw))
             (marshal_analyzed p analyzed) (event_id ce) (event_now ce) of
        Inl err \<Rightarrow> (Some (Wrap ''build analyzed event: '' err ''''), w)
      | Inr out \<Rightarrow> (case Publish (pl_codec p) (publish_rt ce) TopicPitchAnalyzed out (w_bus w) of
           (Some err, bus) \<Rightarrow> (Some (Wrap ''publish analyzed event: '' err ''''), w\<lparr>w_bus := bus\<rparr>)
         | (None, bus) \<Rightarrow> (None, w\<lparr>w_bus := bus\<rparr>)))"

definition handle_valid ::
  "('s, 'req, 'body) Pipeline \<Rightarrow> call_env \<Rightarrow> Envelope \<Rightarrow> PitchRaw \<Rightarrow> 's world \<Rightarrow> error \<times> 's world" where
  "handle_valid p ce env raw w =
     (case predict p ce (pi_normalized (persist_input p env raw [])) raw (w_client w) (w_service w) of
        (preds, client, service) \<Rightarrow>
       (let i = persist_input p env raw preds; w = w\<lparr>w_client := client, w_service := service\<rparr> in
        case persist p ce i (w_db w) of
          (Inl err, d) \<Rightarrow> (Some err, w\<lparr>w_db := d\<rparr>)
        | (Inr None, d) \<Rightarrow> (Some ErrDuplicate, w\<lparr>w_db := d\<rparr>)
        | (Inr (Some analyzed), d) \<Rightarrow> announce p ce env raw i analyzed (w\<lparr>w_db := d\<rparr>)))"

definition HandlePitchRaw :: "('s, 'req, 'body) Pipeline \<Rightarrow> 's world handler" where
  "HandlePitchRaw p env w =
     (let ce = call_envs p (w_calls w); w = w\<lparr>w_calls := w_calls w + 1\<rparr> in
      if EventType env \<noteq> TypePitchRaw then
        (Some (PermanentError (''unexpected event type '' @ quoted p (EventType env) @ '' on the raw pitch topic'') None), w)
      else (case Unmarshal (json_PitchRaw p) env of
          Inl err \<Rightarrow> (Some (Permanent ''decode pitch payload'' err), w)
        | Inr raw \<Rightarrow> (case validateRaw (quoted p) raw of
            Some err \<Rightarrow> (Some (Permanent ''invalid pitch payload'' err), w)
          | None \<Rightarrow> handle_valid p ce env raw w)))"

section \<open>What the transaction does to the tables\<close>

lemma tx_optional_valid:
  assumes "tx_valid P m (\<lambda>a. Q (Some a))"
    and "\<And>fl d n e d' n'. P d \<Longrightarrow> m fl (d, n) = (Inl e, (d', n')) \<Longrightarrow> IsNoRows e \<Longrightarrow> Q None d'"
  shows "tx_valid P (tx_optional m) Q"
  using assms unfolding tx_valid_def tx_optional_def by (fastforce split: prod.splits sum.splits if_splits)

lemma tx_optional_clean [tx_clean_rules]: "tx_clean m \<Longrightarrow> tx_clean (tx_optional m)"
  unfolding tx_clean_def tx_optional_def by (fastforce split: prod.splits sum.splits if_splits)

lemma statement_Inl: "statement q fl (d, n) = (Inl e, (d', n')) \<Longrightarrow> d' = d"
  by (auto simp: statement_def split: option.splits prod.splits sum.splits)

lemma violations_not_NoRows [simp]:
  "\<not> IsNoRows check_violation" "\<not> IsNoRows unique_violation" "\<not> IsNoRows foreign_key_violation"
  by (simp_all add: IsNoRows_def errors_Is_def ErrNoRows_def check_violation_def unique_violation_def
      foreign_key_violation_def)

lemma InsertPitch_NoRows:
  assumes "InsertPitch p fl (d, n) = (Inl e, (d', n'))" "IsNoRows e"
  shows "d' = d \<and> p_ExternalPitchUid p \<in> p_ExternalPitchUid ` set (pitches d)"
  using assms
  by (auto simp: InsertPitch_def statement_def list_ex_iff image_iff split: option.splits if_splits; metis)

definition uids :: "database \<Rightarrow> string set" where
  "uids d = p_ExternalPitchUid ` set (pitches d)"

text \<open>Either the pitch was there, and no table changed, or it is appended with its measurement.\<close>

lemma insert_optional_valid:
  "tx_valid (\<lambda>d. P (tables d)) (tx_optional (InsertPitch p))
     (\<lambda>r d. case r of
        None \<Rightarrow> P (tables d) \<and> p_ExternalPitchUid p \<in> uids d
      | Some p' \<Rightarrow> p' = p \<and> pitch_ok p \<and> (\<exists>ps ms prs. P (ps, ms, prs) \<and> tables d = (ps @ [p], ms, prs)
          \<and> p_ExternalPitchUid p \<notin> p_ExternalPitchUid ` set ps \<and> p_ID p \<notin> p_ID ` set ps))"
proof (rule tx_optional_valid)
  show "tx_valid (\<lambda>d. P (tables d)) (InsertPitch p)
     (\<lambda>a d. case Some a of
        None \<Rightarrow> P (tables d) \<and> p_ExternalPitchUid p \<in> uids d
      | Some p' \<Rightarrow> p' = p \<and> pitch_ok p \<and> (\<exists>ps ms prs. P (ps, ms, prs) \<and> tables d = (ps @ [p], ms, prs)
          \<and> p_ExternalPitchUid p \<notin> p_ExternalPitchUid ` set ps \<and> p_ID p \<notin> p_ID ` set ps))"
    by (rule tx_valid_conseq [OF InsertPitch_valid]) auto
next
  fix fl d n e d' n'
  assume "P (tables d)" "InsertPitch p fl (d, n) = (Inl e, (d', n'))" "IsNoRows e"
  with InsertPitch_NoRows [of p fl d n e d' n'] show "case None of
        None \<Rightarrow> P (tables d') \<and> p_ExternalPitchUid p \<in> uids d'
      | Some p' \<Rightarrow> p' = p \<and> pitch_ok p \<and> (\<exists>ps ms prs. P (ps, ms, prs) \<and> tables d' = (ps @ [p], ms, prs)
          \<and> p_ExternalPitchUid p \<notin> p_ExternalPitchUid ` set ps \<and> p_ID p \<notin> p_ID ` set ps)"
    by (simp add: uids_def)
qed

text \<open>
  One pitch's predictions: the predictions table changes by \<open>put_prediction\<close> of rows of
  this pitch that satisfy the constraints, nothing else does.
\<close>

inductive predictions_put :: "uuid \<Rightarrow> PitchPrediction list \<Rightarrow> PitchPrediction list \<Rightarrow> bool" for pid where
  put_none: "predictions_put pid prs prs"
| put_one: "predictions_put pid prs prs' \<Longrightarrow> prediction_ok r \<Longrightarrow> pp_PitchID r = pid \<Longrightarrow>
    predictions_put pid prs (put_prediction r prs')"

lemma GetActive_optional_frame:
  "tx_valid (\<lambda>d. P (tables d)) (tx_optional (GetActiveModelVersion v)) (\<lambda>_ d. P (tables d))"
  by (rule tx_optional_valid [OF upserts_frame(4)]) (auto simp: GetActiveModelVersion_def dest: statement_Inl)

lemma put_valid:
  assumes "pp_PitchID r = pid"
  shows "tx_valid (\<lambda>d. \<exists>prs'. predictions_put pid prs prs' \<and> tables d = (ps, ms, prs'))
     (tx_bind (tx_wrap pre (UpsertPitchPrediction r)) (\<lambda>_. tx_return ()))
     (\<lambda>_ d. \<exists>prs'. predictions_put pid prs prs' \<and> tables d = (ps, ms, prs'))"
  by (rule tx_valid_bind [OF tx_valid_wrap
        [OF UpsertPitchPrediction_valid [of "\<lambda>t. \<exists>prs'. predictions_put pid prs prs' \<and> t = (ps, ms, prs')"]]])
    (auto intro!: tx_valid_return put_one simp: assms)

lemma persistPrediction_valid:
  "tx_valid (\<lambda>d. \<exists>prs'. predictions_put pid prs prs' \<and> tables d = (ps, ms, prs'))
     (persistPrediction p ce pid pred)
     (\<lambda>_ d. \<exists>prs'. predictions_put pid prs prs' \<and> tables d = (ps, ms, prs'))"
  unfolding persistPrediction_def
  by (rule tx_valid_bind [OF tx_valid_wrap
        [OF GetActive_optional_frame [of "\<lambda>t. \<exists>prs'. predictions_put pid prs prs' \<and> t = (ps, ms, prs')"]]])
    (auto simp: Let_def prediction_params_def
      intro!: tx_valid_return tx_valid_fail put_valid split: option.splits sum.splits)

lemma persist_predictions_valid:
  "tx_valid (\<lambda>d. \<exists>prs'. predictions_put pid prs prs' \<and> tables d = (ps, ms, prs'))
     (persist_predictions p ce pid preds)
     (\<lambda>_ d. \<exists>prs'. predictions_put pid prs prs' \<and> tables d = (ps, ms, prs'))"
  by (induction preds)
    (auto intro: tx_valid_return tx_valid_bind [OF persistPrediction_valid])

section \<open>What the whole transaction does\<close>

lemma resolveDevice_frame: "tx_valid (\<lambda>d. P (tables d)) (resolveDevice p raw) (\<lambda>_ d. P (tables d))"
  unfolding resolveDevice_def
  by (auto intro!: tx_valid_return tx_valid_bind [OF tx_valid_wrap [OF upserts_frame(2)]])

lemma batter_frame:
  "tx_valid (\<lambda>d. P (tables d)) (case b of
       None \<Rightarrow> tx_return ()
     | Some x \<Rightarrow> tx_bind (tx_wrap pre (UpsertAthlete (row x))) (\<lambda>_. tx_return ())) (\<lambda>_ d. P (tables d))"
  by (auto intro!: tx_valid_return tx_valid_bind [OF tx_valid_wrap [OF upserts_frame(1)]] split: option.splits)

definition next_index :: "Pitch list \<Rightarrow> uuid \<Rightarrow> int" where
  "next_index ps sid = (let ns = map p_SessionPitchIndex (filter (\<lambda>r. p_SessionID r = sid) ps)
     in (if ns = [] then 0 else Max (set ns)) + 1)"

lemma next_index_tables:
  "tables d = (ps, ms, prs) \<Longrightarrow>
     (if session_indices d sid = [] then 0 else Max (set (session_indices d sid))) + 1 = next_index ps sid"
  by (auto simp: next_index_def session_indices_def tables_def Let_def)

definition put_measurement :: "PitchMeasurement \<Rightarrow> PitchMeasurement list \<Rightarrow> PitchMeasurement list" where
  "put_measurement r ms = (if me_PitchID r \<in> me_PitchID ` set ms
     then update_where (\<lambda>o'. me_PitchID o' = me_PitchID r) (\<lambda>_. r) ms else ms @ [r])"

definition stored_new ::
  "persistInput \<Rightarrow> Pitch list \<Rightarrow> PitchMeasurement list \<Rightarrow> PitchPrediction list \<Rightarrow> PitchAnalyzed \<Rightarrow> database \<Rightarrow> bool" where
  "stored_new i ps ms prs a d \<longleftrightarrow> (\<exists>session dev prs' row.
     row = pitch_row i (ses_ID session) (max 1 (next_index ps (ses_ID session)))
     \<and> pitch_ok row \<and> p_ExternalPitchUid row \<notin> p_ExternalPitchUid ` set ps \<and> p_ID row \<notin> p_ID ` set ps
     \<and> measurement_ok (measurementParams (p_ID row) dev (pi_normalized i))
     \<and> predictions_put (p_ID row) prs prs'
     \<and> tables d = (ps @ [row], put_measurement (measurementParams (p_ID row) dev (pi_normalized i)) ms, prs')
     \<and> a = buildAnalyzed i row session)"

lemma persist_tail_valid:
  assumes "row = pitch_row i (ses_ID session) (max 1 (next_index ps (ses_ID session)))"
    "pitch_ok row" "p_ExternalPitchUid row \<notin> p_ExternalPitchUid ` set ps" "p_ID row \<notin> p_ID ` set ps"
  shows "tx_valid (\<lambda>d. tables d = (ps @ [row], ms, prs))
     (tx_bind (tx_wrap pre (UpsertPitchMeasurement (measurementParams (p_ID row) dev (pi_normalized i)))) (\<lambda>_.
      tx_bind (persist_predictions p ce (p_ID row) preds) (\<lambda>_. tx_return (Some (buildAnalyzed i row session)))))
     (\<lambda>r d. \<exists>a. r = Some a \<and> stored_new i ps ms prs a d)"
proof -
  let ?m = "measurementParams (p_ID row) dev (pi_normalized i)"
  let ?ms = "put_measurement ?m ms"
  have "tx_valid (\<lambda>d. tables d = (ps @ [row], ms, prs)) (tx_wrap pre (UpsertPitchMeasurement ?m))
      (\<lambda>_ d. measurement_ok ?m \<and> (\<exists>prs'. predictions_put (p_ID row) prs prs' \<and> tables d = (ps @ [row], ?ms, prs')))"
    by (rule tx_valid_conseq [OF tx_valid_wrap [OF UpsertPitchMeasurement_valid [of "\<lambda>t. t = (ps @ [row], ms, prs)"]]])
      (auto simp: put_measurement_def intro: put_none)
  moreover have "tx_valid (\<lambda>d. measurement_ok ?m \<and> (\<exists>prs'. predictions_put (p_ID row) prs prs' \<and> tables d = (ps @ [row], ?ms, prs')))
      (persist_predictions p ce (p_ID row) preds)
      (\<lambda>_ d. measurement_ok ?m \<and> (\<exists>prs'. predictions_put (p_ID row) prs prs' \<and> tables d = (ps @ [row], ?ms, prs')))"
    using persist_predictions_valid [of "p_ID row" prs "ps @ [row]" ?ms p ce preds]
    unfolding tx_valid_def by blast
  ultimately show ?thesis
  proof (rule tx_valid_bind [OF _ tx_valid_bind], intro tx_valid_return)
    fix d
    assume "measurement_ok ?m \<and> (\<exists>prs'. predictions_put (p_ID row) prs prs' \<and> tables d = (ps @ [row], ?ms, prs'))"
    with assms show "\<exists>a. Some (buildAnalyzed i row session) = Some a \<and> stored_new i ps ms prs a d"
      unfolding stored_new_def by blast
  qed
qed

definition persist_post ::
  "persistInput \<Rightarrow> Pitch list \<times> PitchMeasurement list \<times> PitchPrediction list \<Rightarrow> PitchAnalyzed option \<Rightarrow> database \<Rightarrow> bool" where
  "persist_post i T r d = (case T of (ps, ms, prs) \<Rightarrow> (case r of
       None \<Rightarrow> tables d = (ps, ms, prs) \<and> PitchRaw_PitchUID (pi_raw i) \<in> p_ExternalPitchUid ` set ps
     | Some a \<Rightarrow> stored_new i ps ms prs a d))"

lemma persist_tx_valid: "tx_valid (\<lambda>d. tables d = T) (persist_tx p ce i) (persist_post i T)"
proof -
  obtain ps ms prs where T: "T = (ps, ms, prs)" by (cases T)
  show ?thesis
    unfolding persist_tx_def
    apply (rule tx_valid_bind [OF tx_valid_wrap [OF upserts_frame(1) [of "\<lambda>t. t = T"]]])
    apply (rule tx_valid_bind [OF batter_frame [of "\<lambda>t. t = T"]])
    apply (rule tx_valid_bind [OF resolveDevice_frame [of "\<lambda>t. t = T"]])
    apply (rule tx_valid_bind [OF tx_valid_wrap [OF upserts_frame(3) [of "\<lambda>t. t = T"]]])
    apply (rule tx_valid_bind [OF tx_valid_wrap [OF next_index_valid [of "\<lambda>t. t = T"]]])
    subgoal for _ _ dev session n
    proof (rule tx_valid_bind [where R = "\<lambda>r d. n = next_index ps (ses_ID session) \<and> (case r of
          None \<Rightarrow> tables d = T \<and> PitchRaw_PitchUID (pi_raw i) \<in> p_ExternalPitchUid ` set ps
        | Some p' \<Rightarrow> p' = pitch_row i (ses_ID session) (max 1 n) \<and> pitch_ok p' \<and> tables d = (ps @ [p'], ms, prs)
            \<and> p_ExternalPitchUid p' \<notin> p_ExternalPitchUid ` set ps \<and> p_ID p' \<notin> p_ID ` set ps)"], goal_cases)
      case 1
      have uid: "p_ExternalPitchUid (pitch_row i sid k) = PitchRaw_PitchUID (pi_raw i)" for sid k
        by (simp add: pitch_row_def Let_def)
      have n: "(if n < 1 then 1 else n) = max 1 n" by simp
      show ?case
        unfolding n
        apply (rule tx_valid_conseq [OF tx_valid_wrap [OF insert_optional_valid
              [of "\<lambda>t. t = T \<and> n = next_index ps (ses_ID session)"]]])
         apply (simp add: T next_index_tables)
        apply (auto simp: T uid uids_def tables_def split: option.splits)
        done
    next
      case (2 r)
      show ?case
      proof (cases r)
        case None
        then show ?thesis by (auto intro!: tx_valid_return simp: persist_post_def T)
      next
        case (Some row)
        define ok where "ok \<longleftrightarrow> row = pitch_row i (ses_ID session) (max 1 (next_index ps (ses_ID session))) \<and> pitch_ok row
          \<and> p_ExternalPitchUid row \<notin> p_ExternalPitchUid ` set ps \<and> p_ID row \<notin> p_ID ` set ps"
        show ?thesis
        proof (cases ok)
          case True
          then have "tx_valid (\<lambda>d. tables d = (ps @ [row], ms, prs))
             (tx_bind (tx_wrap ''upsert measurement: '' (UpsertPitchMeasurement (measurementParams (p_ID row) dev (pi_normalized i)))) (\<lambda>_.
              tx_bind (persist_predictions p ce (p_ID row) (pi_predictions i)) (\<lambda>_. tx_return (Some (buildAnalyzed i row session)))))
             (\<lambda>r d. \<exists>a. r = Some a \<and> stored_new i ps ms prs a d)"
            unfolding ok_def by (intro persist_tail_valid) auto
          then show ?thesis
            unfolding Some option.case
            by (rule tx_valid_conseq) (auto simp: persist_post_def T)
        next
          case False
          then show ?thesis unfolding tx_valid_def ok_def Some by auto
        qed
      qed
    qed
    done
qed

lemma persistPrediction_clean: "tx_clean (persistPrediction p ce pid pred)"
  unfolding persistPrediction_def
  by (intro tx_clean_rules)
    (auto simp: Let_def intro!: tx_clean_rules tx_clean_fail split: option.splits sum.splits)

lemma persist_predictions_clean [tx_clean_rules]: "tx_clean (persist_predictions p ce pid preds)"
  by (induction preds) (auto intro!: tx_clean_rules persistPrediction_clean)

lemma persist_tx_clean: "tx_clean (persist_tx p ce i)"
  unfolding persist_tx_def resolveDevice_def
  by (intro tx_clean_rules) (auto intro!: tx_clean_rules split: option.splits)

lemma persist_Inr: "persist p ce i d = (Inr r, d') \<Longrightarrow> persist_post i (tables d) r d'"
  using InTx_Inr [of "tx_faults ce" "persist_tx p ce i" d r d'] tx_validD [OF persist_tx_valid]
  unfolding persist_def by blast

lemma persist_Inl:
  assumes "persist p ce i d = (Inl e, d')"
  shows "\<not> errors_Is e ErrDuplicate" "tables d' = tables d \<or> (\<exists>r. persist_post i (tables d) r d')"
  using InTx_clean [OF persist_tx_clean] InTx_cases [of "tx_faults ce" "persist_tx p ce i" d "Inl e" d']
    tx_validD [OF persist_tx_valid [of "tables d" p ce i]] assms
  unfolding persist_def by blast+

section \<open>The handler's outcomes\<close>

definition decoded :: "('s, 'req, 'body) Pipeline \<Rightarrow> Envelope \<Rightarrow> PitchRaw option" where
  "decoded p env =
     (if EventType env \<noteq> TypePitchRaw then None
      else (case Unmarshal (json_PitchRaw p) env of
          Inl err \<Rightarrow> None
        | Inr raw \<Rightarrow> (case validateRaw (quoted p) raw of Some err \<Rightarrow> None | None \<Rightarrow> Some raw)))"

lemma Validate_not_Duplicate: "Validate e = Some err \<Longrightarrow> \<not> errors_Is err ErrDuplicate"
  by (auto dest!: Validate_cases simp: envelope_error_defs errors_Is_def ErrDuplicate_def)

lemma Unmarshal_not_Duplicate: "Unmarshal j e = Inl err \<Longrightarrow> \<not> errors_Is err ErrDuplicate"
  by (auto simp: Unmarshal_def split: sum.splits)

lemma validateRaw_not_Duplicate: "validateRaw q raw = Some err \<Longrightarrow> \<not> errors_Is err ErrDuplicate"
  by (auto simp: validateRaw_def Let_def Errorf_def split: if_splits)

lemma Handle_undecoded:
  "decoded p env = None \<Longrightarrow>
     \<exists>err. HandlePitchRaw p env w = (Some err, w\<lparr>w_calls := w_calls w + 1\<rparr>) \<and> Classify (Some err) = ClassPermanent"
proof (cases "EventType env = TypePitchRaw")
  case False
  then show ?thesis
    by (simp add: HandlePitchRaw_def Let_def) (simp add: Classify_def errors_Is_def errors_As_def ErrDuplicate_def)
next
  case True
  assume none: "decoded p env = None"
  show ?thesis
  proof (cases "Unmarshal (json_PitchRaw p) env")
    case (Inl err)
    with True Unmarshal_not_Duplicate [OF Inl] show ?thesis
      by (simp add: HandlePitchRaw_def Let_def Classify_Permanent)
  next
    case (Inr raw)
    with none True obtain err where err: "validateRaw (quoted p) raw = Some err"
      by (auto simp: decoded_def split: option.splits)
    with True Inr validateRaw_not_Duplicate [OF err] show ?thesis
      by (simp add: HandlePitchRaw_def Let_def Classify_Permanent)
  qed
qed

lemma Handle_decoded:
  "decoded p env = Some raw \<Longrightarrow>
     HandlePitchRaw p env w = handle_valid p (call_envs p (w_calls w)) env raw (w\<lparr>w_calls := w_calls w + 1\<rparr>)"
  by (auto simp: HandlePitchRaw_def decoded_def Let_def split: if_splits sum.splits option.splits)

lemma Publish_not_Duplicate:
  "Publish cd rt topic env st = (Some err, st') \<Longrightarrow> \<not> errors_Is err ErrDuplicate"
  using Validate_not_Duplicate [of env]
  by (auto simp: Publish_def split: option.splits sum.splits prod.splits)

lemma announce_outcome:
  assumes "announce p ce env raw i a w = (r, w')"
  shows "w_db w' = w_db w" "r = Some err \<Longrightarrow> \<not> errors_Is err ErrDuplicate"
  using assms
  by (auto simp: announce_def Let_def Derive_def NewEnvelope_def dest: Publish_not_Duplicate
      split: sum.splits prod.splits option.splits)

text \<open>
  The three ways a valid reading can end: rolled back or committed with a lost answer,
  recognised as stored, or stored and announced.
\<close>

lemma handle_valid_cases:
  assumes "handle_valid p ce env raw w = (r, w')"
  obtains (failed) err preds where "r = Some err" "\<not> errors_Is err ErrDuplicate"
      "w_cache w' = w_cache w" "w_bus w' = w_bus w" "w_calls w' = w_calls w"
      "tables (w_db w') = tables (w_db w) \<or>
         (\<exists>r. persist_post (persist_input p env raw preds) (tables (w_db w)) r (w_db w'))"
  | (duplicate) preds where "r = Some ErrDuplicate" "w_cache w' = w_cache w" "w_bus w' = w_bus w" "w_calls w' = w_calls w"
      "persist_post (persist_input p env raw preds) (tables (w_db w)) None (w_db w')"
  | (stored) preds a w1 where "persist_post (persist_input p env raw preds) (tables (w_db w)) (Some a) (w_db w1)"
      "announce p ce env raw (persist_input p env raw preds) a w1 = (r, w')" "w_bus w1 = w_bus w" "w_db w' = w_db w1"
proof -
  obtain preds client service where pr:
    "predict p ce (pi_normalized (persist_input p env raw [])) raw (w_client w) (w_service w) = (preds, client, service)"
    by (metis prod_cases3)
  let ?i = "persist_input p env raw preds"
  obtain res d where ps: "persist p ce ?i (w_db w) = (res, d)" by fastforce
  show ?thesis
  proof (cases res)
    case (Inl err)
    with assms pr ps persist_Inl [of p ce ?i "w_db w" err d] show ?thesis
      by (intro failed [of err preds]) (auto simp: handle_valid_def Let_def)
  next
    case (Inr res)
    show ?thesis
    proof (cases res)
      case None
      with Inr assms pr ps persist_Inr [of p ce ?i "w_db w" None d] show ?thesis
        by (intro duplicate [of preds]) (auto simp: handle_valid_def Let_def)
    next
      case (Some a)
      let ?w = "w\<lparr>w_client := client, w_service := service, w_db := d\<rparr>"
      have an: "announce p ce env raw ?i a ?w = (r, w')"
        using Some Inr assms pr ps by (simp add: handle_valid_def Let_def)
      with Some Inr pr ps persist_Inr [of p ce ?i "w_db w" "Some a" d] announce_outcome(1) [OF an] show ?thesis
        by (intro stored [of preds a ?w]) auto
    qed
  qed
qed

section \<open>Redelivery\<close>

text \<open>A reading is stored once its pitch is a row.  What the rest of the system sees:\<close>

definition stored :: "('s, 'req, 'body) Pipeline \<Rightarrow> Envelope \<Rightarrow> 's world \<Rightarrow> bool" where
  "stored p env w \<longleftrightarrow> (\<exists>raw. decoded p env = Some raw \<and> PitchRaw_PitchUID raw \<in> uids (w_db w))"

definition pipe_view :: "'s world \<Rightarrow> (Pitch list \<times> PitchMeasurement list \<times> PitchPrediction list) \<times> Cache option \<times> unit cstate" where
  "pipe_view w = (tables (w_db w), w_cache w, w_bus w)"

lemma uids_tables: "tables d = (ps, ms, prs) \<Longrightarrow> uids d = p_ExternalPitchUid ` set ps"
  by (auto simp: tables_def uids_def)

lemma pitch_row_simps [simp]:
  "p_ExternalPitchUid (pitch_row i sid n) = PitchRaw_PitchUID (pi_raw i)"
  "p_ID (pitch_row i sid n) = pi_pitchID i"
  "p_SessionID (pitch_row i sid n) = sid"
  "p_SessionPitchIndex (pitch_row i sid n) = n"
  "p_PredictionStatus (pitch_row i sid n) = pi_status i"
  by (simp_all add: pitch_row_def Let_def)

lemma persist_input_simps [simp]:
  "pi_raw (persist_input p env raw preds) = raw" "pi_env (persist_input p env raw preds) = env"
  "pi_predictions (persist_input p env raw preds) = preds"
  by (simp_all add: persist_input_def)

lemma uids_cong: "tables d = tables d' \<Longrightarrow> uids d = uids d'"
  by (simp add: tables_def uids_def)

lemma persist_post_uids:
  "persist_post i (tables d) r d' \<Longrightarrow> uids d \<subseteq> uids d' \<and> PitchRaw_PitchUID (pi_raw i) \<in> uids d'"
  by (cases "tables d")
    (auto simp: persist_post_def stored_new_def uids_tables split: option.splits)

lemma persist_post_stored:
  assumes "persist_post i (tables d) r d'" "PitchRaw_PitchUID (pi_raw i) \<in> uids d"
  shows "r = None \<and> tables d' = tables d"
  using assms by (cases "tables d") (auto simp: persist_post_def stored_new_def uids_tables split: option.splits)

lemma Handle_uids: "uids (w_db w) \<subseteq> uids (w_db (snd (HandlePitchRaw p env w)))"
proof (cases "decoded p env")
  case None
  then show ?thesis using Handle_undecoded [of p env w] by force
next
  case (Some raw)
  obtain r w' where run: "HandlePitchRaw p env w = (r, w')" by fastforce
  from run have "handle_valid p (call_envs p (w_calls w)) env raw (w\<lparr>w_calls := w_calls w + 1\<rparr>) = (r, w')"
    by (simp add: Handle_decoded [OF Some])
  then have "uids (w_db w) \<subseteq> uids (w_db w')"
    by (cases rule: handle_valid_cases) (auto dest: persist_post_uids uids_cong)
  with run show ?thesis by simp
qed

interpretation pipe: idempotent_handler "HandlePitchRaw p" "stored p" pipe_view
proof (unfold_locales, goal_cases)
  case (1 e w w')
  then obtain raw where raw: "decoded p e = Some raw" using Handle_undecoded [of p e w] by fastforce
  from 1 have "handle_valid p (call_envs p (w_calls w)) e raw (w\<lparr>w_calls := w_calls w + 1\<rparr>) = (None, w')"
    by (simp add: Handle_decoded [OF raw])
  then have "PitchRaw_PitchUID raw \<in> uids (w_db w')"
    by (cases rule: handle_valid_cases) (auto dest: persist_post_uids)
  with raw show ?case by (auto simp: stored_def)
next
  case (2 e w d w')
  then obtain raw where raw: "decoded p e = Some raw"
    using Handle_undecoded [of p e w] by (fastforce simp: Classify_def)
  from 2 have "handle_valid p (call_envs p (w_calls w)) e raw (w\<lparr>w_calls := w_calls w + 1\<rparr>) = (Some d, w')"
    by (simp add: Handle_decoded [OF raw])
  then have "PitchRaw_PitchUID raw \<in> uids (w_db w')"
    using 2(2) announce_outcome(2)
    by (cases rule: handle_valid_cases) (auto dest: persist_post_uids)
  with raw show ?case by (auto simp: stored_def)
next
  case (3 e w f)
  then show ?case using Handle_uids [of w p f] by (auto simp: stored_def)
next
  case (4 e w)
  then obtain raw where raw: "decoded p e = Some raw" "PitchRaw_PitchUID raw \<in> uids (w_db w)"
    by (auto simp: stored_def)
  obtain r w' where run: "HandlePitchRaw p e w = (r, w')" by fastforce
  then have "handle_valid p (call_envs p (w_calls w)) e raw (w\<lparr>w_calls := w_calls w + 1\<rparr>) = (r, w')"
    by (simp add: Handle_decoded [OF raw(1)])
  then have "pipe_view w' = pipe_view w \<and> r \<noteq> None"
    using raw(2)
    by (cases rule: handle_valid_cases) (auto simp: pipe_view_def dest: persist_post_stored)
  with run show ?case by simp
qed

section \<open>The invariant of the tables\<close>

text \<open>
  Every pitch is stored once, with exactly one measurement; the pitches of a session are
  numbered 1, 2, 3, ... in the order they were stored; every prediction belongs to a stored
  pitch; every row satisfies its constraints.
\<close>

definition numbered :: "Pitch list \<Rightarrow> uuid \<Rightarrow> bool" where
  "numbered ps sid \<longleftrightarrow> map p_SessionPitchIndex (filter (\<lambda>r. p_SessionID r = sid) ps)
     = map int [1..<length (filter (\<lambda>r. p_SessionID r = sid) ps) + 1]"

definition store_ok :: "database \<Rightarrow> bool" where
  "store_ok d \<longleftrightarrow> distinct (map p_ExternalPitchUid (pitches d)) \<and> distinct (map p_ID (pitches d))
     \<and> list_all pitch_ok (pitches d) \<and> (\<forall>sid \<in> p_SessionID ` set (pitches d). numbered (pitches d) sid)
     \<and> map me_PitchID (measurements d) = map p_ID (pitches d) \<and> list_all measurement_ok (measurements d)
     \<and> list_all prediction_ok (predictions d)
     \<and> (\<forall>r \<in> set (predictions d). pp_PitchID r \<in> p_ID ` set (pitches d))"

lemma store_ok_cong: "tables d = tables d' \<Longrightarrow> store_ok d = store_ok d'"
  by (simp add: tables_def store_ok_def)

lemma numbered_all: "(\<forall>sid \<in> p_SessionID ` set ps. numbered ps sid) \<Longrightarrow> numbered ps sid"
proof (cases "sid \<in> p_SessionID ` set ps")
  case False
  then have "filter (\<lambda>r. p_SessionID r = sid) ps = []" by (auto simp: filter_empty_conv)
  then show ?thesis by (simp add: numbered_def)
qed blast

lemma next_index_numbered:
  assumes "numbered ps sid"
  shows "next_index ps sid = int (length (filter (\<lambda>r. p_SessionID r = sid) ps)) + 1"
proof -
  define n where "n = length (filter (\<lambda>r. p_SessionID r = sid) ps)"
  have idx: "map p_SessionPitchIndex (filter (\<lambda>r. p_SessionID r = sid) ps) = map int [1..<n + 1]"
    using assms by (simp add: numbered_def n_def)
  show ?thesis
  proof (cases "n = 0")
    case True
    then show ?thesis unfolding next_index_def idx by (simp add: n_def [symmetric])
  next
    case False
    then have "Max (set (map int [1..<n + 1])) = int n" by (intro Max_eqI) (auto simp del: upt_Suc)
    with False show ?thesis
      unfolding next_index_def idx Let_def by (simp add: n_def [symmetric] del: upt_Suc set_map set_upt)
  qed
qed

lemma numbered_append:
  assumes "numbered ps (p_SessionID r)" "p_SessionPitchIndex r = next_index ps (p_SessionID r)" "numbered ps sid"
  shows "numbered (ps @ [r]) sid"
proof (cases "p_SessionID r = sid")
  case True
  with assms next_index_numbered [OF assms(1)] show ?thesis by (simp add: numbered_def)
next
  case False
  with assms(3) show ?thesis by (simp add: numbered_def)
qed

lemma put_prediction_all:
  "list_all prediction_ok prs \<Longrightarrow> prediction_ok r \<Longrightarrow> list_all prediction_ok (put_prediction r prs)"
  by (auto simp: put_prediction_def update_where_def list_all_iff prediction_ok_def split: option.splits)

lemma put_prediction_pids:
  "pp_PitchID ` set (put_prediction r prs) \<subseteq> insert (pp_PitchID r) (pp_PitchID ` set prs)"
  by (auto simp: put_prediction_def update_where_def split: option.splits)

lemma predictions_put_ok:
  "predictions_put pid prs prs' \<Longrightarrow> list_all prediction_ok prs \<Longrightarrow>
     list_all prediction_ok prs' \<and> pp_PitchID ` set prs' \<subseteq> insert pid (pp_PitchID ` set prs)"
proof (induction rule: predictions_put.induct)
  case (put_one prs prs' r)
  then show ?case using put_prediction_all [of prs' r] put_prediction_pids [of r prs'] by blast
qed auto

lemma stored_new_ok:
  assumes "store_ok d" "stored_new i (pitches d) (measurements d) (predictions d) a d'"
  shows "store_ok d'"
proof -
  from assms(2) obtain session :: Session and dev prs' row where
    row: "row = pitch_row i (ses_ID session) (max 1 (next_index (pitches d) (ses_ID session)))" "pitch_ok row"
      "p_ExternalPitchUid row \<notin> p_ExternalPitchUid ` set (pitches d)" "p_ID row \<notin> p_ID ` set (pitches d)"
    and me: "measurement_ok (measurementParams (p_ID row) dev (pi_normalized i))"
    and prs: "predictions_put (p_ID row) (predictions d) prs'"
    and T: "tables d' = (pitches d @ [row], put_measurement (measurementParams (p_ID row) dev (pi_normalized i)) (measurements d), prs')"
    unfolding stored_new_def by (elim exE conjE) (rule that)
  have d': "pitches d' = pitches d @ [row]" "predictions d' = prs'"
      "measurements d' = put_measurement (measurementParams (p_ID row) dev (pi_normalized i)) (measurements d)"
    using T by (simp_all add: tables_def)
  let ?m = "measurementParams (p_ID row) dev (pi_normalized i)"
  have meid: "me_PitchID ?m = p_ID row" by (simp add: measurementParams_def)
  have "me_PitchID ` set (measurements d) = p_ID ` set (pitches d)"
    using assms(1) unfolding store_ok_def by (metis set_map)
  with row(4) d'(3) meid have ms: "measurements d' = measurements d @ [?m]"
    by (simp add: put_measurement_def)
  have num: "numbered (pitches d) sid" for sid
    using assms(1) by (intro numbered_all) (simp add: store_ok_def)
  have "p_SessionPitchIndex row = next_index (pitches d) (p_SessionID row)"
    using next_index_numbered [OF num, of "ses_ID session"] by (simp add: row(1))
  then have num': "numbered (pitches d') sid" for sid
    unfolding d'(1) by (intro numbered_append num)
  have preds: "list_all prediction_ok (predictions d')" "pp_PitchID ` set (predictions d') \<subseteq> p_ID ` set (pitches d')"
    using predictions_put_ok [OF prs] assms(1) by (auto simp: d'(1,2) store_ok_def)
  show ?thesis
    unfolding store_ok_def using assms(1) row(2-4) me meid num' preds
    by (auto simp: d'(1) ms store_ok_def)
qed

lemma persist_post_ok: "store_ok d \<Longrightarrow> persist_post i (tables d) r d' \<Longrightarrow> store_ok d'"
proof (cases r)
  case None
  assume "store_ok d" "persist_post i (tables d) r d'"
  then show ?thesis using None store_ok_cong [of d' d] by (simp add: persist_post_def tables_def)
next
  case (Some a)
  assume "store_ok d" "persist_post i (tables d) r d'"
  with Some stored_new_ok [of d i a d'] show ?thesis by (simp add: persist_post_def tables_def)
qed

lemma Handle_store_ok: "store_ok (w_db w) \<Longrightarrow> store_ok (w_db (snd (HandlePitchRaw p env w)))"
proof (cases "decoded p env")
  case None
  assume "store_ok (w_db w)"
  with None show ?thesis using Handle_undecoded [of p env w] by force
next
  case (Some raw)
  assume ok: "store_ok (w_db w)"
  obtain r w' where run: "HandlePitchRaw p env w = (r, w')" by fastforce
  then have "handle_valid p (call_envs p (w_calls w)) env raw (w\<lparr>w_calls := w_calls w + 1\<rparr>) = (r, w')"
    by (simp add: Handle_decoded [OF Some])
  then have "store_ok (w_db w')"
    using ok by (cases rule: handle_valid_cases) (auto dest: persist_post_ok store_ok_cong)
  with run show ?thesis by simp
qed

section \<open>A normalized measurement satisfies the constraints\<close>

lemma float32_numeral:
  assumes "(numeral k :: nat) < 2 ^ 24"
  shows "float32 (Fin (numeral k)) = Fin (numeral k)" "float32 (Fin (- numeral k)) = Fin (- numeral k)"
  using rnd_fmt_numeral [of k binary32] assms by (simp_all add: float32_def binary32_def)

lemma f32_between:
  assumes "measurementBounds field = Some (Fin lo, Fin hi)" "float32 (Fin lo) = Fin lo" "float32 (Fin hi) = Fin hi"
  shows "opt_between (Fin lo) (Fin hi) (f32 (withinBounds field v))"
proof (cases "withinBounds field v")
  case (Some x)
  then obtain q where q: "x = Fin q" "lo \<le> q" "q \<le> hi" using withinBounds_range [OF Some assms(1)] by blast
  have "float32 (Fin lo) \<le> float32 x" "float32 x \<le> float32 (Fin hi)"
    using q by (auto intro!: float32_mono)
  moreover have "float32 x \<noteq> NaN" using q(1) by (simp add: float32_def rnd_fmt_not_NaN)
  ultimately show ?thesis using assms(2,3) Some
    by (simp add: opt_between_def between_def f32_def f64_le_order)
qed (simp add: opt_between_def f32_def)

lemma float32_0 [simp]: "float32 (Fin 0) = Fin 0"
  by (simp add: float32_def)

lemma measurementParams_simps [simp]:
  "me_PitchID (measurementParams pid dev m) = pid"
  "me_ReleaseSpeed (measurementParams pid dev m) = f32 (ReleaseSpeed m)"
  "me_ReleaseSpinRate (measurementParams pid dev m) = f32 (ReleaseSpinRate m)"
  "me_SpinAxis (measurementParams pid dev m) = f32 (SpinAxis m)"
  "me_ReleaseExtension (measurementParams pid dev m) = f32 (ReleaseExtension m)"
  "me_ReleasePosZ (measurementParams pid dev m) = f32 (ReleasePosZ m)"
  "me_MeasurementQuality (measurementParams pid dev m) = MeasurementQuality m"
  "me_NormalizationVersion (measurementParams pid dev m) = go_int16 (NormalizationVersion m)"
  "me_DeviceID (measurementParams pid dev m) = dev"
  by (simp_all add: measurementParams_def)

lemma quality_member: "List.member [''OK'', ''PARTIAL'', ''SUSPECT''] (quality raw)"
  by (simp add: quality_def Let_def)

lemma normalized_params_ok:
  "measurement_ok (measurementParams pid dev (Normalize raw pThrows stand))"
  unfolding measurement_ok_def measurementParams_simps Normalize_raw_fields Normalize_fields
  by (intro conjI f32_between bounds_of quality_member float32_numeral float32_0) (simp_all add: go_int16_eq)

text \<open>
  Whatever the device reports, the normalized measurement satisfies every CHECK of its
  table, the rounding to \<open>float32\<close> included: the plausibility bounds of the code agree with
  the constraints of the schema.  The bounds the schema does not check survive the rounding
  as well.
\<close>

theorem normalized_measurement_ok:
  "let row = measurementParams pid dev (Normalize raw pThrows stand) in
     measurement_ok row
     \<and> opt_between (Fin (- 6)) (Fin 6) (me_ReleasePosX row) \<and> opt_between (Fin (- 3)) (Fin 3) (me_PfxX row)
     \<and> opt_between (Fin (- 4)) (Fin 4) (me_PlateX row) \<and> opt_between (Fin (- 3)) (Fin 8) (me_PlateZ row)
     \<and> opt_between (Fin 2) (Fin 5) (me_SzTop row)"
  unfolding Let_def
proof (intro conjI normalized_params_ok)
  have row: "me_ReleasePosX (measurementParams pid dev m) = f32 (ReleasePosX m)"
    "me_PfxX (measurementParams pid dev m) = f32 (PfxX m)" "me_PlateX (measurementParams pid dev m) = f32 (PlateX m)"
    "me_PlateZ (measurementParams pid dev m) = f32 (PlateZ m)" "me_SzTop (measurementParams pid dev m) = f32 (SzTop m)" for m
    by (simp_all add: measurementParams_def)
  let ?m = "measurementParams pid dev (Normalize raw pThrows stand)"
  show "opt_between (Fin (- 6)) (Fin 6) (me_ReleasePosX ?m)" "opt_between (Fin (- 3)) (Fin 3) (me_PfxX ?m)"
    "opt_between (Fin (- 4)) (Fin 4) (me_PlateX ?m)" "opt_between (Fin (- 3)) (Fin 8) (me_PlateZ ?m)"
    "opt_between (Fin 2) (Fin 5) (me_SzTop ?m)"
    unfolding row Normalize_raw_fields by (intro f32_between bounds_of float32_numeral; simp)+
qed

end
