(* ===== verification/Ingest.thy ===== *)
theory Ingest
  imports Pipeline
begin

text \<open>
  What the pipeline guarantees end to end: a reading that fits the schema is stored even
  when inference gives nothing, redelivery changes nothing, every table keeps its invariant
  under any run of the consumer, and what happens when the analyzed event cannot be published.
\<close>

section \<open>A reading that can be stored\<close>

text \<open>
  Identifiers are derived from natural keys: \<open>keyed\<close> says that every row of the database
  carries the identifier of its key, and that foreign keys hold.
\<close>

definition keyed :: "('s, 'req, 'body) Pipeline \<Rightarrow> database \<Rightarrow> bool" where
  "keyed p d \<longleftrightarrow> list_all (\<lambda>r. ath_ID r = AthleteID p (ath_MlbamID r)) (athletes d)
     \<and> list_all (\<lambda>r. dev_ID r = NewSHA1 p (''device:'' @ dev_DeviceKey r)) (devices d)
     \<and> list_all (\<lambda>r. ses_ID r = SessionID p (ses_ExternalSessionUid r)) (sessions d)
     \<and> list_all (\<lambda>r. device_exists d (ses_DeviceID r)) (sessions d)
     \<and> list_all (\<lambda>r. p_ID r = PitchID p (p_ExternalPitchUid r)) (pitches d)"

definition named :: "string \<Rightarrow> bool" where
  "named s = (s = '''' \<or> list_ex (\<lambda>c. c \<noteq> CHR '' '') s)"

definition int16_range :: "int \<Rightarrow> bool" where "int16_range v \<longleftrightarrow> - 32768 \<le> v \<and> v < 32768"
definition int32_range :: "int \<Rightarrow> bool" where "int32_range v \<longleftrightarrow> - 2147483648 \<le> v \<and> v < 2147483648"

text \<open>What validation does not check and the schema does.\<close>

definition fits_schema :: "PitchRaw \<Rightarrow> bool" where
  "fits_schema raw \<longleftrightarrow> int32_range (PitcherMLBAMID (raw_Session raw)) \<and> int32_range (MLBAMID (raw_Batter raw))
     \<and> int16_range (AtBatNumber raw) \<and> int16_range (PitchNumber raw) \<and> int16_range (Inning (raw_Context raw))
     \<and> named (PitcherName (raw_Session raw)) \<and> named (Name (raw_Batter raw))
     \<and> List.member ['''', ''Top'', ''Bot''] (InningTopBot (raw_Context raw))
     \<and> opt_in (groundTruth (raw_GroundTruth raw)) [''BALL'', ''CALLED_STRIKE'', ''SWINGING_STRIKE'', ''FOUL'', ''IN_PLAY'', ''OTHER'']"

lemma validateRaw_None:
  assumes "validateRaw q raw = None"
  shows "1 \<le> AtBatNumber raw" "1 \<le> PitchNumber raw" "PitcherMLBAMID (raw_Session raw) \<noteq> 0"
    "0 \<le> Balls (raw_Context raw)" "Balls (raw_Context raw) \<le> 3"
    "0 \<le> Strikes (raw_Context raw)" "Strikes (raw_Context raw) \<le> 2"
    "0 \<le> OutsWhenUp (raw_Context raw)" "OutsWhenUp (raw_Context raw) \<le> 2" "1 \<le> Inning (raw_Context raw)"
    "SessionRef_PThrows (raw_Session raw) \<in> {''L'', ''R''}" "BatterRef_Stand (raw_Batter raw) \<in> {'''', ''L'', ''R''}"
  using assms by (auto simp: validateRaw_def Let_def split: if_splits)

lemma displayName_ok: "named s \<Longrightarrow> list_ex (\<lambda>c. c \<noteq> CHR '' '') (displayName s m)"
  by (auto simp: displayName_def named_def)

lemma pitcher_row_ok:
  assumes "validateRaw q raw = None" "fits_schema raw"
  shows "athlete_ok (pitcher_row (persist_input p env raw preds))"
  using validateRaw_None(11) [OF assms(1)] assms(2) displayName_ok
  by (auto simp: athlete_ok_def pitcher_row_def Let_def opt_in_def strPtr_def fits_schema_def)

lemma batter_row_ok:
  assumes "validateRaw q raw = None" "fits_schema raw"
  shows "athlete_ok (batter_row (persist_input p env raw preds) b)"
  using validateRaw_None(12) [OF assms(1)] assms(2) displayName_ok
  by (auto simp: athlete_ok_def batter_row_def Let_def opt_in_def strPtr_def fits_schema_def)

lemma pitch_row_ok:
  assumes "validateRaw q raw = None" "fits_schema raw" "1 \<le> n"
  shows "pitch_ok (pitch_row (persist_input p env raw preds) sid n)"
proof -
  note v = validateRaw_None [OF assms(1)]
  have "go_int16 (AtBatNumber raw) = AtBatNumber raw" "go_int16 (PitchNumber raw) = PitchNumber raw"
    "go_int16 (Inning (raw_Context raw)) = Inning (raw_Context raw)"
    "go_int16 (Balls (raw_Context raw)) = Balls (raw_Context raw)"
    "go_int16 (Strikes (raw_Context raw)) = Strikes (raw_Context raw)"
    "go_int16 (OutsWhenUp (raw_Context raw)) = OutsWhenUp (raw_Context raw)"
    using assms(2) v by (auto intro!: go_int16_id simp: fits_schema_def int16_range_def)
  moreover have "List.member [''L'', ''R''] (defaultStand (BatterRef_Stand (raw_Batter raw)))"
    using v(12) by (auto simp: defaultStand_def)
  moreover have "opt_in (strPtr (InningTopBot (raw_Context raw))) [''Top'', ''Bot'']"
    using assms(2) by (auto simp: fits_schema_def opt_in_def strPtr_def)
  ultimately show ?thesis
    using v assms(2,3) by (auto simp: pitch_ok_def pitch_row_def Let_def fits_schema_def persist_input_def)
qed

definition ready ::
  "('s, 'req, 'body) Pipeline \<Rightarrow> Pitch list \<times> PitchMeasurement list \<times> PitchPrediction list \<Rightarrow> uuid list \<Rightarrow> database \<Rightarrow> bool" where
  "ready p T A d \<longleftrightarrow> keyed p d \<and> tables d = T \<and> list_all (athlete_exists d) A"

lemma AthleteID_inject: "inj (NewSHA1 p) \<Longrightarrow> AthleteID p a = AthleteID p b \<longleftrightarrow> a = b"
  by (auto simp: AthleteID_def inj_eq)

lemma SessionID_inject: "inj (NewSHA1 p) \<Longrightarrow> SessionID p a = SessionID p b \<longleftrightarrow> a = b"
  by (auto simp: SessionID_def inj_eq)

lemma PitchID_inject: "inj (NewSHA1 p) \<Longrightarrow> PitchID p a = PitchID p b \<longleftrightarrow> a = b"
  by (auto simp: PitchID_def inj_eq)

lemma update_where_id:
  "(\<And>r. P r \<Longrightarrow> r \<in> set rs \<Longrightarrow> g (f r) = g r) \<Longrightarrow> map g (update_where P f rs) = map g rs"
  by (auto simp: update_where_def)

lemma list_ex_map_cong: "map g rs = map g rs' \<Longrightarrow> list_ex (\<lambda>r. g r = x) rs = list_ex (\<lambda>r. g r = x) rs'"
proof -
  have "list_ex (\<lambda>r. g r = x) rs = (x \<in> set (map g rs))" for rs
    by (auto simp: list_ex_iff)
  then show "map g rs = map g rs' \<Longrightarrow> list_ex (\<lambda>r. g r = x) rs = list_ex (\<lambda>r. g r = x) rs'" by metis
qed

lemma device_exists_frame [simp]:
  "device_exists (d\<lparr>athletes := a\<rparr>) i = device_exists d i"
  "device_exists (d\<lparr>sessions := ss\<rparr>) i = device_exists d i"
  "device_exists (d\<lparr>pitches := ps\<rparr>) i = device_exists d i"
  by (cases i; simp add: device_exists_def)+

lemma runs_UpsertAthlete:
  assumes "inj (NewSHA1 p)" "athlete_ok a" "ath_ID a = AthleteID p (ath_MlbamID a)"
  shows "tx_runs (ready p T A) (UpsertAthlete a) (\<lambda>_. ready p T (ath_ID a # A))"
  unfolding UpsertAthlete_def
proof (rule tx_runs_statement)
  fix d
  assume d: "ready p T A d"
  then have ids: "r \<in> set (athletes d) \<Longrightarrow> ath_ID r = AthleteID p (ath_MlbamID r)" for r
    by (auto simp: ready_def keyed_def list_all_iff)
  show "\<exists>r d'. (if \<not> athlete_ok a then (Inl check_violation, d)
     else (case find (\<lambda>r. ath_MlbamID r = ath_MlbamID a) (athletes d) of
       Some old \<Rightarrow>
         (let new = old\<lparr>ath_FullName := ath_FullName a,
                        ath_Throws := coalesce (ath_Throws a) (ath_Throws old),
                        ath_Bats := coalesce (ath_Bats a) (ath_Bats old),
                        ath_PrimaryRole := merge_role (ath_PrimaryRole old) (ath_PrimaryRole a)\<rparr>
          in (Inr new, d\<lparr>athletes := update_where (\<lambda>r. ath_MlbamID r = ath_MlbamID a) (\<lambda>r. new) (athletes d)\<rparr>))
     | None \<Rightarrow>
         if list_ex (\<lambda>r. ath_ID r = ath_ID a) (athletes d) then (Inl unique_violation, d)
         else (Inr a, d\<lparr>athletes := athletes d @ [a]\<rparr>))) = (Inr r, d') \<and> ready p T (ath_ID a # A) d'"
  proof (cases "find (\<lambda>r. ath_MlbamID r = ath_MlbamID a) (athletes d)")
    case None
    have "\<not> list_ex (\<lambda>r. ath_ID r = ath_ID a) (athletes d)"
      using find_None_list [OF None] ids assms(3) AthleteID_inject [OF assms(1)] by (auto simp: list_ex_iff)
    with None d assms(2,3) show ?thesis
      by (auto simp: ready_def keyed_def tables_def athlete_exists_def list_all_iff)
  next
    case (Some old)
    note old = find_Some_list [OF Some]
    define new where "new = old\<lparr>ath_FullName := ath_FullName a,
        ath_Throws := coalesce (ath_Throws a) (ath_Throws old), ath_Bats := coalesce (ath_Bats a) (ath_Bats old),
        ath_PrimaryRole := merge_role (ath_PrimaryRole old) (ath_PrimaryRole a)\<rparr>"
    let ?as = "update_where (\<lambda>r. ath_MlbamID r = ath_MlbamID a) (\<lambda>r. new) (athletes d)"
    have new: "ath_ID new = AthleteID p (ath_MlbamID a)" "ath_MlbamID new = ath_MlbamID a"
      using old ids by (auto simp: new_def)
    have same: "map ath_ID ?as = map ath_ID (athletes d)"
      using new ids by (intro update_where_id) auto
    have ex: "athlete_exists (d\<lparr>athletes := ?as\<rparr>) x = athlete_exists d x" for x
      using list_ex_map_cong [OF same] by (simp add: athlete_exists_def)
    have "athlete_exists d (ath_ID a)"
      using old ids [of old] assms(3) unfolding athlete_exists_def list_ex_iff by (metis (no_types, lifting))
    moreover have "list_all (\<lambda>r. ath_ID r = AthleteID p (ath_MlbamID r)) ?as"
      using ids new by (auto simp: update_where_def list_all_iff)
    ultimately have "ready p T (ath_ID a # A) (d\<lparr>athletes := ?as\<rparr>)"
      using d by (simp add: ready_def keyed_def tables_def ex list_all_iff)
    with Some assms(2) show ?thesis by (auto simp: new_def [symmetric] Let_def)
  qed
qed

lemma device_exists_cong:
  "map dev_ID vs = map dev_ID (devices d) \<Longrightarrow> device_exists (d\<lparr>devices := vs\<rparr>) i = device_exists d i"
  using list_ex_map_cong [of dev_ID vs "devices d"] by (cases i) (auto simp: device_exists_def)

lemma device_exists_append:
  "device_exists d i \<Longrightarrow> device_exists (d\<lparr>devices := devices d @ [v]\<rparr>) i"
  by (cases i) (auto simp: device_exists_def)

lemma runs_UpsertDevice:
  assumes "inj (NewSHA1 p)" "dev_ID v = NewSHA1 p (''device:'' @ dev_DeviceKey v)"
    "List.member [''REPLAY_SIMULATOR'', ''HAWKEYE'', ''TRACKMAN'', ''OTHER''] (dev_DeviceKind v)"
  shows "tx_runs (ready p T A) (UpsertDevice v) (\<lambda>r d. ready p T A d \<and> device_exists d (Some (dev_ID r)))"
  unfolding UpsertDevice_def
proof (rule tx_runs_statement)
  fix d
  assume d: "ready p T A d"
  then have ids: "r \<in> set (devices d) \<Longrightarrow> dev_ID r = NewSHA1 p (''device:'' @ dev_DeviceKey r)" for r
    by (auto simp: ready_def keyed_def list_all_iff)
  have ath: "athlete_exists (d\<lparr>devices := vs\<rparr>) = athlete_exists d" for vs by (simp add: athlete_exists_def fun_eq_iff)
  show "\<exists>r d'. (if \<not> List.member [''REPLAY_SIMULATOR'', ''HAWKEYE'', ''TRACKMAN'', ''OTHER''] (dev_DeviceKind v)
     then (Inl check_violation, d)
     else (case find (\<lambda>r. dev_DeviceKey r = dev_DeviceKey v) (devices d) of
       Some old \<Rightarrow>
         (let new = old\<lparr>dev_DeviceKind := dev_DeviceKind v\<rparr>
          in (Inr new, d\<lparr>devices := update_where (\<lambda>r. dev_DeviceKey r = dev_DeviceKey v) (\<lambda>r. new) (devices d)\<rparr>))
     | None \<Rightarrow>
         if list_ex (\<lambda>r. dev_ID r = dev_ID v) (devices d) then (Inl unique_violation, d)
         else (Inr v, d\<lparr>devices := devices d @ [v]\<rparr>))) = (Inr r, d') \<and> ready p T A d' \<and> device_exists d' (Some (dev_ID r))"
  proof (cases "find (\<lambda>r. dev_DeviceKey r = dev_DeviceKey v) (devices d)")
    case None
    have "\<not> list_ex (\<lambda>r. dev_ID r = dev_ID v) (devices d)"
      using find_None_list [OF None] ids assms(2) inj_eq [OF assms(1)] by (auto simp: list_ex_iff)
    moreover have "ready p T A (d\<lparr>devices := devices d @ [v]\<rparr>)"
      using d assms(2) device_exists_append [of d _ v]
      by (auto simp: ready_def keyed_def tables_def ath list_all_iff)
    ultimately show ?thesis using None assms(3) by (auto simp: device_exists_def)
  next
    case (Some old)
    note old = find_Some_list [OF Some]
    define new where "new = old\<lparr>dev_DeviceKind := dev_DeviceKind v\<rparr>"
    let ?vs = "update_where (\<lambda>r. dev_DeviceKey r = dev_DeviceKey v) (\<lambda>r. new) (devices d)"
    have new: "dev_ID new = dev_ID v" "dev_DeviceKey new = dev_DeviceKey v"
      using old ids assms(2) by (auto simp: new_def)
    have same: "map dev_ID ?vs = map dev_ID (devices d)"
      using new ids assms(2) by (intro update_where_id) auto
    have "device_exists d (Some (dev_ID new))"
      using old ids [of old] assms(2) unfolding device_exists_def list_ex_iff new(1) by auto
    moreover have "list_all (\<lambda>r. dev_ID r = NewSHA1 p (''device:'' @ dev_DeviceKey r)) ?vs"
      using ids new assms(2) by (auto simp: update_where_def list_all_iff)
    ultimately have "ready p T A (d\<lparr>devices := ?vs\<rparr>) \<and> device_exists (d\<lparr>devices := ?vs\<rparr>) (Some (dev_ID new))"
      using d by (simp add: ready_def keyed_def tables_def device_exists_cong [OF same] ath)
    with Some assms(3) show ?thesis by (auto simp: new_def [symmetric] Let_def)
  qed
qed

definition session_exists :: "database \<Rightarrow> uuid \<Rightarrow> bool" where
  "session_exists d i = list_ex (\<lambda>r. ses_ID r = i) (sessions d)"

lemma runs_UpsertSession:
  assumes "inj (NewSHA1 p)" "ses_ID s = SessionID p (ses_ExternalSessionUid s)" "ses_Status s = ''ACTIVE''"
    "List.member A (ses_PitcherAthleteID s)"
  shows "tx_runs (\<lambda>d. ready p T A d \<and> device_exists d (ses_DeviceID s)) (UpsertSession s)
     (\<lambda>r d. ready p T A d \<and> ses_ID r = ses_ID s \<and> session_exists d (ses_ID r))"
  unfolding UpsertSession_def
proof (rule tx_runs_statement)
  fix d
  assume "ready p T A d \<and> device_exists d (ses_DeviceID s)"
  then have d: "ready p T A d" and dev: "device_exists d (ses_DeviceID s)" by auto
  from d have ids: "r \<in> set (sessions d) \<Longrightarrow> ses_ID r = SessionID p (ses_ExternalSessionUid r)"
    and devs: "r \<in> set (sessions d) \<Longrightarrow> device_exists d (ses_DeviceID r)" for r
    by (auto simp: ready_def keyed_def list_all_iff)
  have ath: "athlete_exists (d\<lparr>sessions := vs\<rparr>) = athlete_exists d" for vs by (simp add: athlete_exists_def fun_eq_iff)
  show "\<exists>r d'. (if \<not> List.member [''ACTIVE'', ''COMPLETED'', ''ABORTED''] (ses_Status s) then (Inl check_violation, d)
     else (case find (\<lambda>r. ses_ExternalSessionUid r = ses_ExternalSessionUid s) (sessions d) of
       Some old \<Rightarrow>
         (let new = old\<lparr>ses_DeviceID := coalesce (ses_DeviceID s) (ses_DeviceID old),
                        ses_OpponentTeam := coalesce (ses_OpponentTeam s) (ses_OpponentTeam old)\<rparr>
          in if device_exists d (ses_DeviceID new)
             then (Inr new, d\<lparr>sessions := update_where
                 (\<lambda>r. ses_ExternalSessionUid r = ses_ExternalSessionUid s) (\<lambda>r. new) (sessions d)\<rparr>)
             else (Inl foreign_key_violation, d))
     | None \<Rightarrow>
         if list_ex (\<lambda>r. ses_ID r = ses_ID s) (sessions d) then (Inl unique_violation, d)
         else if \<not> athlete_exists d (ses_PitcherAthleteID s) \<or> \<not> device_exists d (ses_DeviceID s)
           then (Inl foreign_key_violation, d)
         else (Inr s, d\<lparr>sessions := sessions d @ [s]\<rparr>))) = (Inr r, d')
       \<and> ready p T A d' \<and> ses_ID r = ses_ID s \<and> session_exists d' (ses_ID r)"
  proof (cases "find (\<lambda>r. ses_ExternalSessionUid r = ses_ExternalSessionUid s) (sessions d)")
    case None
    have "\<not> list_ex (\<lambda>r. ses_ID r = ses_ID s) (sessions d)"
      using find_None_list [OF None] ids assms(2) SessionID_inject [OF assms(1)] by (auto simp: list_ex_iff)
    moreover have "athlete_exists d (ses_PitcherAthleteID s)"
      using d assms(4) by (auto simp: ready_def list_all_iff)
    moreover have "ready p T A (d\<lparr>sessions := sessions d @ [s]\<rparr>)"
      using d assms(2) dev by (auto simp: ready_def keyed_def tables_def ath list_all_iff)
    ultimately show ?thesis using None assms(3) dev by (auto simp: session_exists_def)
  next
    case (Some old)
    note old = find_Some_list [OF Some]
    define new where "new = old\<lparr>ses_DeviceID := coalesce (ses_DeviceID s) (ses_DeviceID old),
        ses_OpponentTeam := coalesce (ses_OpponentTeam s) (ses_OpponentTeam old)\<rparr>"
    let ?ss = "update_where (\<lambda>r. ses_ExternalSessionUid r = ses_ExternalSessionUid s) (\<lambda>r. new) (sessions d)"
    have new: "ses_ID new = ses_ID s" "ses_ExternalSessionUid new = ses_ExternalSessionUid s"
      using old ids assms(2) by (auto simp: new_def)
    have newdev: "device_exists d (ses_DeviceID new)"
      using dev devs [of old] old by (auto simp: new_def coalesce_def split: option.splits)
    have "ready p T A (d\<lparr>sessions := ?ss\<rparr>)"
      using d new newdev ids devs assms(2)
      by (auto simp: ready_def keyed_def tables_def ath list_all_iff update_where_def)
    moreover have "session_exists (d\<lparr>sessions := ?ss\<rparr>) (ses_ID new)"
    proof -
      have "new \<in> set ?ss" using old by (auto simp: update_where_def)
      then show ?thesis unfolding session_exists_def list_ex_iff by auto
    qed
    ultimately show ?thesis using Some assms(3) newdev new(1) by (auto simp: new_def [symmetric] Let_def)
  qed
qed

text \<open>The whole transaction, when inference gave nothing.\<close>

definition outage_row :: "('s, 'req, 'body) Pipeline \<Rightarrow> Envelope \<Rightarrow> PitchRaw \<Rightarrow> int \<Rightarrow> Pitch" where
  "outage_row p env raw n =
     pitch_row (persist_input p env raw []) (SessionID p (SessionRef_SessionUID (raw_Session raw))) n"

definition accepts ::
  "('s, 'req, 'body) Pipeline \<Rightarrow> PitchRaw \<Rightarrow> Pitch list \<times> PitchMeasurement list \<times> PitchPrediction list \<Rightarrow> bool" where
  "accepts p raw T = (case T of (ps, ms, prs) \<Rightarrow>
     \<not> list_ex (\<lambda>r. p_ExternalPitchUid r = PitchRaw_PitchUID raw) ps
     \<and> (let n = next_index ps (SessionID p (SessionRef_SessionUID (raw_Session raw))) in 1 \<le> n \<and> n < 2 ^ 31))"

lemma runs_next_index:
  assumes "next_index ps sid < 2 ^ 31"
  shows "tx_runs (\<lambda>d. tables d = (ps, ms, prs) \<and> R d) (NextSessionPitchIndex sid)
     (\<lambda>n d. n = next_index ps sid \<and> tables d = (ps, ms, prs) \<and> R d)"
  unfolding NextSessionPitchIndex_def
proof (rule tx_runs_statement)
  fix d
  assume d: "tables d = (ps, ms, prs) \<and> R d"
  with next_index_tables [of d ps ms prs sid] assms
  show "\<exists>a d'. (let ns = session_indices d sid; n = (if ns = [] then 0 else Max (set ns)) + 1
      in if 2 ^ 31 \<le> n then (Inl out_of_range, d) else (Inr n, d)) = (Inr a, d')
      \<and> a = next_index ps sid \<and> tables d' = (ps, ms, prs) \<and> R d'"
    by (simp add: Let_def)
qed

lemma tx_runs_optional:
  assumes "tx_runs P m Q"
  shows "tx_runs P (tx_optional m) (\<lambda>x d. \<exists>a. x = Some a \<and> Q a d)"
  unfolding tx_runs_def
proof (intro allI impI)
  fix fl :: txfaults and d and n :: nat
  assume "\<forall>k. stmt_fault fl k = None" "P d"
  with tx_runsD [OF assms] obtain a d' n' where "m fl (d, n) = (Inr a, (d', n'))" "Q a d'" by blast
  then show "\<exists>x d' n'. tx_optional m fl (d, n) = (Inr x, (d', n')) \<and> (\<exists>a. x = Some a \<and> Q a d')"
    by (simp add: tx_optional_def)
qed

lemma runs_InsertPitch:
  assumes "inj (NewSHA1 p)" "pitch_ok r" "p_ID r = PitchID p (p_ExternalPitchUid r)"
    "\<not> list_ex (\<lambda>q. p_ExternalPitchUid q = p_ExternalPitchUid r) ps"
    "List.member A (p_PitcherAthleteID r)" "\<forall>b. p_BatterAthleteID r = Some b \<longrightarrow> List.member A b"
  shows "tx_runs (\<lambda>d. ready p (ps, ms, prs) A d \<and> session_exists d (p_SessionID r)) (tx_optional (InsertPitch r))
     (\<lambda>x d. x = Some r \<and> ready p (ps @ [r], ms, prs) A d)"
proof -
  have "tx_runs (\<lambda>d. ready p (ps, ms, prs) A d \<and> session_exists d (p_SessionID r)) (InsertPitch r)
     (\<lambda>x d. x = r \<and> ready p (ps @ [r], ms, prs) A d)"
    unfolding InsertPitch_def
  proof (rule tx_runs_statement)
    fix d
    assume "ready p (ps, ms, prs) A d \<and> session_exists d (p_SessionID r)"
    then have d: "ready p (ps, ms, prs) A d" and ses: "session_exists d (p_SessionID r)" by auto
    then have ps: "pitches d = ps" by (simp add: ready_def tables_def)
    have ids: "q \<in> set (pitches d) \<Longrightarrow> p_ID q = PitchID p (p_ExternalPitchUid q)" for q
      using d by (auto simp: ready_def keyed_def list_all_iff)
    have "\<not> list_ex (\<lambda>q. p_ID q = p_ID r) (pitches d)"
      using ids assms(3,4) PitchID_inject [OF assms(1)] by (auto simp: list_ex_iff ps)
    moreover have "athlete_exists d x" if "List.member A x" for x
      using d that by (auto simp: ready_def list_all_iff)
    moreover have "ready p (ps @ [r], ms, prs) A (d\<lparr>pitches := pitches d @ [r]\<rparr>)"
      using d assms(3) ids by (auto simp: ready_def keyed_def tables_def athlete_exists_def list_all_iff)
    ultimately show "\<exists>a d'. (if \<not> pitch_ok r then (Inl check_violation, d)
       else if list_ex (\<lambda>q. p_ExternalPitchUid q = p_ExternalPitchUid r) (pitches d) then (Inl ErrNoRows, d)
       else if list_ex (\<lambda>q. p_ID q = p_ID r) (pitches d) then (Inl unique_violation, d)
       else if \<not> list_ex (\<lambda>q. ses_ID q = p_SessionID r) (sessions d)
          \<or> \<not> athlete_exists d (p_PitcherAthleteID r)
          \<or> (case p_BatterAthleteID r of None \<Rightarrow> False | Some b \<Rightarrow> \<not> athlete_exists d b)
         then (Inl foreign_key_violation, d)
       else (Inr r, d\<lparr>pitches := pitches d @ [r]\<rparr>)) = (Inr a, d') \<and> a = r \<and> ready p (ps @ [r], ms, prs) A d'"
      using assms(2,4-6) ses by (auto simp: ps session_exists_def split: option.splits)
  qed
  from tx_runs_optional [OF this] show ?thesis by (rule tx_runs_conseq) auto
qed

lemma runs_measurement:
  assumes "measurement_ok m" "me_PitchID m \<in> p_ID ` set ps"
  shows "tx_runs (\<lambda>d. tables d = (ps, ms, prs) \<and> device_exists d (me_DeviceID m)) (UpsertPitchMeasurement m)
     (\<lambda>_ d. tables d = (ps, put_measurement m ms, prs))"
  unfolding UpsertPitchMeasurement_def
proof (rule tx_runs_statement)
  fix d
  assume d: "tables d = (ps, ms, prs) \<and> device_exists d (me_DeviceID m)"
  have "list_ex (\<lambda>q. p_ID q = me_PitchID m) (pitches d)"
    using d assms(2) by (auto simp: tables_def list_ex_iff)
  moreover have "list_ex (\<lambda>o'. me_PitchID o' = me_PitchID m) ms \<longleftrightarrow> me_PitchID m \<in> me_PitchID ` set ms"
    unfolding list_ex_iff image_iff by metis
  ultimately show "\<exists>a d'. (if \<not> measurement_ok m then (Inl check_violation, d)
     else if \<not> list_ex (\<lambda>q. p_ID q = me_PitchID m) (pitches d) \<or> \<not> device_exists d (me_DeviceID m)
       then (Inl foreign_key_violation, d)
     else if list_ex (\<lambda>o'. me_PitchID o' = me_PitchID m) (measurements d)
       then (Inr m, d\<lparr>measurements := update_where (\<lambda>o'. me_PitchID o' = me_PitchID m) (\<lambda>_. m) (measurements d)\<rparr>)
     else (Inr m, d\<lparr>measurements := measurements d @ [m]\<rparr>)) = (Inr a, d')
     \<and> tables d' = (ps, put_measurement m ms, prs)"
    using d assms(1) by (simp add: tables_def put_measurement_def)
qed

lemma runs_resolveDevice:
  assumes "inj (NewSHA1 p)"
  shows "tx_runs (ready p T A) (resolveDevice p raw) (\<lambda>dev d. ready p T A d \<and> device_exists d dev)"
proof (cases "raw_DeviceID raw = ''''")
  case True
  then show ?thesis by (auto simp: resolveDevice_def device_exists_def intro!: tx_runs_return)
next
  case False
  then show ?thesis
    unfolding resolveDevice_def
    by (auto simp: defaultDeviceKind_def intro!: tx_runs_bind [OF tx_runs_wrap [OF runs_UpsertDevice]] tx_runs_return assms)
qed

text \<open>The steps before the insert.\<close>

lemma runs_people:
  fixes env :: Envelope and preds :: "PredictionResult list" and pre :: string
  assumes "inj (NewSHA1 p)" "validateRaw q raw = None" "fits_schema raw"
  defines "i \<equiv> persist_input p env raw preds"
  shows "tx_runs (ready p T []) (UpsertAthlete (pitcher_row i)) (\<lambda>_. ready p T [pi_pitcherID i])"
    "tx_runs (ready p T [pi_pitcherID i]) (case pi_batterID i of
       None \<Rightarrow> tx_return ()
     | Some b \<Rightarrow> tx_bind (tx_wrap pre (UpsertAthlete (batter_row i b))) (\<lambda>_. tx_return ()))
     (\<lambda>_. ready p T ((case pi_batterID i of None \<Rightarrow> [] | Some b \<Rightarrow> [b]) @ [pi_pitcherID i]))"
proof -
  have r: "go_int32 (PitcherMLBAMID (raw_Session raw)) = PitcherMLBAMID (raw_Session raw)"
    "go_int32 (MLBAMID (raw_Batter raw)) = MLBAMID (raw_Batter raw)"
    using assms(3) by (auto simp: fits_schema_def int32_range_def go_int32_id)
  have a: "ath_ID (pitcher_row i) = AthleteID p (ath_MlbamID (pitcher_row i))" "ath_ID (pitcher_row i) = pi_pitcherID i"
    by (simp_all add: pitcher_row_def Let_def i_def persist_input_def r)
  show "tx_runs (ready p T []) (UpsertAthlete (pitcher_row i)) (\<lambda>_. ready p T [pi_pitcherID i])"
    using runs_UpsertAthlete [OF assms(1) pitcher_row_ok [OF assms(2,3)], of p env preds T "[]"] a by (simp add: i_def)
  show "tx_runs (ready p T [pi_pitcherID i]) (case pi_batterID i of
       None \<Rightarrow> tx_return ()
     | Some b \<Rightarrow> tx_bind (tx_wrap pre (UpsertAthlete (batter_row i b))) (\<lambda>_. tx_return ()))
     (\<lambda>_. ready p T ((case pi_batterID i of None \<Rightarrow> [] | Some b \<Rightarrow> [b]) @ [pi_pitcherID i]))"
  proof (cases "pi_batterID i")
    case None
    then show ?thesis by (auto intro!: tx_runs_return)
  next
    case (Some b)
    have b: "ath_ID (batter_row i b) = AthleteID p (ath_MlbamID (batter_row i b))" "ath_ID (batter_row i b) = b"
      using Some by (auto simp: batter_row_def Let_def i_def persist_input_def r split: if_splits)
    have "tx_runs (ready p T [pi_pitcherID i]) (UpsertAthlete (batter_row i b)) (\<lambda>_. ready p T [b, pi_pitcherID i])"
      using runs_UpsertAthlete [OF assms(1) batter_row_ok [OF assms(2,3)], of p env preds b T "[pi_pitcherID i]"] b
      by (simp add: i_def)
    with Some show ?thesis by (auto intro!: tx_runs_bind [OF tx_runs_wrap] tx_runs_return)
  qed
qed

definition outage_post ::
  "persistInput \<Rightarrow> Pitch \<Rightarrow> Pitch list \<times> PitchMeasurement list \<times> PitchPrediction list \<Rightarrow> PitchAnalyzed option \<Rightarrow> database \<Rightarrow> bool" where
  "outage_post i row T r d \<longleftrightarrow> r \<noteq> None \<and> (case T of (ps, ms, prs) \<Rightarrow>
     \<exists>dev. tables d = (ps @ [row], put_measurement (measurementParams (p_ID row) dev (pi_normalized i)) ms, prs))"

text \<open>From the insert on: the pitch, its measurement, no predictions.\<close>

lemma runs_insert_tail:
  assumes "inj (NewSHA1 p)" "pitch_ok row" "p_ID row = PitchID p (p_ExternalPitchUid row)"
    "\<not> list_ex (\<lambda>q. p_ExternalPitchUid q = p_ExternalPitchUid row) ps"
    "List.member A (p_PitcherAthleteID row)" "\<forall>b. p_BatterAthleteID row = Some b \<longrightarrow> List.member A b"
    "\<And>pid dev. measurement_ok (measurementParams pid dev (pi_normalized i))"
  shows "tx_runs (\<lambda>d. (ready p (ps, ms, prs) A d \<and> session_exists d (p_SessionID row)) \<and> device_exists d dev)
     (tx_bind (tx_wrap ''insert pitch: '' (tx_optional (InsertPitch row))) (\<lambda>inserted.
       case inserted of
         None \<Rightarrow> tx_return None
       | Some pitch \<Rightarrow>
           tx_bind (tx_wrap ''upsert measurement: ''
                      (UpsertPitchMeasurement (measurementParams (p_ID pitch) dev (pi_normalized i)))) (\<lambda>_.
           tx_bind (persist_predictions p ce (p_ID pitch) []) (\<lambda>_.
           tx_return (Some (buildAnalyzed i pitch session))))))
     (outage_post i row (ps, ms, prs))"
proof -
  let ?m = "measurementParams (p_ID row) dev (pi_normalized i)"
  have dev: "tx_valid (\<lambda>d. device_exists d dev) (tx_optional (InsertPitch row)) (\<lambda>_ d. device_exists d dev)"
    by (rule tx_optional_valid)
      (auto simp: InsertPitch_def intro!: tx_valid_statement dest: statement_Inl split: if_splits)
  have ins: "tx_runs (\<lambda>d. (ready p (ps, ms, prs) A d \<and> session_exists d (p_SessionID row)) \<and> device_exists d dev)
      (tx_optional (InsertPitch row)) (\<lambda>x d. (x = Some row \<and> ready p (ps @ [row], ms, prs) A d) \<and> device_exists d dev)"
    by (intro tx_runs_frame dev runs_InsertPitch assms)
  show ?thesis
  proof (rule tx_runs_bind [OF tx_runs_wrap [OF ins]])
    fix x
    show "tx_runs (\<lambda>d. (x = Some row \<and> ready p (ps @ [row], ms, prs) A d) \<and> device_exists d dev)
       (case x of
          None \<Rightarrow> tx_return None
        | Some pitch \<Rightarrow>
            tx_bind (tx_wrap ''upsert measurement: ''
                       (UpsertPitchMeasurement (measurementParams (p_ID pitch) dev (pi_normalized i)))) (\<lambda>_.
            tx_bind (persist_predictions p ce (p_ID pitch) []) (\<lambda>_.
            tx_return (Some (buildAnalyzed i pitch session)))))
       (outage_post i row (ps, ms, prs))"
    proof (rule tx_runs_pre [where C = "x = Some row"])
      assume x: "x = Some row"
      have "tx_runs (\<lambda>d. (x = Some row \<and> ready p (ps @ [row], ms, prs) A d) \<and> device_exists d dev)
         (tx_wrap ''upsert measurement: '' (UpsertPitchMeasurement ?m)) (\<lambda>_ d. tables d = (ps @ [row], put_measurement ?m ms, prs))"
        by (rule tx_runs_conseq [OF tx_runs_wrap [OF runs_measurement [OF assms(7) [of "p_ID row" dev], where ps = "ps @ [row]" and ms = ms and prs = prs]]])
          (auto simp: ready_def)
      then show ?thesis
        unfolding x option.case
        by (rule tx_runs_bind) (auto simp: outage_post_def intro!: tx_runs_bind tx_runs_return)
    qed simp
  qed
qed

lemma runs_persist_outage:
  fixes env :: Envelope
  assumes "inj (NewSHA1 p)" "validateRaw q raw = None" "fits_schema raw" "accepts p raw (ps, ms, prs)"
  defines "i \<equiv> persist_input p env raw []" and "n \<equiv> next_index ps (SessionID p (SessionRef_SessionUID (raw_Session raw)))"
  shows "tx_runs (ready p (ps, ms, prs) []) (persist_tx p ce i) (outage_post i (outage_row p env raw n) (ps, ms, prs))"
proof -
  let ?T = "(ps, ms, prs)"
  define sid where "sid = SessionID p (SessionRef_SessionUID (raw_Session raw))"
  define row where "row = outage_row p env raw n"
  let ?A = "(case pi_batterID i of None \<Rightarrow> [] | Some b \<Rightarrow> [b]) @ [pi_pitcherID i]"
  have n: "1 \<le> n" "n < 2 ^ 31" and fresh: "\<not> list_ex (\<lambda>r. p_ExternalPitchUid r = PitchRaw_PitchUID raw) ps"
    using assms(4) by (auto simp: accepts_def n_def Let_def)
  have row: "row = pitch_row i sid n" "p_SessionID row = sid" "pitch_ok row" "p_ID row = PitchID p (p_ExternalPitchUid row)"
    "\<not> list_ex (\<lambda>r. p_ExternalPitchUid r = p_ExternalPitchUid row) ps"
    "List.member ?A (p_PitcherAthleteID row)" "\<forall>b. p_BatterAthleteID row = Some b \<longrightarrow> List.member ?A b"
    using pitch_row_ok [OF assms(2,3) n(1), of p env "[]" sid] fresh
    by (auto simp: row_def outage_row_def i_def sid_def pitch_row_def Let_def persist_input_def)
  let ?R = "\<lambda>dev d. (ready p ?T ?A d \<and> session_exists d (p_SessionID row)) \<and> device_exists d dev"
  have session: "tx_runs (\<lambda>d. ready p ?T ?A d \<and> device_exists d dev) (UpsertSession (session_row (time_Parse p) i dev))
      (\<lambda>r d. ses_ID r = sid \<and> ?R dev d)" for dev
  proof -
    have "tx_runs (\<lambda>d. ready p ?T ?A d \<and> device_exists d dev) (UpsertSession (session_row (time_Parse p) i dev))
      (\<lambda>r d. ready p ?T ?A d \<and> ses_ID r = sid \<and> session_exists d sid)"
      by (rule tx_runs_conseq [OF runs_UpsertSession [OF assms(1), of "session_row (time_Parse p) i dev" ?A ?T]])
        (auto simp: session_row_def Let_def i_def persist_input_def sid_def)
    moreover have "tx_valid (\<lambda>d. device_exists d dev) (UpsertSession (session_row (time_Parse p) i dev)) (\<lambda>_ d. device_exists d dev)"
      unfolding UpsertSession_def by (rule tx_valid_statement) (auto simp: Let_def split: if_splits option.splits)
    ultimately show ?thesis by (rule tx_runs_conseq [OF tx_runs_frame]) (auto simp: row(2))
  qed
  have "next_index ps sid < 2 ^ 31" using n(2) by (simp only: n_def sid_def)
  then have idx: "tx_runs (\<lambda>d. tables d = ?T \<and> ?R dev d)
      (NextSessionPitchIndex sid) (\<lambda>k d. k = n \<and> tables d = ?T \<and> ?R dev d)" for dev
    using runs_next_index [of ps sid ms prs] by (simp add: n_def sid_def)
  have index: "tx_runs (?R dev) (tx_wrap ''next pitch index: '' (NextSessionPitchIndex sid)) (\<lambda>k d. k = n \<and> ?R dev d)" for dev
    by (rule tx_runs_wrap [OF tx_runs_conseq [OF idx]]) (auto simp: ready_def)
  have "measurement_ok (measurementParams pid dev (pi_normalized i))" for pid dev
    by (simp add: i_def persist_input_def normalized_params_ok)
  note tail = runs_insert_tail [OF assms(1) row(3-7) this]
  have prow: "pitch_row i sid (if n < 1 then 1 else n) = row" using n(1) by (simp add: row(1))
  show ?thesis
    unfolding persist_tx_def row_def [symmetric]
    apply (rule tx_runs_bind [OF tx_runs_wrap [OF runs_people(1) [OF assms(1-3), of ?T env "[]", folded i_def]]])
    apply (rule tx_runs_bind [OF runs_people(2) [OF assms(1-3), of ?T env "[]", folded i_def]])
    apply (rule tx_runs_bind [OF runs_resolveDevice [OF assms(1)]])
    apply (rule tx_runs_bind [OF tx_runs_wrap [OF session]])
    subgoal for _ _ dev session
    proof (rule tx_runs_pre [where C = "ses_ID session = sid"])
      assume sid: "ses_ID session = sid"
      show ?thesis
        unfolding sid
        apply (rule tx_runs_bind [OF tx_runs_conseq [OF index]])
          apply blast
         apply assumption
        subgoal for k
        proof (rule tx_runs_pre [where C = "k = n"])
          assume k: "k = n"
          have preds: "pi_predictions i = []" by (simp add: i_def)
          show ?thesis unfolding k prow preds by (rule tx_runs_conseq [OF tail]) auto
        qed simp
        done
    qed simp
    done
qed

text \<open>The handler's run when inference gives nothing.\<close>

lemma outage_handled:
  assumes "decoded p env = Some raw" "fits_schema raw" "accepts p raw (tables (w_db w))"
    and "inj (NewSHA1 p)" "keyed p (w_db w)" "tx_faults (call_envs p (w_calls w)) = no_faults"
    and "predict p (call_envs p (w_calls w)) (pi_normalized (persist_input p env raw [])) raw (w_client w) (w_service w) = ([], cl, s)"
    and T: "tables (w_db w) = (ps, ms, prs)"
  shows "\<exists>a dev w1 n. HandlePitchRaw p env w = announce p (call_envs p (w_calls w)) env raw (persist_input p env raw []) a w1
     \<and> tables (w_db w1) = (ps @ [outage_row p env raw n],
          put_measurement (measurementParams (p_ID (outage_row p env raw n)) dev (pi_normalized (persist_input p env raw []))) ms, prs)
     \<and> w_bus w1 = w_bus w \<and> w_cache w1 = w_cache w"
proof -
  let ?i = "persist_input p env raw []" and ?ce = "call_envs p (w_calls w)"
  have v: "validateRaw (quoted p) raw = None"
    using assms(1) by (auto simp: decoded_def split: if_splits sum.splits option.splits)
  define n where "n = next_index ps (SessionID p (SessionRef_SessionUID (raw_Session raw)))"
  have acc: "accepts p raw (ps, ms, prs)" and rdy: "ready p (ps, ms, prs) [] (w_db w)"
    using assms(3,5) T by (simp_all add: ready_def)
  from InTx_runs [OF runs_persist_outage [OF assms(4) v assms(2) acc, where env = env and ce = ?ce] rdy]
  obtain r d' where run: "persist p ?ce ?i (w_db w) = (Inr r, d')"
    and post: "outage_post ?i (outage_row p env raw n) (ps, ms, prs) r d'"
    unfolding persist_def assms(6) n_def by blast
  from post obtain a dev where a: "r = Some a" and d': "tables d' = (ps @ [outage_row p env raw n],
      put_measurement (measurementParams (p_ID (outage_row p env raw n)) dev (pi_normalized ?i)) ms, prs)"
    by (auto simp: outage_post_def)
  obtain w1 where "HandlePitchRaw p env w = announce p ?ce env raw ?i a w1" "w_db w1 = d'"
      "w_bus w1 = w_bus w" "w_cache w1 = w_cache w"
    using run assms(7) by (simp add: Handle_decoded [OF assms(1)] handle_valid_def Let_def a)
  with d' show ?thesis by blast
qed

section \<open>A pipeline to evaluate on\<close>

text \<open>An injective numbering of strings in place of SHA-1, a service that cannot be reached.\<close>

fun string_number :: "string \<Rightarrow> nat" where
  "string_number [] = 0"
| "string_number (c # cs) = 257 * string_number cs + of_char c + 1"

lemma inj_string_number: "inj string_number"
proof (rule injI)
  show "string_number s = string_number t \<Longrightarrow> s = t" for s t
  proof (induction s arbitrary: t)
    case Nil
    then show ?case by (cases t) auto
  next
    case (Cons c cs)
    then obtain d ds where t: "t = d # ds" by (cases t) auto
    have lt: "(of_char x :: nat) < 256" for x by simp
    from Cons.prems t have eq: "257 * string_number cs + (of_char c + 1) = 257 * string_number ds + (of_char d + 1)" by simp
    then have "(257 * string_number cs + (of_char c + 1)) mod 257 = (257 * string_number ds + (of_char d + 1)) mod 257"
      "(257 * string_number cs + (of_char c + 1)) div 257 = (257 * string_number ds + (of_char d + 1)) div 257" by simp_all
    with lt [of c] lt [of d] have "(of_char c :: nat) = of_char d" "string_number cs = string_number ds" by simp_all
    with Cons.IH t show ?case by simp
  qed
qed

definition demo_raw :: PitchRaw where
  "demo_raw = \<lparr>raw_DeviceID = ''dev'', raw_DeviceKind = ''HAWKEYE'', ExternalGameRef = ''g1'', AtBatNumber = 1,
     PitchNumber = 2, ThrownAt = 5, SourceGameDate = '''',
     raw_Session = \<lparr>SessionRef_SessionUID = ''g1:7'', PitcherMLBAMID = 7, PitcherName = ''Ada'',
       SessionRef_PThrows = ''R'', OpponentTeam = ''''\<rparr>,
     raw_Batter = \<lparr>MLBAMID = 8, Name = '''', BatterRef_Stand = ''L''\<rparr>, raw_Context = a_context,
     raw_Measurement = blank_reading, raw_GroundTruth = Some \<lparr>Outcome = ''BALL''\<rparr>\<rparr>"

definition down_backend :: "(nat, predictRequest, predictRequest) Backend" where
  "down_backend = \<lparr>encode_request = Inr, transport = (\<lambda>url req n. (Inl (NetErr ''connection refused''), n + 1)),
     decode_prediction = (\<lambda>body. Inr empty_response), decode_problem = (\<lambda>body. None)\<rparr>"

definition demo_env :: "lib_error option \<Rightarrow> call_env" where
  "demo_env publish_error = \<lparr>ml_clock = (\<lambda>v. (1, 2)), tx_faults = no_faults, new_id = string_number, cache_now = 5,
     cache_reply = (\<lambda>op. Up), event_id = Inr 99, event_now = 6,
     publish_rt = calm\<lparr>write_fault := (\<lambda>n. publish_error)\<rparr>\<rparr>"

definition demo_pipeline :: "lib_error option \<Rightarrow> (nat, predictRequest, predictRequest) Pipeline" where
  "demo_pipeline publish_error = \<lparr>pl_backend = down_backend, pl_codec = one_envelope, pl_hashing = plain_hashing,
     pl_math = \<lparr>math_Sin = id, math_Cos = id, math_Sqrt = id\<rparr>, json_PitchRaw = (\<lambda>s. Inr demo_raw),
     marshal_analyzed = (\<lambda>a. Inr ''{}''), marshal_probs = (\<lambda>p. Inr ''{}''), NewSHA1 = string_number,
     time_Parse = (\<lambda>s. None), quoted = id, version = ''1'', call_envs = (\<lambda>n. demo_env publish_error)\<rparr>"

definition demo_world :: "nat world" where
  "demo_world = \<lparr>w_db = empty_db, w_cache = None, w_client = New (DefaultConfig ''http://ml''), w_service = 0,
     w_bus = idle (), w_calls = 0\<rparr>"

lemma demo_decoded: "decoded (demo_pipeline e) an_envelope = Some demo_raw"
  by (simp add: decoded_def an_envelope_def demo_pipeline_def Unmarshal_def validateRaw_def demo_raw_def a_context_def
      IsZero_def Let_def)

lemma demo_fits: "fits_schema demo_raw"
  by (simp add: fits_schema_def demo_raw_def a_context_def int32_range_def int16_range_def named_def groundTruth_def opt_in_def)

lemma demo_accepts: "accepts (demo_pipeline e) demo_raw (tables (w_db demo_world))"
  by (simp add: accepts_def demo_world_def empty_db_def tables_def next_index_def Let_def)

lemma demo_keyed: "keyed (demo_pipeline e) (w_db demo_world)"
  by (simp add: keyed_def demo_world_def empty_db_def)

lemma demo_predict:
  "\<exists>cl s. predict (demo_pipeline e) (call_envs (demo_pipeline e) (w_calls demo_world)) m raw
     (w_client demo_world) (w_service demo_world) = ([], cl, s)"
  by (simp add: predict_def demo_pipeline_def demo_env_def Predict_simps Client_post_def down_backend_def demo_world_def
      New_def DefaultConfig_def NewBreaker_def DefaultBreakerConfig_def advanceLocked_def RecordFailure_def Let_def
      VariantPitching_def VariantStuff_def)

section \<open>Properties\<close>




definition stored_world :: "nat world" where
  "stored_world = demo_world\<lparr>w_db := empty_db\<lparr>pitches := [outage_row (demo_pipeline None) an_envelope demo_raw 1]\<rparr>\<rparr>"

lemma stored_world_stored: "stored (demo_pipeline e) an_envelope stored_world"
  using demo_decoded [of e] by (simp add: stored_def stored_world_def uids_def outage_row_def)


text \<open>
  C14: the tables keep their invariant under every run of a reader, whatever fails and in
  whatever order messages arrive or repeat: pitches are stored once, each with exactly one
  measurement, numbered 1, 2, 3, ... within their session.
\<close>

theorem reader_keeps_store_ok:
  assumes "store_ok (w_db (app (consumer st)))" "run_reader cd c (HandlePitchRaw p) fs st = Some st'"
  shows "store_ok (w_db (app (consumer st')))"
  using run_reader_invariant [of "\<lambda>w. store_ok (w_db w)" "HandlePitchRaw p", OF Handle_store_ok] assms by blast

theorem reader_keeps_store_ok_witness:
  "\<exists>st'. run_reader one_envelope raw_consumer (HandlePitchRaw (demo_pipeline None)) [Fetched garbage calm None, Fetched garbage calm None]
         \<lparr>consumer = idle demo_world, committed = [], fetchFailures = 0, fetch_errors = 0\<rparr> = Some st'
     \<and> store_ok (w_db (app (consumer st')))"
proof -
  let ?fs = "[Fetched garbage calm None, Fetched garbage calm None]"
  let ?st = "\<lparr>consumer = idle demo_world, committed = [], fetchFailures = 0, fetch_errors = 0\<rparr>"
  obtain st' where run: "run_reader one_envelope raw_consumer (HandlePitchRaw (demo_pipeline None)) ?fs ?st = Some st'"
    using pipe.reader_accounts [OF safe_default, of ?st "demo_pipeline None" one_envelope ?fs]
    unfolding pipe.reader_ok_def by auto
  have "store_ok (w_db (app (consumer ?st)))" by (simp add: idle_def demo_world_def empty_db_def store_ok_def)
  from reader_keeps_store_ok [OF this run] run show ?thesis by blast
qed

text \<open>
  C19: an inference outage does not lose the pitch: a valid reading that fits the schema and is
  not stored yet is stored with its measurement, no prediction and the status FAILED, when
  the database does not fail.
\<close>

theorem outage_keeps_the_pitch:
  assumes "decoded p env = Some raw" "fits_schema raw" "accepts p raw (tables (w_db w))"
    and "inj (NewSHA1 p)" "keyed p (w_db w)" "tx_faults (call_envs p (w_calls w)) = no_faults"
    and "predict p (call_envs p (w_calls w)) (pi_normalized (persist_input p env raw [])) raw (w_client w) (w_service w) = ([], cl, s)"
  shows "\<exists>n dev w'. w' = snd (HandlePitchRaw p env w)
     \<and> pitches (w_db w') = pitches (w_db w) @ [outage_row p env raw n]
     \<and> p_PredictionStatus (outage_row p env raw n) = ''FAILED''
     \<and> p_ExternalPitchUid (outage_row p env raw n) = PitchRaw_PitchUID raw
     \<and> measurementParams (p_ID (outage_row p env raw n)) dev (pi_normalized (persist_input p env raw [])) \<in> set (measurements (w_db w'))
     \<and> predictions (w_db w') = predictions (w_db w)"
proof -
  let ?i = "persist_input p env raw []"
  obtain ps ms prs where T: "tables (w_db w) = (ps, ms, prs)" by (cases "tables (w_db w)")
  from outage_handled [OF assms T] obtain a dev w1 n where
    run: "HandlePitchRaw p env w = announce p (call_envs p (w_calls w)) env raw ?i a w1"
    and d': "tables (w_db w1) = (ps @ [outage_row p env raw n],
      put_measurement (measurementParams (p_ID (outage_row p env raw n)) dev (pi_normalized ?i)) ms, prs)" by blast
  have db: "w_db (snd (HandlePitchRaw p env w)) = w_db w1"
    unfolding run using announce_outcome(1) by (metis prod.collapse)
  have "m \<in> set (put_measurement m ms)" for m
    by (auto simp: put_measurement_def update_where_def image_iff)
  with T d' show ?thesis
    by (intro exI [of _ n] exI [of _ dev] exI [of _ "snd (HandlePitchRaw p env w)"])
      (auto simp: db tables_def outage_row_def persist_input_def)
qed

theorem outage_keeps_the_pitch_witness:
  "\<exists>n dev w'. w' = snd (HandlePitchRaw (demo_pipeline None) an_envelope demo_world)
     \<and> pitches (w_db w') = pitches (w_db demo_world) @ [outage_row (demo_pipeline None) an_envelope demo_raw n]
     \<and> p_PredictionStatus (outage_row (demo_pipeline None) an_envelope demo_raw n) = ''FAILED''
     \<and> p_ExternalPitchUid (outage_row (demo_pipeline None) an_envelope demo_raw n) = PitchRaw_PitchUID demo_raw
     \<and> measurementParams (p_ID (outage_row (demo_pipeline None) an_envelope demo_raw n)) dev
          (pi_normalized (persist_input (demo_pipeline None) an_envelope demo_raw [])) \<in> set (measurements (w_db w'))
     \<and> predictions (w_db w') = predictions (w_db demo_world)"
proof -
  obtain cl s where pr: "predict (demo_pipeline None) (call_envs (demo_pipeline None) (w_calls demo_world))
      (pi_normalized (persist_input (demo_pipeline None) an_envelope demo_raw [])) demo_raw
      (w_client demo_world) (w_service demo_world) = ([], cl, s)"
    using demo_predict by blast
  show ?thesis
    by (rule outage_keeps_the_pitch [OF demo_decoded demo_fits demo_accepts _ demo_keyed _ pr])
      (simp_all add: demo_pipeline_def inj_string_number demo_env_def)
qed

text \<open>
  C20: a pitch stored by a call that returned an error is never announced afterwards: that call
  published nothing, unless the broker kept the one message whose acknowledgement was lost,
  and every later delivery is answered with an error and leaves rows, live counters and the
  analyzed topic as they are.
\<close>

theorem failed_publish_never_retried:
  assumes "HandlePitchRaw p env w = (Some err, w1)" "stored p env w1"
  shows "(written (w_bus w1) = written (w_bus w)
       \<or> (\<exists>m. written (w_bus w1) = written (w_bus w) @ [m] \<and> write_kept (publish_rt (call_envs p (w_calls w))) (writes (w_bus w))))
     \<and> pipe_view (((\<lambda>w. snd (HandlePitchRaw p env w)) ^^ n) w1) = pipe_view w1
     \<and> fst (HandlePitchRaw p env (((\<lambda>w. snd (HandlePitchRaw p env w)) ^^ n) w1)) \<noteq> None"
proof -
  let ?again = "\<lambda>w. snd (HandlePitchRaw p env w)"
  have ind: "stored p env ((?again ^^ n) w1) \<and> pipe_view ((?again ^^ n) w1) = pipe_view w1"
    using assms(2) by (induction n) (auto simp: pipe.settled_stable pipe.settled_absorbs)
  then have err: "fst (HandlePitchRaw p env ((?again ^^ n) w1)) \<noteq> None" using pipe.settled_absorbs by blast
  obtain raw where raw: "decoded p env = Some raw" using assms(2) by (auto simp: stored_def)
  from assms(1) have "handle_valid p (call_envs p (w_calls w)) env raw (w\<lparr>w_calls := w_calls w + 1\<rparr>) = (Some err, w1)"
    by (simp add: Handle_decoded [OF raw])
  then have "written (w_bus w1) = written (w_bus w)
     \<or> (\<exists>m. written (w_bus w1) = written (w_bus w) @ [m] \<and> write_kept (publish_rt (call_envs p (w_calls w))) (writes (w_bus w)))"
    by (cases rule: handle_valid_cases)
      (auto simp: announce_def Let_def Publish_def write_message_def split: sum.splits prod.splits option.splits if_splits)
  with ind err show ?thesis by blast
qed

theorem failed_publish_never_retried_witness:
  "\<exists>err w1. HandlePitchRaw (demo_pipeline (Some (NetErr ''broker down''))) an_envelope demo_world = (Some err, w1)
     \<and> stored (demo_pipeline (Some (NetErr ''broker down''))) an_envelope w1 \<and> written (w_bus w1) = []
     \<and> pipe_view (((\<lambda>w. snd (HandlePitchRaw (demo_pipeline (Some (NetErr ''broker down''))) an_envelope w)) ^^ 3) w1) = pipe_view w1"
proof -
  let ?p = "demo_pipeline (Some (NetErr ''broker down''))"
  obtain cl s where pr: "predict ?p (call_envs ?p (w_calls demo_world))
      (pi_normalized (persist_input ?p an_envelope demo_raw [])) demo_raw (w_client demo_world) (w_service demo_world) = ([], cl, s)"
    using demo_predict by blast
  obtain err w1 where run: "HandlePitchRaw ?p an_envelope demo_world = (err, w1)" by fastforce
  obtain ps ms prs where T: "tables (w_db demo_world) = (ps, ms, prs)" by (cases "tables (w_db demo_world)")
  have "inj (NewSHA1 ?p)" "tx_faults (call_envs ?p (w_calls demo_world)) = no_faults"
    by (simp_all add: demo_pipeline_def inj_string_number demo_env_def)
  from outage_handled [OF demo_decoded demo_fits demo_accepts this(1) demo_keyed this(2) pr T] run
  obtain a dev w0 n where an: "announce ?p (demo_env (Some (NetErr ''broker down''))) an_envelope demo_raw
       (persist_input ?p an_envelope demo_raw []) a w0 = (err, w1)"
    and d: "tables (w_db w0) = (ps @ [outage_row ?p an_envelope demo_raw n],
          put_measurement (measurementParams (p_ID (outage_row ?p an_envelope demo_raw n)) dev
            (pi_normalized (persist_input ?p an_envelope demo_raw []))) ms, prs)"
    by (auto simp: demo_pipeline_def)
  have "w_db w1 = w_db w0" using announce_outcome(1) [OF an] .
  with d have st: "stored ?p an_envelope w1"
    using demo_decoded by (auto simp: stored_def uids_tables outage_row_def)
  from an obtain e where e: "err = Some e"
    by (auto simp: announce_def Let_def demo_env_def demo_pipeline_def Derive_def NewEnvelope_def Publish_def Validate_def
        one_envelope_def plain_codec_def write_message_def calm_def an_envelope_def split: option.splits prod.splits sum.splits if_splits)
  have bus: "written (w_bus demo_world) = []" "\<not> write_kept (publish_rt (call_envs ?p (w_calls demo_world))) k" for k
    by (simp_all add: demo_world_def idle_def demo_pipeline_def demo_env_def calm_def)
  from failed_publish_never_retried [OF run [unfolded e] st, of 3] run e st bus show ?thesis by auto
qed

text \<open>
  C21: no prediction and no request to the inference service depends on the outcome the event
  carries: the calls made for a reading, and what they return, are those for the same reading
  without its ground truth.
\<close>

theorem predictions_ignore_outcome:
  "predict p ce m (raw\<lparr>raw_GroundTruth := g\<rparr>) c s = predict p ce m raw c s"
proof -
  have "raw_features p m (raw\<lparr>raw_GroundTruth := g\<rparr>) v = raw_features p m raw v" for v
    by (simp add: raw_features_def raw_input_def PitchRaw_PitchUID_def)
  then have "predict_variants p ce m (raw\<lparr>raw_GroundTruth := g\<rparr>) vs c s out = predict_variants p ce m raw vs c s out" for vs out
    by (induction vs arbitrary: c s out) (simp_all split: prod.splits sum.splits option.splits list.splits)
  then show ?thesis by (simp only: predict_def)
qed

end
