(* ===== verification/Detector.thy ===== *)
theory Detector
  imports Floats
begin

text \<open>
  internal/anomaly/detector.go: median, MAD and the robust z-score of a session against the
  pitcher's own trailing window, in binary64 arithmetic.  \<open>sort.Float64s\<close> is the library's
  \<open>sort\<close> on the order of theory Floats (NaN first).
\<close>

section \<open>Statistics\<close>

definition Median :: "f64 list \<Rightarrow> f64" where
  "Median values =
     (if length values = 0 then NaN
      else (let s = sort values; mid = length s div 2 in
            if length s mod 2 = 1 then s ! mid
            else f64_div (f64_add (s ! (mid - 1)) (s ! mid)) (Fin 2)))"

definition MAD :: "f64 list \<Rightarrow> f64" where
  "MAD values =
     (if length values = 0 then NaN
      else (let median = Median values in Median (map (\<lambda>v. math_Abs (f64_sub v median)) values)))"

definition madScale :: f64 where
  "madScale = rnd64 (14826 / 10000)"

definition RobustSigma :: "f64 list \<Rightarrow> f64" where
  "RobustSigma values = f64_mul madScale (MAD values)"

section \<open>The detector\<close>

datatype Metric =
    MetricReleaseSpeed | MetricReleaseSpinRate | MetricReleasePosXArm | MetricReleasePosZ
  | MetricReleaseExtension | MetricPfxXArm | MetricPfxZ

definition AllMetrics :: "Metric list" where
  "AllMetrics = [MetricReleaseSpeed, MetricReleaseSpinRate, MetricReleasePosXArm, MetricReleasePosZ,
     MetricReleaseExtension, MetricPfxXArm, MetricPfxZ]"

fun Metric_string :: "Metric \<Rightarrow> string" where
  "Metric_string MetricReleaseSpeed = ''release_speed''"
| "Metric_string MetricReleaseSpinRate = ''release_spin_rate''"
| "Metric_string MetricReleasePosXArm = ''release_pos_x_arm''"
| "Metric_string MetricReleasePosZ = ''release_pos_z''"
| "Metric_string MetricReleaseExtension = ''release_extension''"
| "Metric_string MetricPfxXArm = ''pfx_x_arm''"
| "Metric_string MetricPfxZ = ''pfx_z''"

datatype Direction = DirectionIncrease | DirectionDecrease
datatype Severity = SeverityMedium | SeverityHigh

fun Direction_string :: "Direction \<Rightarrow> string" where
  "Direction_string DirectionIncrease = ''INCREASE''"
| "Direction_string DirectionDecrease = ''DECREASE''"

fun Severity_string :: "Severity \<Rightarrow> string" where
  "Severity_string SeverityMedium = ''MEDIUM''"
| "Severity_string SeverityHigh = ''HIGH''"

record DetectorConfig =
  WindowSessions :: int
  MinWindowSessions :: int
  MinPitchesPerSession :: int
  HighThreshold :: f64
  MediumThreshold :: f64
  SigmaFloor :: "(Metric \<rightharpoonup> f64) option"

definition default_floors :: "Metric \<rightharpoonup> f64" where
  "default_floors = map_of
     [(MetricReleaseSpeed, rnd64 (1 / 4)), (MetricReleaseSpinRate, rnd64 25),
      (MetricReleasePosXArm, rnd64 (2 / 100)), (MetricReleasePosZ, rnd64 (2 / 100)),
      (MetricReleaseExtension, rnd64 (3 / 100)), (MetricPfxXArm, rnd64 (3 / 100)), (MetricPfxZ, rnd64 (3 / 100))]"

definition DefaultDetectorConfig :: DetectorConfig where
  "DefaultDetectorConfig = \<lparr>WindowSessions = 10, MinWindowSessions = 5, MinPitchesPerSession = 5,
     HighThreshold = Fin 3, MediumThreshold = Fin (5 / 2), SigmaFloor = Some default_floors\<rparr>"

record SessionPoint =
  sp_SessionID :: nat
  sp_StartedAt :: time
  sp_PitchCount :: int
  sp_Value :: f64

record Observation =
  ob_AthleteID :: nat
  ob_SessionID :: nat
  ob_PitchType :: string
  ob_Metric :: Metric
  ob_Value :: f64
  ob_PitchCount :: int
  ob_DetectedAt :: time

record Finding =
  fi_AthleteID :: nat
  fi_SessionID :: nat
  fi_Metric :: Metric
  fi_PitchType :: string
  fi_ObservedValue :: f64
  fi_BaselineMedian :: f64
  fi_RobustSigma :: f64
  fi_ZRobust :: f64
  fi_Direction :: Direction
  fi_Severity :: Severity
  fi_WindowSessions :: int
  fi_DetectorVersion :: string
  fi_DetectedAt :: time

definition DetectorVersion :: string where "DetectorVersion = ''robust-mad-v1''"

definition NewDetector :: "DetectorConfig \<Rightarrow> DetectorConfig" where
  "NewDetector c = c\<lparr>
     WindowSessions := (if WindowSessions c \<le> 0 then 10 else WindowSessions c),
     MinWindowSessions := (if MinWindowSessions c \<le> 0 then 5 else MinWindowSessions c),
     MinPitchesPerSession := (if MinPitchesPerSession c \<le> 0 then 5 else MinPitchesPerSession c),
     HighThreshold := (if f64_le (HighThreshold c) (Fin 0) then Fin 3 else HighThreshold c),
     MediumThreshold := (if f64_le (MediumThreshold c) (Fin 0) then Fin (5 / 2) else MediumThreshold c),
     SigmaFloor := (case SigmaFloor c of None \<Rightarrow> Some default_floors | Some f \<Rightarrow> Some f)\<rparr>"

text \<open>The loop over the window, with its accumulator and its early exit.\<close>

fun usable_loop :: "DetectorConfig \<Rightarrow> f64 list \<Rightarrow> SessionPoint list \<Rightarrow> f64 list" where
  "usable_loop c acc [] = acc"
| "usable_loop c acc (p # ps) =
     (let acc' = (if MinPitchesPerSession c \<le> sp_PitchCount p \<and> \<not> math_IsNaN (sp_Value p)
                  then acc @ [sp_Value p] else acc)
      in if WindowSessions c \<le> int (length acc') then acc' else usable_loop c acc' ps)"

definition floored :: "DetectorConfig \<Rightarrow> Metric \<Rightarrow> f64 \<Rightarrow> f64" where
  "floored c metric sigma = (case SigmaFloor c of
       None \<Rightarrow> sigma
     | Some floors \<Rightarrow> (case floors metric of None \<Rightarrow> sigma | Some b \<Rightarrow> if f64_lt sigma b then b else sigma))"

definition grade :: "DetectorConfig \<Rightarrow> f64 \<Rightarrow> Severity option" where
  "grade c z = (if f64_le (HighThreshold c) (math_Abs z) then Some SeverityHigh
     else if f64_le (MediumThreshold c) (math_Abs z) then Some SeverityMedium else None)"

definition Evaluate :: "DetectorConfig \<Rightarrow> time \<Rightarrow> Observation \<Rightarrow> SessionPoint list \<Rightarrow> Finding option" where
  "Evaluate c now obs window =
     (if ob_PitchCount obs < MinPitchesPerSession c then None
      else (let usable = usable_loop c [] window in
        if int (length usable) < MinWindowSessions c then None
        else (let median = Median usable; sigma = floored c (ob_Metric obs) (RobustSigma usable) in
          if f64_le sigma (Fin 0) \<or> math_IsNaN sigma then None
          else (let z = f64_div (f64_sub (ob_Value obs) median) sigma in
            if math_IsNaN z \<or> math_IsInf z then None
            else (case grade c z of
                None \<Rightarrow> None
              | Some severity \<Rightarrow> Some \<lparr>fi_AthleteID = ob_AthleteID obs, fi_SessionID = ob_SessionID obs,
                  fi_Metric = ob_Metric obs, fi_PitchType = ob_PitchType obs, fi_ObservedValue = ob_Value obs,
                  fi_BaselineMedian = median, fi_RobustSigma = sigma, fi_ZRobust = z,
                  fi_Direction = (if f64_lt z (Fin 0) then DirectionDecrease else DirectionIncrease),
                  fi_Severity = severity, fi_WindowSessions = int (length usable),
                  fi_DetectorVersion = DetectorVersion,
                  fi_DetectedAt = (if IsZero (ob_DetectedAt obs) then now else ob_DetectedAt obs)\<rparr>)))))"

section \<open>The window\<close>

definition usable_spec :: "DetectorConfig \<Rightarrow> SessionPoint list \<Rightarrow> f64 list" where
  "usable_spec c window = take (nat (WindowSessions c))
     (map sp_Value (filter (\<lambda>p. MinPitchesPerSession c \<le> sp_PitchCount p \<and> sp_Value p \<noteq> NaN) window))"

lemma usable_loop_take:
  "int (length acc) < WindowSessions c \<Longrightarrow>
     usable_loop c acc ps = acc @ take (nat (WindowSessions c) - length acc)
       (map sp_Value (filter (\<lambda>p. MinPitchesPerSession c \<le> sp_PitchCount p \<and> sp_Value p \<noteq> NaN) ps))"
proof (induction ps arbitrary: acc)
  case (Cons p ps)
  show ?case
  proof (cases "MinPitchesPerSession c \<le> sp_PitchCount p \<and> sp_Value p \<noteq> NaN")
    case True
    define k where "k = nat (WindowSessions c) - length acc"
    obtain j where j: "k = Suc j" using Cons.prems by (cases k) (auto simp: k_def)
    show ?thesis
    proof (cases "WindowSessions c \<le> int (length acc) + 1")
      case le: True
      then have "j = 0" using j by (simp add: k_def)
      with True j le show ?thesis by (simp add: Let_def math_IsNaN_def k_def [symmetric])
    next
      case False
      have "nat (WindowSessions c) - length (acc @ [sp_Value p]) = j" using j by (simp add: k_def)
      with True False j Cons.IH [of "acc @ [sp_Value p]"] show ?thesis
        by (simp add: Let_def math_IsNaN_def k_def [symmetric])
    qed
  next
    case False
    with Cons show ?thesis by (auto simp: Let_def math_IsNaN_def)
  qed
qed simp

lemma usable_eq: "0 < WindowSessions c \<Longrightarrow> usable_loop c [] window = usable_spec c window"
  by (simp add: usable_loop_take usable_spec_def)

section \<open>The median of a majority\<close>

text \<open>\<open>exact64 q\<close>: \<open>q\<close> is a binary64 value whose double is one too.\<close>

definition exact64 :: "rat \<Rightarrow> bool" where
  "exact64 q \<longleftrightarrow> rnd64 q = Fin q \<and> \<bar>2 * q\<bar> < 2 ^ max_exp binary64"

definition in_range :: "rat \<Rightarrow> rat \<Rightarrow> f64 \<Rightarrow> bool" where
  "in_range lo hi x \<longleftrightarrow> Fin lo \<le> x \<and> x \<le> Fin hi"

lemma sorted_above:
  assumes "sorted ys" "k < length ys" "Fin hi < ys ! k"
  shows "length (filter (in_range lo hi) ys) \<le> k"
proof -
  have "filter (in_range lo hi) (drop k ys) = []"
  proof (clarsimp simp: filter_empty_conv in_set_conv_nth)
    fix j assume j: "j < length ys - k" and r: "in_range lo hi (ys ! (k + j))"
    then have "ys ! k \<le> ys ! (k + j)" using assms by (intro sorted_nth_mono) auto
    with r assms(3) show False by (auto simp: in_range_def)
  qed
  moreover have "length (filter (in_range lo hi) (take k ys)) \<le> k"
    using length_filter_le [of "in_range lo hi" "take k ys"] by simp
  ultimately show ?thesis
    using append_take_drop_id [of k ys] by (metis append_Nil2 filter_append)
qed

lemma sorted_below:
  assumes "sorted ys" "k < length ys" "ys ! k < Fin lo"
  shows "length (filter (in_range lo hi) ys) \<le> length ys - Suc k"
proof -
  have "filter (in_range lo hi) (take (Suc k) ys) = []"
  proof (clarsimp simp: filter_empty_conv in_set_conv_nth)
    fix j assume j: "j < length ys" "j < Suc k" and r: "in_range lo hi (ys ! j)"
    then have "ys ! j \<le> ys ! k" using assms by (intro sorted_nth_mono) auto
    with r assms(3) show False by (auto simp: in_range_def)
  qed
  moreover have "length (filter (in_range lo hi) (drop (Suc k) ys)) \<le> length ys - Suc k"
    using length_filter_le [of "in_range lo hi" "drop (Suc k) ys"] by simp
  ultimately show ?thesis
    using append_take_drop_id [of "Suc k" ys] by (metis append_Nil filter_append)
qed

lemma majority_middle:
  assumes "sorted ys" "length ys < 2 * length (filter (in_range lo hi) ys)" "k < length ys"
    "k = length ys div 2 \<or> (even (length ys) \<and> k = length ys div 2 - 1)"
  shows "in_range lo hi (ys ! k)"
proof (rule ccontr)
  assume "\<not> in_range lo hi (ys ! k)"
  then consider "Fin hi < ys ! k" | "ys ! k < Fin lo" by (auto simp: in_range_def not_le)
  then show False
  proof cases
    case 1
    from sorted_above [OF assms(1,3) 1, of lo] assms(2,4) show False by auto
  next
    case 2
    from sorted_below [OF assms(1,3) 2, of hi] assms(2-4) show False by auto
  qed
qed

lemma in_range_mid:
  assumes "exact64 lo" "exact64 hi" "in_range lo hi x" "in_range lo hi y"
  shows "in_range lo hi (f64_div (f64_add x y) (Fin 2))"
proof -
  obtain a b where ab: "x = Fin a" "y = Fin b" "lo \<le> a" "a \<le> hi" "lo \<le> b" "b \<le> hi"
    using assms(3,4) by (cases x; cases y) (auto simp: in_range_def less_eq_f64_def)
  from rnd.rnd_mid_between [of lo hi a b] assms(1,2) ab obtain s where
    "rnd64 (a + b) = Fin s" "Fin lo \<le> rnd64 (s / 2)" "rnd64 (s / 2) \<le> Fin hi"
    unfolding exact64_def by blast
  with ab show ?thesis by (simp add: in_range_def)
qed

lemma Median_majority:
  assumes "exact64 lo" "exact64 hi" "length xs < 2 * length (filter (in_range lo hi) xs)"
  shows "in_range lo hi (Median xs)"
proof -
  let ?s = "sort xs"
  have "length (filter (in_range lo hi) ?s) = length (filter (in_range lo hi) xs)"
    by (simp add: filter_sort)
  with assms(3) have maj: "length ?s < 2 * length (filter (in_range lo hi) ?s)" by simp
  have ne: "0 < length ?s" using maj by (cases xs) auto
  then have mid: "in_range lo hi (?s ! (length ?s div 2))"
    by (intro majority_middle [OF _ maj]) auto
  show ?thesis
  proof (cases "length ?s mod 2 = 1")
    case True
    with mid ne show ?thesis by (simp add: Median_def Let_def)
  next
    case False
    then have "even (length ?s)" by presburger
    moreover have "length ?s div 2 - 1 < length ?s" using ne by linarith
    ultimately have "in_range lo hi (?s ! (length ?s div 2 - 1))"
      by (intro majority_middle [OF _ maj]) auto
    from in_range_mid [OF assms(1,2) this mid] False ne show ?thesis by (auto simp: Median_def Let_def)
  qed
qed

section \<open>What a finding says\<close>

lemma f64_le_positive: "f64_lt (Fin 0) t \<Longrightarrow> f64_le t (math_Abs z) \<Longrightarrow> z \<noteq> Fin 0 \<and> z \<noteq> NaN"
  by (cases z; cases t) (auto simp: math_Abs_def f64_le_def)

text \<open>The sign of the z-score is the sign of the difference, both roundings included.\<close>

lemma z_sign:
  assumes "z = f64_div (f64_sub v m) s" "f64_lt (Fin 0) s" "\<not> math_IsInf z" "z \<noteq> NaN" "z \<noteq> Fin 0"
  shows "(f64_lt z (Fin 0) \<longleftrightarrow> f64_lt v m) \<and> (\<not> f64_lt z (Fin 0) \<longleftrightarrow> f64_lt m v)"
proof -
  obtain qs where s: "s = Fin qs" "0 < qs"
    using assms by (cases s; cases "f64_sub v m") (auto simp: f64_div_def math_IsInf_def)
  obtain d where d: "f64_sub v m = Fin d"
    using assms s by (cases "f64_sub v m") (auto simp: f64_div_def math_IsInf_def)
  obtain a b where ab: "v = Fin a" "m = Fin b" "rnd64 (a - b) = Fin d"
    using d by (cases v; cases m) (auto simp: f64_sub_def f64_neg_def)
  have z: "z = rnd64 (d / qs)" using assms(1) s d by simp
  have "d \<noteq> 0" using z assms(5) by auto
  consider "d < 0" | "0 < d" using \<open>d \<noteq> 0\<close> by linarith
  then show ?thesis
  proof cases
    case 1
    then have "a < b" using rnd.rnd_nonneg [of "a - b"] ab(3) by (cases "a < b") auto
    have "z \<le> Fin 0" unfolding z using 1 s by (intro rnd.rnd_nonpos) (simp add: divide_nonpos_pos)
    then have "f64_lt z (Fin 0)" using assms(4,5) by (auto simp: less_eq_f64_def)
    with \<open>a < b\<close> ab show ?thesis by simp
  next
    case 2
    then have "b < a" using rnd.rnd_nonpos [of "a - b"] ab(3) by (cases "b < a") auto
    have "Fin 0 \<le> z" unfolding z using 2 s by (intro rnd.rnd_nonneg) simp
    then have "\<not> f64_lt z (Fin 0)" by (cases z) (auto simp: less_eq_f64_def)
    with \<open>b < a\<close> ab show ?thesis by simp
  qed
qed

lemma Evaluate_Some:
  assumes "Evaluate c now obs window = Some f"
  obtains s z where "MinPitchesPerSession c \<le> ob_PitchCount obs"
    "MinWindowSessions c \<le> int (length (usable_loop c [] window))"
    "s = floored c (ob_Metric obs) (RobustSigma (usable_loop c [] window))" "\<not> f64_le s (Fin 0)" "s \<noteq> NaN"
    "z = f64_div (f64_sub (ob_Value obs) (Median (usable_loop c [] window))) s" "z \<noteq> NaN" "\<not> math_IsInf z"
    "grade c z = Some (fi_Severity f)" "fi_BaselineMedian f = Median (usable_loop c [] window)"
    "fi_ObservedValue f = ob_Value obs" "fi_RobustSigma f = s" "fi_ZRobust f = z"
    "fi_Direction f = (if f64_lt z (Fin 0) then DirectionDecrease else DirectionIncrease)"
    "fi_WindowSessions f = int (length (usable_loop c [] window))"
  using assms
  by (auto simp: Evaluate_def Let_def math_IsNaN_def not_less split: if_splits option.splits)

definition detector_ok :: "DetectorConfig \<Rightarrow> bool" where
  "detector_ok c \<longleftrightarrow> 0 < WindowSessions c \<and> 0 < MinWindowSessions c \<and> f64_lt (Fin 0) (MediumThreshold c)
     \<and> f64_lt (Fin 0) (HighThreshold c)"

lemma NewDetector_ok:
  "HighThreshold c \<noteq> NaN \<Longrightarrow> MediumThreshold c \<noteq> NaN \<Longrightarrow> detector_ok (NewDetector c)"
  by (cases "HighThreshold c"; cases "MediumThreshold c") (auto simp: detector_ok_def NewDetector_def f64_le_def)

lemma not_le_zero: "\<not> f64_le s (Fin 0) \<Longrightarrow> s \<noteq> NaN \<Longrightarrow> f64_lt (Fin 0) s"
  using f64_not_le [of s "Fin 0"] by simp

lemma finding_facts:
  assumes "Evaluate c now obs window = Some f" "detector_ok c"
  shows "MinWindowSessions c \<le> fi_WindowSessions f \<and> fi_WindowSessions f \<le> WindowSessions c
     \<and> f64_lt (Fin 0) (fi_RobustSigma f) \<and> \<not> math_IsInf (fi_ZRobust f)
     \<and> f64_le (case fi_Severity f of SeverityHigh \<Rightarrow> HighThreshold c | SeverityMedium \<Rightarrow> MediumThreshold c) (math_Abs (fi_ZRobust f))
     \<and> (fi_Direction f = DirectionDecrease \<longleftrightarrow> f64_lt (fi_ObservedValue f) (fi_BaselineMedian f))
     \<and> (fi_Direction f = DirectionIncrease \<longleftrightarrow> f64_lt (fi_BaselineMedian f) (fi_ObservedValue f))"
  using assms(1)
proof (rule Evaluate_Some)
  fix s z
  assume a: "MinWindowSessions c \<le> int (length (usable_loop c [] window))"
    and s: "\<not> f64_le s (Fin 0)" "s \<noteq> NaN"
    and z: "z = f64_div (f64_sub (ob_Value obs) (Median (usable_loop c [] window))) s" "z \<noteq> NaN" "\<not> math_IsInf z"
    and g: "grade c z = Some (fi_Severity f)"
    and f: "fi_BaselineMedian f = Median (usable_loop c [] window)" "fi_ObservedValue f = ob_Value obs"
      "fi_RobustSigma f = s" "fi_ZRobust f = z"
      "fi_Direction f = (if f64_lt z (Fin 0) then DirectionDecrease else DirectionIncrease)"
      "fi_WindowSessions f = int (length (usable_loop c [] window))"
  from s have s0: "f64_lt (Fin 0) s" by (rule not_le_zero)
  have th: "f64_le (case fi_Severity f of SeverityHigh \<Rightarrow> HighThreshold c | SeverityMedium \<Rightarrow> MediumThreshold c) (math_Abs z)"
    using g by (auto simp: grade_def split: if_splits)
  moreover from th assms(2) have "z \<noteq> Fin 0"
    by (cases "fi_Severity f") (auto simp: detector_ok_def dest: f64_le_positive)
  moreover have "length (usable_loop c [] window) \<le> nat (WindowSessions c)"
    using assms(2) by (simp add: usable_eq usable_spec_def detector_ok_def)
  ultimately show ?thesis
    using z_sign [OF z(1) s0 z(3,2)] a s0 z(3) f assms(2) by (auto simp: detector_ok_def)
qed

section \<open>Properties\<close>

text \<open>
  C15: the baseline has a breakdown point of one half: as long as more than half of the
  outings in the window have a value in a range, the reported median is in that range,
  whatever the other values are.
\<close>

theorem baseline_breakdown:
  assumes "Evaluate c now obs window = Some f" "exact64 lo" "exact64 hi"
    and "length (usable_loop c [] window) < 2 * length (filter (in_range lo hi) (usable_loop c [] window))"
  shows "Fin lo \<le> fi_BaselineMedian f \<and> fi_BaselineMedian f \<le> Fin hi"
proof -
  from Evaluate_Some [OF assms(1)] have "fi_BaselineMedian f = Median (usable_loop c [] window)" by metis
  with Median_majority [OF assms(2-4)] show ?thesis by (simp add: in_range_def)
qed

definition an_outing :: "nat \<Rightarrow> f64 \<Rightarrow> SessionPoint" where
  "an_outing i v = \<lparr>sp_SessionID = i, sp_StartedAt = int i, sp_PitchCount = 20, sp_Value = v\<rparr>"

definition wild_outing :: "SessionPoint list" where
  "wild_outing = map (\<lambda>i. an_outing i (Fin 94)) [0..<5] @ [an_outing 9 (Fin 40)]"

definition slow_day :: Observation where
  "slow_day = \<lparr>ob_AthleteID = 1, ob_SessionID = 2, ob_PitchType = ''FF'', ob_Metric = MetricReleaseSpeed,
     ob_Value = Fin 86, ob_PitchCount = 20, ob_DetectedAt = 7\<rparr>"

definition demo_detector :: DetectorConfig where
  "demo_detector = DefaultDetectorConfig\<lparr>SigmaFloor := Some [MetricReleaseSpeed \<mapsto> Fin 1]\<rparr>"

lemma rnd64_small: "(numeral k :: nat) < 2 ^ 53 \<Longrightarrow> rnd64 (numeral k) = Fin (numeral k)"
  "(numeral k :: nat) < 2 ^ 53 \<Longrightarrow> rnd64 (- numeral k) = Fin (- numeral k)"
  using rnd_fmt_numeral [of k binary64] by (simp_all add: binary64_def)

lemma madScale_finite: "\<exists>q. madScale = Fin q"
proof -
  have "Fin 1 \<le> madScale" unfolding madScale_def by (rule rnd.rnd_ge_exact [OF _ rnd64_1]) simp
  moreover have "madScale \<le> Fin 2"
    unfolding madScale_def by (rule rnd.rnd_le_exact [OF _ rnd64_small(1)]) simp_all
  ultimately show ?thesis by (cases madScale) (auto simp: less_eq_f64_def)
qed

lemma demo_window: "usable_loop demo_detector [] wild_outing = [Fin 94, Fin 94, Fin 94, Fin 94, Fin 94, Fin 40]"
  by (simp add: demo_detector_def DefaultDetectorConfig_def wild_outing_def an_outing_def math_IsNaN_def upt_rec)

lemma demo_finding: "\<exists>f. Evaluate demo_detector 9 slow_day wild_outing = Some f"
proof -
  let ?vs = "[Fin 94, Fin 94, Fin 94, Fin 94, Fin 94, Fin 40]"
  have vs: "usable_loop demo_detector [] wild_outing = ?vs" by (rule demo_window)
  have med: "Median ?vs = Fin 94"
    by (simp add: Median_def Let_def rnd64_small)
  have mad: "MAD ?vs = Fin 0"
    by (simp add: MAD_def med Let_def rnd64_small math_Abs_def) (simp add: Median_def Let_def rnd64_small)
  obtain q where q: "madScale = Fin q" using madScale_finite by blast
  have sigma: "RobustSigma ?vs = Fin 0" unfolding RobustSigma_def mad q f64_mul_Fin by simp
  have cfg: "MinPitchesPerSession demo_detector = 5" "MinWindowSessions demo_detector = 5"
    "SigmaFloor demo_detector = Some [MetricReleaseSpeed \<mapsto> Fin 1]" "HighThreshold demo_detector = Fin 3"
    by (simp_all add: demo_detector_def DefaultDetectorConfig_def)
  show ?thesis
    by (simp add: Evaluate_def vs sigma med cfg Let_def floored_def grade_def slow_day_def math_IsNaN_def math_IsInf_def
        math_Abs_def rnd64_small)
qed

theorem baseline_breakdown_witness:
  "\<exists>f. Evaluate demo_detector 9 slow_day wild_outing = Some f
     \<and> Fin 94 \<le> fi_BaselineMedian f \<and> fi_BaselineMedian f \<le> Fin 94"
proof -
  obtain f where f: "Evaluate demo_detector 9 slow_day wild_outing = Some f" using demo_finding by blast
  have "(2 :: rat) ^ 8 \<le> 2 ^ 1024" by (rule power_increasing) simp_all
  then have ex: "exact64 94" using rnd64_small(1) [of "num.Bit0 (num.Bit1 (num.Bit1 (num.Bit1 (num.Bit1 (num.Bit0 num.One)))))"]
    by (auto simp: exact64_def) (simp add: binary64_def)
  have "length (usable_loop demo_detector [] wild_outing) <
      2 * length (filter (in_range 94 94) (usable_loop demo_detector [] wild_outing))"
    by (simp add: demo_window in_range_def)
  from baseline_breakdown [OF f ex ex this] f show ?thesis by blast
qed

text \<open>
  A finding is what it says: enough usable outings and pitches, a positive sigma, a finite
  z of at least the threshold of its severity, and a direction that is the true order of the
  observed value and the baseline, the rounding of the subtraction and the division included.
\<close>

theorem finding_sound:
  assumes "Evaluate c now obs window = Some f" "detector_ok c"
  shows "MinWindowSessions c \<le> fi_WindowSessions f \<and> fi_WindowSessions f \<le> WindowSessions c
     \<and> f64_lt (Fin 0) (fi_RobustSigma f) \<and> \<not> math_IsInf (fi_ZRobust f)
     \<and> f64_le (case fi_Severity f of SeverityHigh \<Rightarrow> HighThreshold c | SeverityMedium \<Rightarrow> MediumThreshold c) (math_Abs (fi_ZRobust f))
     \<and> (fi_Direction f = DirectionDecrease \<longleftrightarrow> f64_lt (fi_ObservedValue f) (fi_BaselineMedian f))
     \<and> (fi_Direction f = DirectionIncrease \<longleftrightarrow> f64_lt (fi_BaselineMedian f) (fi_ObservedValue f))"
  using assms by (rule finding_facts)

theorem finding_sound_witness:
  "\<exists>f. Evaluate demo_detector 9 slow_day wild_outing = Some f \<and> f64_lt (Fin 0) (fi_RobustSigma f)
     \<and> (fi_Direction f = DirectionDecrease \<longleftrightarrow> f64_lt (fi_ObservedValue f) (fi_BaselineMedian f))"
proof -
  obtain f where f: "Evaluate demo_detector 9 slow_day wild_outing = Some f" using demo_finding by blast
  have "detector_ok demo_detector" by (simp add: detector_ok_def demo_detector_def DefaultDetectorConfig_def)
  from finding_sound [OF f this] f show ?thesis by blast
qed

text \<open>
  The loop over the window with its early exit computes the reference: the first
  \<open>WindowSessions\<close> values of outings with enough pitches and a value.
\<close>

theorem usable_is_take:
  "usable_loop (NewDetector c) [] window = usable_spec (NewDetector c) window"
  by (rule usable_eq) (simp add: NewDetector_def)

end
