(* ===== verification/WsClient.thy ===== *)
theory WsClient
  imports Prelude
begin

text \<open>
  internal/ws/message.go and client.go: one browser connection.  The data of a message is the
  type parameter \<open>'d\<close> (Go's \<open>any\<close>).  A channel is its queue and a flag for \<open>close\<close>; a send on a
  closed channel is the panic \<open>None\<close>.  Logging and the counters of sent and dropped messages are
  left out; the gauge of nearly full queues is kept.
\<close>

section \<open>Messages\<close>

definition TypeSnapshot :: string where "TypeSnapshot = ''session.snapshot''"
definition TypePitchAnalyzed :: string where "TypePitchAnalyzed = ''pitch.analyzed''"
definition TypeSessionMetrics :: string where "TypeSessionMetrics = ''session.metrics''"
definition TypeAnomalyDetected :: string where "TypeAnomalyDetected = ''anomaly.detected''"
definition TypeSessionClosed :: string where "TypeSessionClosed = ''session.closed''"
definition TypeError :: string where "TypeError = ''error''"
definition TypePong :: string where "TypePong = ''pong''"
definition TypeSubscribeMetrics :: string where "TypeSubscribeMetrics = ''subscribe.metrics''"
definition CodeSlowConsumer :: string where "CodeSlowConsumer = ''SLOW_CONSUMER''"

lemmas ws_type_defs = TypeSnapshot_def TypePitchAnalyzed_def TypeSessionMetrics_def TypeAnomalyDetected_def
  TypeSessionClosed_def TypeError_def TypePong_def TypeSubscribeMetrics_def

definition CloseNormalClosure :: int where "CloseNormalClosure = 1000"
definition CloseGoingAway :: int where "CloseGoingAway = 1001"
definition CloseTryAgainLater :: int where "CloseTryAgainLater = 1013"
definition CloseTokenExpired :: int where "CloseTokenExpired = 4401"

record 'd SnapshotData =
  sd_Session :: 'd
  sd_Metrics :: 'd
  sd_LastPitchIndex :: int
  sd_RecentPitches :: 'd

record 'd ClosedData =
  cd_Reason :: string
  cd_FinalMetrics :: "'d option"
  cd_DroppedTotal :: u64

record ErrorData =
  ed_Code :: string
  ed_Message :: string

datatype 'd Data = DataAny 'd | DataSnapshot "'d SnapshotData" | DataClosed "'d ClosedData" | DataError ErrorData

record 'd Message =
  m_Type :: string
  m_Seq :: u64
  m_TS :: time
  m_SessionID :: uuid
  m_CorrelationID :: string
  m_Data :: "'d Data"

record clientCommand =
  cmd_Type :: string
  cmd_Enabled :: "bool option"

section \<open>The connection\<close>

definition SendBuffer :: nat where "SendBuffer = 256"
definition PingInterval :: duration where "PingInterval = 30 * Second"
definition PongWait :: duration where "PongWait = 60 * Second"
definition WriteWait :: duration where "WriteWait = 10 * Second"
definition SlowConsumerDropThreshold :: int where "SlowConsumerDropThreshold = 50"

record Timeouts =
  to_Ping :: duration
  to_Pong :: duration
  to_Write :: duration

definition DefaultTimeouts :: Timeouts where
  "DefaultTimeouts = \<lparr>to_Ping = PingInterval, to_Pong = PongWait, to_Write = WriteWait\<rparr>"

definition orDefault :: "Timeouts \<Rightarrow> Timeouts" where
  "orDefault t = \<lparr>to_Ping = (if to_Ping t > 0 then to_Ping t else to_Ping DefaultTimeouts),
     to_Pong = (if to_Pong t > 0 then to_Pong t else to_Pong DefaultTimeouts),
     to_Write = (if to_Write t > 0 then to_Write t else to_Write DefaultTimeouts)\<rparr>"

record Identity =
  id_UserID :: string
  id_Username :: string
  id_Role :: string
  id_ExpiresAt :: time

text \<open>What the connection has been given to write, in order.\<close>

datatype 'd Frame = Text "'d Message" | Ping | Close int string

text \<open>
  How far the goroutines of a connection are: the handler is about to register it, was refused
  by a stopped hub, or has started the pumps; the read pump reads, waits for the hub to take the
  unregistration, or has ended.
\<close>

datatype Phase = Registering | Refused | Started
datatype ReadPump = Reading | Unregistering | ReadDone

record 'd Client =
  c_session :: uuid
  c_addr :: string
  c_identity :: Identity
  c_send :: "'d Message list"
  c_sendClosed :: bool
  c_nextSeq :: u64
  c_dropped :: u64
  c_metricsEnabled :: bool
  c_closeSlow :: bool
  c_released :: bool
  c_dropWindowStart :: time
  c_dropWindowCount :: int
  c_warnedNearFull :: bool
  c_readDeadline :: time
  c_out :: "'d Frame list"
  c_connClosed :: bool
  c_phase :: Phase
  c_writing :: bool
  c_reading :: ReadPump

definition newClient :: "string \<Rightarrow> Identity \<Rightarrow> uuid \<Rightarrow> 'd Client" where
  "newClient addr ident sessionID = \<lparr>c_session = sessionID, c_addr = addr, c_identity = ident,
     c_send = [], c_sendClosed = False, c_nextSeq = 0, c_dropped = 0, c_metricsEnabled = True,
     c_closeSlow = False, c_released = False, c_dropWindowStart = 0, c_dropWindowCount = 0,
     c_warnedNearFull = False, c_readDeadline = 0, c_out = [], c_connClosed = False,
     c_phase = Registering, c_writing = False, c_reading = Reading\<rparr>"

text \<open>A non-blocking send: the flag says whether there was room.\<close>

definition chan_send :: "'d Message \<Rightarrow> 'd Client \<Rightarrow> (bool \<times> 'd Client) option" where
  "chan_send m c =
     (if c_sendClosed c then None
      else if length (c_send c) < SendBuffer then Some (True, c\<lparr>c_send := c_send c @ [m]\<rparr>)
      else Some (False, c))"

definition snapshot_message :: "time \<Rightarrow> uuid \<Rightarrow> 'd SnapshotData \<Rightarrow> 'd Message" where
  "snapshot_message now sid data = \<lparr>m_Type = TypeSnapshot, m_Seq = 0, m_TS = now, m_SessionID = sid,
     m_CorrelationID = '''', m_Data = DataSnapshot data\<rparr>"

definition sendSnapshot :: "time \<Rightarrow> 'd SnapshotData \<Rightarrow> 'd Client \<Rightarrow> 'd Client" where
  "sendSnapshot now data c = c\<lparr>c_send := c_send c @ [snapshot_message now (c_session c) data]\<rparr>"

section \<open>The hub's side\<close>

datatype Enqueued = Skipped | Queued | QueueFull

text \<open>\<open>enqueue\<close> up to its \<open>select\<close>, and the switch that follows a full queue.\<close>

definition enqueue_try :: "time \<Rightarrow> 'd Message \<Rightarrow> 'd Client \<Rightarrow> (Enqueued \<times> 'd Message \<times> 'd Client) option" where
  "enqueue_try now m c =
     (if m_Type m = TypeSessionMetrics \<and> \<not> c_metricsEnabled c then Some (Skipped, m, c)
      else (let s = c_nextSeq c + 1;
                m' = m\<lparr>m_Seq := s, m_TS := now, m_SessionID := c_session c\<rparr>;
                c' = c\<lparr>c_nextSeq := s\<rparr>
            in case chan_send m' c' of
                 None \<Rightarrow> None
               | Some (ok, c'') \<Rightarrow> Some (if ok then Queued else QueueFull, m', c'')))"

text \<open>The second component is the change of the gauge.\<close>

definition checkNearFull :: "'d Client \<Rightarrow> 'd Client \<times> int" where
  "checkNearFull c =
     (let nearFull = SendBuffer * 4 \<le> length (c_send c) * 5 in
      if nearFull \<and> \<not> c_warnedNearFull c then (c\<lparr>c_warnedNearFull := True\<rparr>, 1)
      else if \<not> nearFull \<and> c_warnedNearFull c then (c\<lparr>c_warnedNearFull := False\<rparr>, - 1)
      else (c, 0))"

definition closeForBackpressure :: "'d Client \<Rightarrow> 'd Client" where
  "closeForBackpressure c = c\<lparr>c_closeSlow := True\<rparr>"

text \<open>\<open>noteDrop\<close> up to its \<open>select\<close>: the notice that it then tries to queue.\<close>

definition noteDrop :: "time \<Rightarrow> 'd Client \<Rightarrow> 'd Client \<times> 'd Message option" where
  "noteDrop now c =
     (let c1 = (if time_Sub now (c_dropWindowStart c) > Minute
                then c\<lparr>c_dropWindowStart := now, c_dropWindowCount := 0\<rparr> else c);
          c2 = c1\<lparr>c_dropWindowCount := c_dropWindowCount c1 + 1\<rparr>
      in if c_dropWindowCount c2 \<noteq> SlowConsumerDropThreshold then (c2, None)
         else (let s = c_nextSeq c2 + 1 in
               (c2\<lparr>c_nextSeq := s\<rparr>,
                Some \<lparr>m_Type = TypeError, m_Seq = s, m_TS = now, m_SessionID = c_session c2, m_CorrelationID = '''',
                  m_Data = DataError \<lparr>ed_Code = CodeSlowConsumer,
                    ed_Message = ''client is not keeping up; messages are being dropped''\<rparr>\<rparr>)))"

definition undroppable :: "string \<Rightarrow> bool" where
  "undroppable t \<longleftrightarrow> t = TypeAnomalyDetected \<or> t = TypeSessionClosed"

definition enqueue_full :: "time \<Rightarrow> 'd Message \<Rightarrow> 'd Client \<Rightarrow> 'd Client \<times> 'd Message option" where
  "enqueue_full now m c =
     (if undroppable (m_Type m) then (closeForBackpressure c, None)
      else noteDrop now (c\<lparr>c_dropped := c_dropped c + 1\<rparr>))"

section \<open>The pumps\<close>

definition put_frame :: "'d Frame \<Rightarrow> 'd Client \<Rightarrow> 'd Client" where
  "put_frame f c = (if c_connClosed c then c else c\<lparr>c_out := c_out c @ [f]\<rparr>)"

definition writeClose :: "int \<Rightarrow> string \<Rightarrow> 'd Client \<Rightarrow> 'd Client" where
  "writeClose code reason c = put_frame (Close code reason) c"

text \<open>\<open>writeJSON\<close>: written, not encodable (logged and skipped), or a failed write.\<close>

datatype WriteOutcome = Written | EncodeFailed | WriteFailed

text \<open>
  One turn of the write pump's loop by the case its \<open>select\<close> takes; \<open>None\<close> when that case is
  not ready.  The flag says whether the pump returns.
\<close>

datatype WriteCase = TakeMessage WriteOutcome | Tick bool | SlowClosed | Expired | HubDone

fun write_turn :: "time \<Rightarrow> bool \<Rightarrow> WriteCase \<Rightarrow> 'd Client \<Rightarrow> (bool \<times> 'd Client) option" where
  "write_turn now done (TakeMessage outcome) c =
     (case c_send c of
        [] \<Rightarrow> if c_sendClosed c then Some (True, writeClose CloseNormalClosure '''' c) else None
      | m # q \<Rightarrow>
          (let c1 = c\<lparr>c_send := q\<rparr> in
           case outcome of
             WriteFailed \<Rightarrow> Some (True, c1)
           | EncodeFailed \<Rightarrow> Some (if m_Type m = TypeSessionClosed then (True, writeClose CloseNormalClosure ''session closed'' c1)
                                  else (False, c1))
           | Written \<Rightarrow> if c_connClosed c then None
               else Some (if m_Type m = TypeSessionClosed
                    then (True, writeClose CloseNormalClosure ''session closed'' (put_frame (Text m) c1))
                    else (False, put_frame (Text m) c1))))"
| "write_turn now done (Tick ok) c =
     (if ok then (if c_connClosed c then None else Some (False, put_frame Ping c)) else Some (True, c))"
| "write_turn now done SlowClosed c =
     (if c_closeSlow c then Some (True, writeClose CloseTryAgainLater ''client too slow'' c) else None)"
| "write_turn now done Expired c =
     (if \<not> IsZero (id_ExpiresAt (c_identity c)) \<and> id_ExpiresAt (c_identity c) \<le> now
      then Some (True, writeClose CloseTokenExpired ''credential expired'' c) else None)"
| "write_turn now done HubDone c =
     (if done then Some (True, writeClose CloseGoingAway ''server shutting down'' c) else None)"

text \<open>\<open>handleCommand\<close> on the decoded frame; \<open>None\<close> is a frame that does not decode.\<close>

definition handleCommand :: "time \<Rightarrow> Timeouts \<Rightarrow> clientCommand option \<Rightarrow> 'd Client \<Rightarrow> 'd Client" where
  "handleCommand now t raw c = (case raw of
       None \<Rightarrow> c
     | Some cmd \<Rightarrow>
         if cmd_Type cmd = TypePong then c\<lparr>c_readDeadline := now + to_Pong t\<rparr>
         else if cmd_Type cmd = TypeSubscribeMetrics
         then c\<lparr>c_metricsEnabled := (cmd_Enabled cmd = None \<or> cmd_Enabled cmd = Some True)\<rparr>
         else c)"

section \<open>What holds of one connection\<close>

fun texts :: "'d Frame list \<Rightarrow> 'd Message list" where
  "texts [] = []"
| "texts (Text m # fs) = m # texts fs"
| "texts (Ping # fs) = texts fs"
| "texts (Close code reason # fs) = texts fs"

lemma texts_append [simp]: "texts (xs @ ys) = texts xs @ texts ys"
  by (induction xs rule: texts.induct) auto

text \<open>The numbers of what was written, then of what is queued.\<close>

definition seqs :: "'d Client \<Rightarrow> nat list" where
  "seqs c = map (unat \<circ> m_Seq) (texts (c_out c) @ c_send c)"

text \<open>
  \<open>n\<close> bounds how often the counter was advanced and \<open>k\<close> counts a number that is spent but not
  yet queued or dropped: the numbers ascend without a repeat, none is beyond the counter, and the
  numbers missing below the counter account for every drop.
\<close>

definition client_ok :: "nat \<Rightarrow> nat \<Rightarrow> 'd Client \<Rightarrow> bool" where
  "client_ok n k c \<longleftrightarrow> length (c_send c) \<le> SendBuffer
     \<and> sorted_wrt (<) (seqs c) \<and> (\<forall>s \<in> set (seqs c). s + k \<le> unat (c_nextSeq c))
     \<and> unat (c_nextSeq c) \<le> n
     \<and> length (filter (\<lambda>s. 0 < s) (seqs c)) + unat (c_dropped c) + k \<le> unat (c_nextSeq c)"

lemma client_ok_mono: "client_ok n k c \<Longrightarrow> n \<le> n' \<Longrightarrow> k' \<le> k \<Longrightarrow> client_ok n' k' c"
  by (fastforce simp: client_ok_def)

text \<open>Changes outside the queue, the output and the counters do not matter.\<close>

lemma client_ok_cong:
  assumes "c_send c' = c_send c" "texts (c_out c') = texts (c_out c)" "c_nextSeq c' = c_nextSeq c" "c_dropped c' = c_dropped c"
  shows "client_ok n k c' = client_ok n k c"
  using assms by (simp add: client_ok_def seqs_def)

lemma texts_put_frame_close [simp]: "texts (c_out (writeClose code r c)) = texts (c_out c)"
  "texts (c_out (put_frame Ping c)) = texts (c_out c)"
  by (simp_all add: writeClose_def put_frame_def)

lemma put_frame_fields [simp]:
  "c_send (put_frame f c) = c_send c" "c_nextSeq (put_frame f c) = c_nextSeq c" "c_dropped (put_frame f c) = c_dropped c"
  "c_session (put_frame f c) = c_session c" "c_phase (put_frame f c) = c_phase c" "c_sendClosed (put_frame f c) = c_sendClosed c"
  "c_addr (put_frame f c) = c_addr c" "c_released (put_frame f c) = c_released c" "c_warnedNearFull (put_frame f c) = c_warnedNearFull c"
  by (simp_all add: put_frame_def)

lemma writeClose_fields [simp]:
  "c_send (writeClose k r c) = c_send c" "c_nextSeq (writeClose k r c) = c_nextSeq c" "c_dropped (writeClose k r c) = c_dropped c"
  "c_session (writeClose k r c) = c_session c" "c_phase (writeClose k r c) = c_phase c" "c_sendClosed (writeClose k r c) = c_sendClosed c"
  "c_addr (writeClose k r c) = c_addr c" "c_released (writeClose k r c) = c_released c" "c_warnedNearFull (writeClose k r c) = c_warnedNearFull c"
  by (simp_all add: writeClose_def)

text \<open>A number is spent, then its message is queued or counted as dropped.\<close>

lemma client_ok_spend:
  assumes ok: "client_ok n 0 c" and n: "Suc n < 2 ^ 64"
    and c': "c_nextSeq c' = c_nextSeq c + 1" "texts (c_out c') = texts (c_out c)" "c_send c' = c_send c" "c_dropped c' = c_dropped c"
  shows "client_ok (Suc n) 1 c'"
proof -
  have "unat (c_nextSeq c) \<le> n" using ok by (simp add: client_ok_def)
  then have s: "unat (c_nextSeq c + 1) = unat (c_nextSeq c) + 1" using n by (intro unat_inc) simp
  have "seqs c' = seqs c" by (simp add: seqs_def c')
  with ok show ?thesis by (auto simp: client_ok_def c' s)
qed

lemma client_ok_queue:
  assumes ok: "client_ok n 1 c" and m: "m_Seq m = c_nextSeq c" "length (c_send c) < SendBuffer"
    and c': "c_nextSeq c' = c_nextSeq c" "c_out c' = c_out c" "c_send c' = c_send c @ [m]" "c_dropped c' = c_dropped c"
  shows "client_ok n 0 c'"
proof -
  have "seqs c' = seqs c @ [unat (c_nextSeq c)]" by (simp add: seqs_def c' m(1))
  with ok m(2) show ?thesis by (fastforce simp: client_ok_def c' sorted_wrt_append)
qed

lemma client_ok_drop:
  assumes ok: "client_ok n 1 c" and n: "Suc n < 2 ^ 64"
    and c': "c_nextSeq c' = c_nextSeq c" "c_out c' = c_out c" "c_send c' = c_send c" "c_dropped c' = c_dropped c + 1"
  shows "client_ok n 0 c'"
proof -
  have "unat (c_dropped c) + 1 \<le> n" using ok by (simp add: client_ok_def)
  then have d: "unat (c_dropped c + 1) = unat (c_dropped c) + 1" using n by (intro unat_inc) simp
  have "seqs c' = seqs c" by (simp add: seqs_def c')
  with ok show ?thesis by (auto simp: client_ok_def c' d)
qed

text \<open>Taking the head of the queue, written or not.\<close>

lemma client_ok_take:
  assumes ok: "client_ok n k c" and q: "c_send c = m # q" "c_send c' = q"
    and c': "c_nextSeq c' = c_nextSeq c" "c_dropped c' = c_dropped c"
    and t: "texts (c_out c') = texts (c_out c) \<or> texts (c_out c') = texts (c_out c) @ [m]"
  shows "client_ok n k c'"
  using t
proof
  assume t': "texts (c_out c') = texts (c_out c)"
  have s: "seqs c = map (unat \<circ> m_Seq) (texts (c_out c)) @ unat (m_Seq m) # map (unat \<circ> m_Seq) q"
    "seqs c' = map (unat \<circ> m_Seq) (texts (c_out c)) @ map (unat \<circ> m_Seq) q"
    by (simp_all add: seqs_def q t')
  have "set (seqs c') \<subseteq> set (seqs c)" "length (filter (\<lambda>s. 0 < s) (seqs c')) \<le> length (filter (\<lambda>s. 0 < s) (seqs c))"
    "sorted_wrt (<) (seqs c) \<Longrightarrow> sorted_wrt (<) (seqs c')"
    by (auto simp: s sorted_wrt_append)
  with ok q c' show ?thesis by (fastforce simp: client_ok_def)
next
  assume "texts (c_out c') = texts (c_out c) @ [m]"
  then have "seqs c' = seqs c" by (simp add: seqs_def q)
  with ok q c' show ?thesis by (simp add: client_ok_def)
qed

text \<open>One turn of the write pump keeps the numbering.\<close>

lemma client_ok_same:
  "client_ok n k c \<Longrightarrow> c_send c' = c_send c \<and> texts (c_out c') = texts (c_out c) \<and> c_nextSeq c' = c_nextSeq c
     \<and> c_dropped c' = c_dropped c \<Longrightarrow> client_ok n k c'"
  using client_ok_cong [of c' c n k] by simp

lemma write_turn_ok:
  assumes ok: "client_ok n k c" and step: "write_turn now done w c = Some (r, c')"
  shows "client_ok n k c'"
proof (cases "\<exists>oc m q. w = TakeMessage oc \<and> c_send c = m # q")
  case True
  then obtain oc m q where w: "w = TakeMessage oc" and q: "c_send c = m # q" by blast
  from step show ?thesis
    unfolding w
    by (intro client_ok_take [OF ok q])
      (auto simp: q Let_def put_frame_def writeClose_def split: WriteOutcome.splits if_splits)
next
  case False
  from step have "c_send c' = c_send c \<and> texts (c_out c') = texts (c_out c) \<and> c_nextSeq c' = c_nextSeq c \<and> c_dropped c' = c_dropped c"
    using False by (cases w; cases "c_send c") (auto split: if_splits)
  with ok show ?thesis by (rule client_ok_same)
qed

lemma write_turn_fields:
  assumes "write_turn now done w c = Some (r, c')"
  shows "c_session c' = c_session c" "c_phase c' = c_phase c" "c_sendClosed c' = c_sendClosed c" "c_nextSeq c' = c_nextSeq c"
    "c_addr c' = c_addr c" "c_released c' = c_released c" "c_warnedNearFull c' = c_warnedNearFull c"
  using assms by (cases w; auto split: list.splits WriteOutcome.splits if_splits simp: Let_def)+

lemma handleCommand_fields [simp]:
  "c_send (handleCommand now t raw c) = c_send c" "c_out (handleCommand now t raw c) = c_out c"
  "c_nextSeq (handleCommand now t raw c) = c_nextSeq c" "c_dropped (handleCommand now t raw c) = c_dropped c"
  "c_session (handleCommand now t raw c) = c_session c" "c_phase (handleCommand now t raw c) = c_phase c"
  "c_sendClosed (handleCommand now t raw c) = c_sendClosed c" "c_addr (handleCommand now t raw c) = c_addr c"
  "c_released (handleCommand now t raw c) = c_released c" "c_warnedNearFull (handleCommand now t raw c) = c_warnedNearFull c"
  by (auto simp: handleCommand_def split: option.splits)

end
