(* ===== verification/WsHub.thy ===== *)
theory WsHub
  imports WsClient
begin

text \<open>
  internal/ws/hub.go and handler.go: the registry and fan-out of the hub, the handshake with its
  per-address slots, and the goroutines around them (hub, one write pump and one read pump per
  connection, publishers) as the steps of one world.  A step is one channel operation, one
  critical section or one turn of a loop, so that every interleaving of the goroutines is a
  sequence of events; the order in which the hub's loop ranges over a map is free.
\<close>

section \<open>State\<close>

definition BroadcastBuffer :: nat where "BroadcastBuffer = 1024"
definition MaxConnectionsPerAddress :: int where "MaxConnectionsPerAddress = 20"

text \<open>
  Where the hub goroutine is: at its \<open>select\<close>, in the loop over a session's clients with those
  still to visit, or inside \<open>enqueue\<close> for one client: after a successful send, after a full
  queue, or before the slow-consumer notice is sent.
\<close>

datatype 'd HubPc =
    HubIdle
  | HubLoop "'d Message" "nat set"
  | HubSent "'d Message" nat "nat set"
  | HubFull "'d Message" "'d Message" nat "nat set"
  | HubNotice "'d Message" "'d Message" nat "nat set"

record 'd Hub =
  h_broadcast :: "'d Message list"
  h_sessions :: "uuid \<rightharpoonup> nat set"
  h_clients :: int
  h_started :: bool
  h_done :: bool
  h_timeouts :: Timeouts
  h_slow :: int
  h_pc :: "'d HubPc"

record Handshake =
  hs_addr :: string
  hs_session :: uuid
  hs_identity :: Identity

text \<open>Clients are numbered in the order in which they connect.\<close>

record 'd World = "'d Hub" +
  w_now :: time
  w_clients :: "'d Client list"
  w_perAddress :: "string \<rightharpoonup> int"
  w_handshakes :: "Handshake list"
  w_pending :: "'d Message list"
  w_panicked :: bool

definition NewWorld :: "time \<Rightarrow> Timeouts \<Rightarrow> 'd World" where
  "NewWorld now t = \<lparr>h_broadcast = [], h_sessions = Map.empty, h_clients = 0, h_started = False, h_done = False,
     h_timeouts = orDefault t, h_slow = 0, h_pc = HubIdle, w_now = now, w_clients = [], w_perAddress = Map.empty,
     w_handshakes = [], w_pending = [], w_panicked = False\<rparr>"

definition set_client :: "nat \<Rightarrow> 'd Client \<Rightarrow> 'd World \<Rightarrow> 'd World" where
  "set_client i c w = w\<lparr>w_clients := (w_clients w)[i := c]\<rparr>"

section \<open>The handshake\<close>

text \<open>What the request and the parameters of the handler decide before a slot is taken.\<close>

record Request =
  rq_session :: "uuid option"
  rq_origin_ok :: bool
  rq_identity :: "Identity option"
  rq_addr :: string

datatype Problem = BadRequest | OriginForbidden | Unauthenticated | TooManyRequests

definition no_identity :: Identity where
  "no_identity = \<lparr>id_UserID = '''', id_Username = '''', id_Role = '''', id_ExpiresAt = 0\<rparr>"

record WsConfig =
  wc_limit :: int
  wc_auth :: bool

definition per_address :: "(string \<rightharpoonup> int) \<Rightarrow> string \<Rightarrow> int" where
  "per_address m a = (case m a of None \<Rightarrow> 0 | Some n \<Rightarrow> n)"

definition reserve :: "int \<Rightarrow> string \<Rightarrow> (string \<rightharpoonup> int) \<Rightarrow> (string \<rightharpoonup> int) option" where
  "reserve limit addr m = (if limit \<le> per_address m addr then None else Some (m(addr \<mapsto> per_address m addr + 1)))"

definition release :: "string \<Rightarrow> (string \<rightharpoonup> int) \<Rightarrow> (string \<rightharpoonup> int)" where
  "release addr m = (let n = per_address m addr - 1 in if n > 0 then m(addr \<mapsto> n) else m(addr := None))"

text \<open>\<open>ServeHTTP\<close> up to the reservation, by the checks in the code's order.\<close>

definition admit :: "WsConfig \<Rightarrow> Request \<Rightarrow> 'd World \<Rightarrow> Problem + 'd World" where
  "admit cfg r w = (case rq_session r of
       None \<Rightarrow> Inl BadRequest
     | Some sid \<Rightarrow>
         if \<not> rq_origin_ok r then Inl OriginForbidden
         else (case (if wc_auth cfg then rq_identity r else Some no_identity) of
             None \<Rightarrow> Inl Unauthenticated
           | Some ident \<Rightarrow> (case reserve (wc_limit cfg) (rq_addr r) (w_perAddress w) of
               None \<Rightarrow> Inl TooManyRequests
             | Some m \<Rightarrow> Inr (w\<lparr>w_perAddress := m,
                 w_handshakes := \<lparr>hs_addr = rq_addr r, hs_session = sid, hs_identity = ident\<rparr> # w_handshakes w\<rparr>))))"

record 'd Snapshot =
  sn_Data :: "'d SnapshotData"
  sn_Closed :: bool
  sn_Reason :: string

definition closed_message :: "time \<Rightarrow> uuid \<Rightarrow> u64 \<Rightarrow> 'd Snapshot \<Rightarrow> 'd Message" where
  "closed_message now sid s sn = \<lparr>m_Type = TypeSessionClosed, m_Seq = s, m_TS = now, m_SessionID = sid,
     m_CorrelationID = '''', m_Data = DataClosed \<lparr>cd_Reason = (if sn_Reason sn = '''' then ''COMPLETED'' else sn_Reason sn),
       cd_FinalMetrics = Some (sd_Metrics (sn_Data sn)), cd_DroppedTotal = 0\<rparr>\<rparr>"

text \<open>Both pumps start: the read pump sets its deadline before its loop.\<close>

definition start_pumps :: "time \<Rightarrow> Timeouts \<Rightarrow> 'd Client \<Rightarrow> 'd Client" where
  "start_pumps now t c = c\<lparr>c_phase := Started, c_writing := True, c_reading := Reading, c_readDeadline := now + to_Pong t\<rparr>"

definition serveClosed :: "time \<Rightarrow> Timeouts \<Rightarrow> 'd Snapshot \<Rightarrow> 'd Client \<Rightarrow> 'd Client" where
  "serveClosed now t sn c =
     (let s = c_nextSeq c + 1 in
      start_pumps now t (c\<lparr>c_nextSeq := s, c_send := c_send c @ [closed_message now (c_session c) s sn], c_sendClosed := True\<rparr>))"

text \<open>After the upgrade: the snapshot is queued, and a finished session is served at once.\<close>

definition accept :: "Handshake \<Rightarrow> 'd Snapshot \<Rightarrow> 'd World \<Rightarrow> 'd World" where
  "accept hs sn w =
     (let c = sendSnapshot (w_now w) (sn_Data sn) (newClient (hs_addr hs) (hs_identity hs) (hs_session hs)) in
      w\<lparr>w_handshakes := remove1 hs (w_handshakes w),
        w_clients := w_clients w @ [if sn_Closed sn then serveClosed (w_now w) (h_timeouts w) sn c else c]\<rparr>)"

section \<open>The hub\<close>

text \<open>A registration that the hub receives; the handler then starts the pumps.\<close>

definition hub_register :: "nat \<Rightarrow> 'd World \<Rightarrow> 'd World" where
  "hub_register i w =
     (let c = w_clients w ! i; s = c_session c in
      (set_client i (start_pumps (w_now w) (h_timeouts w) c) w)\<lparr>
        h_sessions := (h_sessions w)(s \<mapsto> insert i (case h_sessions w s of None \<Rightarrow> {} | Some ids \<Rightarrow> ids)),
        h_clients := h_clients w + 1\<rparr>)"

definition remove :: "nat \<Rightarrow> 'd World \<Rightarrow> 'd World" where
  "remove i w =
     (let c = w_clients w ! i; s = c_session c in
      case h_sessions w s of
        None \<Rightarrow> w
      | Some ids \<Rightarrow>
          if i \<notin> ids then w
          else if c_sendClosed c then w\<lparr>w_panicked := True\<rparr>
          else (set_client i (c\<lparr>c_sendClosed := True\<rparr>) w)\<lparr>
            h_sessions := (if ids - {i} = {} then (h_sessions w)(s := None) else (h_sessions w)(s \<mapsto> ids - {i})),
            h_clients := h_clients w - 1\<rparr>)"

definition shutdown :: "'d World \<Rightarrow> 'd World" where
  "shutdown w = w\<lparr>h_sessions := Map.empty, h_clients := 0, h_done := True\<rparr>"

definition hub_enqueue :: "'d Message \<Rightarrow> nat \<Rightarrow> nat set \<Rightarrow> 'd World \<Rightarrow> 'd World" where
  "hub_enqueue m i todo w = (case enqueue_try (w_now w) m (w_clients w ! i) of
       None \<Rightarrow> w\<lparr>w_panicked := True\<rparr>
     | Some (Skipped, m', c) \<Rightarrow> w\<lparr>h_pc := HubLoop m todo\<rparr>
     | Some (Queued, m', c) \<Rightarrow> (set_client i c w)\<lparr>h_pc := HubSent m i todo\<rparr>
     | Some (QueueFull, m', c) \<Rightarrow> (set_client i c w)\<lparr>h_pc := HubFull m m' i todo\<rparr>)"

definition hub_near_full :: "'d Message \<Rightarrow> nat \<Rightarrow> nat set \<Rightarrow> 'd World \<Rightarrow> 'd World" where
  "hub_near_full m i todo w = (case checkNearFull (w_clients w ! i) of
     (c, d) \<Rightarrow> (set_client i c w)\<lparr>h_pc := HubLoop m todo, h_slow := h_slow w + d\<rparr>)"

definition hub_queue_full :: "'d Message \<Rightarrow> 'd Message \<Rightarrow> nat \<Rightarrow> nat set \<Rightarrow> 'd World \<Rightarrow> 'd World" where
  "hub_queue_full m m' i todo w = (case enqueue_full (w_now w) m' (w_clients w ! i) of
       (c, None) \<Rightarrow> (set_client i c w)\<lparr>h_pc := HubLoop m todo\<rparr>
     | (c, Some notice) \<Rightarrow> (set_client i c w)\<lparr>h_pc := HubNotice m notice i todo\<rparr>)"

definition hub_notice :: "'d Message \<Rightarrow> 'd Message \<Rightarrow> nat \<Rightarrow> nat set \<Rightarrow> 'd World \<Rightarrow> 'd World" where
  "hub_notice m notice i todo w = (case chan_send notice (w_clients w ! i) of
       None \<Rightarrow> w\<lparr>w_panicked := True\<rparr>
     | Some (ok, c) \<Rightarrow> (set_client i c w)\<lparr>h_pc := HubLoop m todo\<rparr>)"

datatype HubCase = HubStart | TakeRegister nat | TakeUnregister nat | TakeBroadcast | Visit nat | Continue | Stop

definition Run :: "HubCase \<Rightarrow> 'd World \<Rightarrow> 'd World option" where
  "Run k w =
     (case k of
        HubStart \<Rightarrow> if h_started w then None else Some (w\<lparr>h_started := True\<rparr>)
      | _ \<Rightarrow>
          if \<not> h_started w \<or> h_done w then None
          else (case h_pc w of
              HubIdle \<Rightarrow> (case k of
                  TakeRegister i \<Rightarrow>
                    if i < length (w_clients w) \<and> c_phase (w_clients w ! i) = Registering then Some (hub_register i w) else None
                | TakeUnregister i \<Rightarrow>
                    if i < length (w_clients w) \<and> c_phase (w_clients w ! i) = Started \<and> c_reading (w_clients w ! i) = Unregistering
                    then Some (remove i (set_client i ((w_clients w ! i)\<lparr>c_reading := ReadDone\<rparr>) w)) else None
                | TakeBroadcast \<Rightarrow> (case h_broadcast w of
                    [] \<Rightarrow> None
                  | m # ms \<Rightarrow> Some (w\<lparr>h_broadcast := ms,
                      h_pc := HubLoop m (case h_sessions w (m_SessionID m) of None \<Rightarrow> {} | Some ids \<Rightarrow> ids)\<rparr>))
                | Stop \<Rightarrow> Some (shutdown w)
                | _ \<Rightarrow> None)
            | HubLoop m todo \<Rightarrow> (case k of
                  Visit i \<Rightarrow> if i \<in> todo then Some (hub_enqueue m i (todo - {i}) w) else None
                | Continue \<Rightarrow> if todo = {} then Some (w\<lparr>h_pc := HubIdle\<rparr>) else None
                | _ \<Rightarrow> None)
            | HubSent m i todo \<Rightarrow> (if k = Continue then Some (hub_near_full m i todo w) else None)
            | HubFull m m' i todo \<Rightarrow> (if k = Continue then Some (hub_queue_full m m' i todo w) else None)
            | HubNotice m notice i todo \<Rightarrow> (if k = Continue then Some (hub_notice m notice i todo w) else None)))"

section \<open>Publishing\<close>

definition broadcast_message :: "time \<Rightarrow> uuid \<Rightarrow> string \<Rightarrow> string \<Rightarrow> 'd Data \<Rightarrow> 'd Message" where
  "broadcast_message now sid ty corr data = \<lparr>m_Type = ty, m_Seq = 0, m_TS = now, m_SessionID = sid,
     m_CorrelationID = corr, m_Data = data\<rparr>"

text \<open>The two steps of \<open>Publish\<close>; a message that passed the first one is pending.\<close>

definition publish_check :: "'d Message \<Rightarrow> 'd World \<Rightarrow> 'd World" where
  "publish_check m w = (if h_done w then w else w\<lparr>w_pending := m # w_pending w\<rparr>)"

definition publish_send :: "'d Message \<Rightarrow> 'd World \<Rightarrow> bool \<times> 'd World" where
  "publish_send m w =
     (let w' = w\<lparr>w_pending := remove1 m (w_pending w)\<rparr> in
      if length (h_broadcast w) < BroadcastBuffer then (True, w'\<lparr>h_broadcast := h_broadcast w @ [m]\<rparr>) else (False, w'))"

section \<open>The pumps\<close>

definition releaseReservation :: "nat \<Rightarrow> 'd World \<Rightarrow> 'd World" where
  "releaseReservation i w =
     (let c = w_clients w ! i in
      if c_released c then w
      else (set_client i (c\<lparr>c_released := True\<rparr>) w)\<lparr>w_perAddress := release (c_addr c) (w_perAddress w)\<rparr>)"

definition writePump :: "nat \<Rightarrow> WriteCase \<Rightarrow> 'd World \<Rightarrow> 'd World option" where
  "writePump i k w =
     (if i < length (w_clients w) \<and> c_phase (w_clients w ! i) = Started \<and> c_writing (w_clients w ! i)
      then (case write_turn (w_now w) (h_done w) k (w_clients w ! i) of
          None \<Rightarrow> None
        | Some (returns, c) \<Rightarrow> Some (if returns
            then releaseReservation i (set_client i (c\<lparr>c_connClosed := True, c_writing := False\<rparr>) w)
            else set_client i c w))
      else None)"

text \<open>
  The read pump: a frame, a pong of the protocol, or an error (the peer is gone, the deadline has passed, the connection
  is closed), after which it waits for the hub or for its end, and then closes and releases.
\<close>

datatype ReadCase = Frame "clientCommand option" | PongFrame | ReadError | HubGone | Finish

definition readPump :: "nat \<Rightarrow> ReadCase \<Rightarrow> 'd World \<Rightarrow> 'd World option" where
  "readPump i k w =
     (if i < length (w_clients w) \<and> c_phase (w_clients w ! i) = Started
      then (let c = w_clients w ! i in
        case k of
          Frame raw \<Rightarrow>
            if c_reading c = Reading \<and> \<not> c_connClosed c then Some (set_client i (handleCommand (w_now w) (h_timeouts w) raw c) w) else None
        | PongFrame \<Rightarrow>
            if c_reading c = Reading \<and> \<not> c_connClosed c then Some (set_client i (c\<lparr>c_readDeadline := w_now w + to_Pong (h_timeouts w)\<rparr>) w) else None
        | ReadError \<Rightarrow> if c_reading c = Reading then Some (set_client i (c\<lparr>c_reading := Unregistering\<rparr>) w) else None
        | HubGone \<Rightarrow> if c_reading c = Unregistering \<and> h_done w then Some (set_client i (c\<lparr>c_reading := ReadDone\<rparr>) w) else None
        | Finish \<Rightarrow> if c_reading c = ReadDone then Some (releaseReservation i (set_client i (c\<lparr>c_connClosed := True\<rparr>) w)) else None)
      else None)"

section \<open>Events\<close>

datatype 'd Event =
    Elapse nat
  | Admit Request
  | LookupFailed Handshake
  | Accept Handshake "'d Snapshot"
  | RefuseStopped nat
  | HubEvent HubCase
  | PublishCheck "'d Message"
  | PublishSend "'d Message"
  | WriteEvent nat WriteCase
  | ReadEvent nat ReadCase

definition exec :: "WsConfig \<Rightarrow> 'd Event \<Rightarrow> 'd World \<Rightarrow> 'd World option" where
  "exec cfg e w = (case e of
       Elapse d \<Rightarrow> Some (w\<lparr>w_now := w_now w + int d\<rparr>)
     | Admit r \<Rightarrow> (case admit cfg r w of Inl p \<Rightarrow> None | Inr w' \<Rightarrow> Some w')
     | LookupFailed hs \<Rightarrow> if hs \<in> set (w_handshakes w)
         then Some (w\<lparr>w_handshakes := remove1 hs (w_handshakes w), w_perAddress := release (hs_addr hs) (w_perAddress w)\<rparr>) else None
     | Accept hs sn \<Rightarrow> if hs \<in> set (w_handshakes w) then Some (accept hs sn w) else None
     | RefuseStopped i \<Rightarrow> if i < length (w_clients w) \<and> c_phase (w_clients w ! i) = Registering \<and> h_done w
         then Some (set_client i ((writeClose CloseGoingAway ''server shutting down'' (w_clients w ! i))\<lparr>c_connClosed := True, c_phase := Refused\<rparr>) w)
         else None
     | HubEvent k \<Rightarrow> Run k w
     | PublishCheck m \<Rightarrow> Some (publish_check m w)
     | PublishSend m \<Rightarrow> if m \<in> set (w_pending w) then Some (snd (publish_send m w)) else None
     | WriteEvent i k \<Rightarrow> writePump i k w
     | ReadEvent i k \<Rightarrow> readPump i k w)"

text \<open>The worlds after \<open>n\<close> events; a panic ends the process.\<close>

inductive runs :: "WsConfig \<Rightarrow> 'd World \<Rightarrow> nat \<Rightarrow> 'd World \<Rightarrow> bool" for cfg w0 where
  runs_start: "runs cfg w0 0 w0"
| runs_step: "runs cfg w0 n w \<Longrightarrow> \<not> w_panicked w \<Longrightarrow> exec cfg e w = Some w' \<Longrightarrow> runs cfg w0 (Suc n) w'"

end
