(* ===== verification/WsSafety.thy ===== *)
theory WsSafety
  imports WsHub
begin

text \<open>
  Invariants of the WebSocket world over every interleaving: the numbering and the bound of each
  connection, the registry with the absence of sends on closed channels, the per-address slots,
  and the gauge of nearly full queues.
\<close>

section \<open>Counting clients\<close>

definition tally :: "('d Client \<Rightarrow> int) \<Rightarrow> 'd World \<Rightarrow> int" where
  "tally f w = sum_list (map f (w_clients w))"

lemma set_client_simps [simp]:
  "w_clients (set_client i c w) = (w_clients w)[i := c]"
  "h_sessions (set_client i c w) = h_sessions w" "h_clients (set_client i c w) = h_clients w"
  "h_done (set_client i c w) = h_done w" "h_pc (set_client i c w) = h_pc w" "h_slow (set_client i c w) = h_slow w"
  "w_perAddress (set_client i c w) = w_perAddress w" "w_handshakes (set_client i c w) = w_handshakes w"
  "w_panicked (set_client i c w) = w_panicked w" "w_now (set_client i c w) = w_now w"
  "h_started (set_client i c w) = h_started w" "h_timeouts (set_client i c w) = h_timeouts w"
  by (simp_all add: set_client_def)

lemma sum_list_update_int:
  fixes xs :: "int list"
  shows "i < length xs \<Longrightarrow> sum_list (xs[i := x]) = sum_list xs + x - xs ! i"
  by (induction xs arbitrary: i) (auto split: nat.splits)

lemma tally_set_client:
  "i < length (w_clients w) \<Longrightarrow> tally f (set_client i c w) = tally f w + f c - f (w_clients w ! i)"
  by (simp add: tally_def map_update sum_list_update_int)

lemma tally_cong: "w_clients w' = w_clients w \<Longrightarrow> tally f w' = tally f w"
  by (simp add: tally_def)

lemma ball_update: "\<forall>c \<in> set xs. P c \<Longrightarrow> P d \<Longrightarrow> \<forall>c \<in> set (xs[i := d]). P c"
  using set_update_subset_insert [of xs i d] by auto

section \<open>The numbering of each connection\<close>

fun slack :: "'d HubPc \<Rightarrow> nat \<Rightarrow> nat" where
  "slack (HubFull m m' i todo) j = (if j = i then 1 else 0)"
| "slack (HubNotice m m' i todo) j = (if j = i then 1 else 0)"
| "slack HubIdle j = 0"
| "slack (HubLoop m todo) j = 0"
| "slack (HubSent m i todo) j = 0"

fun notice_ok :: "'d HubPc \<Rightarrow> 'd Client list \<Rightarrow> bool" where
  "notice_ok (HubNotice m notice i todo) cs = (i < length cs \<longrightarrow> m_Seq notice = c_nextSeq (cs ! i))"
| "notice_ok (HubFull m m' i todo) cs = True"
| "notice_ok HubIdle cs = True"
| "notice_ok (HubLoop m todo) cs = True"
| "notice_ok (HubSent m i todo) cs = True"

definition streams_ok :: "nat \<Rightarrow> 'd World \<Rightarrow> bool" where
  "streams_ok n w \<longleftrightarrow> (\<forall>i < length (w_clients w). client_ok n (slack (h_pc w) i) (w_clients w ! i))
     \<and> notice_ok (h_pc w) (w_clients w)"

lemma client_ok_Suc: "client_ok n k c \<Longrightarrow> client_ok (Suc n) k c"
  by (erule client_ok_mono) simp_all

lemma client_ok_slackless: "client_ok n k c \<Longrightarrow> client_ok n 0 c"
  by (erule client_ok_mono) simp_all

lemma streams_same:
  "streams_ok n w \<Longrightarrow> w_clients w' = w_clients w \<Longrightarrow> h_pc w' = h_pc w \<Longrightarrow> streams_ok (Suc n) w'"
  by (simp add: streams_ok_def client_ok_Suc)

text \<open>A step that leaves the hub's position alone and changes one connection.\<close>

lemma notice_ok_update: "notice_ok pc cs \<Longrightarrow> c_nextSeq c = c_nextSeq (cs ! i) \<Longrightarrow> notice_ok pc (cs[i := c])"
  by (cases pc; cases "i < length cs") (auto simp: nth_list_update)

lemma streams_set_client:
  assumes "streams_ok n w" "w_clients w' = (w_clients w)[i := c]" "h_pc w' = h_pc w"
    and "i < length (w_clients w) \<Longrightarrow> client_ok n (slack (h_pc w) i) (w_clients w ! i) \<Longrightarrow> client_ok n (slack (h_pc w) i) c"
    and "c_nextSeq c = c_nextSeq (w_clients w ! i)"
  shows "streams_ok (Suc n) w'"
  unfolding streams_ok_def
proof (intro conjI allI impI)
  fix j assume "j < length (w_clients w')"
  with assms show "client_ok (Suc n) (slack (h_pc w') j) (w_clients w' ! j)"
    by (cases "j = i") (simp_all add: streams_ok_def client_ok_Suc)
next
  show "notice_ok (h_pc w') (w_clients w')"
    using assms(1,2,3,5) by (simp add: streams_ok_def notice_ok_update)
qed

text \<open>A step of the hub on the connection it visits.\<close>

lemma streams_hub:
  assumes w: "streams_ok n w" "w_clients w' = (w_clients w)[i := c]" "i < length (w_clients w)"
    and pc: "\<And>j. j \<noteq> i \<Longrightarrow> slack (h_pc w') j = 0"
    and c: "client_ok n (slack (h_pc w) i) (w_clients w ! i) \<Longrightarrow> client_ok (Suc n) (slack (h_pc w') i) c"
    and nt: "notice_ok (h_pc w') ((w_clients w)[i := c])"
  shows "streams_ok (Suc n) w'"
  unfolding streams_ok_def
proof (intro conjI allI impI)
  fix j assume j: "j < length (w_clients w')"
  show "client_ok (Suc n) (slack (h_pc w') j) (w_clients w' ! j)"
  proof (cases "j = i")
    case True
    with w c show ?thesis by (simp add: streams_ok_def)
  next
    case False
    with w j have "client_ok n (slack (h_pc w) j) (w_clients w' ! j)" by (simp add: streams_ok_def)
    with pc [OF False] show ?thesis by (simp add: client_ok_Suc client_ok_slackless)
  qed
qed (use w(2) nt in simp)

lemma chan_send_cases:
  assumes "chan_send m c = Some (ok, c')"
  obtains "ok" "c' = c\<lparr>c_send := c_send c @ [m]\<rparr>" "length (c_send c) < SendBuffer" | "\<not> ok" "c' = c"
  using assms by (auto simp: chan_send_def split: if_splits)

lemma enqueue_try_ok:
  assumes ok: "client_ok n 0 c" "Suc n < 2 ^ 64" and e: "enqueue_try now m c = Some (r, m', c')"
  shows "client_ok (Suc n) (if r = QueueFull then 1 else 0) c'"
proof (cases "m_Type m = TypeSessionMetrics \<and> \<not> c_metricsEnabled c")
  case True
  with e ok show ?thesis by (auto simp: enqueue_try_def client_ok_Suc)
next
  case False
  define c1 where "c1 = c\<lparr>c_nextSeq := c_nextSeq c + 1\<rparr>"
  have c1: "client_ok (Suc n) 1 c1" unfolding c1_def by (rule client_ok_spend [OF ok]) simp_all
  from e False obtain sent where cs: "chan_send (m\<lparr>m_Seq := c_nextSeq c + 1, m_TS := now, m_SessionID := c_session c\<rparr>) c1 = Some (sent, c')"
    and r: "r = (if sent then Queued else QueueFull)"
    by (auto simp: enqueue_try_def c1_def Let_def split: option.splits)
  from cs show ?thesis
  proof (cases rule: chan_send_cases)
    case 1
    with c1 r show ?thesis by (auto simp: c1_def intro!: client_ok_queue [OF c1])
  next
    case 2
    with c1 r show ?thesis by simp
  qed
qed

lemma enqueue_full_ok:
  assumes ok: "client_ok n 1 c" "Suc n < 2 ^ 64" and e: "enqueue_full now m c = (c', nt)"
  shows "client_ok (Suc n) (if nt = None then 0 else 1) c' \<and> (\<forall>notice. nt = Some notice \<longrightarrow> m_Seq notice = c_nextSeq c')"
proof (cases "undroppable (m_Type m)")
  case True
  with e have "c' = closeForBackpressure c" "nt = None" by (auto simp: enqueue_full_def)
  with client_ok_same [OF client_ok_Suc [OF client_ok_slackless [OF ok(1)]], of c'] show ?thesis
    by (simp add: closeForBackpressure_def)
next
  case False
  define c1 where "c1 = c\<lparr>c_dropped := c_dropped c + 1\<rparr>"
  have c1: "client_ok n 0 c1" unfolding c1_def by (rule client_ok_drop [OF ok]) simp_all
  define c2 where "c2 = (let c0 = (if time_Sub now (c_dropWindowStart c1) > Minute
      then c1\<lparr>c_dropWindowStart := now, c_dropWindowCount := 0\<rparr> else c1) in c0\<lparr>c_dropWindowCount := c_dropWindowCount c0 + 1\<rparr>)"
  have same: "c_send c2 = c_send c1" "c_out c2 = c_out c1" "c_nextSeq c2 = c_nextSeq c1" "c_dropped c2 = c_dropped c1"
    by (simp_all add: c2_def Let_def)
  have c2: "client_ok n 0 c2" by (rule client_ok_same [OF c1]) (simp add: same)
  from e False have "(c', nt) = noteDrop now c1" by (simp add: enqueue_full_def c1_def)
  then consider "c' = c2" "nt = None" | notice where "c' = c2\<lparr>c_nextSeq := c_nextSeq c2 + 1\<rparr>" "nt = Some notice" "m_Seq notice = c_nextSeq c2 + 1"
    by (auto simp: noteDrop_def c2_def Let_def split: if_splits)
  then show ?thesis
  proof cases
    case 1
    with c2 show ?thesis by (simp add: client_ok_Suc)
  next
    case 2
    have "client_ok (Suc n) 1 c'" unfolding 2(1) by (rule client_ok_spend [OF c2 ok(2)]) simp_all
    with 2 show ?thesis by simp
  qed
qed

lemma checkNearFull_fields:
  assumes "checkNearFull c = (c', d)"
  shows "c_send c' = c_send c \<and> c_out c' = c_out c \<and> c_nextSeq c' = c_nextSeq c \<and> c_dropped c' = c_dropped c
    \<and> c_session c' = c_session c \<and> c_phase c' = c_phase c \<and> c_sendClosed c' = c_sendClosed c
    \<and> c_addr c' = c_addr c \<and> c_released c' = c_released c"
  using assms by (auto simp: checkNearFull_def Let_def split: if_splits)

section \<open>Every event keeps the numbering\<close>

lemma hub_enqueue_streams:
  assumes "streams_ok n w" "Suc n < 2 ^ 64" "h_pc w = HubLoop m todo'" "i < length (w_clients w)"
  shows "streams_ok (Suc n) (hub_enqueue m i todo w)"
proof (cases "enqueue_try (w_now w) m (w_clients w ! i)")
  case None
  with assms show ?thesis by (simp add: hub_enqueue_def streams_same)
next
  case (Some t)
  obtain r m' c where t: "t = (r, m', c)" by (cases t)
  have ok: "client_ok (Suc n) (if r = QueueFull then 1 else 0) c" if "client_ok n 0 (w_clients w ! i)"
    by (rule enqueue_try_ok [OF that assms(2)]) (use Some in \<open>simp add: t\<close>)
  show ?thesis
  proof (cases "r = Skipped")
    case True
    with assms Some t show ?thesis by (simp add: hub_enqueue_def streams_ok_def client_ok_Suc)
  next
    case False
    then have "hub_enqueue m i todo w = (set_client i c w)\<lparr>h_pc := if r = Queued then HubSent m i todo else HubFull m m' i todo\<rparr>"
      using Some t by (cases r) (simp_all add: hub_enqueue_def)
    with ok assms False show ?thesis by (intro streams_hub [where i = i and c = c and w = w]) (cases r; simp)+
  qed
qed

lemma hub_near_full_streams:
  assumes "streams_ok n w" "h_pc w = HubSent m' j todo'" "i < length (w_clients w)"
  shows "streams_ok (Suc n) (hub_near_full m i todo w)"
proof -
  obtain c d where cd: "checkNearFull (w_clients w ! i) = (c, d)" by fastforce
  from checkNearFull_fields [OF cd] have "client_ok n 0 (w_clients w ! i) \<Longrightarrow> client_ok (Suc n) 0 c"
    by (metis client_ok_Suc client_ok_same)
  with assms cd show ?thesis
    by (intro streams_hub [where i = i and c = c and w = w]) (simp_all add: hub_near_full_def)
qed

lemma hub_queue_full_streams:
  assumes "streams_ok n w" "Suc n < 2 ^ 64" "h_pc w = HubFull m' m'' i todo'" "i < length (w_clients w)"
  shows "streams_ok (Suc n) (hub_queue_full m m'' i todo w)"
proof -
  obtain c nt where e: "enqueue_full (w_now w) m'' (w_clients w ! i) = (c, nt)" by fastforce
  have ok: "client_ok (Suc n) (if nt = None then 0 else 1) c \<and> (\<forall>notice. nt = Some notice \<longrightarrow> m_Seq notice = c_nextSeq c)"
    if "client_ok n 1 (w_clients w ! i)" using that assms(2) e by (rule enqueue_full_ok)
  have "client_ok n 1 (w_clients w ! i)" using assms by (auto simp: streams_ok_def)
  with ok assms e show ?thesis
    by (cases nt) (auto simp: hub_queue_full_def intro!: streams_hub [where i = i and c = c and w = w])
qed

lemma hub_notice_streams:
  assumes "streams_ok n w" "h_pc w = HubNotice m' notice i todo'" "i < length (w_clients w)"
  shows "streams_ok (Suc n) (hub_notice m notice i todo w)"
proof (cases "chan_send notice (w_clients w ! i)")
  case None
  with assms show ?thesis by (simp add: hub_notice_def streams_same)
next
  case (Some t)
  then obtain sent c where t: "chan_send notice (w_clients w ! i) = Some (sent, c)" by (cases t) auto
  have "client_ok (Suc n) 0 c" if "client_ok n 1 (w_clients w ! i)"
    using t
  proof (cases rule: chan_send_cases)
    case 1
    with assms show ?thesis by (auto simp: streams_ok_def intro!: client_ok_Suc client_ok_queue [OF that])
  next
    case 2
    with that show ?thesis by (simp add: client_ok_Suc client_ok_slackless)
  qed
  with assms t show ?thesis
    by (intro streams_hub [where i = i and c = c and w = w]) (simp_all add: hub_notice_def)
qed

section \<open>The registry\<close>

definition members :: "(uuid \<rightharpoonup> nat set) \<Rightarrow> nat set" where
  "members f = {i. \<exists>s ids. f s = Some ids \<and> i \<in> ids}"

lemma members_upd: "members (f(s \<mapsto> X)) = X \<union> members (f(s := None))"
  unfolding members_def by auto

lemma members_split: "members f = (case f s of None \<Rightarrow> {} | Some ids \<Rightarrow> ids) \<union> members (f(s := None))"
  unfolding members_def by (auto split: option.splits) (metis option.distinct(1) option.inject)+

definition registered :: "'d World \<Rightarrow> nat set" where
  "registered w = members (h_sessions w)"

fun pc_clients :: "'d HubPc \<Rightarrow> nat set" where
  "pc_clients HubIdle = {}"
| "pc_clients (HubLoop m todo) = todo"
| "pc_clients (HubSent m i todo) = insert i todo"
| "pc_clients (HubFull m m' i todo) = insert i todo"
| "pc_clients (HubNotice m notice i todo) = insert i todo"

definition member_ok :: "'d World \<Rightarrow> uuid \<Rightarrow> nat \<Rightarrow> bool" where
  "member_ok w s i \<longleftrightarrow> i < length (w_clients w) \<and> c_session (w_clients w ! i) = s
     \<and> c_phase (w_clients w ! i) = Started \<and> \<not> c_sendClosed (w_clients w ! i)"

definition registry_ok :: "'d World \<Rightarrow> bool" where
  "registry_ok w \<longleftrightarrow> (\<forall>s ids i. h_sessions w s = Some ids \<longrightarrow> i \<in> ids \<longrightarrow> member_ok w s i)
     \<and> (\<forall>s. h_sessions w s \<noteq> Some {})
     \<and> h_clients w = int (card (registered w))
     \<and> pc_clients (h_pc w) \<subseteq> registered w
     \<and> (h_done w \<longrightarrow> h_sessions w = Map.empty)
     \<and> \<not> w_panicked w"

lemma registered_ok: "registry_ok w \<Longrightarrow> i \<in> registered w \<Longrightarrow> member_ok w (c_session (w_clients w ! i)) i
    \<and> (\<exists>ids. h_sessions w (c_session (w_clients w ! i)) = Some ids \<and> i \<in> ids)"
  by (fastforce simp: registry_ok_def registered_def members_def member_ok_def)

lemma registered_finite: "registry_ok w \<Longrightarrow> finite (registered w)"
  by (rule finite_subset [of _ "{..<length (w_clients w)}"]) (auto dest: registered_ok simp: member_ok_def)

lemma registry_frame:
  assumes ok: "registry_ok w"
    and "h_sessions w' = h_sessions w" "h_clients w' = h_clients w" "h_done w' = h_done w" "w_panicked w' = w_panicked w"
    and "pc_clients (h_pc w') \<subseteq> registered w"
    and "\<And>s i. member_ok w s i \<Longrightarrow> member_ok w' s i"
  shows "registry_ok w'"
proof -
  have "registered w' = registered w" using assms(2) by (simp add: registered_def)
  with assms show ?thesis by (auto simp: registry_ok_def)
qed

text \<open>Giving one connection a new state that keeps its session, its start and its open queue.\<close>

lemma member_ok_update:
  assumes "member_ok w s i" "w_clients w' = (w_clients w)[j := c]"
    and "c_session c = c_session (w_clients w ! j)" "c_phase (w_clients w ! j) = Started \<Longrightarrow> c_phase c = Started"
    and "c_sendClosed c = c_sendClosed (w_clients w ! j)"
  shows "member_ok w' s i"
  using assms by (cases "i = j") (auto simp: member_ok_def)

text \<open>The two updates of the registry.\<close>

lemma registered_register:
  assumes "registry_ok w"
  shows "registered (hub_register i w) = insert i (registered w)"
  using members_split [of "h_sessions w" "c_session (w_clients w ! i)"]
  by (simp add: registered_def hub_register_def Let_def members_upd)

lemma hub_register_registry:
  assumes ok: "registry_ok w" and i: "i < length (w_clients w)" "c_phase (w_clients w ! i) = Registering"
    and open_queue: "\<not> c_sendClosed (w_clients w ! i)" and idle: "h_pc w = HubIdle" "\<not> h_done w"
  shows "registry_ok (hub_register i w)"
proof -
  have new: "i \<notin> registered w" using registered_ok [OF ok, of i] i by (auto simp: member_ok_def)
  have card: "card (registered (hub_register i w)) = card (registered w) + 1"
    unfolding registered_register [OF ok] using registered_finite [OF ok] new by simp
  have mem: "member_ok (hub_register i w) s j" if "member_ok w s j" for s j
    using that i by (cases "j = i") (auto simp: member_ok_def hub_register_def Let_def start_pumps_def)
  have self: "member_ok (hub_register i w) (c_session (w_clients w ! i)) i"
    using i open_queue by (simp add: member_ok_def hub_register_def Let_def start_pumps_def)
  have "member_ok (hub_register i w) s j" if "h_sessions (hub_register i w) s = Some ids" "j \<in> ids" for s ids j
    using that mem self ok
    by (auto simp: hub_register_def Let_def registry_ok_def split: if_splits option.splits)
  moreover have "h_sessions (hub_register i w) s \<noteq> Some {}" for s
    using ok by (auto simp: hub_register_def Let_def registry_ok_def)
  moreover have "h_pc (hub_register i w) = HubIdle" "\<not> h_done (hub_register i w)" "h_clients (hub_register i w) = h_clients w + 1"
    "w_panicked (hub_register i w) = w_panicked w"
    using idle by (simp_all add: hub_register_def Let_def)
  ultimately show ?thesis using card ok by (auto simp: registry_ok_def)
qed

lemma remove_registry:
  assumes ok: "registry_ok w" and idle: "h_pc w = HubIdle" "\<not> h_done w"
  shows "registry_ok (remove i w)"
proof (cases "i \<in> registered w")
  case False
  then have "remove i w = w" by (auto simp: remove_def Let_def registered_def members_def split: option.splits)
  with ok show ?thesis by simp
next
  case True
  let ?s = "c_session (w_clients w ! i)"
  from registered_ok [OF ok True] obtain ids where ids: "h_sessions w ?s = Some ids" "i \<in> ids" and m: "member_ok w ?s i" by blast
  then have eq: "remove i w = (set_client i ((w_clients w ! i)\<lparr>c_sendClosed := True\<rparr>) w)\<lparr>
      h_sessions := (if ids - {i} = {} then (h_sessions w)(?s := None) else (h_sessions w)(?s \<mapsto> ids - {i})),
      h_clients := h_clients w - 1\<rparr>"
    by (simp add: remove_def Let_def member_ok_def)
  have only: "j \<noteq> i" if "h_sessions w s = Some ids'" "j \<in> ids'" "s \<noteq> ?s" for s ids' j
    using that ok by (auto simp: registry_ok_def member_ok_def)
  have reg: "registered (remove i w) = registered w - {i}"
  proof -
    have "i \<notin> members ((h_sessions w)(?s := None))"
      using only by (auto simp: members_def split: if_splits)
    then have "ids - {i} \<union> members ((h_sessions w)(?s := None)) = members (h_sessions w) - {i}"
      using members_split [of "h_sessions w" ?s] ids by auto
    then show ?thesis unfolding eq registered_def by (auto simp: members_upd)
  qed
  have card: "int (card (registered (remove i w))) = int (card (registered w)) - 1"
  proof -
    have "0 < card (registered w)" using True registered_finite [OF ok] by (auto simp: card_gt_0_iff)
    then show ?thesis unfolding reg using True by (simp add: card_Diff_singleton of_nat_diff)
  qed
  have mem: "member_ok (remove i w) s j" if "member_ok w s j" "j \<noteq> i" for s j
    using that unfolding eq by (simp add: member_ok_def)
  have "member_ok (remove i w) s j" if "h_sessions (remove i w) s = Some ids'" "j \<in> ids'" for s ids' j
    using that mem only ids ok unfolding eq
    by (auto simp: registry_ok_def split: if_splits)
  moreover have "h_sessions (remove i w) s \<noteq> Some {}" for s
    using ok unfolding eq by (auto simp: registry_ok_def)
  moreover have "h_pc (remove i w) = HubIdle" "\<not> h_done (remove i w)" "w_panicked (remove i w) = w_panicked w"
    "h_clients (remove i w) = h_clients w - 1"
    using idle unfolding eq by simp_all
  ultimately show ?thesis using card ok by (auto simp: registry_ok_def)
qed

section \<open>The slots of an address and the gauge\<close>

text \<open>A slot is held by a handshake in flight or by a connection that has not given it back.\<close>

definition holds :: "string \<Rightarrow> 'd Client \<Rightarrow> int" where
  "holds a c = (if c_addr c = a \<and> \<not> c_released c then 1 else 0)"

definition held :: "'d World \<Rightarrow> string \<Rightarrow> int" where
  "held w a = int (length (filter (\<lambda>h. hs_addr h = a) (w_handshakes w))) + tally (holds a) w"

definition slots_ok :: "int \<Rightarrow> 'd World \<Rightarrow> bool" where
  "slots_ok limit w \<longleftrightarrow> (\<forall>a. w_perAddress w a = (if held w a = 0 then None else Some (held w a)) \<and> held w a \<le> max 0 limit)"

definition near :: "'d Client \<Rightarrow> int" where
  "near c = (if c_warnedNearFull c then 1 else 0)"

definition gauge_ok :: "'d World \<Rightarrow> bool" where
  "gauge_ok w \<longleftrightarrow> h_slow w = tally near w"

lemma tally_holds: "sum_list (map (holds a) cs) = int (length (filter (\<lambda>c. c_addr c = a \<and> \<not> c_released c) cs))"
  by (induction cs) (auto simp: holds_def)

lemma tally_holds_nonneg: "0 \<le> tally (holds a) w"
  unfolding tally_def by (rule sum_list_nonneg) (auto simp: holds_def)

lemma held_nonneg: "0 \<le> held w a"
  using tally_holds_nonneg [of a w] by (simp add: held_def)

lemma slots_frame:
  "slots_ok limit w \<Longrightarrow> w_perAddress w' = w_perAddress w \<Longrightarrow> (\<And>a. held w' a = held w a) \<Longrightarrow> slots_ok limit w'"
  by (simp add: slots_ok_def)

lemma per_address_held: "slots_ok limit w \<Longrightarrow> per_address (w_perAddress w) a = held w a"
  by (auto simp: slots_ok_def per_address_def)

text \<open>Taking and giving back one slot.\<close>

lemma slots_reserve:
  assumes ok: "slots_ok limit w" and r: "reserve limit a (w_perAddress w) = Some m" and "w_perAddress w' = m"
    and h: "\<And>b. held w' b = held w b + (if b = a then 1 else 0)"
  shows "slots_ok limit w'"
proof -
  have "held w a < limit" "m = (w_perAddress w)(a \<mapsto> held w a + 1)"
    using r per_address_held [OF ok, of a] by (auto simp: reserve_def split: if_splits)
  with assms held_nonneg [of w a] show ?thesis by (auto simp: slots_ok_def)
qed

lemma slots_release:
  assumes ok: "slots_ok limit w" and "w_perAddress w' = release a (w_perAddress w)"
    and h: "\<And>b. held w' b = held w b - (if b = a then 1 else 0)"
  shows "slots_ok limit w'"
proof -
  have "held w a \<le> max 0 limit" using ok by (simp add: slots_ok_def)
  then have "held w a - 1 \<le> max 0 limit" by linarith
  then show ?thesis
    using assms held_nonneg [of w' a] per_address_held [OF ok, of a]
    by (auto simp: slots_ok_def release_def Let_def)
qed

lemma filter_remove1_length:
  "x \<in> set xs \<Longrightarrow> int (length (filter P (remove1 x xs))) = int (length (filter P xs)) - (if P x then 1 else 0)"
  by (induction xs) auto

section \<open>All four together\<close>

definition world_ok :: "WsConfig \<Rightarrow> nat \<Rightarrow> 'd World \<Rightarrow> bool" where
  "world_ok cfg n w \<longleftrightarrow> streams_ok n w \<and> registry_ok w \<and> slots_ok (wc_limit cfg) w \<and> gauge_ok w
     \<and> (\<forall>c \<in> set (w_clients w). c_phase c = Registering \<longrightarrow> \<not> c_sendClosed c)"

lemma world_ok_start: "world_ok cfg 0 (NewWorld now t)"
  by (simp add: world_ok_def streams_ok_def registry_ok_def registered_def members_def slots_ok_def gauge_ok_def held_def tally_def NewWorld_def)

text \<open>A step that leaves the connections and their slots alone.\<close>

lemma world_ok_quiet:
  assumes "world_ok cfg n w" "w_clients w' = w_clients w" "h_pc w' = h_pc w" "h_sessions w' = h_sessions w" "h_clients w' = h_clients w"
    "h_done w' = h_done w" "w_panicked w' = w_panicked w" "w_perAddress w' = w_perAddress w" "w_handshakes w' = w_handshakes w" "h_slow w' = h_slow w"
  shows "world_ok cfg (Suc n) w'"
proof -
  have "tally f w' = tally f w" for f by (rule tally_cong [OF assms(2)])
  moreover have "registry_ok w'"
    using assms by (intro registry_frame [of w w']) (auto simp: world_ok_def member_ok_def registry_ok_def)
  ultimately show ?thesis
    using assms by (auto simp: world_ok_def gauge_ok_def held_def intro: streams_same slots_frame)
qed

text \<open>A step of one goroutine on one connection.\<close>

lemma world_ok_client:
  assumes ok: "world_ok cfg n w" and i: "i < length (w_clients w)" and w': "w' = set_client i c w"
    and st: "client_ok n (slack (h_pc w) i) (w_clients w ! i) \<Longrightarrow> client_ok n (slack (h_pc w) i) c"
    and same: "c_nextSeq c = c_nextSeq (w_clients w ! i)" "c_session c = c_session (w_clients w ! i)"
      "c_sendClosed c = c_sendClosed (w_clients w ! i)" "c_addr c = c_addr (w_clients w ! i)"
      "c_released c = c_released (w_clients w ! i)" "c_warnedNearFull c = c_warnedNearFull (w_clients w ! i)"
    and ph: "c_phase c = c_phase (w_clients w ! i) \<or> c_phase (w_clients w ! i) = Registering \<and> c_phase c = Refused"
  shows "world_ok cfg (Suc n) w'"
proof -
  let ?c = "w_clients w ! i"
  have "streams_ok (Suc n) w'"
    using ok st same w' by (intro streams_set_client [of n w w' i c]) (simp_all add: world_ok_def)
  moreover have "registry_ok w'"
    using ok same ph w' by (intro registry_frame [of w w'] member_ok_update [of w _ _ w' i c]) (auto simp: world_ok_def registry_ok_def)
  moreover have "tally (holds a) w' = tally (holds a) w" "tally near w' = tally near w" for a
    using same i by (simp_all add: w' tally_set_client holds_def near_def)
  moreover have "\<forall>d \<in> set (w_clients w'). c_phase d = Registering \<longrightarrow> \<not> c_sendClosed d"
    using ok ph same i unfolding w' set_client_simps world_ok_def by (intro ball_update) auto
  ultimately show ?thesis using ok w' by (auto simp: world_ok_def gauge_ok_def held_def intro: slots_frame)
qed

text \<open>Giving back the slot, once.\<close>

lemma releaseReservation_ok:
  assumes ok: "world_ok cfg n w" and i: "i < length (w_clients w)"
  shows "world_ok cfg n (releaseReservation i w)"
proof (cases "c_released (w_clients w ! i)")
  case True
  with ok show ?thesis by (simp add: releaseReservation_def)
next
  case False
  let ?c = "w_clients w ! i" let ?w = "releaseReservation i w"
  have eq: "?w = (set_client i (?c\<lparr>c_released := True\<rparr>) w)\<lparr>w_perAddress := release (c_addr ?c) (w_perAddress w)\<rparr>"
    using False by (simp add: releaseReservation_def Let_def)
  have t: "tally f ?w = tally f w + f (?c\<lparr>c_released := True\<rparr>) - f ?c" for f
    using tally_set_client [OF i, of f] by (simp add: eq tally_def)
  have "held ?w b = held w b - (if b = c_addr ?c then 1 else 0)" for b
    using False by (auto simp: held_def t holds_def) (simp_all add: eq)
  then have "slots_ok (wc_limit cfg) ?w"
    using ok by (intro slots_release [of "wc_limit cfg" w ?w "c_addr ?c"]) (simp_all add: world_ok_def eq)
  moreover have "registry_ok ?w"
    using ok by (intro registry_frame [of w ?w] member_ok_update [of w _ _ ?w i "?c\<lparr>c_released := True\<rparr>"])
      (auto simp: world_ok_def registry_ok_def eq)
  moreover have "streams_ok n ?w"
    unfolding streams_ok_def
  proof (intro conjI allI impI)
    fix j assume "j < length (w_clients ?w)"
    with ok show "client_ok n (slack (h_pc ?w) j) (w_clients ?w ! j)"
      unfolding eq by (cases "j = i") (auto simp: world_ok_def streams_ok_def intro: client_ok_same)
  qed (use ok in \<open>simp add: world_ok_def streams_ok_def eq notice_ok_update\<close>)
  moreover have "gauge_ok ?w" using ok by (simp add: world_ok_def gauge_ok_def t near_def) (simp add: eq)
  moreover have wc: "w_clients ?w = (w_clients w)[i := ?c\<lparr>c_released := True\<rparr>]" by (simp add: eq)
  have "\<forall>d \<in> set (w_clients ?w). c_phase d = Registering \<longrightarrow> \<not> c_sendClosed d"
    using ok i unfolding wc world_ok_def by (intro ball_update) auto
  ultimately show ?thesis by (simp add: world_ok_def)
qed

section \<open>Every event\<close>

lemma admit_ok:
  assumes ok: "world_ok cfg n w" and a: "admit cfg r w = Inr w'"
  shows "world_ok cfg (Suc n) w'"
proof -
  obtain sid ident m where m: "reserve (wc_limit cfg) (rq_addr r) (w_perAddress w) = Some m"
    and w': "w' = w\<lparr>w_perAddress := m, w_handshakes := \<lparr>hs_addr = rq_addr r, hs_session = sid, hs_identity = ident\<rparr> # w_handshakes w\<rparr>"
    using a unfolding admit_def by (auto split: option.splits if_splits)
  have t: "tally f w' = tally f w" for f by (rule tally_cong) (simp add: w')
  have "held w' b = held w b + (if b = rq_addr r then 1 else 0)" for b
    by (simp add: held_def t) (simp add: w')
  then have "slots_ok (wc_limit cfg) w'"
    using ok by (intro slots_reserve [of "wc_limit cfg" w "rq_addr r" m w', OF _ m]) (simp_all add: world_ok_def w')
  moreover have "registry_ok w'"
    using ok by (intro registry_frame [of w w']) (auto simp: world_ok_def registry_ok_def w' member_ok_def)
  ultimately show ?thesis
    using ok t [of near] by (auto simp: world_ok_def gauge_ok_def w' intro: streams_same)
qed

lemma lookup_failed_ok:
  assumes ok: "world_ok cfg n w" and hs: "hs \<in> set (w_handshakes w)"
    and w': "w' = w\<lparr>w_handshakes := remove1 hs (w_handshakes w), w_perAddress := release (hs_addr hs) (w_perAddress w)\<rparr>"
  shows "world_ok cfg (Suc n) w'"
proof -
  have t: "tally f w' = tally f w" for f by (rule tally_cong) (simp add: w')
  have "held w' b = held w b - (if b = hs_addr hs then 1 else 0)" for b
    using filter_remove1_length [OF hs, of "\<lambda>h. hs_addr h = b"] by (simp add: held_def t) (auto simp: w')
  then have "slots_ok (wc_limit cfg) w'"
    using ok by (intro slots_release [of "wc_limit cfg" w w' "hs_addr hs"]) (simp_all add: world_ok_def w')
  moreover have "registry_ok w'"
    using ok by (intro registry_frame [of w w']) (auto simp: world_ok_def registry_ok_def w' member_ok_def)
  ultimately show ?thesis
    using ok t [of near] by (auto simp: world_ok_def gauge_ok_def w' intro: streams_same)
qed

lemma new_client_ok:
  fixes c :: "'d Client"
  assumes "c = (let c0 = sendSnapshot now (sn_Data sn) (newClient a ident sid) in if sn_Closed sn then serveClosed now t sn c0 else c0)"
  shows "client_ok (Suc n) 0 c" "holds b c = (if b = a then 1 else 0)" "near c = 0"
    "c_phase c = Registering \<longrightarrow> \<not> c_sendClosed c"
  using assms
  by (auto simp: Let_def sendSnapshot_def newClient_def serveClosed_def start_pumps_def client_ok_def seqs_def
      snapshot_message_def closed_message_def SendBuffer_def holds_def near_def split: if_splits)

lemma streams_append:
  assumes ok: "streams_ok n w" "registry_ok w" and "w_clients w' = w_clients w @ [c]" "h_pc w' = h_pc w" "client_ok (Suc n) 0 c"
  shows "streams_ok (Suc n) w'"
proof -
  have "i < length (w_clients w)" if "i \<in> pc_clients (h_pc w)" for i
    using that registered_ok [OF ok(2), of i] ok(2) by (auto simp: registry_ok_def member_ok_def)
  then have "slack (h_pc w) (length (w_clients w)) = 0" "notice_ok (h_pc w) (w_clients w @ [c])"
    using ok(1) by (cases "h_pc w"; auto simp: streams_ok_def nth_append)+
  with assms show ?thesis by (auto simp: streams_ok_def nth_append less_Suc_eq intro: client_ok_Suc)
qed

lemma accept_ok:
  assumes ok: "world_ok cfg n w" and hs: "hs \<in> set (w_handshakes w)"
  shows "world_ok cfg (Suc n) (accept hs sn w)"
proof -
  let ?w = "accept hs sn w"
  obtain c where wc: "w_clients ?w = w_clients w @ [c]"
    and c: "c = (let c0 = sendSnapshot (w_now w) (sn_Data sn) (newClient (hs_addr hs) (hs_identity hs) (hs_session hs)) in
      if sn_Closed sn then serveClosed (w_now w) (h_timeouts w) sn c0 else c0)"
    by (simp add: accept_def Let_def)
  note new = new_client_ok [OF c]
  have same: "h_pc ?w = h_pc w" "h_sessions ?w = h_sessions w" "h_clients ?w = h_clients w" "h_done ?w = h_done w"
    "w_panicked ?w = w_panicked w" "w_perAddress ?w = w_perAddress w" "h_slow ?w = h_slow w"
    "w_handshakes ?w = remove1 hs (w_handshakes w)"
    by (simp_all add: accept_def Let_def)
  have t: "tally f ?w = tally f w + f c" for f by (simp add: tally_def wc)
  have "held ?w b = held w b" for b
    using filter_remove1_length [OF hs, of "\<lambda>h. hs_addr h = b"] by (auto simp: held_def t same new(2))
  then have "slots_ok (wc_limit cfg) ?w" using ok by (intro slots_frame [of "wc_limit cfg" w ?w]) (simp_all add: world_ok_def same)
  moreover have "registry_ok ?w"
    using ok by (intro registry_frame [of w ?w]) (auto simp: world_ok_def registry_ok_def same member_ok_def wc nth_append)
  moreover have "streams_ok (Suc n) ?w"
    using ok by (intro streams_append [OF _ _ wc]) (simp_all add: world_ok_def same new(1))
  moreover have "gauge_ok ?w" using ok by (simp add: world_ok_def gauge_ok_def same t new(3))
  ultimately show ?thesis using ok new(4) by (simp add: world_ok_def wc)
qed

text \<open>The hub.\<close>

lemma remove_ok:
  assumes ok: "world_ok cfg n w" and idle: "h_pc w = HubIdle" "\<not> h_done w"
  shows "world_ok cfg n (remove i w)"
proof (cases "i \<in> registered w")
  case False
  then have "remove i w = w" by (auto simp: remove_def Let_def registered_def members_def split: option.splits)
  with ok show ?thesis by simp
next
  case True
  let ?c = "w_clients w ! i" let ?d = "?c\<lparr>c_sendClosed := True\<rparr>"
  have reg: "registry_ok w" using ok by (simp add: world_ok_def)
  from registered_ok [OF reg True] obtain ids where "h_sessions w (c_session ?c) = Some ids" "i \<in> ids"
    and i: "i < length (w_clients w)" "c_phase ?c = Started" "\<not> c_sendClosed ?c"
    by (auto simp: member_ok_def)
  then obtain f k where eq: "remove i w = (set_client i ?d w)\<lparr>h_sessions := f, h_clients := k\<rparr>"
    by (simp add: remove_def Let_def)
  have t: "tally f (remove i w) = tally f w + f ?d - f ?c" for f
    using tally_set_client [OF i(1), of f] by (simp add: eq tally_def)
  have "held (remove i w) b = held w b" for b by (simp add: held_def t holds_def) (simp add: eq)
  then have "slots_ok (wc_limit cfg) (remove i w)"
    using ok by (intro slots_frame [of "wc_limit cfg" w "remove i w"]) (simp_all add: world_ok_def eq)
  moreover have "gauge_ok (remove i w)" using ok by (simp add: world_ok_def gauge_ok_def t near_def) (simp add: eq)
  moreover have "streams_ok n (remove i w)"
    unfolding streams_ok_def
  proof (intro conjI allI impI)
    fix j assume "j < length (w_clients (remove i w))"
    with ok show "client_ok n (slack (h_pc (remove i w)) j) (w_clients (remove i w) ! j)"
      unfolding eq by (cases "j = i") (auto simp: world_ok_def streams_ok_def intro: client_ok_same)
  qed (use ok in \<open>simp add: world_ok_def streams_ok_def eq notice_ok_update\<close>)
  moreover have wc: "w_clients (remove i w) = (w_clients w)[i := ?d]" by (simp add: eq)
  have "\<forall>d \<in> set (w_clients (remove i w)). c_phase d = Registering \<longrightarrow> \<not> c_sendClosed d"
    using ok i unfolding wc world_ok_def by (intro ball_update) auto
  ultimately show ?thesis using remove_registry [OF reg idle] by (simp add: world_ok_def)
qed

lemma hub_register_ok:
  assumes ok: "world_ok cfg n w" and i: "i < length (w_clients w)" "c_phase (w_clients w ! i) = Registering"
    and idle: "h_pc w = HubIdle" "\<not> h_done w"
  shows "world_ok cfg (Suc n) (hub_register i w)"
proof -
  let ?c = "w_clients w ! i" let ?d = "start_pumps (w_now w) (h_timeouts w) ?c" let ?w = "hub_register i w"
  have op: "\<not> c_sendClosed ?c" using ok i by (simp add: world_ok_def)
  obtain f where eq: "?w = (set_client i ?d w)\<lparr>h_sessions := f, h_clients := h_clients w + 1\<rparr>"
    by (simp add: hub_register_def Let_def)
  have t: "tally g ?w = tally g w + g ?d - g ?c" for g
    using tally_set_client [OF i(1), of g] by (simp add: eq tally_def)
  have "held ?w b = held w b" for b by (simp add: held_def t holds_def start_pumps_def) (simp add: eq)
  then have "slots_ok (wc_limit cfg) ?w"
    using ok by (intro slots_frame [of "wc_limit cfg" w ?w]) (simp_all add: world_ok_def eq)
  moreover have "gauge_ok ?w" using ok by (simp add: world_ok_def gauge_ok_def t near_def start_pumps_def) (simp add: eq)
  moreover have "streams_ok (Suc n) ?w"
    using ok by (intro streams_set_client [of n w ?w i ?d])
      (auto simp: world_ok_def eq start_pumps_def intro: client_ok_same)
  moreover have wc: "w_clients ?w = (w_clients w)[i := ?d]" by (simp add: eq)
  have "\<forall>d \<in> set (w_clients ?w). c_phase d = Registering \<longrightarrow> \<not> c_sendClosed d"
    using ok i unfolding wc world_ok_def by (intro ball_update) (auto simp: start_pumps_def)
  ultimately show ?thesis
    using hub_register_registry [of w i] ok i op idle by (simp add: world_ok_def)
qed

lemma shutdown_ok:
  assumes ok: "world_ok cfg n w" and idle: "h_pc w = HubIdle"
  shows "world_ok cfg (Suc n) (shutdown w)"
proof -
  have t: "tally f (shutdown w) = tally f w" for f by (rule tally_cong) (simp add: shutdown_def)
  have "held (shutdown w) b = held w b" for b by (simp add: held_def t) (simp add: shutdown_def)
  then have "slots_ok (wc_limit cfg) (shutdown w)"
    using ok by (intro slots_frame [of "wc_limit cfg" w "shutdown w"]) (simp_all add: world_ok_def shutdown_def)
  moreover have "registry_ok (shutdown w)"
    using ok idle by (simp add: world_ok_def registry_ok_def shutdown_def registered_def members_def)
  moreover have "streams_ok (Suc n) (shutdown w)"
    using ok by (intro streams_same [of n w]) (simp_all add: world_ok_def shutdown_def)
  ultimately show ?thesis using ok t [of near] by (simp add: world_ok_def gauge_ok_def shutdown_def)
qed

text \<open>A step of the hub inside its loop: one connection and the gauge.\<close>

lemma world_ok_visit:
  assumes ok: "world_ok cfg n w" and i: "i < length (w_clients w)"
    and eq: "w' = (set_client i c w)\<lparr>h_pc := pc, h_slow := k\<rparr>" and pc: "pc_clients pc \<subseteq> registered w" and dn: "\<not> h_done w"
    and st: "streams_ok (Suc n) w'" and k: "k = h_slow w + near c - near (w_clients w ! i)"
    and same: "c_session c = c_session (w_clients w ! i)" "c_sendClosed c = c_sendClosed (w_clients w ! i)" "c_addr c = c_addr (w_clients w ! i)"
      "c_released c = c_released (w_clients w ! i)" "c_phase c = c_phase (w_clients w ! i)"
  shows "world_ok cfg (Suc n) w'"
proof -
  have t: "tally f w' = tally f w + f c - f (w_clients w ! i)" for f
    using tally_set_client [OF i, of f] by (simp add: eq tally_def)
  have "held w' b = held w b" for b using same by (simp add: held_def t holds_def) (simp add: eq)
  then have "slots_ok (wc_limit cfg) w'"
    using ok by (intro slots_frame [of "wc_limit cfg" w w']) (simp_all add: world_ok_def eq)
  moreover have "registry_ok w'"
    using ok pc same by (intro registry_frame [of w w'] member_ok_update [of w _ _ w' i c]) (auto simp: world_ok_def eq)
  moreover have "gauge_ok w'" using ok k t [of near] by (simp add: world_ok_def gauge_ok_def eq)
  moreover have wc: "w_clients w' = (w_clients w)[i := c]" by (simp add: eq)
  have "\<forall>d \<in> set (w_clients w'). c_phase d = Registering \<longrightarrow> \<not> c_sendClosed d"
    using ok i same unfolding wc world_ok_def by (intro ball_update) auto
  ultimately show ?thesis using st by (simp add: world_ok_def)
qed

lemma Visit_ok:
  assumes ok: "world_ok cfg n w" and n: "Suc n < 2 ^ 64" and pc: "h_pc w = HubLoop m todo" "i \<in> todo" and dn: "\<not> h_done w"
  shows "world_ok cfg (Suc n) (hub_enqueue m i (todo - {i}) w)"
proof -
  let ?c = "w_clients w ! i"
  have reg: "registry_ok w" using ok by (simp add: world_ok_def)
  with pc have sub: "todo \<subseteq> registered w" by (simp add: registry_ok_def)
  with pc registered_ok [OF reg, of i] have i: "i < length (w_clients w)" "\<not> c_sendClosed ?c" by (auto simp: member_ok_def)
  have st: "streams_ok (Suc n) (hub_enqueue m i (todo - {i}) w)"
    using ok i n pc by (intro hub_enqueue_streams) (simp_all add: world_ok_def)
  obtain r m' c where e: "enqueue_try (w_now w) m ?c = Some (r, m', c)"
    using i by (cases "enqueue_try (w_now w) m ?c") (auto simp: enqueue_try_def chan_send_def Let_def split: if_splits)
  have f: "c_session c = c_session ?c" "c_sendClosed c = c_sendClosed ?c" "c_addr c = c_addr ?c"
      "c_released c = c_released ?c" "c_phase c = c_phase ?c" "near c = near ?c" "r = Skipped \<Longrightarrow> c = ?c"
    using e by (auto simp: enqueue_try_def chan_send_def Let_def near_def split: if_splits)
  define pc' where "pc' = (case r of Skipped \<Rightarrow> HubLoop m (todo - {i}) | Queued \<Rightarrow> HubSent m i (todo - {i}) | QueueFull \<Rightarrow> HubFull m m' i (todo - {i}))"
  have eq: "hub_enqueue m i (todo - {i}) w = (set_client i c w)\<lparr>h_pc := pc', h_slow := h_slow w\<rparr>"
    using e f(7) by (cases r) (simp_all add: hub_enqueue_def pc'_def set_client_def)
  show ?thesis
    by (rule world_ok_visit [OF ok i(1) eq _ dn st]) (use sub pc f in \<open>auto simp: pc'_def split: Enqueued.splits\<close>)
qed

lemma near_full_ok:
  assumes ok: "world_ok cfg n w" and pc: "h_pc w = HubSent m i todo" and dn: "\<not> h_done w"
  shows "world_ok cfg (Suc n) (hub_near_full m i todo w)"
proof -
  let ?c = "w_clients w ! i"
  have reg: "registry_ok w" using ok by (simp add: world_ok_def)
  with pc have sub: "insert i todo \<subseteq> registered w" by (simp add: registry_ok_def)
  with registered_ok [OF reg, of i] have i: "i < length (w_clients w)" by (auto simp: member_ok_def)
  obtain c d where cd: "checkNearFull ?c = (c, d)" by fastforce
  have st: "streams_ok (Suc n) (hub_near_full m i todo w)"
    using ok pc i by (intro hub_near_full_streams) (auto simp: world_ok_def)
  have eq: "hub_near_full m i todo w = (set_client i c w)\<lparr>h_pc := HubLoop m todo, h_slow := h_slow w + d\<rparr>"
    using cd by (simp add: hub_near_full_def)
  have "d = near c - near ?c" using cd by (auto simp: checkNearFull_def near_def Let_def split: if_splits)
  with sub checkNearFull_fields [OF cd] show ?thesis
    by (intro world_ok_visit [OF ok i eq _ dn st]) auto
qed

lemma queue_full_ok:
  assumes ok: "world_ok cfg n w" and n: "Suc n < 2 ^ 64" and pc: "h_pc w = HubFull m m' i todo" and dn: "\<not> h_done w"
  shows "world_ok cfg (Suc n) (hub_queue_full m m' i todo w)"
proof -
  let ?c = "w_clients w ! i"
  have reg: "registry_ok w" using ok by (simp add: world_ok_def)
  with pc have sub: "insert i todo \<subseteq> registered w" by (simp add: registry_ok_def)
  with registered_ok [OF reg, of i] have i: "i < length (w_clients w)" by (auto simp: member_ok_def)
  obtain c nt where e: "enqueue_full (w_now w) m' ?c = (c, nt)" by fastforce
  have st: "streams_ok (Suc n) (hub_queue_full m m' i todo w)"
    using ok pc i n by (intro hub_queue_full_streams) (auto simp: world_ok_def)
  define pc' where "pc' = (case nt of None \<Rightarrow> HubLoop m todo | Some notice \<Rightarrow> HubNotice m notice i todo)"
  have eq: "hub_queue_full m m' i todo w = (set_client i c w)\<lparr>h_pc := pc', h_slow := h_slow w\<rparr>"
    using e by (cases nt) (simp_all add: hub_queue_full_def pc'_def set_client_def)
  have f: "c_session c = c_session ?c" "c_sendClosed c = c_sendClosed ?c" "c_addr c = c_addr ?c"
      "c_released c = c_released ?c" "c_phase c = c_phase ?c" "near c = near ?c"
    using e by (auto simp: enqueue_full_def closeForBackpressure_def noteDrop_def Let_def near_def split: if_splits)
  show ?thesis
    by (rule world_ok_visit [OF ok i eq _ dn st]) (use sub f in \<open>auto simp: pc'_def split: option.splits\<close>)
qed

lemma notice_step_ok:
  assumes ok: "world_ok cfg n w" and pc: "h_pc w = HubNotice m notice i todo" and dn: "\<not> h_done w"
  shows "world_ok cfg (Suc n) (hub_notice m notice i todo w)"
proof -
  let ?c = "w_clients w ! i"
  have reg: "registry_ok w" using ok by (simp add: world_ok_def)
  with pc have sub: "insert i todo \<subseteq> registered w" by (simp add: registry_ok_def)
  with registered_ok [OF reg, of i] have i: "i < length (w_clients w)" "\<not> c_sendClosed ?c" by (auto simp: member_ok_def)
  have st: "streams_ok (Suc n) (hub_notice m notice i todo w)"
    using ok pc i by (intro hub_notice_streams) (auto simp: world_ok_def)
  have "chan_send notice ?c \<noteq> None" using i by (auto simp: chan_send_def)
  then obtain sent c where e: "chan_send notice ?c = Some (sent, c)" by auto
  have eq: "hub_notice m notice i todo w = (set_client i c w)\<lparr>h_pc := HubLoop m todo, h_slow := h_slow w\<rparr>"
    using e by (simp add: hub_notice_def set_client_def)
  show ?thesis
    by (rule world_ok_visit [OF ok i(1) eq _ dn st])
      (use sub e in \<open>auto simp: near_def elim!: chan_send_cases\<close>)
qed

lemma Run_cases:
  assumes "Run k w = Some w'"
  obtains "w' = w\<lparr>h_started := True\<rparr>"
    | i where "h_pc w = HubIdle" "\<not> h_done w" "i < length (w_clients w)" "c_phase (w_clients w ! i) = Registering" "w' = hub_register i w"
    | i where "h_pc w = HubIdle" "\<not> h_done w" "i < length (w_clients w)"
        "w' = remove i (set_client i ((w_clients w ! i)\<lparr>c_reading := ReadDone\<rparr>) w)"
    | m ms where "h_pc w = HubIdle" "h_broadcast w = m # ms"
        "w' = w\<lparr>h_broadcast := ms, h_pc := HubLoop m (case h_sessions w (m_SessionID m) of None \<Rightarrow> {} | Some ids \<Rightarrow> ids)\<rparr>"
    | "h_pc w = HubIdle" "w' = shutdown w"
    | m todo i where "h_pc w = HubLoop m todo" "\<not> h_done w" "i \<in> todo" "w' = hub_enqueue m i (todo - {i}) w"
    | m where "h_pc w = HubLoop m {}" "w' = w\<lparr>h_pc := HubIdle\<rparr>"
    | m i todo where "h_pc w = HubSent m i todo" "\<not> h_done w" "w' = hub_near_full m i todo w"
    | m m' i todo where "h_pc w = HubFull m m' i todo" "\<not> h_done w" "w' = hub_queue_full m m' i todo w"
    | m notice i todo where "h_pc w = HubNotice m notice i todo" "\<not> h_done w" "w' = hub_notice m notice i todo w"
proof (cases "k = HubStart")
  case True
  with assms that(1) show ?thesis by (auto simp: Run_def split: if_splits)
next
  case False
  with assms have g: "h_started w" "\<not> h_done w" by (cases k; auto simp: Run_def split: if_splits)+
  show ?thesis
  proof (cases "h_pc w")
    case HubIdle
    with assms g False that(2-5) show ?thesis by (cases k) (auto simp: Run_def split: if_splits list.splits)
  next
    case (HubLoop m todo)
    with assms g False that(6,7) show ?thesis by (cases k) (auto simp: Run_def split: if_splits)
  qed (use assms g False that(8-10) in \<open>cases k; auto simp: Run_def split: if_splits\<close>)+
qed

lemma take_broadcast_ok:
  assumes ok: "world_ok cfg n w"
    and eq: "w' = w\<lparr>h_broadcast := ms, h_pc := HubLoop m (case h_sessions w s of None \<Rightarrow> {} | Some ids \<Rightarrow> ids)\<rparr>"
  shows "world_ok cfg (Suc n) w'"
proof -
  have t: "tally f w' = tally f w" for f by (rule tally_cong) (simp add: eq)
  have "held w' b = held w b" for b by (simp add: held_def t) (simp add: eq)
  then have "slots_ok (wc_limit cfg) w'"
    using ok by (intro slots_frame [of "wc_limit cfg" w w']) (simp_all add: world_ok_def eq)
  moreover have "registry_ok w'"
    using ok by (intro registry_frame [of w w'])
      (auto simp: world_ok_def eq member_ok_def registered_def members_def split: option.splits)
  moreover have "streams_ok (Suc n) w'"
    using ok by (auto simp: world_ok_def streams_ok_def eq intro: client_ok_Suc client_ok_slackless)
  ultimately show ?thesis using ok t [of near] by (simp add: world_ok_def gauge_ok_def eq)
qed

lemma loop_end_ok:
  assumes ok: "world_ok cfg n w" and pc: "h_pc w = HubLoop m {}"
  shows "world_ok cfg (Suc n) (w\<lparr>h_pc := HubIdle\<rparr>)"
proof -
  let ?w = "w\<lparr>h_pc := HubIdle\<rparr>"
  have t: "tally f ?w = tally f w" for f by (rule tally_cong) simp
  have "held ?w b = held w b" for b by (simp add: held_def t)
  then have "slots_ok (wc_limit cfg) ?w" using ok by (intro slots_frame [of "wc_limit cfg" w ?w]) (simp_all add: world_ok_def)
  moreover have "registry_ok ?w"
    using ok by (intro registry_frame [of w ?w]) (auto simp: world_ok_def member_ok_def registry_ok_def)
  moreover have "streams_ok (Suc n) ?w" using ok pc by (auto simp: world_ok_def streams_ok_def intro: client_ok_Suc)
  ultimately show ?thesis using ok t [of near] by (simp add: world_ok_def gauge_ok_def)
qed

lemma Run_ok:
  assumes ok: "world_ok cfg n w" and n: "Suc n < 2 ^ 64" and r: "Run k w = Some w'"
  shows "world_ok cfg (Suc n) w'"
  using r
proof (cases rule: Run_cases)
  case 1
  then show ?thesis using ok by (auto intro: world_ok_quiet)
next
  case (3 i)
  let ?w = "set_client i ((w_clients w ! i)\<lparr>c_reading := ReadDone\<rparr>) w"
  have "world_ok cfg (Suc n) ?w"
    using ok 3 by (intro world_ok_client [OF ok _ refl]) (auto intro: client_ok_same)
  from remove_ok [OF this] 3 show ?thesis by simp
qed (use ok n in \<open>simp_all add: hub_register_ok take_broadcast_ok shutdown_ok Visit_ok loop_end_ok near_full_ok queue_full_ok notice_step_ok\<close>)

lemma client_ok_ended: "client_ok n k (c\<lparr>c_connClosed := x, c_writing := y\<rparr>) = client_ok n k c"
  by (rule client_ok_cong) simp_all

lemma writePump_ok:
  assumes ok: "world_ok cfg n w" and r: "writePump i k w = Some w'"
  shows "world_ok cfg (Suc n) w'"
proof -
  let ?c = "w_clients w ! i"
  obtain stop c where i: "i < length (w_clients w)" and t: "write_turn (w_now w) (h_done w) k ?c = Some (stop, c)"
    and w': "w' = (if stop then releaseReservation i (set_client i (c\<lparr>c_connClosed := True, c_writing := False\<rparr>) w) else set_client i c w)"
    using r by (auto simp: writePump_def split: if_splits option.splits)
  note f = write_turn_fields [OF t]
  have "world_ok cfg (Suc n) (set_client i (c\<lparr>c_connClosed := True, c_writing := False\<rparr>) w)"
    using f write_turn_ok [OF _ t] by (intro world_ok_client [OF ok i refl]) (auto simp: client_ok_ended)
  from releaseReservation_ok [OF this, of i] i
  have "world_ok cfg (Suc n) (releaseReservation i (set_client i (c\<lparr>c_connClosed := True, c_writing := False\<rparr>) w))" by simp
  moreover have "world_ok cfg (Suc n) (set_client i c w)"
    using f write_turn_ok [OF _ t] by (intro world_ok_client [OF ok i refl]) auto
  ultimately show ?thesis by (simp add: w')
qed

lemma readPump_ok:
  assumes ok: "world_ok cfg n w" and r: "readPump i k w = Some w'"
  shows "world_ok cfg (Suc n) w'"
proof -
  let ?c = "w_clients w ! i"
  have i: "i < length (w_clients w)" using r by (simp add: readPump_def split: if_splits)
  have one: "world_ok cfg (Suc n) (set_client i c w)"
    if "c_send c = c_send ?c" "c_out c = c_out ?c" "c_dropped c = c_dropped ?c" "c_nextSeq c = c_nextSeq ?c" "c_session c = c_session ?c"
      "c_sendClosed c = c_sendClosed ?c" "c_addr c = c_addr ?c" "c_released c = c_released ?c"
      "c_warnedNearFull c = c_warnedNearFull ?c" "c_phase c = c_phase ?c" for c
    using that by (intro world_ok_client [OF ok i refl]) (auto intro: client_ok_same)
  have fin: "world_ok cfg (Suc n) (releaseReservation i (set_client i (?c\<lparr>c_connClosed := True\<rparr>) w))"
    using i by (intro releaseReservation_ok one) simp_all
  show ?thesis
    using r i fin by (cases k) (auto simp: readPump_def Let_def split: if_splits intro!: one)
qed

lemma exec_ok:
  assumes ok: "world_ok cfg n w" and n: "Suc n < 2 ^ 64" and e: "exec cfg e w = Some w'"
  shows "world_ok cfg (Suc n) w'"
proof (cases e)
  case (Elapse d)
  with e show ?thesis by (intro world_ok_quiet [OF ok]) (auto simp: exec_def)
next
  case (Admit r)
  with e show ?thesis by (auto simp: exec_def split: sum.splits intro: admit_ok [OF ok])
next
  case (LookupFailed hs)
  with e show ?thesis by (auto simp: exec_def split: if_splits intro: lookup_failed_ok [OF ok])
next
  case (Accept hs sn)
  with e show ?thesis by (auto simp: exec_def split: if_splits intro: accept_ok [OF ok])
next
  case (RefuseStopped i)
  let ?c = "(writeClose CloseGoingAway ''server shutting down'' (w_clients w ! i))\<lparr>c_connClosed := True, c_phase := Refused\<rparr>"
  from e RefuseStopped have i: "i < length (w_clients w)" "c_phase (w_clients w ! i) = Registering" "w' = set_client i ?c w"
    by (auto simp: exec_def split: if_splits)
  show ?thesis
    by (rule world_ok_client [OF ok i(1,3)]) (use i(2) in \<open>auto intro: client_ok_same\<close>)
next
  case (HubEvent k)
  with e show ?thesis by (intro Run_ok [OF ok n]) (auto simp: exec_def)
next
  case (PublishCheck m)
  with e show ?thesis by (intro world_ok_quiet [OF ok]) (auto simp: exec_def publish_check_def split: if_splits)
next
  case (PublishSend m)
  with e show ?thesis
    by (intro world_ok_quiet [OF ok]) (auto simp: exec_def publish_send_def Let_def split: if_splits)
next
  case (WriteEvent i k)
  with e show ?thesis by (intro writePump_ok [OF ok]) (auto simp: exec_def)
next
  case (ReadEvent i k)
  with e show ?thesis by (intro readPump_ok [OF ok]) (auto simp: exec_def)
qed

lemma runs_ok: "runs cfg w0 n w \<Longrightarrow> world_ok cfg 0 w0 \<Longrightarrow> n < 2 ^ 64 \<Longrightarrow> world_ok cfg n w"
  by (induction rule: runs.induct) (auto intro: exec_ok)

section \<open>Sockets and registrations\<close>

text \<open>
  The reservation against the socket: a started connection has given its slot back exactly when
  its socket is closed; one that waits for the hub is open and holds its slot; one that a stopped
  hub refused is closed and still holds it.
\<close>

definition sock_ok :: "'d Client \<Rightarrow> bool" where
  "sock_ok c \<longleftrightarrow> (case c_phase c of
       Registering \<Rightarrow> \<not> c_connClosed c \<and> \<not> c_released c
     | Refused \<Rightarrow> c_connClosed c \<and> \<not> c_released c
     | Started \<Rightarrow> c_released c = c_connClosed c)"

text \<open>While the hub runs, a started connection whose queue is open is registered.\<close>

definition live :: "'d World \<Rightarrow> nat \<Rightarrow> bool" where
  "live w i \<longleftrightarrow> i < length (w_clients w) \<and> c_phase (w_clients w ! i) = Started \<and> \<not> c_sendClosed (w_clients w ! i)"

definition core_ok :: "'d World \<Rightarrow> bool" where
  "core_ok w \<longleftrightarrow> (\<forall>c \<in> set (w_clients w). sock_ok c) \<and> (h_done w \<or> (\<forall>i. live w i \<longrightarrow> i \<in> registered w))"

definition same_core :: "'d Client \<Rightarrow> 'd Client \<Rightarrow> bool" where
  "same_core c c' \<longleftrightarrow> c_phase c' = c_phase c \<and> c_sendClosed c' = c_sendClosed c
     \<and> c_connClosed c' = c_connClosed c \<and> c_released c' = c_released c"

lemma core_ok_start: "core_ok (NewWorld now t)"
  by (simp add: core_ok_def live_def NewWorld_def)

lemma registered_cong: "h_sessions w' = h_sessions w \<Longrightarrow> registered w' = registered w"
  by (simp add: registered_def)

lemma core_quiet:
  "core_ok w \<Longrightarrow> w_clients w' = w_clients w \<Longrightarrow> h_sessions w' = h_sessions w \<Longrightarrow> h_done w' = h_done w \<Longrightarrow> core_ok w'"
  by (simp add: core_ok_def live_def registered_cong [of w' w])

lemma core_update:
  assumes ok: "core_ok w" and w': "w_clients w' = (w_clients w)[i := c]" "h_sessions w' = h_sessions w" "h_done w' = h_done w"
    and c: "i < length (w_clients w) \<Longrightarrow> sock_ok (w_clients w ! i) \<Longrightarrow> sock_ok c"
      "i < length (w_clients w) \<Longrightarrow> h_done w \<or> (c_phase c = Started \<and> \<not> c_sendClosed c \<longrightarrow> live w i)"
  shows "core_ok w'"
proof (cases "i < length (w_clients w)")
  case True
  have "\<forall>d \<in> set (w_clients w'). sock_ok d"
    using ok c(1) True unfolding w'(1) by (intro ball_update) (auto simp: core_ok_def)
  moreover have "live w j" if "live w' j" "\<not> h_done w" for j
    using that c(2) True by (cases "j = i") (auto simp: live_def w'(1))
  ultimately show ?thesis using ok by (auto simp: core_ok_def registered_cong [OF w'(2)] w'(3))
qed (intro core_quiet [OF ok], simp_all add: w' list_update_beyond)

lemma same_core_sock: "same_core c c' \<Longrightarrow> sock_ok c' = sock_ok c"
  by (cases "c_phase c") (auto simp: same_core_def sock_ok_def)

lemma core_same:
  assumes "core_ok w" "w_clients w' = (w_clients w)[i := c]" "h_sessions w' = h_sessions w" "h_done w' = h_done w"
    "same_core (w_clients w ! i) c"
  shows "core_ok w'"
  using assms same_core_sock [OF assms(5)] by (intro core_update [of w w' i c]) (auto simp: same_core_def live_def)

text \<open>What the hub does inside its loop, and the turns of the pumps.\<close>

lemma chan_send_core: "chan_send m c = Some (ok, c') \<Longrightarrow> same_core c c'"
  by (auto simp: chan_send_def same_core_def split: if_splits)

lemma enqueue_try_core: "enqueue_try now m c = Some (r, m', c') \<Longrightarrow> same_core c c'"
  by (auto simp: enqueue_try_def Let_def same_core_def split: if_splits option.splits dest!: chan_send_core)

lemma enqueue_full_core: "enqueue_full now m c = (c', nt) \<Longrightarrow> same_core c c'"
  by (auto simp: enqueue_full_def closeForBackpressure_def noteDrop_def Let_def same_core_def split: if_splits)

lemma checkNearFull_core: "checkNearFull c = (c', d) \<Longrightarrow> same_core c c'"
  by (auto simp: checkNearFull_def Let_def same_core_def split: if_splits)

lemma write_turn_core: "write_turn now done k c = Some (b, c') \<Longrightarrow> same_core c c'"
  by (cases k) (auto simp: same_core_def Let_def put_frame_def writeClose_def
      split: list.splits WriteOutcome.splits if_splits)

lemma same_core_refl [simp]: "same_core c c"
  by (simp add: same_core_def)

lemmas core_steps = enqueue_try_core enqueue_full_core checkNearFull_core chan_send_core

lemma hub_visit_core:
  assumes "core_ok w"
  shows "core_ok (hub_enqueue m i todo w)" "core_ok (hub_near_full m i todo w)"
    "core_ok (hub_queue_full m m' i todo w)" "core_ok (hub_notice m notice i todo w)"
  using assms
  by (auto simp: hub_enqueue_def hub_near_full_def hub_queue_full_def hub_notice_def
      split: option.splits prod.splits Enqueued.splits intro: core_quiet core_same dest: core_steps)

lemma hub_visit_sessions [simp]:
  "h_sessions (hub_enqueue m i todo w) = h_sessions w" "h_sessions (hub_near_full m i todo w) = h_sessions w"
  "h_sessions (hub_queue_full m m' i todo w) = h_sessions w" "h_sessions (hub_notice m notice i todo w) = h_sessions w"
  by (auto simp: hub_enqueue_def hub_near_full_def hub_queue_full_def hub_notice_def
      split: option.splits prod.splits Enqueued.splits)

text \<open>The registry's own updates: only \<open>remove\<close> takes a connection out, and only that one.\<close>

lemma hub_register_members: "registered (hub_register i w) = insert i (registered w)"
  using members_split [of "h_sessions w" "c_session (w_clients w ! i)"]
  by (simp add: registered_def hub_register_def Let_def members_upd)

lemma remove_members: "registered w - {i} \<subseteq> registered (remove i w)"
proof
  fix j assume j: "j \<in> registered w - {i}"
  then obtain s ids where s: "h_sessions w s = Some ids" "j \<in> ids" by (auto simp: registered_def members_def)
  have "\<exists>ids. h_sessions (remove i w) s = Some ids \<and> j \<in> ids"
    using s j by (auto simp: remove_def Let_def split: option.splits)
  then show "j \<in> registered (remove i w)" by (auto simp: registered_def members_def)
qed

lemma hub_register_core:
  assumes ok: "core_ok w" and i: "i < length (w_clients w)" "c_phase (w_clients w ! i) = Registering"
  shows "core_ok (hub_register i w)"
proof -
  let ?d = "start_pumps (w_now w) (h_timeouts w) (w_clients w ! i)"
  have wc: "w_clients (hub_register i w) = (w_clients w)[i := ?d]" "h_done (hub_register i w) = h_done w"
    by (simp_all add: hub_register_def Let_def)
  have "sock_ok (w_clients w ! i)" using ok i(1) by (simp add: core_ok_def)
  then have "sock_ok ?d" using i(2) by (simp add: sock_ok_def start_pumps_def)
  with ok have "\<forall>d \<in> set (w_clients (hub_register i w)). sock_ok d"
    unfolding wc(1) by (intro ball_update) (simp_all add: core_ok_def)
  moreover have "live w j" if "live (hub_register i w) j" "j \<noteq> i" for j
    using that by (simp add: live_def wc(1))
  ultimately show ?thesis using ok by (auto simp: core_ok_def hub_register_members wc(2))
qed

lemma remove_cases:
  "(w_clients (remove i w) = w_clients w \<and> h_sessions (remove i w) = h_sessions w \<and> h_done (remove i w) = h_done w)
   \<or> (w_clients (remove i w) = (w_clients w)[i := (w_clients w ! i)\<lparr>c_sendClosed := True\<rparr>] \<and> h_done (remove i w) = h_done w)"
  by (auto simp: remove_def Let_def split: option.splits)

lemma remove_core:
  assumes ok: "core_ok w"
  shows "core_ok (remove i w)"
  using remove_cases [of i w]
proof
  assume "w_clients (remove i w) = w_clients w \<and> h_sessions (remove i w) = h_sessions w \<and> h_done (remove i w) = h_done w"
  with ok show ?thesis by (auto intro: core_quiet)
next
  let ?d = "(w_clients w ! i)\<lparr>c_sendClosed := True\<rparr>"
  assume "w_clients (remove i w) = (w_clients w)[i := ?d] \<and> h_done (remove i w) = h_done w"
  then have wc: "w_clients (remove i w) = (w_clients w)[i := ?d]" "h_done (remove i w) = h_done w" by auto
  have "\<forall>d \<in> set (w_clients (remove i w)). sock_ok d"
  proof (cases "i < length (w_clients w)")
    case True
    then have "sock_ok (w_clients w ! i)" using ok by (simp add: core_ok_def)
    then have "sock_ok ?d" by (simp add: sock_ok_def split: Phase.splits)
    with ok show ?thesis unfolding wc(1) by (intro ball_update) (simp_all add: core_ok_def)
  qed (use ok in \<open>simp add: wc(1) core_ok_def list_update_beyond\<close>)
  moreover have "live w j \<and> j \<noteq> i" if "live (remove i w) j" for j
    using that by (cases "j = i") (auto simp: live_def wc(1))
  moreover have "registered w - {i} \<subseteq> registered (remove i w)" by (rule remove_members)
  ultimately show ?thesis using ok unfolding core_ok_def wc(2) by blast
qed

text \<open>Closing the socket of a started connection and giving its slot back go together.\<close>

lemma release_core:
  assumes ok: "core_ok w" and c: "c_phase c = Started" "c_connClosed c" "c_sendClosed c = c_sendClosed (w_clients w ! i)"
    "c_phase (w_clients w ! i) = Started" and i: "i < length (w_clients w)"
  shows "core_ok (releaseReservation i (set_client i c w))"
proof (rule core_update [OF ok])
  show "w_clients (releaseReservation i (set_client i c w)) = (w_clients w)[i := c\<lparr>c_released := True\<rparr>]"
    using i by (cases c) (simp add: releaseReservation_def Let_def)
qed (use c in \<open>auto simp: releaseReservation_def Let_def sock_ok_def live_def\<close>)

lemma exec_core:
  assumes ok: "core_ok w" and e: "exec cfg e w = Some w'"
  shows "core_ok w'"
proof (cases e)
  case (Accept hs sn)
  let ?w = "accept hs sn w"
  obtain c where wc: "w_clients ?w = w_clients w @ [c]" and c: "sock_ok c" "c_phase c = Started \<longrightarrow> c_sendClosed c"
    by (auto simp: accept_def Let_def sock_ok_def serveClosed_def start_pumps_def sendSnapshot_def newClient_def)
  have same: "h_sessions ?w = h_sessions w" "h_done ?w = h_done w" by (simp_all add: accept_def Let_def)
  have "live w i" if "live ?w i" for i
    using that c(2) by (auto simp: live_def wc nth_append split: if_splits)
  with ok c(1) have "core_ok ?w" by (auto simp: core_ok_def wc same registered_cong [OF same(1)])
  with e Accept show ?thesis by (auto simp: exec_def split: if_splits)
next
  case (RefuseStopped i)
  let ?c = "(writeClose CloseGoingAway ''server shutting down'' (w_clients w ! i))\<lparr>c_connClosed := True, c_phase := Refused\<rparr>"
  from e RefuseStopped have i: "i < length (w_clients w)" "c_phase (w_clients w ! i) = Registering" "h_done w" "w' = set_client i ?c w"
    by (auto simp: exec_def split: if_splits)
  have "sock_ok (w_clients w ! i) \<Longrightarrow> sock_ok ?c" using i(2) by (simp add: sock_ok_def)
  with ok i show ?thesis by (intro core_update [of w w' i ?c]) simp_all
next
  case (HubEvent k)
  with e have "Run k w = Some w'" by (simp add: exec_def)
  then show ?thesis
  proof (cases rule: Run_cases)
    case (2 i)
    with ok show ?thesis by (simp add: hub_register_core)
  next
    case (3 i)
    have "core_ok (set_client i ((w_clients w ! i)\<lparr>c_reading := ReadDone\<rparr>) w)"
      by (rule core_same [OF ok, where i = i and c = "(w_clients w ! i)\<lparr>c_reading := ReadDone\<rparr>"])
        (simp_all add: same_core_def)
    with 3 show ?thesis by (simp add: remove_core)
  next
    case 5
    with ok show ?thesis by (simp add: core_ok_def shutdown_def)
  qed (use ok in \<open>simp_all add: hub_visit_core core_quiet [of w]\<close>)
next
  case (WriteEvent i k)
  let ?c = "w_clients w ! i"
  from e WriteEvent obtain stop c where i: "i < length (w_clients w)" "c_phase ?c = Started"
    and t: "write_turn (w_now w) (h_done w) k ?c = Some (stop, c)"
    and w': "w' = (if stop then releaseReservation i (set_client i (c\<lparr>c_connClosed := True, c_writing := False\<rparr>) w) else set_client i c w)"
    by (auto simp: exec_def writePump_def split: if_splits option.splits)
  note f = write_turn_core [OF t]
  have "core_ok (set_client i c w)" by (rule core_same [OF ok _ _ _ f]) simp_all
  moreover have "core_ok (releaseReservation i (set_client i (c\<lparr>c_connClosed := True, c_writing := False\<rparr>) w))"
    using f i by (intro release_core [OF ok]) (simp_all add: same_core_def)
  ultimately show ?thesis by (simp add: w')
next
  case (ReadEvent i k)
  let ?c = "w_clients w ! i"
  from e ReadEvent have r: "readPump i k w = Some w'" by (simp add: exec_def)
  then have i: "i < length (w_clients w)" "c_phase ?c = Started" by (auto simp: readPump_def split: if_splits)
  have one: "core_ok (set_client i c w)" if "same_core ?c c" for c
    by (rule core_same [OF ok _ _ _ that]) simp_all
  have hc: "same_core ?c (handleCommand (w_now w) (h_timeouts w) raw ?c)" for raw
    by (auto simp: same_core_def handleCommand_def split: option.splits)
  have "core_ok (releaseReservation i (set_client i (?c\<lparr>c_connClosed := True\<rparr>) w))"
    using i by (intro release_core [OF ok]) simp_all
  then show ?thesis
    using r i hc by (cases k) (auto simp: readPump_def Let_def same_core_def split: if_splits intro!: one)
qed (use ok e in \<open>auto simp: exec_def admit_def publish_check_def publish_send_def Let_def
    split: sum.splits option.splits if_splits intro: core_quiet\<close>)

lemma runs_core: "runs cfg (NewWorld now t) n w \<Longrightarrow> core_ok w"
  by (induction rule: runs.induct) (auto intro: exec_core core_ok_start)

text \<open>The registry loses a connection only to its own unregistration or to the stop of the hub.\<close>

lemma releaseReservation_sessions [simp]: "h_sessions (releaseReservation i w) = h_sessions w"
  by (simp add: releaseReservation_def Let_def)

lemma Run_unregister:
  assumes "Run (TakeUnregister j) w = Some w'" "i \<in> registered w - registered w'"
  shows "i = j"
proof -
  let ?v = "set_client j ((w_clients w ! j)\<lparr>c_reading := ReadDone\<rparr>) w"
  have "w' = remove j ?v"
    using assms(1) by (auto simp: Run_def split: HubPc.splits if_splits)
  with assms(2) remove_members [of ?v j] show ?thesis by (auto simp: registered_cong [of ?v w])
qed

lemma Run_keeps:
  assumes "Run k w = Some w'" "k \<noteq> Stop" "\<forall>j. k \<noteq> TakeUnregister j"
  shows "registered w \<subseteq> registered w'"
proof -
  have "h_sessions w' = h_sessions w \<or> (\<exists>j. w' = hub_register j w)"
    using assms by (cases k) (auto simp: Run_def split: HubPc.splits if_splits list.splits)
  then show ?thesis by (auto simp: hub_register_members registered_cong [of w' w])
qed

lemma exec_drops:
  assumes "exec cfg e w = Some w'" "i \<in> registered w - registered w'"
  shows "e = HubEvent (TakeUnregister i) \<or> e = HubEvent Stop"
proof (cases "\<exists>k. e = HubEvent k")
  case True
  then obtain k where k: "e = HubEvent k" ..
  with assms(1) have run: "Run k w = Some w'" by (simp add: exec_def)
  with assms(2) Run_keeps [OF run] Run_unregister [of _ w w' i] k show ?thesis by auto
next
  case False
  then have "h_sessions w' = h_sessions w"
    using assms(1)
    by (cases e) (auto simp: exec_def admit_def accept_def publish_check_def publish_send_def writePump_def readPump_def Let_def
        split: sum.splits option.splits if_splits ReadCase.splits)
  with assms(2) show ?thesis by (simp add: registered_cong [of w' w])
qed

section \<open>The hub's loop\<close>

text \<open>What is left of a broadcast: every step of the loop decreases it.\<close>

fun loop_measure :: "'d HubPc \<Rightarrow> nat" where
  "loop_measure HubIdle = 0"
| "loop_measure (HubLoop m todo) = 4 * card todo + 1"
| "loop_measure (HubSent m i todo) = 4 * card todo + 2"
| "loop_measure (HubFull m m' i todo) = 4 * card todo + 3"
| "loop_measure (HubNotice m notice i todo) = 4 * card todo + 2"

lemma hub_enqueue_measure:
  assumes "i \<in> todo" "finite todo" "\<not> c_sendClosed (w_clients w ! i)"
  shows "loop_measure (h_pc (hub_enqueue m i (todo - {i}) w)) < loop_measure (HubLoop m todo)"
proof -
  have "card (todo - {i}) + 1 = card todo" using assms card_gt_0_iff [of todo] by (auto simp: card_Diff_singleton)
  moreover obtain r m' c where "enqueue_try (w_now w) m (w_clients w ! i) = Some (r, m', c)"
    using assms(3) by (cases "enqueue_try (w_now w) m (w_clients w ! i)") (auto simp: enqueue_try_def chan_send_def Let_def split: if_splits)
  ultimately show ?thesis by (cases r) (simp_all add: hub_enqueue_def)
qed

lemma hub_step_exists:
  assumes ok: "world_ok cfg n w" and st: "h_started w" "\<not> h_done w" and busy: "h_pc w \<noteq> HubIdle"
  shows "\<exists>k w'. Run k w = Some w' \<and> loop_measure (h_pc w') < loop_measure (h_pc w)"
proof (cases "h_pc w")
  case (HubLoop m todo)
  have reg: "registry_ok w" using ok by (simp add: world_ok_def)
  with HubLoop have sub: "todo \<subseteq> registered w" by (simp add: registry_ok_def)
  then have fin: "finite todo" using registered_finite [OF reg] finite_subset by blast
  show ?thesis
  proof (cases "todo = {}")
    case True
    with HubLoop st have "Run Continue w = Some (w\<lparr>h_pc := HubIdle\<rparr>)" by (simp add: Run_def)
    with HubLoop show ?thesis by (intro exI [of _ Continue]) auto
  next
    case False
    then obtain i where i: "i \<in> todo" by blast
    with sub registered_ok [OF reg, of i] have "\<not> c_sendClosed (w_clients w ! i)" by (auto simp: member_ok_def)
    from hub_enqueue_measure [OF i fin this, of m] HubLoop st i show ?thesis
      by (intro exI [of _ "Visit i"]) (auto simp: Run_def)
  qed
next
  case (HubNotice m notice i todo)
  have reg: "registry_ok w" using ok by (simp add: world_ok_def)
  with HubNotice registered_ok [OF reg, of i] have "\<not> c_sendClosed (w_clients w ! i)" by (auto simp: member_ok_def registry_ok_def)
  with HubNotice st show ?thesis
    by (intro exI [of _ Continue]) (auto simp: Run_def hub_notice_def chan_send_def)
qed (use st busy in \<open>auto intro!: exI [of _ Continue] simp: Run_def hub_near_full_def hub_queue_full_def split: prod.splits option.splits\<close>)

section \<open>A run\<close>

fun exec_all :: "WsConfig \<Rightarrow> 'd Event list \<Rightarrow> 'd World \<Rightarrow> 'd World option" where
  "exec_all cfg [] w = Some w"
| "exec_all cfg (e # es) w =
     (if w_panicked w then None else (case exec cfg e w of None \<Rightarrow> None | Some w' \<Rightarrow> exec_all cfg es w'))"

lemma exec_all_runs: "runs cfg w0 n w \<Longrightarrow> exec_all cfg es w = Some w' \<Longrightarrow> runs cfg w0 (n + length es) w'"
proof (induction es arbitrary: n w)
  case (Cons e es)
  from Cons.prems(2) obtain v where v: "\<not> w_panicked w" "exec cfg e w = Some v" "exec_all cfg es v = Some w'"
    by (auto split: if_splits option.splits)
  from Cons.IH [OF runs_step [OF Cons.prems(1) v(1,2)] v(3)] show ?case by simp
qed simp

definition demo_cfg :: WsConfig where "demo_cfg = \<lparr>wc_limit = MaxConnectionsPerAddress, wc_auth = False\<rparr>"

definition demo_request :: Request where
  "demo_request = \<lparr>rq_session = Some 7, rq_origin_ok = True, rq_identity = None, rq_addr = ''10.0.0.1''\<rparr>"

definition demo_handshake :: Handshake where
  "demo_handshake = \<lparr>hs_addr = ''10.0.0.1'', hs_session = 7, hs_identity = no_identity\<rparr>"

definition demo_snapshot :: "int Snapshot" where
  "demo_snapshot = \<lparr>sn_Data = \<lparr>sd_Session = 0, sd_Metrics = 0, sd_LastPitchIndex = 0, sd_RecentPitches = 0\<rparr>, sn_Closed = False, sn_Reason = ''ACTIVE''\<rparr>"

definition demo_broadcast :: "int Message" where
  "demo_broadcast = broadcast_message 5 7 TypePitchAnalyzed ''c'' (DataAny 1)"

definition demo_events :: "int Event list" where
  "demo_events = [HubEvent HubStart, Admit demo_request, Accept demo_handshake demo_snapshot, HubEvent (TakeRegister 0),
     PublishCheck demo_broadcast, PublishSend demo_broadcast, HubEvent TakeBroadcast, HubEvent (Visit 0), HubEvent Continue,
     WriteEvent 0 (TakeMessage Written)]"

lemmas ws_run_defs = exec_def Run_def admit_def reserve_def per_address_def accept_def hub_register_def publish_check_def publish_send_def
  hub_enqueue_def hub_near_full_def enqueue_try_def chan_send_def checkNearFull_def writePump_def set_client_def start_pumps_def
  sendSnapshot_def newClient_def put_frame_def snapshot_message_def broadcast_message_def SendBuffer_def BroadcastBuffer_def
  ws_type_defs Let_def

lemma demo_run:
  obtains w c where "runs demo_cfg (NewWorld 0 DefaultTimeouts) 10 w" "w_clients w = [c]" "h_started w" "\<not> h_done w"
    "h_pc w = HubLoop (demo_broadcast) {}" "length (c_out c) = 1" "length (c_send c) = 1" "c_addr c = ''10.0.0.1''" "w_perAddress w ''10.0.0.1'' = Some 1"
proof -
  have "\<exists>w c. exec_all demo_cfg demo_events (NewWorld 0 DefaultTimeouts) = Some w \<and> w_clients w = [c] \<and> h_started w \<and> \<not> h_done w
     \<and> h_pc w = HubLoop (demo_broadcast) {} \<and> length (c_out c) = 1 \<and> length (c_send c) = 1 \<and> c_addr c = ''10.0.0.1'' \<and> w_perAddress w ''10.0.0.1'' = Some 1"
    by (simp add: demo_events_def NewWorld_def demo_cfg_def demo_request_def demo_handshake_def demo_snapshot_def demo_broadcast_def
        MaxConnectionsPerAddress_def no_identity_def ws_run_defs)
  then obtain w c where w: "exec_all demo_cfg demo_events (NewWorld 0 DefaultTimeouts) = Some w" and rest: "w_clients w = [c]" "h_started w"
     "\<not> h_done w" "h_pc w = HubLoop (demo_broadcast) {}" "length (c_out c) = 1" "length (c_send c) = 1" "c_addr c = ''10.0.0.1''" "w_perAddress w ''10.0.0.1'' = Some 1"
    by blast
  from exec_all_runs [OF runs_start w] have "runs demo_cfg (NewWorld 0 DefaultTimeouts) 10 w" by (simp add: demo_events_def eval_nat_numeral)
  with rest that show ?thesis by blast
qed

section \<open>Properties\<close>

text \<open>
  C4: a slow client can tell what it missed.  After any interleaving of fewer than \<open>2 ^ 64\<close>
  events, what was written to a connection followed by what is queued for it carries strictly
  ascending numbers, the queue is within its bound, and the numbers missing below the counter are
  at least as many as the dropped messages.
\<close>

theorem drops_leave_gaps:
  assumes "runs cfg (NewWorld now t) n w" "n < 2 ^ 64" "c \<in> set (w_clients w)"
  shows "length (c_send c) \<le> SendBuffer
     \<and> sorted_wrt (<) (map (unat \<circ> m_Seq) (texts (c_out c) @ c_send c))
     \<and> (\<forall>m \<in> set (texts (c_out c) @ c_send c). m_Seq m \<le> c_nextSeq c)
     \<and> length (filter (\<lambda>m. m_Seq m \<noteq> 0) (texts (c_out c) @ c_send c)) + unat (c_dropped c) \<le> unat (c_nextSeq c)"
proof -
  from runs_ok [OF assms(1) world_ok_start assms(2)] assms(3) obtain k where c: "client_ok n k c"
    by (auto simp: world_ok_def streams_ok_def in_set_conv_nth)
  have "filter (\<lambda>s. 0 < s) (seqs c) = map (unat \<circ> m_Seq) (filter (\<lambda>m. m_Seq m \<noteq> 0) (texts (c_out c) @ c_send c))"
    by (simp add: seqs_def filter_map comp_def unat_gt_0)
  then have "length (filter (\<lambda>m. m_Seq m \<noteq> 0) (texts (c_out c) @ c_send c)) = length (filter (\<lambda>s. 0 < s) (seqs c))" by simp
  moreover have "\<forall>m \<in> set (texts (c_out c) @ c_send c). m_Seq m \<le> c_nextSeq c"
  proof
    fix m assume "m \<in> set (texts (c_out c) @ c_send c)"
    then have "unat (m_Seq m) \<in> set (seqs c)" by (force simp: seqs_def)
    with c show "m_Seq m \<le> c_nextSeq c" by (fastforce simp: client_ok_def word_le_nat_alt)
  qed
  ultimately show ?thesis using c by (simp add: client_ok_def seqs_def)
qed

theorem drops_leave_gaps_witness:
  "\<exists>w c. runs demo_cfg (NewWorld 0 DefaultTimeouts) 10 (w :: int World) \<and> w_clients w = [c]
     \<and> length (c_send c) \<le> SendBuffer \<and> sorted_wrt (<) (map (unat \<circ> m_Seq) (texts (c_out c) @ c_send c))"
proof -
  obtain w :: "int World" and c where w: "runs demo_cfg (NewWorld 0 DefaultTimeouts) 10 w" "w_clients w = [c]" by (rule demo_run)
  from drops_leave_gaps [OF w(1), of c] w show ?thesis by auto
qed

text \<open>
  C16: no interleaving sends on or closes a closed queue.  While the hub runs, a connection is in
  the registry, under its own session, if and only if it was started and its queue is open; a
  stopped hub's registry is empty.  No session has an empty entry and the client count is the
  number of connections registered.  Whatever happens next, only a connection's own
  unregistration, or the stop of the hub, takes it out.
\<close>

theorem registry_sound:
  assumes "runs cfg (NewWorld now t) n w" "n < 2 ^ 64"
  shows "\<not> w_panicked w \<and> h_clients w = int (card (registered w)) \<and> (\<forall>s. h_sessions w s \<noteq> Some {})
     \<and> (if h_done w then h_sessions w = Map.empty
        else (\<forall>s i. (\<exists>ids. h_sessions w s = Some ids \<and> i \<in> ids) = (i < length (w_clients w)
          \<and> c_session (w_clients w ! i) = s \<and> c_phase (w_clients w ! i) = Started \<and> \<not> c_sendClosed (w_clients w ! i))))
     \<and> (\<forall>e w' i. exec cfg e w = Some w' \<and> i \<in> registered w \<and> i \<notin> registered w'
          \<longrightarrow> e = HubEvent (TakeUnregister i) \<or> e = HubEvent Stop)"
proof -
  from runs_ok [OF assms(1) world_ok_start assms(2)] have reg: "registry_ok w" by (simp add: world_ok_def)
  have "(\<exists>ids. h_sessions w s = Some ids \<and> i \<in> ids) = (member_ok w s i)" if "\<not> h_done w" for s i
  proof
    assume "member_ok w s i"
    with runs_core [OF assms(1)] that have "i \<in> registered w" "c_session (w_clients w ! i) = s"
      by (auto simp: core_ok_def live_def member_ok_def)
    with registered_ok [OF reg, of i] show "\<exists>ids. h_sessions w s = Some ids \<and> i \<in> ids" by auto
  qed (use reg in \<open>auto simp: registry_ok_def\<close>)
  with reg exec_drops [of cfg _ w] show ?thesis by (auto simp: registry_ok_def member_ok_def)
qed

theorem registry_sound_witness:
  "\<exists>w. runs demo_cfg (NewWorld 0 DefaultTimeouts) 10 (w :: int World) \<and> \<not> w_panicked w \<and> h_clients w = int (card (registered w))"
proof -
  obtain w :: "int World" and c where w: "runs demo_cfg (NewWorld 0 DefaultTimeouts) 10 w" "w_clients w = [c]" by (rule demo_run)
  from registry_sound [OF w(1)] w show ?thesis by auto
qed

text \<open>
  C5: the connection limit holds over every interleaving: the count of an address is the number
  of its handshakes in flight, plus its accepted connections whose socket is still open, plus
  those that a stopped hub refused, whose slots are never given back; it never passes the limit,
  and an address that counts nothing has no entry.
\<close>

theorem slots_bounded:
  assumes "runs cfg (NewWorld now t) n w" "n < 2 ^ 64"
  shows "per_address (w_perAddress w) a = int (length (filter (\<lambda>h. hs_addr h = a) (w_handshakes w)))
            + int (length (filter (\<lambda>c. c_addr c = a \<and> \<not> c_connClosed c) (w_clients w)))
            + int (length (filter (\<lambda>c. c_addr c = a \<and> c_phase c = Refused) (w_clients w)))
     \<and> per_address (w_perAddress w) a \<le> max 0 (wc_limit cfg)
     \<and> (per_address (w_perAddress w) a = 0 \<longleftrightarrow> w_perAddress w a = None)"
proof -
  from runs_ok [OF assms(1) world_ok_start assms(2)] have ok: "slots_ok (wc_limit cfg) w" by (simp add: world_ok_def)
  have "\<forall>c \<in> set cs. sock_ok c \<Longrightarrow> sum_list (map (holds a) cs) = int (length (filter (\<lambda>c. c_addr c = a \<and> \<not> c_connClosed c) cs))
      + int (length (filter (\<lambda>c. c_addr c = a \<and> c_phase c = Refused) cs))" for cs :: "'a Client list"
    by (induction cs) (auto simp: holds_def sock_ok_def split: Phase.splits)
  then have h: "held w a = int (length (filter (\<lambda>h. hs_addr h = a) (w_handshakes w)))
            + int (length (filter (\<lambda>c. c_addr c = a \<and> \<not> c_connClosed c) (w_clients w)))
            + int (length (filter (\<lambda>c. c_addr c = a \<and> c_phase c = Refused) (w_clients w)))"
    using runs_core [OF assms(1)] by (simp add: held_def tally_def core_ok_def)
  from ok have "w_perAddress w a = (if held w a = 0 then None else Some (held w a))" "held w a \<le> max 0 (wc_limit cfg)"
    by (auto simp: slots_ok_def)
  with per_address_held [OF ok, of a] show ?thesis unfolding h [symmetric] by auto
qed

theorem slots_bounded_witness:
  "\<exists>w. runs demo_cfg (NewWorld 0 DefaultTimeouts) 10 (w :: int World) \<and> per_address (w_perAddress w) ''10.0.0.1'' = 1
     \<and> per_address (w_perAddress w) ''10.0.0.1'' \<le> 20"
proof -
  obtain w :: "int World" and c where w: "runs demo_cfg (NewWorld 0 DefaultTimeouts) 10 w" "w_perAddress w ''10.0.0.1'' = Some 1"
    by (rule demo_run)
  from slots_bounded [OF w(1), of "''10.0.0.1''"] w(2) w(1) show ?thesis
    by (intro exI [of _ w]) (simp add: demo_cfg_def MaxConnectionsPerAddress_def per_address_def)
qed

text \<open>
  C22: the hub never blocks in a broadcast: whatever the connections do, while it is in its loop
  it has a step of its own, and that step brings the end of the loop nearer.
\<close>

theorem hub_never_blocks:
  assumes "runs cfg (NewWorld now t) n w" "n < 2 ^ 64" "h_started w" "\<not> h_done w" "h_pc w \<noteq> HubIdle"
  shows "\<exists>k w'. Run k w = Some w' \<and> loop_measure (h_pc w') < loop_measure (h_pc w)"
  using runs_ok [OF assms(1) world_ok_start assms(2)] assms(3-5) by (rule hub_step_exists)

theorem hub_never_blocks_witness:
  "\<exists>w k w'. runs demo_cfg (NewWorld 0 DefaultTimeouts) 10 (w :: int World) \<and> Run k w = Some w'
     \<and> loop_measure (h_pc w') < loop_measure (h_pc w)"
proof -
  obtain w :: "int World" and c where w: "runs demo_cfg (NewWorld 0 DefaultTimeouts) 10 w" "h_started w" "\<not> h_done w"
    "h_pc w = HubLoop (demo_broadcast) {}" by (rule demo_run)
  have "h_pc w \<noteq> HubIdle" using w(4) by simp
  from hub_never_blocks [OF w(1) _ w(2,3) this] obtain k w' where "Run k w = Some w'" "loop_measure (h_pc w') < loop_measure (h_pc w)"
    by auto
  with w(1) show ?thesis by blast
qed

text \<open>
  A message that must not be dropped is queued with its own number or ends the connection; it
  is never counted as dropped, and the close is then a case that the write pump can take, with the
  code that makes the client come back.
\<close>

theorem undroppable_ends_connection:
  assumes "undroppable (m_Type m)" "enqueue_try now m c = Some (r, m', c')"
  shows "m_Seq m' = c_nextSeq c + 1 \<and> c_dropped c' = c_dropped c
     \<and> (r = Queued \<and> c_send c' = c_send c @ [m']
       \<or> r = QueueFull \<and> enqueue_full now m' c' = (c'\<lparr>c_closeSlow := True\<rparr>, None)
         \<and> write_turn now done SlowClosed (c'\<lparr>c_closeSlow := True\<rparr>)
           = Some (True, writeClose CloseTryAgainLater ''client too slow'' (c'\<lparr>c_closeSlow := True\<rparr>)))"
  using assms
  by (auto simp: enqueue_try_def undroppable_def chan_send_def enqueue_full_def closeForBackpressure_def Let_def ws_type_defs
      split: if_splits)

theorem undroppable_ends_connection_witness:
  "\<exists>m' c'. enqueue_try 5 (broadcast_message 5 7 TypeAnomalyDetected [] (DataAny (1 :: int))) (newClient [] no_identity 7) = Some (Queued, m', c')
     \<and> m_Seq m' = 1 \<and> c_dropped c' = 0"
proof -
  let ?m = "broadcast_message 5 7 TypeAnomalyDetected [] (DataAny (1 :: int))" and ?c = "newClient [] no_identity 7"
  have u: "undroppable (m_Type ?m)" by (simp add: undroppable_def broadcast_message_def)
  obtain m' c' where e: "enqueue_try 5 ?m ?c = Some (Queued, m', c')"
    by (simp add: enqueue_try_def chan_send_def newClient_def broadcast_message_def Let_def SendBuffer_def ws_type_defs)
  from undroppable_ends_connection [OF u e] e show ?thesis by (simp add: newClient_def)
qed

end
