(* ===== verification/AnomalyEval.thy ===== *)
theory AnomalyEval
  imports Detector Store Cache Consumer
begin

text \<open>
  internal/processor/anomaly_consumer.go and the statements of internal/db/dbgen/anomalies.sql.go
  it uses: which sessions have gone quiet, their medians against the pitcher's trailing window,
  the stored finding and its event.  Statements run one by one outside a transaction: a statement
  may fail, and its error does not say whether the server had applied it.  Parameters are the
  JSON encoder, SHA-256, the new identifiers, PostgreSQL's \<open>avg\<close>, and the clocks.
\<close>

section \<open>Tables\<close>

record Anomaly =
  ao_ID :: uuid
  ao_AthleteID :: uuid
  ao_SessionID :: uuid
  ao_Metric :: string
  ao_PitchType :: "string option"
  ao_ObservedValue :: f64
  ao_BaselineMedian :: f64
  ao_RobustSigma :: f64
  ao_ZRobust :: f64
  ao_Direction :: string
  ao_Severity :: string
  ao_WindowSessions :: int
  ao_DetectorVersion :: string
  ao_DetectedAt :: time
  ao_AcknowledgedAt :: "time option"

record SessionAggregates =
  agg_PitchCount :: int
  agg_AvgReleaseSpeed :: "f64 option"
  agg_AvgReleaseSpinRate :: "f64 option"
  agg_AvgPitchScore :: "f64 option"

record sessionWatch =
  sw_athleteID :: uuid
  sw_lastSeen :: time
  sw_pitchCount :: int
  sw_evaluated :: bool

text \<open>The evaluator's watch list and everything its handler and sweeps act on.\<close>

record aworld =
  aw_db :: database
  aw_anomalies :: "Anomaly list"
  aw_aggregates :: "uuid \<rightharpoonup> SessionAggregates"
  aw_cache :: "Cache option"
  aw_bus :: "unit cstate"
  aw_active :: "uuid \<rightharpoonup> sessionWatch"
  aw_found :: "(string \<times> string) list"
  aw_calls :: nat

text \<open>
  \<open>ae_env n\<close> is what the other writers have done to the tables by the n-th statement, \<open>ae_fault n\<close>
  its fault: the error, and whether the server had applied the statement.
\<close>

record AnomalyEvaluator =
  ae_detector :: DetectorConfig
  ae_version :: string
  ae_idleTimeout :: duration
  ae_minPitches :: int
  ae_pollInterval :: duration
  ae_codec :: codec
  ae_hashing :: hashing
  ae_json_PitchAnalyzed :: "string \<Rightarrow> lib_error + PitchAnalyzed"
  ae_marshal_anomaly :: "AnomalyDetected \<Rightarrow> lib_error + string"
  ae_sha256_hex :: "string \<Rightarrow> string"
  ae_quoted :: "string \<Rightarrow> string"
  ae_avg :: "f64 list \<Rightarrow> f64 option"
  ae_env :: "nat \<Rightarrow> database \<Rightarrow> database"
  ae_fault :: "nat \<Rightarrow> (lib_error \<times> bool) option"
  ae_clock :: "nat \<Rightarrow> time"
  ae_NewID :: "nat \<Rightarrow> uuid"
  ae_event_id :: "nat \<Rightarrow> lib_error + uuid"
  ae_cache_reply :: "nat \<Rightarrow> reply"
  ae_publish_rt :: "nat \<Rightarrow> runtime"

record AnomalyConfig =
  cfg_IdleTimeout :: duration
  cfg_MinPitches :: int
  cfg_PollInterval :: duration
  cfg_Detector :: DetectorConfig

definition DefaultAnomalyConfig :: AnomalyConfig where
  "DefaultAnomalyConfig = \<lparr>cfg_IdleTimeout = 20 * Second, cfg_MinPitches = 15, cfg_PollInterval = 5 * Second,
     cfg_Detector = DefaultDetectorConfig\<rparr>"

text \<open>The fields that \<open>NewAnomalyEvaluator\<close> takes from its configuration.\<close>

definition NewAnomalyEvaluator :: "AnomalyConfig \<Rightarrow> AnomalyEvaluator \<Rightarrow> AnomalyEvaluator" where
  "NewAnomalyEvaluator cfg a = a\<lparr>
     ae_detector := NewDetector (cfg_Detector cfg),
     ae_idleTimeout := (if cfg_IdleTimeout cfg \<le> 0 then 20 * Second else cfg_IdleTimeout cfg),
     ae_minPitches := (if cfg_MinPitches cfg \<le> 0 then 15 else cfg_MinPitches cfg),
     ae_pollInterval := (if cfg_PollInterval cfg \<le> 0 then 5 * Second else cfg_PollInterval cfg)\<rparr>"

section \<open>Statements outside a transaction\<close>

definition exec_sql :: "AnomalyEvaluator \<Rightarrow> (aworld \<Rightarrow> (goerr + 'a) \<times> aworld) \<Rightarrow> aworld \<Rightarrow> (goerr + 'a) \<times> aworld" where
  "exec_sql a q w =
     (let w1 = w\<lparr>aw_calls := aw_calls w + 1, aw_db := ae_env a (aw_calls w) (aw_db w)\<rparr> in
      case ae_fault a (aw_calls w) of
        None \<Rightarrow> (case q w1 of (Inl e, _) \<Rightarrow> (Inl e, w1) | (Inr r, w2) \<Rightarrow> (Inr r, w2))
      | Some (e, applied) \<Rightarrow> (Inl (lib e), if applied then (case q w1 of (Inl _, _) \<Rightarrow> w1 | (Inr _, w2) \<Rightarrow> w2) else w1))"

definition GetSession :: "uuid \<Rightarrow> aworld \<Rightarrow> (goerr + Session) \<times> aworld" where
  "GetSession i w = (case find (\<lambda>s. ses_ID s = i) (sessions (aw_db w)) of
       None \<Rightarrow> (Inl ErrNoRows, w) | Some s \<Rightarrow> (Inr s, w))"

text \<open>
  \<open>percentile_cont(0.5) WITHIN GROUP (ORDER BY x)\<close>: the middle, or half way between the two
  middle values, of the values that are not NULL; NULL when there is none.  (PostgreSQL sorts NaN last; the
  measurements come from JSON, which has none.)
\<close>

definition somes :: "'a option list \<Rightarrow> 'a list" where
  "somes xs = map the (filter (\<lambda>x. x \<noteq> None) xs)"

definition percentile_cont_half :: "f64 option list \<Rightarrow> f64 option" where
  "percentile_cont_half xs =
     (let s = sort (somes xs); n = length s in
      if n = 0 then None
      else if odd n then Some (s ! (n div 2))
      else (let lo = s ! (n div 2 - 1); hi = s ! (n div 2) in
            Some (f64_add lo (f64_mul (Fin (1 / 2)) (f64_sub hi lo)))))"

definition measurement_of :: "database \<Rightarrow> Pitch \<Rightarrow> PitchMeasurement option" where
  "measurement_of d p = find (\<lambda>m. me_PitchID m = p_ID p) (measurements d)"

text \<open>The seven medians, each with the number of readings behind it.\<close>

record MetricMedians =
  PitchCount :: int
  MedianReleaseSpeed :: f64
  NReleaseSpeed :: int
  MedianReleaseSpinRate :: f64
  NReleaseSpinRate :: int
  MedianReleasePosXArm :: f64
  NReleasePosXArm :: int
  MedianReleasePosZ :: f64
  NReleasePosZ :: int
  MedianReleaseExtension :: f64
  NReleaseExtension :: int
  MedianPfxXArm :: f64
  NPfxXArm :: int
  MedianPfxZ :: f64
  NPfxZ :: int

record WindowRow = MetricMedians +
  wr_SessionID :: uuid
  wr_StartedAt :: time

definition median_or_zero :: "(PitchMeasurement \<Rightarrow> f64 option) \<Rightarrow> PitchMeasurement list \<Rightarrow> f64" where
  "median_or_zero sel ms = (case percentile_cont_half (map sel ms) of None \<Rightarrow> Fin 0 | Some v \<Rightarrow> v)"

definition count_some :: "(PitchMeasurement \<Rightarrow> f64 option) \<Rightarrow> PitchMeasurement list \<Rightarrow> int" where
  "count_some sel ms = int (length (somes (map sel ms)))"

definition metric_medians :: "PitchMeasurement list \<Rightarrow> MetricMedians" where
  "metric_medians ms =
     \<lparr>PitchCount = int (length ms),
      MedianReleaseSpeed = median_or_zero me_ReleaseSpeed ms, NReleaseSpeed = count_some me_ReleaseSpeed ms,
      MedianReleaseSpinRate = median_or_zero me_ReleaseSpinRate ms, NReleaseSpinRate = count_some me_ReleaseSpinRate ms,
      MedianReleasePosXArm = median_or_zero me_ReleasePosXArm ms, NReleasePosXArm = count_some me_ReleasePosXArm ms,
      MedianReleasePosZ = median_or_zero me_ReleasePosZ ms, NReleasePosZ = count_some me_ReleasePosZ ms,
      MedianReleaseExtension = median_or_zero me_ReleaseExtension ms, NReleaseExtension = count_some me_ReleaseExtension ms,
      MedianPfxXArm = median_or_zero me_PfxXArm ms, NPfxXArm = count_some me_PfxXArm ms,
      MedianPfxZ = median_or_zero me_PfxZ ms, NPfxZ = count_some me_PfxZ ms\<rparr>"

text \<open>The joined rows of one session and pitch type that are not SUSPECT.\<close>

definition graded_rows :: "database \<Rightarrow> uuid \<Rightarrow> string \<Rightarrow> PitchMeasurement list" where
  "graded_rows d sessionID pitchType =
     filter (\<lambda>m. me_MeasurementQuality m \<noteq> ''SUSPECT'')
       (somes (map (measurement_of d) (filter (\<lambda>p. p_SessionID p = sessionID \<and> p_PitchType p = Some pitchType) (pitches d))))"

definition GetSessionMetricMedians :: "uuid \<Rightarrow> string \<Rightarrow> aworld \<Rightarrow> (goerr + MetricMedians) \<times> aworld" where
  "GetSessionMetricMedians sessionID pitchType w = (Inr (metric_medians (graded_rows (aw_db w) sessionID pitchType)), w)"

definition window_row :: "database \<Rightarrow> string \<Rightarrow> Session \<Rightarrow> WindowRow" where
  "window_row d pitchType s =
     MetricMedians.extend (metric_medians (graded_rows d (ses_ID s) pitchType)) \<lparr>wr_SessionID = ses_ID s, wr_StartedAt = ses_StartedAt s\<rparr>"

text \<open>
  Grouping by session keeps the sessions with at least one joined row; rows with equal
  \<open>started_at\<close> come in table order here, in no particular order in PostgreSQL.
\<close>

definition baseline_rows :: "database \<Rightarrow> uuid \<Rightarrow> string \<Rightarrow> time \<Rightarrow> int \<Rightarrow> WindowRow list" where
  "baseline_rows d pitcher pitchType before minPitches =
     filter (\<lambda>r. 0 < PitchCount r \<and> minPitches \<le> PitchCount r)
       (map (window_row d pitchType) (filter (\<lambda>s. ses_PitcherAthleteID s = pitcher \<and> ses_StartedAt s < before) (sessions d)))"

definition GetAnomalyBaselineWindow ::
  "uuid \<Rightarrow> string \<Rightarrow> time \<Rightarrow> int \<Rightarrow> nat \<Rightarrow> aworld \<Rightarrow> (goerr + WindowRow list) \<times> aworld" where
  "GetAnomalyBaselineWindow pitcher pitchType before minPitches windowSize w =
     (Inr (take windowSize (sort_key (\<lambda>r. - wr_StartedAt r) (baseline_rows (aw_db w) pitcher pitchType before minPitches))), w)"

text \<open>\<open>GROUP BY pitch_type HAVING count(*) >= minPitches ORDER BY n DESC\<close>.\<close>

definition type_count :: "database \<Rightarrow> uuid \<Rightarrow> string \<Rightarrow> int" where
  "type_count d sessionID t = int (length (filter (\<lambda>p. p_SessionID p = sessionID \<and> p_PitchType p = Some t) (pitches d)))"

definition sessionPitchTypes :: "uuid \<Rightarrow> int \<Rightarrow> aworld \<Rightarrow> (goerr + string list) \<times> aworld" where
  "sessionPitchTypes sessionID minPitches w =
     (let types = remdups (somes (map p_PitchType (filter (\<lambda>p. p_SessionID p = sessionID) (pitches (aw_db w))))) in
      (Inr (sort_key (\<lambda>t. - type_count (aw_db w) sessionID t)
              (filter (\<lambda>t. minPitches \<le> type_count (aw_db w) sessionID t) types)), w))"

definition active_pitching :: "database \<Rightarrow> uuid option" where
  "active_pitching d = map_option mv_ID (find (\<lambda>v. mv_Variant v = ''pitching'' \<and> mv_IsActive v) (model_versions d))"

text \<open>The scores that the LEFT JOIN on the active pitching model finds for one pitch.\<close>

definition joined_scores :: "database \<Rightarrow> Pitch \<Rightarrow> f64 option list" where
  "joined_scores d p =
     (let rs = filter (\<lambda>r. pp_PitchID r = p_ID p \<and> Some (pp_ModelVersionID r) = active_pitching d) (predictions d) in
      if rs = [] then [None] else map (\<lambda>r. Some (pp_Score r)) rs)"

definition session_aggregates :: "(f64 list \<Rightarrow> f64 option) \<Rightarrow> database \<Rightarrow> uuid \<Rightarrow> SessionAggregates" where
  "session_aggregates avg d i =
     (let rows = concat (map (\<lambda>p. map (\<lambda>sc. (measurement_of d p, sc)) (joined_scores d p)) (filter (\<lambda>p. p_SessionID p = i) (pitches d)));
          real = map_option float32;
          col = (\<lambda>sel. real (avg (somes (map (\<lambda>r. Option.bind (fst r) sel) rows))))
      in \<lparr>agg_PitchCount = int (length rows), agg_AvgReleaseSpeed = col me_ReleaseSpeed,
          agg_AvgReleaseSpinRate = col me_ReleaseSpinRate, agg_AvgPitchScore = real (avg (somes (map snd rows)))\<rparr>)"

definition RecomputeSessionAggregates :: "AnomalyEvaluator \<Rightarrow> uuid \<Rightarrow> aworld \<Rightarrow> (goerr + unit) \<times> aworld" where
  "RecomputeSessionAggregates a i w =
     (if \<not> list_ex (\<lambda>s. ses_ID s = i) (sessions (aw_db w)) then (Inl ErrNoRows, w)
      else (Inr (), w\<lparr>aw_aggregates := (aw_aggregates w)(i \<mapsto> session_aggregates (ae_avg a) (aw_db w) i)\<rparr>))"

text \<open>The key of the unique index, and the CHECK constraints of \<open>performance_anomalies\<close>.\<close>

definition anomaly_key :: "Anomaly \<Rightarrow> uuid \<times> string \<times> string \<times> string" where
  "anomaly_key r = (ao_SessionID r, ao_Metric r, (case ao_PitchType r of None \<Rightarrow> '''' | Some t \<Rightarrow> t), ao_DetectorVersion r)"

definition anomaly_ok :: "Anomaly \<Rightarrow> bool" where
  "anomaly_ok r \<longleftrightarrow> List.member (map Metric_string AllMetrics) (ao_Metric r)
     \<and> List.member [''INCREASE'', ''DECREASE''] (ao_Direction r) \<and> List.member [''MEDIUM'', ''HIGH''] (ao_Severity r)
     \<and> (f64_lt (Fin 0) (ao_RobustSigma r) \<or> ao_RobustSigma r = NaN) \<and> 1 \<le> ao_WindowSessions r"

text \<open>PostgreSQL orders NaN above every number.  The CHECK constraints come before the unique index, the primary key and the references.\<close>

definition InsertAnomaly :: "Anomaly \<Rightarrow> aworld \<Rightarrow> (goerr + Anomaly) \<times> aworld" where
  "InsertAnomaly r w =
     (if \<not> anomaly_ok r then (Inl check_violation, w)
      else if list_ex (\<lambda>o'. anomaly_key o' = anomaly_key r) (aw_anomalies w) then (Inl ErrNoRows, w)
      else if list_ex (\<lambda>o'. ao_ID o' = ao_ID r) (aw_anomalies w) then (Inl unique_violation, w)
      else if \<not> athlete_exists (aw_db w) (ao_AthleteID r) \<or> \<not> list_ex (\<lambda>s. ses_ID s = ao_SessionID r) (sessions (aw_db w))
        then (Inl foreign_key_violation, w)
      else (Inr r, w\<lparr>aw_anomalies := aw_anomalies w @ [r]\<rparr>))"

section \<open>One metric\<close>

fun metricValue :: "('z) MetricMedians_scheme \<Rightarrow> Metric \<Rightarrow> f64 \<times> bool" where
  "metricValue r MetricReleaseSpeed = (MedianReleaseSpeed r, NReleaseSpeed r > 0)"
| "metricValue r MetricReleaseSpinRate = (MedianReleaseSpinRate r, NReleaseSpinRate r > 0)"
| "metricValue r MetricReleasePosXArm = (MedianReleasePosXArm r, NReleasePosXArm r > 0)"
| "metricValue r MetricReleasePosZ = (MedianReleasePosZ r, NReleasePosZ r > 0)"
| "metricValue r MetricReleaseExtension = (MedianReleaseExtension r, NReleaseExtension r > 0)"
| "metricValue r MetricPfxXArm = (MedianPfxXArm r, NPfxXArm r > 0)"
| "metricValue r MetricPfxZ = (MedianPfxZ r, NPfxZ r > 0)"

fun windowValue :: "WindowRow \<Rightarrow> Metric \<Rightarrow> f64 \<times> bool" where
  "windowValue r MetricReleaseSpeed = (MedianReleaseSpeed r, NReleaseSpeed r > 0)"
| "windowValue r MetricReleaseSpinRate = (MedianReleaseSpinRate r, NReleaseSpinRate r > 0)"
| "windowValue r MetricReleasePosXArm = (MedianReleasePosXArm r, NReleasePosXArm r > 0)"
| "windowValue r MetricReleasePosZ = (MedianReleasePosZ r, NReleasePosZ r > 0)"
| "windowValue r MetricReleaseExtension = (MedianReleaseExtension r, NReleaseExtension r > 0)"
| "windowValue r MetricPfxXArm = (MedianPfxXArm r, NPfxXArm r > 0)"
| "windowValue r MetricPfxZ = (MedianPfxZ r, NPfxZ r > 0)"

definition window_points :: "Metric \<Rightarrow> WindowRow list \<Rightarrow> SessionPoint list" where
  "window_points metric window =
     map (\<lambda>r. \<lparr>sp_SessionID = wr_SessionID r, sp_StartedAt = wr_StartedAt r, sp_PitchCount = PitchCount r,
                sp_Value = fst (windowValue r metric)\<rparr>)
       (filter (\<lambda>r. snd (windowValue r metric)) window)"

definition anomaly_row :: "uuid \<Rightarrow> time \<Rightarrow> Finding \<Rightarrow> string \<Rightarrow> Anomaly" where
  "anomaly_row i now f pitchType =
     \<lparr>ao_ID = i, ao_AthleteID = fi_AthleteID f, ao_SessionID = fi_SessionID f, ao_Metric = Metric_string (fi_Metric f),
      ao_PitchType = Some pitchType, ao_ObservedValue = float32 (fi_ObservedValue f),
      ao_BaselineMedian = float32 (fi_BaselineMedian f), ao_RobustSigma = float32 (fi_RobustSigma f),
      ao_ZRobust = float32 (fi_ZRobust f), ao_Direction = Direction_string (fi_Direction f),
      ao_Severity = Severity_string (fi_Severity f), ao_WindowSessions = go_int16 (fi_WindowSessions f),
      ao_DetectorVersion = fi_DetectorVersion f, ao_DetectedAt = now, ao_AcknowledgedAt = None\<rparr>"

definition anomaly_payload :: "Anomaly \<Rightarrow> Finding \<Rightarrow> string \<Rightarrow> AnomalyDetected" where
  "anomaly_payload row f pitchType =
     \<lparr>ad_AnomalyID = ao_ID row, ad_AthleteID = ao_AthleteID row, ad_SessionID = ao_SessionID row, ad_Metric = ao_Metric row,
      ad_PitchType = pitchType, ad_ObservedValue = fi_ObservedValue f, ad_BaselineMedian = fi_BaselineMedian f,
      ad_RobustSigma = fi_RobustSigma f, ad_ZRobust = fi_ZRobust f, ad_Direction = Direction_string (fi_Direction f),
      ad_Severity = Severity_string (fi_Severity f), ad_WindowSessions = fi_WindowSessions f,
      ad_DetectorVersion = fi_DetectorVersion f, ad_DetectedAt = ao_DetectedAt row\<rparr>"

definition anomaly_envelope :: "AnomalyEvaluator \<Rightarrow> nat \<Rightarrow> Anomaly \<Rightarrow> Finding \<Rightarrow> string \<Rightarrow> goerr + Envelope" where
  "anomaly_envelope a n row f pitchType =
     NewEnvelope TypeAnomaly (''pitchlab-processor/'' @ ae_version a)
       (IdempotencyKeyFor (ae_sha256_hex a)
          [uuid_String (ae_codec a) (fi_SessionID f), Metric_string (fi_Metric f), pitchType, fi_DetectorVersion f])
       (uuid_String (ae_codec a) (fi_AthleteID f)) (ao_DetectedAt row)
       (ae_marshal_anomaly a (anomaly_payload row f pitchType)) (ae_event_id a n) (ae_clock a n)"

text \<open>The error of a failed publication is logged only.\<close>

definition store_finding :: "AnomalyEvaluator \<Rightarrow> Finding \<Rightarrow> string \<Rightarrow> aworld \<Rightarrow> error \<times> aworld" where
  "store_finding a f pitchType w =
     (let n = aw_calls w in
      case exec_sql a (InsertAnomaly (anomaly_row (ae_NewID a n) (ae_clock a n) f pitchType)) w of
        (Inl err, w1) \<Rightarrow> (if IsNoRows err then None else Some (Wrap ''insert anomaly: '' err ''''), w1)
      | (Inr row, w1) \<Rightarrow> (case anomaly_envelope a n row f pitchType of
          Inl err \<Rightarrow> (Some (Wrap ''build anomaly event: '' err ''''), w1)
        | Inr env \<Rightarrow> (case Publish (ae_codec a) (ae_publish_rt a n) TopicAnomaly env (aw_bus w1) of
            (_, bus) \<Rightarrow> (None, w1\<lparr>aw_bus := bus,
              aw_found := aw_found w1 @ [(Metric_string (fi_Metric f), Severity_string (fi_Severity f))]\<rparr>))))"

section \<open>One session\<close>

definition observation_of :: "Session \<Rightarrow> string \<Rightarrow> Metric \<Rightarrow> f64 \<Rightarrow> int \<Rightarrow> time \<Rightarrow> Observation" where
  "observation_of session pitchType metric value count now =
     \<lparr>ob_AthleteID = ses_PitcherAthleteID session, ob_SessionID = ses_ID session, ob_PitchType = pitchType,
      ob_Metric = metric, ob_Value = value, ob_PitchCount = count, ob_DetectedAt = now\<rparr>"

text \<open>The loop over the metrics, with the number stored and the error that ended it.\<close>

fun evaluate_metrics ::
  "AnomalyEvaluator \<Rightarrow> Session \<Rightarrow> string \<Rightarrow> MetricMedians \<Rightarrow> WindowRow list \<Rightarrow> Metric list \<Rightarrow> int \<Rightarrow> aworld
   \<Rightarrow> (int \<times> error) \<times> aworld" where
  "evaluate_metrics a session pitchType observed window [] stored w = ((stored, None), w)"
| "evaluate_metrics a session pitchType observed window (metric # ms) stored w =
     (let (value, ok) = metricValue observed metric in
      if \<not> ok then evaluate_metrics a session pitchType observed window ms stored w
      else (case Evaluate (ae_detector a) (ae_clock a (aw_calls w))
                (observation_of session pitchType metric value (PitchCount observed) (ae_clock a (aw_calls w)))
                (window_points metric window) of
          None \<Rightarrow> evaluate_metrics a session pitchType observed window ms stored w
        | Some finding \<Rightarrow> (case store_finding a finding pitchType w of
            (Some err, w1) \<Rightarrow> ((stored, Some err), w1)
          | (None, w1) \<Rightarrow> evaluate_metrics a session pitchType observed window ms (stored + 1) w1)))"

definition evaluatePitchType :: "AnomalyEvaluator \<Rightarrow> Session \<Rightarrow> string \<Rightarrow> aworld \<Rightarrow> (int \<times> error) \<times> aworld" where
  "evaluatePitchType a session pitchType w =
     (case exec_sql a (GetSessionMetricMedians (ses_ID session) pitchType) w of
        (Inl err, w1) \<Rightarrow> ((0, if IsNoRows err then None else Some (Wrap ''session medians: '' err '''')), w1)
      | (Inr observed, w1) \<Rightarrow>
          if PitchCount observed < ae_minPitches a then ((0, None), w1)
          else (case exec_sql a (GetAnomalyBaselineWindow (ses_PitcherAthleteID session) pitchType (ses_StartedAt session)
                       (go_int32 (ae_minPitches a)) 10) w1 of
              (Inl err, w2) \<Rightarrow> ((0, Some (Wrap ''baseline window: '' err '''')), w2)
            | (Inr window, w2) \<Rightarrow>
                if length window = 0 then ((0, None), w2)
                else evaluate_metrics a session pitchType observed window AllMetrics 0 w2))"

fun evaluate_types :: "AnomalyEvaluator \<Rightarrow> Session \<Rightarrow> string list \<Rightarrow> aworld \<Rightarrow> error \<times> aworld" where
  "evaluate_types a session [] w = (None, w)"
| "evaluate_types a session (t # ts) w = (case evaluatePitchType a session t w of
     ((n, Some err), w1) \<Rightarrow> (Some err, w1)
   | ((n, None), w1) \<Rightarrow> evaluate_types a session ts w1)"

definition EvaluateSession :: "AnomalyEvaluator \<Rightarrow> uuid \<Rightarrow> aworld \<Rightarrow> error \<times> aworld" where
  "EvaluateSession a sessionID w =
     (case exec_sql a (GetSession sessionID) w of
        (Inl err, w1) \<Rightarrow> (if IsNoRows err then None else Some (Wrap ''load session: '' err ''''), w1)
      | (Inr session, w1) \<Rightarrow>
          (let w3 = (case exec_sql a (RecomputeSessionAggregates a sessionID) w1 of
                (Inl err, w2) \<Rightarrow> w2
              | (Inr _, w2) \<Rightarrow> w2\<lparr>aw_cache := map_option (DropLiveSession (ae_hashing a) (ae_cache_reply a (aw_calls w2)) sessionID) (aw_cache w2)\<rparr>)
           in case exec_sql a (sessionPitchTypes sessionID (ae_minPitches a)) w3 of
                (Inl err, w4) \<Rightarrow> (Some (Wrap ''session pitch types: '' err ''''), w4)
              | (Inr types, w4) \<Rightarrow> evaluate_types a session types w4))"

section \<open>The watch list\<close>

definition Handle :: "AnomalyEvaluator \<Rightarrow> time \<Rightarrow> Envelope \<Rightarrow> aworld \<Rightarrow> error \<times> aworld" where
  "Handle a now env w =
     (if EventType env \<noteq> TypePitchAnalyzed
      then (Some (PermanentError (''unexpected event type '' @ ae_quoted a (EventType env)) None), w)
      else (case Unmarshal (ae_json_PitchAnalyzed a) env of
          Inl err \<Rightarrow> (Some (Permanent ''decode analyzed pitch'' err), w)
        | Inr analyzed \<Rightarrow>
            (let i = an_SessionID analyzed;
                 watch = (case aw_active w i of
                     None \<Rightarrow> \<lparr>sw_athleteID = an_PitcherAthleteID analyzed, sw_lastSeen = 0, sw_pitchCount = 0, sw_evaluated = False\<rparr>
                   | Some s \<Rightarrow> s)
             in (None, w\<lparr>aw_active := (aw_active w)(i \<mapsto>
                  watch\<lparr>sw_lastSeen := now, sw_pitchCount := sw_pitchCount watch + 1, sw_evaluated := False\<rparr>)\<rparr>))))"

definition is_due :: "AnomalyEvaluator \<Rightarrow> time \<Rightarrow> aworld \<Rightarrow> uuid \<Rightarrow> bool" where
  "is_due a now w i = (case aw_active w i of
     None \<Rightarrow> False | Some s \<Rightarrow> \<not> sw_evaluated s \<and> ae_idleTimeout a \<le> time_Sub now (sw_lastSeen s))"

text \<open>The first half of \<open>sweep\<close>, under the mutex: the due sessions are marked.\<close>

definition mark_due :: "AnomalyEvaluator \<Rightarrow> time \<Rightarrow> aworld \<Rightarrow> aworld" where
  "mark_due a now w = w\<lparr>aw_active := (\<lambda>i. if is_due a now w i
     then map_option (\<lambda>s. s\<lparr>sw_evaluated := True\<rparr>) (aw_active w i) else aw_active w i)\<rparr>"

text \<open>
  The consumer and the sweeping goroutine interleave: a pitch is handled, a tick collects what is
  due in some order of the map, the next collected session is evaluated (its error is logged).
\<close>

inductive evaluator_runs :: "AnomalyEvaluator \<Rightarrow> aworld \<times> uuid list \<Rightarrow> aworld \<times> uuid list \<Rightarrow> bool" for a x where
  runs_here: "evaluator_runs a x x"
| runs_handle: "evaluator_runs a x (w, todo) \<Longrightarrow> evaluator_runs a x (snd (Handle a now env w), todo)"
| runs_tick: "evaluator_runs a x (w, []) \<Longrightarrow> distinct order \<Longrightarrow> set order = {i. is_due a now w i}
    \<Longrightarrow> evaluator_runs a x (mark_due a now w, order)"
| runs_evaluate: "evaluator_runs a x (w, i # todo) \<Longrightarrow> evaluator_runs a x (snd (EvaluateSession a i w), todo)"

section \<open>What the table holds\<close>

text \<open>A row is consistent when its direction is the order of its own two numbers.\<close>

definition row_consistent :: "Anomaly \<Rightarrow> bool" where
  "row_consistent r \<longleftrightarrow> (ao_Direction r = ''DECREASE'' \<longrightarrow> ao_ObservedValue r \<le> ao_BaselineMedian r)
     \<and> (ao_Direction r = ''INCREASE'' \<longrightarrow> ao_BaselineMedian r \<le> ao_ObservedValue r)"

definition findings_ok :: "aworld \<Rightarrow> bool" where
  "findings_ok w \<longleftrightarrow> distinct (map anomaly_key (aw_anomalies w)) \<and> distinct (map ao_ID (aw_anomalies w))
     \<and> (\<forall>r \<in> set (aw_anomalies w). anomaly_ok r \<and> row_consistent r)
     \<and> length (written (aw_bus w)) \<le> length (aw_anomalies w)"

lemma findings_ok_frame:
  "findings_ok w \<Longrightarrow> aw_anomalies w' = aw_anomalies w \<Longrightarrow> aw_bus w' = aw_bus w \<Longrightarrow> findings_ok w'"
  by (simp add: findings_ok_def)

text \<open>A statement that writes no finding.\<close>

definition reads_only :: "(aworld \<Rightarrow> (goerr + 'a) \<times> aworld) \<Rightarrow> bool" where
  "reads_only q \<longleftrightarrow> (\<forall>w. aw_anomalies (snd (q w)) = aw_anomalies w \<and> aw_bus (snd (q w)) = aw_bus w \<and> aw_active (snd (q w)) = aw_active w)"

lemma reads_only_statements:
  "reads_only (GetSession i)" "reads_only (GetSessionMetricMedians i t)" "reads_only (GetAnomalyBaselineWindow p t b m k)"
  "reads_only (sessionPitchTypes i m)" "reads_only (RecomputeSessionAggregates a i)"
  by (auto simp: reads_only_def GetSession_def GetSessionMetricMedians_def GetAnomalyBaselineWindow_def sessionPitchTypes_def
      RecomputeSessionAggregates_def Let_def split: option.splits)

lemma exec_sql_frame:
  assumes "reads_only q" "exec_sql a q w = (r, w')"
  shows "aw_anomalies w' = aw_anomalies w \<and> aw_bus w' = aw_bus w \<and> aw_active w' = aw_active w"
proof -
  let ?w1 = "w\<lparr>aw_calls := aw_calls w + 1, aw_db := ae_env a (aw_calls w) (aw_db w)\<rparr>"
  obtain x w2 where q: "q ?w1 = (x, w2)" by fastforce
  with assms(1) have "aw_anomalies w2 = aw_anomalies w \<and> aw_bus w2 = aw_bus w \<and> aw_active w2 = aw_active w"
    unfolding reads_only_def by (metis (no_types, lifting) aworld.select_convs aworld.update_convs aworld.surjective snd_conv)
  with assms(2) q show ?thesis
    by (auto simp: exec_sql_def Let_def split: option.splits sum.splits if_splits)
qed

lemma Publish_written: "Publish cd rt topic env st = (e, st') \<Longrightarrow> length (written st') \<le> length (written st) + 1"
  by (auto simp: Publish_def write_message_def Let_def split: option.splits sum.splits prod.splits)

text \<open>The insertion, applied or not: at most one row more, a new one.\<close>

lemma InsertAnomaly_ok:
  assumes ok: "findings_ok w" and c: "row_consistent r" and e: "exec_sql a (InsertAnomaly r) w = (res, w')"
  shows "findings_ok w' \<and> aw_bus w' = aw_bus w \<and> aw_active w' = aw_active w
    \<and> (\<forall>x. res = Inr x \<longrightarrow> aw_anomalies w' = aw_anomalies w @ [r])"
proof -
  let ?w1 = "w\<lparr>aw_calls := aw_calls w + 1, aw_db := ae_env a (aw_calls w) (aw_db w)\<rparr>"
  obtain x w2 where q: "InsertAnomaly r ?w1 = (x, w2)" by fastforce
  then have i: "(\<exists>err. x = Inl err) \<or> (w2 = ?w1\<lparr>aw_anomalies := aw_anomalies w @ [r]\<rparr> \<and> anomaly_ok r
      \<and> anomaly_key r \<notin> anomaly_key ` set (aw_anomalies w) \<and> ao_ID r \<notin> ao_ID ` set (aw_anomalies w))"
    by (auto simp: InsertAnomaly_def list_ex_iff image_iff split: if_splits)
  have w1: "findings_ok ?w1" by (rule findings_ok_frame [OF ok]) simp_all
  have w2: "findings_ok w2 \<and> aw_bus w2 = aw_bus w \<and> aw_active w2 = aw_active w" if "w2 = ?w1\<lparr>aw_anomalies := aw_anomalies w @ [r]\<rparr>" "anomaly_ok r"
      "anomaly_key r \<notin> anomaly_key ` set (aw_anomalies w)" "ao_ID r \<notin> ao_ID ` set (aw_anomalies w)"
    using that ok c by (auto simp: findings_ok_def)
  from e q i w1 w2 show ?thesis
    by (auto simp: exec_sql_def Let_def split: option.splits sum.splits if_splits)
qed

lemma store_finding_ok:
  assumes ok: "findings_ok w" and c: "\<And>i now. row_consistent (anomaly_row i now f t)" and e: "store_finding a f t w = (err, w')"
  shows "findings_ok w' \<and> aw_active w' = aw_active w"
proof -
  let ?n = "aw_calls w"
  let ?r = "anomaly_row (ae_NewID a ?n) (ae_clock a ?n) f t"
  obtain res w1 where q: "exec_sql a (InsertAnomaly ?r) w = (res, w1)" by fastforce
  note i = InsertAnomaly_ok [OF ok c q]
  show ?thesis
  proof (cases res)
    case (Inl x)
    with e q i show ?thesis by (auto simp: store_finding_def Let_def)
  next
    case (Inr row)
    have len: "length (aw_anomalies w1) = length (aw_anomalies w) + 1" using i Inr by simp
    show ?thesis
    proof (cases "anomaly_envelope a ?n row f t")
      case (Inl x)
      with e q i Inr show ?thesis by (auto simp: store_finding_def Let_def)
    next
      case (Inr env)
      obtain pe bus where p: "Publish (ae_codec a) (ae_publish_rt a ?n) TopicAnomaly env (aw_bus w1) = (pe, bus)" by fastforce
      have w': "w' = w1\<lparr>aw_bus := bus, aw_found := aw_found w1 @ [(Metric_string (fi_Metric f), Severity_string (fi_Severity f))]\<rparr>"
        using e q p Inr \<open>res = Inr row\<close> by (simp add: store_finding_def Let_def)
      have "length (written bus) \<le> length (aw_anomalies w1)"
        using Publish_written [OF p] i ok len by (simp add: findings_ok_def)
      with i show ?thesis by (simp add: w' findings_ok_def)
    qed
  qed
qed

text \<open>What the detector reports is stored consistently, after the rounding to 32 bits too.\<close>

lemma finding_consistent:
  assumes "Evaluate c now obs window = Some f" "detector_ok c"
  shows "row_consistent (anomaly_row i n f t)"
proof -
  note ff = finding_facts [OF assms]
  have "fi_ObservedValue f \<le> fi_BaselineMedian f" if "fi_Direction f = DirectionDecrease"
    using ff that by (auto simp: less_eq_f64_def)
  moreover have "fi_BaselineMedian f \<le> fi_ObservedValue f" if "fi_Direction f = DirectionIncrease"
    using ff that by (auto simp: less_eq_f64_def)
  ultimately show ?thesis
    by (cases "fi_Direction f") (auto simp: row_consistent_def anomaly_row_def float32_mono)
qed

lemma evaluate_metrics_ok:
  assumes "detector_ok (ae_detector a)" "findings_ok w" "evaluate_metrics a ses t obs win ms k w = (r, w')"
  shows "findings_ok w' \<and> aw_active w' = aw_active w"
  using assms(2,3)
proof (induction ms arbitrary: k w)
  case (Cons metric ms)
  obtain v b where v: "metricValue obs metric = (v, b)" by fastforce
  show ?case
  proof (cases "b")
    case False
    with Cons v show ?thesis by simp
  next
    case True
    show ?thesis
    proof (cases "Evaluate (ae_detector a) (ae_clock a (aw_calls w))
        (observation_of ses t metric v (PitchCount obs) (ae_clock a (aw_calls w))) (window_points metric win)")
      case None
      with Cons v True show ?thesis by simp
    next
      case (Some f)
      obtain e w1 where st: "store_finding a f t w = (e, w1)" by fastforce
      have w1: "findings_ok w1 \<and> aw_active w1 = aw_active w"
        by (rule store_finding_ok [OF Cons.prems(1) _ st]) (rule finding_consistent [OF Some assms(1)])
      with Cons v True Some st show ?thesis by (cases e) auto
    qed
  qed
qed simp

lemma evaluatePitchType_ok:
  assumes a: "detector_ok (ae_detector a)" and ok: "findings_ok w" and e: "evaluatePitchType a ses t w = (r, w')"
  shows "findings_ok w' \<and> aw_active w' = aw_active w"
proof -
  obtain r1 w1 where q1: "exec_sql a (GetSessionMetricMedians (ses_ID ses) t) w = (r1, w1)" by fastforce
  note f1 = exec_sql_frame [OF reads_only_statements(2) q1]
  have ok1: "findings_ok w1" using ok f1 by (blast intro: findings_ok_frame)
  obtain r2 w2 where q2: "exec_sql a (GetAnomalyBaselineWindow (ses_PitcherAthleteID ses) t (ses_StartedAt ses)
      (go_int32 (ae_minPitches a)) 10) w1 = (r2, w2)" by fastforce
  note f2 = exec_sql_frame [OF reads_only_statements(3) q2]
  have ok2: "findings_ok w2" using ok1 f2 by (blast intro: findings_ok_frame)
  from e ok1 ok2 f1 f2 q1 q2 evaluate_metrics_ok [OF a ok2] show ?thesis
    by (auto simp: evaluatePitchType_def split: sum.splits if_splits)
qed

lemma evaluate_types_ok:
  assumes a: "detector_ok (ae_detector a)"
  shows "findings_ok w \<Longrightarrow> evaluate_types a ses ts w = (r, w') \<Longrightarrow> findings_ok w' \<and> aw_active w' = aw_active w"
proof (induction ts arbitrary: w)
  case (Cons t ts)
  obtain n e w1 where q: "evaluatePitchType a ses t w = ((n, e), w1)" by (metis surj_pair)
  from evaluatePitchType_ok [OF a Cons.prems(1) q] Cons q show ?case by (cases e) auto
qed simp

lemma EvaluateSession_ok:
  assumes a: "detector_ok (ae_detector a)" and ok: "findings_ok w" and e: "EvaluateSession a i w = (r, w')"
  shows "findings_ok w' \<and> aw_active w' = aw_active w"
proof -
  obtain r1 w1 where q1: "exec_sql a (GetSession i) w = (r1, w1)" by fastforce
  note f1 = exec_sql_frame [OF reads_only_statements(1) q1]
  have ok1: "findings_ok w1" using ok f1 by (blast intro: findings_ok_frame)
  obtain r2 w2 where q2: "exec_sql a (RecomputeSessionAggregates a i) w1 = (r2, w2)" by fastforce
  note f2 = exec_sql_frame [OF reads_only_statements(5) q2]
  define w3 where "w3 = (case r2 of Inl err \<Rightarrow> w2
      | Inr _ \<Rightarrow> w2\<lparr>aw_cache := map_option (DropLiveSession (ae_hashing a) (ae_cache_reply a (aw_calls w2)) i) (aw_cache w2)\<rparr>)"
  have f3: "aw_anomalies w3 = aw_anomalies w1 \<and> aw_bus w3 = aw_bus w1 \<and> aw_active w3 = aw_active w1"
    using f2 by (auto simp: w3_def split: sum.splits)
  obtain r4 w4 where q4: "exec_sql a (sessionPitchTypes i (ae_minPitches a)) w3 = (r4, w4)" by fastforce
  note f4 = exec_sql_frame [OF reads_only_statements(4) q4]
  have ok4: "findings_ok w4" by (rule findings_ok_frame [OF ok1]) (use f3 f4 in simp_all)
  have d: "EvaluateSession a i w = (case r1 of Inl err \<Rightarrow> (if IsNoRows err then None else Some (Wrap ''load session: '' err ''''), w1)
     | Inr session \<Rightarrow> (case r4 of Inl err \<Rightarrow> (Some (Wrap ''session pitch types: '' err ''''), w4) | Inr types \<Rightarrow> evaluate_types a session types w4))"
    using q1 q2 q4 by (auto simp: EvaluateSession_def w3_def Let_def split: sum.splits)
  from e d ok1 ok4 f1 f3 f4 evaluate_types_ok [OF a ok4] show ?thesis by (auto split: sum.splits)
qed

lemma Handle_frame: "aw_anomalies (snd (Handle a now env w)) = aw_anomalies w" "aw_bus (snd (Handle a now env w)) = aw_bus w"
  by (simp_all add: Handle_def Let_def split: sum.splits)

lemma evaluator_runs_ok:
  "evaluator_runs a x y \<Longrightarrow> detector_ok (ae_detector a) \<Longrightarrow> findings_ok (fst x) \<Longrightarrow> findings_ok (fst y)"
proof (induction rule: evaluator_runs.induct)
  case (runs_handle w todo now env)
  then show ?case by (auto intro: findings_ok_frame simp: Handle_frame)
next
  case (runs_tick w order now)
  then show ?case by (auto intro: findings_ok_frame simp: mark_due_def)
next
  case (runs_evaluate w i todo)
  then show ?case using EvaluateSession_ok [of a w i] by (metis fst_conv surjective_pairing)
qed simp

section \<open>One evaluation per silence\<close>

text \<open>
  Since a session was marked with nothing collected for it, either a pitch of it has been
  handled, or it is still marked and not collected.
\<close>

definition settled :: "uuid \<Rightarrow> int \<Rightarrow> aworld \<times> uuid list \<Rightarrow> bool" where
  "settled i k y \<longleftrightarrow> (\<exists>s. aw_active (fst y) i = Some s \<and> k \<le> sw_pitchCount s
     \<and> (sw_pitchCount s = k \<longrightarrow> sw_evaluated s \<and> i \<notin> set (snd y)))"

lemma Handle_active:
  "aw_active (snd (Handle a now env w)) i = aw_active w i
   \<or> (\<exists>s. aw_active (snd (Handle a now env w)) i = Some s \<and> (\<forall>s0. aw_active w i = Some s0 \<longrightarrow> sw_pitchCount s = sw_pitchCount s0 + 1))"
  by (auto simp: Handle_def Let_def split: sum.splits option.splits)

lemma settled_stays:
  "evaluator_runs a x y \<Longrightarrow> detector_ok (ae_detector a) \<Longrightarrow> findings_ok (fst x) \<Longrightarrow> settled i k x \<Longrightarrow> settled i k y"
proof (induction rule: evaluator_runs.induct)
  case (runs_handle w todo now env)
  then show ?case using Handle_active [of a now env w i] by (auto simp: settled_def)
next
  case (runs_tick w order now)
  then show ?case by (auto simp: settled_def mark_due_def is_due_def)
next
  case (runs_evaluate w j todo)
  have "findings_ok w" using evaluator_runs_ok [OF runs_evaluate.hyps] runs_evaluate.prems by simp
  with EvaluateSession_ok [of a w j] runs_evaluate show ?case
    by (metis (no_types, lifting) fst_conv list.set_intros(2) settled_def snd_conv surjective_pairing)
qed simp

section \<open>A concrete evaluation\<close>

definition demo_reading :: "uuid \<Rightarrow> f64 \<Rightarrow> PitchMeasurement" where
  "demo_reading i v = \<lparr>me_PitchID = i, me_DeviceID = None, me_ReleaseSpeed = Some v, me_ReleaseSpinRate = None, me_SpinAxis = None,
     me_ReleasePosX = None, me_ReleasePosY = None, me_ReleasePosZ = None, me_ReleaseExtension = None, me_PfxX = None, me_PfxZ = None,
     me_PlateX = None, me_PlateZ = None, me_SzTop = None, me_SzBot = None, me_EffectiveSpeed = None, me_ArmAngle = None, me_PfxXArm = None,
     me_ReleasePosXArm = None, me_PlateXBat = None, me_ZoneHeightNorm = None, me_InZone = None, me_NormalizationVersion = 1,
     me_MeasurementQuality = ''OK''\<rparr>"

definition demo_pitch :: "uuid \<Rightarrow> uuid \<Rightarrow> Pitch" where
  "demo_pitch i sid = \<lparr>p_ID = i, p_ExternalPitchUid = show_nat i, p_SessionID = sid, p_PitcherAthleteID = 1, p_BatterAthleteID = None,
     p_AtBatNumber = 1, p_PitchNumber = 1, p_SessionPitchIndex = 1, p_ThrownAt = 5, p_Balls = 0, p_Strikes = 0, p_OutsWhenUp = 0, p_Inning = 1,
     p_InningTopbot = None, p_Stand = ''R'', p_PThrows = ''R'', p_On1b = False, p_On2b = False, p_On3b = False, p_BatScore = None,
     p_FldScore = None, p_NThruorderPitcher = None, p_PitchType = Some ''FF'', p_PitchName = None, p_ActualOutcome = None,
     p_PredictionStatus = ''OK'', p_CorrelationID = None, p_SourceEventID = None\<rparr>"

definition demo_outing :: "uuid \<Rightarrow> time \<Rightarrow> Session" where
  "demo_outing i t = \<lparr>ses_ID = i, ses_ExternalSessionUid = show_nat i, ses_PitcherAthleteID = 1, ses_DeviceID = None,
     ses_ExternalGameRef = None, ses_SourceGameDate = None, ses_OpponentTeam = None, ses_StartedAt = t, ses_EndedAt = None,
     ses_Status = ''ACTIVE'', ses_IsSynthetic = True\<rparr>"

definition demo_tables :: database where
  "demo_tables = \<lparr>athletes = [\<lparr>ath_ID = 1, ath_MlbamID = 1, ath_FullName = ''P'', ath_Throws = None, ath_Bats = None, ath_PrimaryRole = ''PITCHER''\<rparr>],
     devices = [], sessions = [demo_outing 2 10, demo_outing 3 20], pitches = [demo_pitch 4 2, demo_pitch 5 3],
     measurements = [demo_reading 4 (Fin 94), demo_reading 5 (Fin 86)], model_versions = [], predictions = []\<rparr>"

definition sharp_detector :: DetectorConfig where
  "sharp_detector = \<lparr>WindowSessions = 10, MinWindowSessions = 1, MinPitchesPerSession = 1, HighThreshold = Fin 3, MediumThreshold = Fin 2,
     SigmaFloor = Some [MetricReleaseSpeed \<mapsto> Fin 1]\<rparr>"

definition demo_evaluator :: "(nat \<Rightarrow> (lib_error \<times> bool) option) \<Rightarrow> AnomalyEvaluator" where
  "demo_evaluator faults = \<lparr>ae_detector = sharp_detector, ae_version = ''1'', ae_idleTimeout = 20 * Second, ae_minPitches = 1,
     ae_pollInterval = 5 * Second,
     ae_codec = \<lparr>json_Envelope = (\<lambda>s. Inl (PlainErr ''bad'')), json_Valid = (\<lambda>s. True), marshal_letter = (\<lambda>l. Inr ''l''),
       marshal_envelope = (\<lambda>e. Inr (Data e)), uuid_String = show_nat\<rparr>,
     ae_hashing = \<lparr>sha256_hex = (\<lambda>s. s), uuid_text = show_nat\<rparr>,
     ae_json_PitchAnalyzed = (\<lambda>s. Inl (PlainErr ''bad'')), ae_marshal_anomaly = (\<lambda>p. Inr ''a''), ae_sha256_hex = (\<lambda>s. s),
     ae_quoted = (\<lambda>s. s), ae_avg = (\<lambda>xs. None), ae_env = (\<lambda>n d. d), ae_fault = faults, ae_clock = (\<lambda>n. 100), ae_NewID = (\<lambda>n. n),
     ae_event_id = (\<lambda>n. Inr 9), ae_cache_reply = (\<lambda>n. Up),
     ae_publish_rt = (\<lambda>n. \<lparr>write_fault = (\<lambda>k. None), write_kept = (\<lambda>k. False), now_utc = 0, rand_source = (\<lambda>k. 0), ctx_err_after = (\<lambda>k. False), ctx_done_in_wait = (\<lambda>k. False)\<rparr>)\<rparr>"

definition demo_aworld :: aworld where
  "demo_aworld = \<lparr>aw_db = demo_tables, aw_anomalies = [], aw_aggregates = Map.empty, aw_cache = None,
     aw_bus = \<lparr>app = (), written = [], writes = 0, results = [], dlq_metric = [], waits = []\<rparr>,
     aw_active = [3 \<mapsto> \<lparr>sw_athleteID = 1, sw_lastSeen = 0, sw_pitchCount = 1, sw_evaluated = False\<rparr>], aw_found = [], aw_calls = 0\<rparr>"

lemma sharp_detector_ok: "detector_ok sharp_detector"
  by (simp add: detector_ok_def sharp_detector_def)

lemma demo_due: "{i. is_due (demo_evaluator fl) (Minute) demo_aworld i} = set [3]"
  by (auto simp: is_due_def demo_evaluator_def demo_aworld_def time_Sub_def split: if_splits)

lemma demo_types:
  "sessionPitchTypes 3 1 w = (Inr [''FF''], w)" if "aw_db w = demo_tables" for w
  using that by (simp add: sessionPitchTypes_def demo_tables_def demo_pitch_def type_count_def somes_def)

lemma demo_graded: "graded_rows demo_tables 3 ''FF'' = [demo_reading 5 (Fin 86)]" "graded_rows demo_tables 2 ''FF'' = [demo_reading 4 (Fin 94)]"
  by (simp_all add: graded_rows_def demo_tables_def demo_pitch_def measurement_of_def demo_reading_def somes_def)

lemma demo_medians:
  "metric_medians [demo_reading i v] = \<lparr>PitchCount = 1, MedianReleaseSpeed = v, NReleaseSpeed = 1, MedianReleaseSpinRate = Fin 0,
     NReleaseSpinRate = 0, MedianReleasePosXArm = Fin 0, NReleasePosXArm = 0, MedianReleasePosZ = Fin 0, NReleasePosZ = 0,
     MedianReleaseExtension = Fin 0, NReleaseExtension = 0, MedianPfxXArm = Fin 0, NPfxXArm = 0, MedianPfxZ = Fin 0, NPfxZ = 0\<rparr>"
  by (simp add: metric_medians_def median_or_zero_def count_some_def percentile_cont_half_def demo_reading_def somes_def Let_def)

lemma demo_outing_fields [simp]: "ses_ID (demo_outing i t) = i" "ses_PitcherAthleteID (demo_outing i t) = 1" "ses_StartedAt (demo_outing i t) = t"
  by (simp_all add: demo_outing_def)

lemma demo_sessions: "sessions demo_tables = [demo_outing 2 10, demo_outing 3 20]"
  by (simp add: demo_tables_def)

lemma demo_athlete: "athlete_exists demo_tables 1"
  by (simp add: athlete_exists_def demo_tables_def)

lemma demo_baseline: "baseline_rows demo_tables 1 ''FF'' 20 1 = [window_row demo_tables ''FF'' (demo_outing 2 10)]"
  by (simp add: baseline_rows_def demo_sessions window_row_def demo_graded demo_medians MetricMedians.defs)

lemma demo_points: "window_points MetricReleaseSpeed [window_row demo_tables ''FF'' (demo_outing 2 10)]
    = [\<lparr>sp_SessionID = 2, sp_StartedAt = 10, sp_PitchCount = 1, sp_Value = Fin 94\<rparr>]"
  by (simp add: window_points_def window_row_def demo_graded demo_medians MetricMedians.defs)

text \<open>The one outing before makes the baseline 94; 86 is eight floors below it.\<close>

lemma demo_evaluate:
  "\<exists>f. Evaluate sharp_detector now (observation_of (demo_outing 3 20) ''FF'' MetricReleaseSpeed (Fin 86) 1 now)
       [\<lparr>sp_SessionID = 2, sp_StartedAt = 10, sp_PitchCount = 1, sp_Value = Fin 94\<rparr>] = Some f
     \<and> fi_AthleteID f = 1 \<and> fi_SessionID f = 3 \<and> fi_Metric f = MetricReleaseSpeed \<and> fi_RobustSigma f = Fin 1 \<and> fi_WindowSessions f = 1
     \<and> fi_ObservedValue f = Fin 86 \<and> fi_BaselineMedian f = Fin 94 \<and> fi_Direction f = DirectionDecrease \<and> fi_Severity f = SeverityHigh"
proof -
  obtain q where q: "madScale = Fin q" using madScale_finite by blast
  have mad: "RobustSigma [Fin 94] = Fin 0"
    by (simp add: RobustSigma_def MAD_def Median_def Let_def math_Abs_def q)
  show ?thesis
    by (simp add: Evaluate_def sharp_detector_def observation_of_def math_IsNaN_def math_IsInf_def math_Abs_def Median_def
        mad floored_def grade_def Let_def rnd64_small)
qed

lemma demo_stored:
  "\<exists>w' r. EvaluateSession (demo_evaluator (\<lambda>n. None)) 3 (mark_due (demo_evaluator (\<lambda>n. None)) Minute demo_aworld) = (None, w')
     \<and> aw_anomalies w' = [r] \<and> ao_Direction r = ''DECREASE'' \<and> ao_ObservedValue r = Fin 86"
proof -
  obtain f where f: "Evaluate sharp_detector 100 (observation_of (demo_outing 3 20) ''FF'' MetricReleaseSpeed (Fin 86) 1 100)
       [\<lparr>sp_SessionID = 2, sp_StartedAt = 10, sp_PitchCount = 1, sp_Value = Fin 94\<rparr>] = Some f"
    "fi_AthleteID f = 1" "fi_SessionID f = 3" "fi_Metric f = MetricReleaseSpeed" "fi_RobustSigma f = Fin 1" "fi_WindowSessions f = 1"
    "fi_ObservedValue f = Fin 86" "fi_BaselineMedian f = Fin 94" "fi_Direction f = DirectionDecrease" "fi_Severity f = SeverityHigh"
    using demo_evaluate by blast
  have 1: "rnd_fmt binary32 86 = Fin 86" "rnd_fmt binary32 1 = Fin 1"
    using rnd_fmt_numeral [of "num.Bit0 (num.Bit1 (num.Bit1 (num.Bit0 (num.Bit1 (num.Bit0 num.One)))))" binary32]
      rnd_fmt_of_nat [of 1 binary32] by (simp_all add: binary32_def)
  have row: "anomaly_ok (anomaly_row i now f t)" "ao_Direction (anomaly_row i now f t) = ''DECREASE''"
    "ao_ObservedValue (anomaly_row i now f t) = Fin 86" "ao_SessionID (anomaly_row i now f t) = 3" "ao_AthleteID (anomaly_row i now f t) = 1" for i now t
    by (simp_all add: anomaly_ok_def anomaly_row_def f float32_def 1 AllMetrics_def go_int16_id)
  show ?thesis
    by (simp add: EvaluateSession_def exec_sql_def demo_evaluator_def mark_due_def demo_aworld_def GetSession_def demo_sessions
        RecomputeSessionAggregates_def demo_types Let_def evaluatePitchType_def GetSessionMetricMedians_def demo_graded demo_medians
        GetAnomalyBaselineWindow_def go_int32_id demo_baseline [unfolded One_nat_def] AllMetrics_def demo_points f(1) store_finding_def InsertAnomaly_def row
        demo_athlete [unfolded One_nat_def] anomaly_envelope_def NewEnvelope_def Publish_def Validate_def IsZero_def uuid_Nil_def
        write_message_def envelope_message_def TypeAnomaly_def IdempotencyKeyFor_def SchemaVersion_def)
qed

section \<open>Properties\<close>

text \<open>
  C6: however the consumer, the sweeps, the failures of statements and the other writers
  interleave, the findings of an evaluator that starts empty have distinct keys (no session is
  reported twice for one metric, pitch type and detector), satisfy the constraints of their table,
  say the direction that their own stored numbers have, and outnumber the published events.
\<close>

theorem findings_sound:
  assumes "evaluator_runs a (w0, []) (w, todo)" "detector_ok (ae_detector a)" "aw_anomalies w0 = []" "written (aw_bus w0) = []"
  shows "distinct (map anomaly_key (aw_anomalies w)) \<and> (\<forall>r \<in> set (aw_anomalies w). anomaly_ok r
     \<and> (ao_Direction r = ''DECREASE'' \<longrightarrow> ao_ObservedValue r \<le> ao_BaselineMedian r)
     \<and> (ao_Direction r = ''INCREASE'' \<longrightarrow> ao_BaselineMedian r \<le> ao_ObservedValue r))
     \<and> length (written (aw_bus w)) \<le> length (aw_anomalies w)"
proof -
  have "findings_ok w0" using assms(3,4) by (simp add: findings_ok_def)
  with evaluator_runs_ok [OF assms(1,2)] have "findings_ok w" by simp
  then show ?thesis unfolding findings_ok_def row_consistent_def by blast
qed

lemma demo_evaluator_run:
  assumes "EvaluateSession (demo_evaluator fl) 3 (mark_due (demo_evaluator fl) Minute demo_aworld) = (e, w)"
  shows "evaluator_runs (demo_evaluator fl) (demo_aworld, []) (w, [])"
proof -
  have "evaluator_runs (demo_evaluator fl) (demo_aworld, []) (mark_due (demo_evaluator fl) Minute demo_aworld, [3])"
    by (rule runs_tick [OF runs_here]) (simp_all only: demo_due, simp)
  from runs_evaluate [OF this] assms show ?thesis by simp
qed

theorem findings_sound_witness:
  "\<exists>w r. evaluator_runs (demo_evaluator (\<lambda>n. None)) (demo_aworld, []) (w, []) \<and> aw_anomalies w = [r] \<and> anomaly_ok r
     \<and> ao_Direction r = ''DECREASE'' \<and> ao_ObservedValue r \<le> ao_BaselineMedian r"
proof -
  obtain w r where w: "EvaluateSession (demo_evaluator (\<lambda>n. None)) 3 (mark_due (demo_evaluator (\<lambda>n. None)) Minute demo_aworld) = (None, w)"
    "aw_anomalies w = [r]" "ao_Direction r = ''DECREASE''" using demo_stored by blast
  have d: "detector_ok (ae_detector (demo_evaluator (\<lambda>n. None)))" by (simp add: demo_evaluator_def sharp_detector_ok)
  from findings_sound [OF demo_evaluator_run [OF w(1)] d] w demo_evaluator_run [OF w(1)] show ?thesis
    by (auto simp: demo_aworld_def)
qed

text \<open>
  C23: a sweep marks a session before it evaluates it and only logs the error, so an evaluation
  that failed is not repeated: until another pitch of the session is handled, no sweep collects
  it again, whatever else happens.
\<close>

theorem failed_evaluation_not_retried:
  assumes "aw_active w i = Some s" "sw_evaluated s" "i \<notin> set todo" "findings_ok w" "detector_ok (ae_detector a)"
    and "EvaluateSession a i w = (Some err, w1)" "evaluator_runs a (w1, todo) (w2, todo2)"
    and "aw_active w2 i = Some s2" "sw_pitchCount s2 = sw_pitchCount s"
  shows "sw_evaluated s2 \<and> i \<notin> set todo2"
proof -
  from EvaluateSession_ok [OF assms(5,4,6)] have w1: "findings_ok w1" "aw_active w1 = aw_active w" by simp_all
  then have "settled i (sw_pitchCount s) (w1, todo)" using assms(1-3) by (simp add: settled_def)
  with settled_stays [OF assms(7,5)] w1(1) have "settled i (sw_pitchCount s) (w2, todo2)" by simp
  with assms(8,9) show ?thesis by (simp add: settled_def)
qed

theorem failed_evaluation_not_retried_witness:
  "\<exists>w1 err s2. EvaluateSession (demo_evaluator (\<lambda>n. Some (PlainErr ''down'', False))) 3
        (mark_due (demo_evaluator (\<lambda>n. Some (PlainErr ''down'', False))) Minute demo_aworld) = (Some err, w1)
     \<and> aw_anomalies w1 = [] \<and> aw_active w1 3 = Some s2 \<and> sw_evaluated s2"
proof -
  let ?a = "demo_evaluator (\<lambda>n. Some (PlainErr ''down'', False))"
  let ?w = "mark_due ?a Minute demo_aworld"
  have nr: "\<not> IsNoRows (LibError False t)" for t by (simp add: IsNoRows_def errors_Is_def ErrNoRows_def)
  let ?w1 = "?w\<lparr>aw_calls := aw_calls ?w + 1\<rparr>"
  have fl: "ae_fault ?a n = Some (PlainErr ''down'', False)" "ae_env ?a n d = d" for n d by (simp_all add: demo_evaluator_def)
  have e: "EvaluateSession ?a 3 ?w = (Some (Wrap ''load session: '' (LibError False ''down'') ''''), ?w1)"
    by (simp add: EvaluateSession_def exec_sql_def Let_def fl nr)
  have "3 \<in> {i. is_due ?a Minute demo_aworld i}" unfolding demo_due by simp
  then have "is_due ?a Minute demo_aworld 3" by simp
  then have "aw_active ?w 3 = map_option (\<lambda>s. s\<lparr>sw_evaluated := True\<rparr>) (aw_active demo_aworld 3)" by (simp add: mark_due_def)
  then obtain s where s: "aw_active ?w 3 = Some s" "sw_evaluated s" by (simp add: demo_aworld_def)
  have d: "detector_ok (ae_detector ?a)" by (simp add: demo_evaluator_def sharp_detector_ok)
  have f: "findings_ok ?w" by (simp add: findings_ok_def mark_due_def demo_aworld_def)
  have "sw_evaluated s \<and> 3 \<notin> set ([] :: uuid list)"
    by (rule failed_evaluation_not_retried [OF s _ f d e runs_here]) (use s in simp_all)
  moreover have "aw_anomalies ?w1 = []" "aw_active ?w1 3 = Some s" using s by (simp_all add: mark_due_def demo_aworld_def)
  ultimately show ?thesis using e by blast
qed

end
