(* ===== verification/Base64.thy ===== *)
theory Base64
  imports Prelude
begin

text \<open>
  What internal/auth uses of Go's encoding/base64 without padding: the URL and the standard
  alphabet, the encoder, and the decoder with its strict mode (the unused low bits of the last
  digit must be zero).  The decoder skips line breaks, as Go's does.
\<close>

section \<open>Digits\<close>

definition b64_alphabet :: "bool \<Rightarrow> string" where
  "b64_alphabet url = ''ABCDEFGHIJKLMNOPQRSTUVWXYZabcdefghijklmnopqrstuvwxyz0123456789'' @ (if url then ''-_'' else ''+/'')"

definition b64_digit :: "bool \<Rightarrow> nat \<Rightarrow> char" where
  "b64_digit url i = b64_alphabet url ! i"

fun index_from :: "nat \<Rightarrow> char \<Rightarrow> string \<Rightarrow> nat option" where
  "index_from i c [] = None"
| "index_from i c (d # ds) = (if c = d then Some i else index_from (Suc i) c ds)"

definition b64_value :: "bool \<Rightarrow> char \<Rightarrow> nat option" where
  "b64_value url c = index_from 0 c (b64_alphabet url)"

section \<open>Codec\<close>

fun b64_sextets :: "nat list \<Rightarrow> nat list" where
  "b64_sextets [] = []"
| "b64_sextets [a] = [a div 4, a mod 4 * 16]"
| "b64_sextets [a, b] = [a div 4, a mod 4 * 16 + b div 16, b mod 16 * 4]"
| "b64_sextets (a # b # c # rest) = [a div 4, a mod 4 * 16 + b div 16, b mod 16 * 4 + c div 64, c mod 64] @ b64_sextets rest"

definition b64_encode :: "bool \<Rightarrow> string \<Rightarrow> string" where
  "b64_encode url s = map (b64_digit url) (b64_sextets (map of_char s))"

fun b64_bytes :: "bool \<Rightarrow> nat list \<Rightarrow> nat list option" where
  "b64_bytes strict [] = Some []"
| "b64_bytes strict [x] = None"
| "b64_bytes strict [x, y] = (if strict \<and> y mod 16 \<noteq> 0 then None else Some [x * 4 + y div 16])"
| "b64_bytes strict [x, y, z] =
     (if strict \<and> z mod 4 \<noteq> 0 then None else Some [x * 4 + y div 16, y mod 16 * 16 + z div 4])"
| "b64_bytes strict (x # y # z # w # rest) = (case b64_bytes strict rest of
       None \<Rightarrow> None
     | Some bs \<Rightarrow> Some ([x * 4 + y div 16, y mod 16 * 16 + z div 4, z mod 4 * 64 + w] @ bs))"

fun all_some :: "'a option list \<Rightarrow> 'a list option" where
  "all_some [] = Some []"
| "all_some (None # xs) = None"
| "all_some (Some x # xs) = (case all_some xs of None \<Rightarrow> None | Some ys \<Rightarrow> Some (x # ys))"

definition line_break :: "char \<Rightarrow> bool" where
  "line_break c \<longleftrightarrow> c = CHR 0x0A \<or> c = CHR 0x0D"

definition b64_decode :: "bool \<Rightarrow> bool \<Rightarrow> string \<Rightarrow> string option" where
  "b64_decode url strict s =
     (case all_some (map (b64_value url) (filter (\<lambda>c. \<not> line_break c) s)) of
        None \<Rightarrow> None
      | Some xs \<Rightarrow> map_option (map char_of) (b64_bytes strict xs))"

section \<open>Round trip\<close>

lemma b64_length: "length (b64_alphabet url) = 64"
  by (simp add: b64_alphabet_def)

lemma b64_value_digit: "i < 64 \<Longrightarrow> b64_value url (b64_digit url i) = Some i"
proof -
  have "\<forall>i \<in> set [0..<64]. b64_value url (b64_digit url i) = Some i"
    by (cases url) (simp_all add: b64_value_def b64_digit_def b64_alphabet_def upt_rec)
  then show "i < 64 \<Longrightarrow> b64_value url (b64_digit url i) = Some i" by simp
qed

lemma b64_digit_in: "i < 64 \<Longrightarrow> b64_digit url i \<in> set (b64_alphabet url)"
  using b64_length [of url] by (simp add: b64_digit_def)

lemma b64_alphabet_plain: "c \<in> set (b64_alphabet url) \<Longrightarrow> \<not> line_break c \<and> c \<noteq> CHR ''.'' \<and> c \<noteq> CHR ''$''"
  by (auto simp: b64_alphabet_def line_break_def split: if_splits)

lemma b64_sextets_less: "\<forall>a \<in> set bs. a < 256 \<Longrightarrow> x \<in> set (b64_sextets bs) \<Longrightarrow> x < 64"
  by (induction bs rule: b64_sextets.induct) auto

lemma b64_bytes_sextets: "\<forall>a \<in> set bs. a < 256 \<Longrightarrow> b64_bytes strict (b64_sextets bs) = Some bs"
proof (induction bs rule: b64_sextets.induct)
  case (2 a)
  then show ?case by auto
next
  case (3 a b)
  then have "(a mod 4 * 16 + b div 16) div 16 = a mod 4" "(a mod 4 * 16 + b div 16) mod 16 = b div 16" by auto
  then show ?case by auto
next
  case (4 a b c rest)
  then have "(a mod 4 * 16 + b div 16) div 16 = a mod 4" "(a mod 4 * 16 + b div 16) mod 16 = b div 16"
    "(b mod 16 * 4 + c div 64) div 4 = b mod 16" "(b mod 16 * 4 + c div 64) mod 4 = c div 64" by auto
  with 4 show ?case by auto
qed simp

lemma all_some_map: "(\<And>x. x \<in> set xs \<Longrightarrow> f x = Some (g x)) \<Longrightarrow> all_some (map f xs) = Some (map g xs)"
  by (induction xs) auto

lemma b64_encode_chars: "c \<in> set (b64_encode url s) \<Longrightarrow> c \<in> set (b64_alphabet url)"
  using b64_sextets_less [of "map of_char s"] by (auto simp: b64_encode_def intro!: b64_digit_in)

lemma b64_encode_plain: "CHR ''.'' \<notin> set (b64_encode url s)" "CHR ''$'' \<notin> set (b64_encode url s)"
  using b64_encode_chars b64_alphabet_plain by blast+

lemma of_char_byte: "(of_char c :: nat) < 256"
  by (metis mod_less_divisor of_char_mod_256 zero_less_numeral)

lemma b64_round_trip: "b64_decode url strict (b64_encode url s) = Some s"
proof -
  let ?xs = "b64_sextets (map of_char s) :: nat list"
  have small: "\<forall>a \<in> set (map of_char s). a < (256 :: nat)" by (auto simp: of_char_byte)
  have "filter (\<lambda>c. \<not> line_break c) (b64_encode url s) = b64_encode url s"
    using b64_encode_chars b64_alphabet_plain by (intro filter_True) blast
  moreover have "all_some (map (b64_value url) (b64_encode url s)) = Some ?xs"
    using b64_sextets_less [OF small]
    unfolding b64_encode_def map_map comp_def
    by (subst all_some_map [where g = "\<lambda>x. x"]) (auto intro: b64_value_digit)
  ultimately show ?thesis
    using b64_bytes_sextets [OF small, of strict] by (simp add: b64_decode_def comp_def)
qed

end
