(* ===== verification/Credentials.thy ===== *)
theory Credentials
  imports Base64 Errors
begin

text \<open>
  internal/auth/password.go and token.go: Argon2id hashes in PHC format and HS256 tokens.
  Argon2, HMAC-SHA256, the JSON codec of the claims and the random bytes are parameters; the PHC
  string, its scanner, base64 and the token format are the code's.  Strings are bytes, and the
  functions on letters and blanks are those of ASCII.
\<close>

section \<open>Strings\<close>

definition is_digit :: "char \<Rightarrow> bool" where
  "is_digit c \<longleftrightarrow> 48 \<le> (of_char c :: nat) \<and> (of_char c :: nat) \<le> 57"

definition is_blank :: "char \<Rightarrow> bool" where
  "is_blank c \<longleftrightarrow> c = CHR '' '' \<or> (9 \<le> (of_char c :: nat) \<and> (of_char c :: nat) \<le> 13)"

definition to_lower :: "char \<Rightarrow> char" where
  "to_lower c = (if 65 \<le> (of_char c :: nat) \<and> (of_char c :: nat) \<le> 90 then char_of ((of_char c :: nat) + 32) else c)"

definition ToLower :: "string \<Rightarrow> string" where
  "ToLower = map to_lower"

definition TrimSpace :: "string \<Rightarrow> string" where
  "TrimSpace s = rev (dropWhile is_blank (rev (dropWhile is_blank s)))"

fun strip_prefix :: "string \<Rightarrow> string \<Rightarrow> string option" where
  "strip_prefix [] s = Some s"
| "strip_prefix (p # ps) [] = None"
| "strip_prefix (p # ps) (c # cs) = (if p = c then strip_prefix ps cs else None)"

text \<open>\<open>%d\<close> of \<open>fmt.Sscanf\<close> into an unsigned integer of the given width, and into an \<open>int\<close>.\<close>

definition scan_uint :: "nat \<Rightarrow> string \<Rightarrow> (nat \<times> string) option" where
  "scan_uint width s =
     (let s' = dropWhile is_blank s; ds = takeWhile is_digit s' in
      if ds = [] \<or> 2 ^ width \<le> read_digits ds then None else Some (read_digits ds, dropWhile is_digit s'))"

definition scan_int :: "string \<Rightarrow> (int \<times> string) option" where
  "scan_int s =
     (let s' = dropWhile is_blank s; (neg, body) = Atoi_parts s'; ds = takeWhile is_digit body;
          v = (if neg then - int (read_digits ds) else int (read_digits ds))
      in if ds = [] \<or> v < - (2 ^ 63) \<or> 2 ^ 63 \<le> v then None else Some (v, dropWhile is_digit body))"

section \<open>Passwords\<close>

definition argonMemory :: nat where "argonMemory = 64 * 1024"
definition argonIterations :: nat where "argonIterations = 3"
definition argonParallelism :: nat where "argonParallelism = 4"
definition argonSaltLength :: nat where "argonSaltLength = 16"
definition argonKeyLength :: nat where "argonKeyLength = 32"

record argonParams =
  ap_memory :: nat
  ap_iterations :: nat
  ap_parallelism :: nat

text \<open>\<open>IDKey\<close> on a password, a salt, the parameters and a length; \<open>None\<close> is its panic.\<close>

type_synonym argon2_IDKey = "string \<Rightarrow> string \<Rightarrow> argonParams \<Rightarrow> nat \<Rightarrow> string option"

definition argon2_Version :: int where "argon2_Version = 19"

definition ErrInvalidHash :: goerr where
  "ErrInvalidHash = ErrorsNew ''auth.ErrInvalidHash'' ''password hash is not a recognised Argon2id string''"

definition current_params :: argonParams where
  "current_params = \<lparr>ap_memory = argonMemory, ap_iterations = argonIterations, ap_parallelism = argonParallelism\<rparr>"

text \<open>The format string of \<open>HashPassword\<close>.\<close>

definition phc_string :: "int \<Rightarrow> argonParams \<Rightarrow> string \<Rightarrow> string \<Rightarrow> string" where
  "phc_string version p salt key = ''$argon2id$v='' @ show_int version @ ''$m='' @ show_nat (ap_memory p) @ '',t='' @ show_nat (ap_iterations p)
     @ '',p='' @ show_nat (ap_parallelism p) @ ''$'' @ b64_encode False salt @ ''$'' @ b64_encode False key"

definition HashPassword :: "argon2_IDKey \<Rightarrow> lib_error + string \<Rightarrow> string \<Rightarrow> (goerr + string) option" where
  "HashPassword IDKey random password = (case random of
       Inl err \<Rightarrow> Some (Inl (Wrap ''generate salt: '' (lib err) ''''))
     | Inr salt \<Rightarrow> (case IDKey password salt current_params argonKeyLength of
         None \<Rightarrow> None
       | Some key \<Rightarrow> Some (Inr (phc_string argon2_Version current_params salt key))))"

definition scan_version :: "string \<Rightarrow> int option" where
  "scan_version s = (case strip_prefix ''v='' s of
     None \<Rightarrow> None | Some r \<Rightarrow> map_option fst (scan_int r))"

definition scan_params :: "string \<Rightarrow> argonParams option" where
  "scan_params s = (case strip_prefix ''m='' s of None \<Rightarrow> None | Some r1 \<Rightarrow>
     (case scan_uint 32 r1 of None \<Rightarrow> None | Some (m, r2) \<Rightarrow>
     (case strip_prefix '',t='' r2 of None \<Rightarrow> None | Some r3 \<Rightarrow>
     (case scan_uint 32 r3 of None \<Rightarrow> None | Some (t, r4) \<Rightarrow>
     (case strip_prefix '',p='' r4 of None \<Rightarrow> None | Some r5 \<Rightarrow>
     (case scan_uint 8 r5 of None \<Rightarrow> None | Some (p, _) \<Rightarrow>
        Some \<lparr>ap_memory = m, ap_iterations = t, ap_parallelism = p\<rparr>))))))"

definition decodeHash :: "string \<Rightarrow> goerr + argonParams \<times> string \<times> string" where
  "decodeHash encoded =
     (let parts = split_on (CHR ''$'') encoded in
      if length parts \<noteq> 6 \<or> parts ! 1 \<noteq> ''argon2id'' then Inl ErrInvalidHash
      else (case scan_version (parts ! 2) of
          None \<Rightarrow> Inl ErrInvalidHash
        | Some version \<Rightarrow>
            if version \<noteq> argon2_Version
            then Inl (Wrap '''' ErrInvalidHash ('': version '' @ show_int version @ '', this build understands '' @ show_int argon2_Version))
            else (case scan_params (parts ! 3) of
                None \<Rightarrow> Inl ErrInvalidHash
              | Some p \<Rightarrow> (case b64_decode False True (parts ! 4) of
                  None \<Rightarrow> Inl ErrInvalidHash
                | Some salt \<Rightarrow> (case b64_decode False True (parts ! 5) of
                    None \<Rightarrow> Inl ErrInvalidHash
                  | Some key \<Rightarrow> Inr (p, salt, key))))))"

definition VerifyPassword :: "argon2_IDKey \<Rightarrow> string \<Rightarrow> string \<Rightarrow> (goerr + bool) option" where
  "VerifyPassword IDKey password encoded = (case decodeHash encoded of
       Inl err \<Rightarrow> Some (Inl err)
     | Inr (params, salt, want) \<Rightarrow> (case IDKey password salt params (length want) of
         None \<Rightarrow> None
       | Some got \<Rightarrow> Some (Inr (got = want))))"

section \<open>Tokens\<close>

definition TokenLifetime :: duration where "TokenLifetime = 24 * Hour"
definition Issuer :: string where "Issuer = ''pitchlab''"
definition MinSecretLength :: nat where "MinSecretLength = 32"

definition ErrMalformedToken :: goerr where
  "ErrMalformedToken = ErrorsNew ''auth.ErrMalformedToken'' ''token is malformed''"
definition ErrBadSignature :: goerr where
  "ErrBadSignature = ErrorsNew ''auth.ErrBadSignature'' ''token signature does not verify''"
definition ErrTokenExpired :: goerr where
  "ErrTokenExpired = ErrorsNew ''auth.ErrTokenExpired'' ''token has expired''"
definition ErrWrongIssuer :: goerr where
  "ErrWrongIssuer = ErrorsNew ''auth.ErrWrongIssuer'' ''token was not issued by this service''"
definition ErrWeakSecret :: goerr where
  "ErrWeakSecret = ErrorsNew ''auth.ErrWeakSecret'' ''signing secret is too weak''"

lemmas token_error_defs = ErrMalformedToken_def ErrBadSignature_def ErrTokenExpired_def ErrWrongIssuer_def ErrWeakSecret_def

record Claims =
  cl_Subject :: uuid
  cl_Username :: string
  cl_Role :: string
  cl_Issuer :: string
  cl_IssuedAt :: int
  cl_ExpiresAt :: int
  cl_TokenID :: string

record token_lib =
  tl_hmac :: "string \<Rightarrow> string \<Rightarrow> string"
  tl_marshal :: "Claims \<Rightarrow> lib_error + string"
  tl_unmarshal :: "string \<Rightarrow> Claims option"
  tl_uuid_String :: "uuid \<Rightarrow> string"
  tl_quoted :: "string \<Rightarrow> string"

definition weak_words :: "string list" where
  "weak_words = [''changeme'', ''secret'', ''password'', ''pitchlab'', ''development'', ''test'']"

definition NewSigner :: "token_lib \<Rightarrow> string \<Rightarrow> goerr + string" where
  "NewSigner tk secret =
     (if length secret < MinSecretLength
      then Inl (Wrap '''' ErrWeakSecret ('': '' @ show_nat (length secret) @ '' bytes, need at least '' @ show_nat MinSecretLength))
      else (case find (strings_Contains (ToLower secret)) weak_words of
          Some weak \<Rightarrow> Inl (Wrap '''' ErrWeakSecret ('': it contains '' @ tl_quoted tk weak @ '', which means it is a placeholder''))
        | None \<Rightarrow> Inr secret))"

definition token_header :: string where
  "token_header = b64_encode True ''{\"alg\":\"HS256\",\"typ\":\"JWT\"}''"

definition issued_claims :: "token_lib \<Rightarrow> time \<Rightarrow> uuid \<Rightarrow> uuid \<Rightarrow> string \<Rightarrow> string \<Rightarrow> Claims" where
  "issued_claims tk now jti userID username role =
     \<lparr>cl_Subject = userID, cl_Username = username, cl_Role = role, cl_Issuer = Issuer, cl_IssuedAt = Unix now,
      cl_ExpiresAt = Unix (now + TokenLifetime), cl_TokenID = tl_uuid_String tk jti\<rparr>"

definition Issue :: "token_lib \<Rightarrow> string \<Rightarrow> time \<Rightarrow> lib_error + uuid \<Rightarrow> uuid \<Rightarrow> string \<Rightarrow> string \<Rightarrow> goerr + string \<times> Claims" where
  "Issue tk secret now newID userID username role = (case newID of
       Inl err \<Rightarrow> Inl (Wrap ''generate token id: '' (lib err) '''')
     | Inr jti \<Rightarrow> (let claims = issued_claims tk now jti userID username role in
         case tl_marshal tk claims of
           Inl err \<Rightarrow> Inl (Wrap ''encode claims: '' (lib err) '''')
         | Inr payload \<Rightarrow>
             (let signing = token_header @ ''.'' @ b64_encode True payload in
              Inr (signing @ ''.'' @ b64_encode True (tl_hmac tk secret signing), claims))))"

definition Verify :: "token_lib \<Rightarrow> string \<Rightarrow> time \<Rightarrow> string \<Rightarrow> goerr + Claims" where
  "Verify tk secret now token =
     (let parts = split_on (CHR ''.'') token in
      if length parts \<noteq> 3 then Inl ErrMalformedToken
      else (case b64_decode True False (parts ! 2) of
          None \<Rightarrow> Inl ErrMalformedToken
        | Some want \<Rightarrow>
            if tl_hmac tk secret (parts ! 0 @ ''.'' @ parts ! 1) \<noteq> want then Inl ErrBadSignature
            else (case b64_decode True False (parts ! 1) of
                None \<Rightarrow> Inl ErrMalformedToken
              | Some payload \<Rightarrow> (case tl_unmarshal tk payload of
                  None \<Rightarrow> Inl ErrMalformedToken
                | Some claims \<Rightarrow>
                    if cl_Issuer claims \<noteq> Issuer then Inl ErrWrongIssuer
                    else if cl_ExpiresAt claims \<le> Unix now then Inl ErrTokenExpired
                    else if Unix (now + Minute) < cl_IssuedAt claims then Inl ErrMalformedToken
                    else Inr claims))))"

text \<open>\<open>time.Unix(c.ExpiresAt, 0)\<close>.\<close>

definition Expiry :: "Claims \<Rightarrow> time" where
  "Expiry c = (cl_ExpiresAt c + 62135596800) * Second"

section \<open>Scanning what was printed\<close>

lemma strip_prefix_append [simp]: "strip_prefix p (p @ s) = Some s"
  by (induction p) auto

lemma show_nat_digit: "c \<in> set (show_nat n) \<Longrightarrow> is_digit c"
  using show_nat_digits [of c n] by (auto simp: is_digit_def of_digit_char)

lemma digit_not_blank: "is_digit c \<Longrightarrow> \<not> is_blank c"
  by (auto simp: is_digit_def is_blank_def)

lemma take_digits:
  assumes "s = [] \<or> \<not> is_digit (hd s)"
  shows "takeWhile is_digit (show_nat n @ s) = show_nat n" "dropWhile is_digit (show_nat n @ s) = s"
    "dropWhile is_blank (show_nat n @ s) = show_nat n @ s"
proof -
  have "takeWhile is_digit s = []" "dropWhile is_digit s = s" using assms by (cases s; simp)+
  then show "takeWhile is_digit (show_nat n @ s) = show_nat n" "dropWhile is_digit (show_nat n @ s) = s"
    using show_nat_digit [of _ n] by (simp_all add: takeWhile_append2 dropWhile_append2)
  obtain c cs where "show_nat n = c # cs" by (cases "show_nat n") auto
  then show "dropWhile is_blank (show_nat n @ s) = show_nat n @ s"
    using show_nat_digit [of c n] digit_not_blank by simp
qed

lemma scan_uint_show:
  "n < 2 ^ width \<Longrightarrow> s = [] \<or> \<not> is_digit (hd s) \<Longrightarrow> scan_uint width (show_nat n @ s) = Some (n, s)"
  by (simp add: scan_uint_def take_digits read_show_nat)

lemma scan_int_show:
  assumes "n < 2 ^ 63" "s = [] \<or> \<not> is_digit (hd s)"
  shows "scan_int (show_nat n @ s) = Some (int n, s)"
proof -
  obtain c cs where c: "show_nat n = c # cs" by (cases "show_nat n") auto
  then have "is_digit c" using show_nat_digit [of c n] by simp
  then have "Atoi_parts (show_nat n @ s) = (False, show_nat n @ s)" using c by (auto simp: is_digit_def)
  moreover have "int n < 2 ^ 63" using assms(1) by (metis of_nat_less_iff of_nat_numeral of_nat_power)
  ultimately show ?thesis using assms(2) by (simp add: scan_int_def take_digits read_show_nat)
qed

lemma show_nat_no_dollar: "CHR ''$'' \<notin> set (show_nat n)"
  by (rule show_nat_no) simp

text \<open>Whatever parameters a hash was made with, they are read back from it.\<close>

lemma scan_params_show:
  assumes "ap_memory p < 2 ^ 32" "ap_iterations p < 2 ^ 32" "ap_parallelism p < 2 ^ 8"
  shows "scan_params (''m='' @ show_nat (ap_memory p) @ '',t='' @ show_nat (ap_iterations p) @ '',p='' @ show_nat (ap_parallelism p)) = Some p"
proof -
  have comma: "\<not> is_digit CHR '',''" by (simp add: is_digit_def)
  have 1: "scan_uint 32 (show_nat (ap_memory p) @ '',t='' @ r) = Some (ap_memory p, '',t='' @ r)" for r
    using assms(1) comma by (intro scan_uint_show) simp_all
  have 2: "scan_uint 32 (show_nat (ap_iterations p) @ '',p='' @ r) = Some (ap_iterations p, '',p='' @ r)" for r
    using assms(2) comma by (intro scan_uint_show) simp_all
  have 3: "scan_uint 8 (show_nat (ap_parallelism p)) = Some (ap_parallelism p, [])"
    using scan_uint_show [of "ap_parallelism p" 8 "[]"] assms(3) by simp
  show ?thesis
    unfolding scan_params_def strip_prefix_append option.case 1 prod.case 2 3 by simp
qed

lemma scan_version_show: "scan_version (''v='' @ show_nat n) = Some (int n)" if "n < 2 ^ 63"
  using scan_int_show [of n "[]"] that unfolding scan_version_def strip_prefix_append by simp

lemma split_six:
  "d \<notin> set a \<Longrightarrow> d \<notin> set b \<Longrightarrow> d \<notin> set c \<Longrightarrow> d \<notin> set e \<Longrightarrow> d \<notin> set f
     \<Longrightarrow> split_on d (d # a @ d # b @ d # c @ d # e @ d # f) = [[], a, b, c, e, f]"
  by (simp add: split_on_append split_on_none)

lemma decodeHash_phc:
  assumes "ap_memory p < 2 ^ 32" "ap_iterations p < 2 ^ 32" "ap_parallelism p < 2 ^ 8"
  shows "decodeHash (phc_string argon2_Version p salt key) = Inr (p, salt, key)"
proof -
  let ?v = "''v='' @ show_nat 19"
  let ?p = "''m='' @ show_nat (ap_memory p) @ '',t='' @ show_nat (ap_iterations p) @ '',p='' @ show_nat (ap_parallelism p)"
  have no: "CHR ''$'' \<notin> set ?v" "CHR ''$'' \<notin> set ?p" by (simp_all add: show_nat_no_dollar)
  have eq: "phc_string argon2_Version p salt key
      = CHR ''$'' # ''argon2id'' @ CHR ''$'' # ?v @ CHR ''$'' # ?p @ CHR ''$'' # b64_encode False salt @ CHR ''$'' # b64_encode False key"
    by (simp add: phc_string_def argon2_Version_def show_int_def)
  have "split_on (CHR ''$'') (phc_string argon2_Version p salt key)
      = [[], ''argon2id'', ?v, ?p, b64_encode False salt, b64_encode False key]"
    unfolding eq by (rule split_six) (use no b64_encode_plain(2) in simp_all)
  then show ?thesis
    using scan_version_show [of 19] scan_params_show [OF assms] b64_round_trip
    by (simp add: decodeHash_def argon2_Version_def Let_def)
qed

section \<open>Tokens\<close>

lemma split_three:
  "d \<notin> set a \<Longrightarrow> d \<notin> set b \<Longrightarrow> d \<notin> set c \<Longrightarrow> split_on d (a @ d # b @ d # c) = [a, b, c]"
  by (simp add: split_on_append split_on_none)

lemma Issue_token:
  assumes "Issue tk secret now newID userID username role = Inr (token, claims)"
  obtains jti payload where "newID = Inr jti" "claims = issued_claims tk now jti userID username role"
    "tl_marshal tk claims = Inr payload"
    "split_on (CHR ''.'') token = [token_header, b64_encode True payload,
       b64_encode True (tl_hmac tk secret (token_header @ ''.'' @ b64_encode True payload))]"
proof -
  obtain jti payload where j: "newID = Inr jti" "claims = issued_claims tk now jti userID username role" "tl_marshal tk claims = Inr payload"
    and t: "token = (token_header @ ''.'' @ b64_encode True payload) @ ''.'' @ b64_encode True (tl_hmac tk secret (token_header @ ''.'' @ b64_encode True payload))"
    using assms by (auto simp: Issue_def Let_def split: sum.splits)
  have "token = token_header @ CHR ''.'' # b64_encode True payload
      @ CHR ''.'' # b64_encode True (tl_hmac tk secret (token_header @ ''.'' @ b64_encode True payload))"
    by (simp add: t)
  then have "split_on (CHR ''.'') token = [token_header, b64_encode True payload,
       b64_encode True (tl_hmac tk secret (token_header @ ''.'' @ b64_encode True payload))]"
    by (simp only:) (rule split_three; simp add: token_header_def b64_encode_plain)
  with j that show ?thesis by blast
qed

text \<open>The whole life of a token: what \<open>Verify\<close> answers for it at any instant.\<close>

lemma Verify_issued:
  assumes i: "Issue tk secret now newID userID username role = Inr (token, claims)"
    and codec: "\<And>c d. tl_marshal tk c = Inr d \<Longrightarrow> tl_unmarshal tk d = Some c"
  shows "Verify tk secret now' token =
     (if Unix now + 86400 \<le> Unix now' then Inl ErrTokenExpired
      else if Unix now' + 60 < Unix now then Inl ErrMalformedToken else Inr claims)"
  using i
proof (rule Issue_token)
  fix jti payload
  assume c: "claims = issued_claims tk now jti userID username role" and p: "tl_marshal tk claims = Inr payload"
    and s: "split_on (CHR ''.'') token = [token_header, b64_encode True payload,
       b64_encode True (tl_hmac tk secret (token_header @ ''.'' @ b64_encode True payload))]"
  have "Unix (now + TokenLifetime) = Unix now + 86400" "Unix (now' + Minute) = Unix now' + 60"
    using Unix_add_seconds [of now 86400] Unix_add_seconds [of now' 60] by (simp_all add: TokenLifetime_def)
  with c codec [OF p] show ?thesis
    by (simp add: Verify_def s b64_round_trip Let_def) (simp add: issued_claims_def)
qed

text \<open>What an accepted token is: three parts, the last one the HMAC of the first two.\<close>

lemma Verify_accepts:
  assumes "Verify tk secret now token = Inr claims"
  obtains h b sig payload where "split_on (CHR ''.'') token = [h, b, sig]"
    "b64_decode True False sig = Some (tl_hmac tk secret (h @ ''.'' @ b))"
    "b64_decode True False b = Some payload" "tl_unmarshal tk payload = Some claims"
    "cl_Issuer claims = Issuer" "Unix now < cl_ExpiresAt claims" "cl_IssuedAt claims \<le> Unix now + 60"
proof -
  let ?ps = "split_on (CHR ''.'') token"
  have len: "length ?ps = 3" using assms by (auto simp: Verify_def Let_def split: if_splits)
  then obtain h b sig where ps: "?ps = [h, b, sig]" by (auto simp: numeral_3_eq_3 length_Suc_conv)
  have u: "Unix (now + Minute) = Unix now + 60" using Unix_add_seconds [of now 60] by simp
  from assms show ?thesis
    by (auto simp: Verify_def ps Let_def u split: option.splits if_splits intro!: that [OF ps])
qed

section \<open>Properties\<close>

text \<open>
  C24: the life of a token: what \<open>Issue\<close> minted, \<open>Verify\<close> gives back claim for claim until
  exactly 24 hours of whole seconds later, then calls expired; a clock more than a minute behind
  the issuer's finds it malformed.
\<close>

theorem token_life:
  assumes "Issue tk secret now newID userID username role = Inr (token, claims)"
    and "\<And>c d. tl_marshal tk c = Inr d \<Longrightarrow> tl_unmarshal tk d = Some c"
  shows "Verify tk secret now' token =
     (if Unix now + 86400 \<le> Unix now' then Inl ErrTokenExpired
      else if Unix now' + 60 < Unix now then Inl ErrMalformedToken else Inr claims)"
  using assms by (rule Verify_issued)

text \<open>A codec that knows the claims of one user.\<close>

definition demo_claims :: Claims where
  "demo_claims = \<lparr>cl_Subject = 1, cl_Username = ''ada'', cl_Role = ''admin'', cl_Issuer = Issuer, cl_IssuedAt = Unix 0,
     cl_ExpiresAt = Unix TokenLifetime, cl_TokenID = ''t''\<rparr>"

definition demo_token_lib :: token_lib where
  "demo_token_lib = \<lparr>tl_hmac = (\<lambda>k s. take 4 s), tl_marshal = (\<lambda>c. if c = demo_claims then Inr ''c'' else Inl (PlainErr ''no'')),
     tl_unmarshal = (\<lambda>s. if s = ''c'' then Some demo_claims else None), tl_uuid_String = (\<lambda>i. ''t''), tl_quoted = (\<lambda>s. s)\<rparr>"

theorem token_life_witness:
  "\<exists>token. Issue demo_token_lib ''k'' 0 (Inr 7) 1 ''ada'' ''admin'' = Inr (token, demo_claims)
     \<and> Verify demo_token_lib ''k'' Hour token = Inr demo_claims \<and> Verify demo_token_lib ''k'' (25 * Hour) token = Inl ErrTokenExpired"
proof -
  have "issued_claims demo_token_lib 0 7 1 ''ada'' ''admin'' = demo_claims"
    by (simp add: issued_claims_def demo_claims_def demo_token_lib_def)
  then obtain token where i: "Issue demo_token_lib ''k'' 0 (Inr 7) 1 ''ada'' ''admin'' = Inr (token, demo_claims)"
    by (simp add: Issue_def Let_def) (simp add: demo_token_lib_def)
  have codec: "tl_marshal demo_token_lib c = Inr d \<Longrightarrow> tl_unmarshal demo_token_lib d = Some c" for c d
    by (auto simp: demo_token_lib_def split: if_splits)
  from token_life [OF i codec, of Hour] token_life [OF i codec, of "25 * Hour"] i show ?thesis by (auto simp: Unix_def)
qed

text \<open>
  C12: an accepted token is one that was signed: its third part decodes to the HMAC of the text of
  the first two, the claims are the ones that text carries, they name this issuer and have not
  expired.  The header is never read.
\<close>

theorem accepted_is_signed:
  assumes "Verify tk secret now token = Inr claims"
  shows "\<exists>h b sig payload. split_on (CHR ''.'') token = [h, b, sig]
     \<and> b64_decode True False sig = Some (tl_hmac tk secret (h @ ''.'' @ b))
     \<and> b64_decode True False b = Some payload \<and> tl_unmarshal tk payload = Some claims
     \<and> cl_Issuer claims = Issuer \<and> Unix now < cl_ExpiresAt claims"
  using assms by (rule Verify_accepts) blast

theorem accepted_is_signed_witness:
  "\<exists>token h b sig. Verify demo_token_lib ''k'' Hour token = Inr demo_claims \<and> split_on (CHR ''.'') token = [h, b, sig]
     \<and> b64_decode True False sig = Some (tl_hmac demo_token_lib ''k'' (h @ ''.'' @ b))"
proof -
  have "issued_claims demo_token_lib 0 7 1 ''ada'' ''admin'' = demo_claims"
    by (simp add: issued_claims_def demo_claims_def demo_token_lib_def)
  then obtain token where i: "Issue demo_token_lib ''k'' 0 (Inr 7) 1 ''ada'' ''admin'' = Inr (token, demo_claims)"
    by (simp add: Issue_def Let_def) (simp add: demo_token_lib_def)
  have codec: "tl_marshal demo_token_lib c = Inr d \<Longrightarrow> tl_unmarshal demo_token_lib d = Some c" for c d
    by (auto simp: demo_token_lib_def split: if_splits)
  have v: "Verify demo_token_lib ''k'' Hour token = Inr demo_claims"
    using Verify_issued [OF i codec, of Hour] by (simp add: Unix_def)
  from accepted_is_signed [OF v] v show ?thesis by blast
qed

text \<open>
  A stored hash is read back with the parameters it was made with, whatever the parameters of
  today, and then verifies exactly the passwords with its key; in particular the password itself.
\<close>

theorem password_verifies:
  assumes "ap_memory p < 2 ^ 32" "ap_iterations p < 2 ^ 32" "ap_parallelism p < 2 ^ 8"
    and "IDKey password salt p n = Some key" "length key = n" "IDKey guess salt p n = Some key'"
  shows "VerifyPassword IDKey guess (phc_string argon2_Version p salt key) = Some (Inr (key' = key))
     \<and> VerifyPassword IDKey password (phc_string argon2_Version p salt key) = Some (Inr True)"
  using assms by (simp add: VerifyPassword_def decodeHash_phc)

theorem password_verifies_witness:
  "VerifyPassword (\<lambda>pw salt p n. Some (take n (pw @ salt @ ''0123456789''))) ''b''
     (phc_string argon2_Version \<lparr>ap_memory = 19456, ap_iterations = 2, ap_parallelism = 1\<rparr> ''s'' ''as01'') = Some (Inr False)"
  using password_verifies [of "\<lparr>ap_memory = 19456, ap_iterations = 2, ap_parallelism = 1\<rparr>"
      "\<lambda>pw salt p n. Some (take n (pw @ salt @ ''0123456789''))" "''a''" "''s''" 4 "''as01''" "''b''" "''bs01''"] by simp

end
