(* ===== verification/Http.thy ===== *)
theory Http
  imports Credentials
begin

text \<open>
  internal/httpx: problem.go, security.go and middleware.go.  A handler is a function on the
  request, the response writer and the state behind it; a middleware takes a handler and gives
  one.  A panic is an outcome, so that what was written and changed before it stays visible.
  Strings are bytes, a header's values a list, and loggers and durations are left out; the access
  log keeps its method, path and status.
\<close>

section \<open>Requests and responses\<close>

text \<open>
  \<open>rq_Header\<close>, \<open>rq_Query\<close> and \<open>rq_PathValue\<close> give the first value or the empty string, as \<open>Get\<close>
  and \<open>PathValue\<close> do.  \<open>rq_Body\<close> is what can be read of the body and whether reading on fails.
  The last four fields are the values middlewares put into the context.
\<close>

record http_request =
  rq_Method :: string
  rq_Path :: string
  rq_Header :: "string \<Rightarrow> string"
  rq_Query :: "string \<Rightarrow> string"
  rq_PathValue :: "string \<Rightarrow> string"
  rq_Cookie :: "string \<Rightarrow> string option"
  rq_RemoteAddr :: string
  rq_TLS :: bool
  rq_Body :: "string \<times> bool"
  cx_RequestID :: string
  cx_CorrelationID :: string
  cx_Claims :: "Claims option"
  cx_Deadline :: "time option"

record FieldError =
  fe_Field :: string
  fe_Message :: string

record Problem =
  pb_Type :: string
  pb_Title :: string
  pb_Status :: int
  pb_Detail :: string
  pb_Instance :: string
  pb_RequestID :: string
  pb_Errors :: "FieldError list"

text \<open>A body: an encoded value, an encoded problem, or the literal text of the encoder's failure.\<close>

datatype 'p payload = Payload 'p | ProblemPayload Problem | EncodeFailed

type_synonym header_values = "string \<Rightarrow> string list"

text \<open>
  \<open>rw_sent\<close> is the status line with the headers as they were then; \<open>rw_status\<close> is what the
  \<open>statusRecorder\<close> of the access log holds, the last status any handler asked for.
\<close>

record 'p writer =
  rw_header :: header_values
  rw_sent :: "(int \<times> header_values) option"
  rw_body :: "'p payload list"
  rw_status :: int

definition fresh_writer :: "'p writer" where
  "fresh_writer = \<lparr>rw_header = (\<lambda>_. []), rw_sent = None, rw_body = [], rw_status = 0\<rparr>"

definition header_Set :: "string \<Rightarrow> string \<Rightarrow> 'p writer \<Rightarrow> 'p writer" where
  "header_Set k v w = w\<lparr>rw_header := (rw_header w)(k := [v])\<rparr>"

definition header_Add :: "string \<Rightarrow> string \<Rightarrow> 'p writer \<Rightarrow> 'p writer" where
  "header_Add k v w = w\<lparr>rw_header := (rw_header w)(k := rw_header w k @ [v])\<rparr>"

text \<open>A second \<open>WriteHeader\<close> reaches the recorder but not the connection.\<close>

definition WriteHeader :: "int \<Rightarrow> 'p writer \<Rightarrow> 'p writer" where
  "WriteHeader code w = (let w = w\<lparr>rw_status := code\<rparr> in
     case rw_sent w of None \<Rightarrow> w\<lparr>rw_sent := Some (code, rw_header w)\<rparr> | Some _ \<Rightarrow> w)"

definition Write :: "'p payload \<Rightarrow> 'p writer \<Rightarrow> 'p writer" where
  "Write b w = (let w = (if rw_status w = 0 then w\<lparr>rw_status := 200\<rparr> else w);
                    w = (case rw_sent w of None \<Rightarrow> w\<lparr>rw_sent := Some (200, rw_header w)\<rparr> | Some _ \<Rightarrow> w)
     in w\<lparr>rw_body := rw_body w @ [b]\<rparr>)"

section \<open>Problems\<close>

record APIError =
  api_Status :: int
  api_Slug :: string
  api_Title :: string
  api_Detail :: string
  api_Fields :: "FieldError list"
  api_Err :: error

definition problemBase :: string where "problemBase = ''https://pitchlab.dev/errors/''"

definition ErrNotFound :: "string \<Rightarrow> APIError" where
  "ErrNotFound resource = \<lparr>api_Status = 404, api_Slug = ''not-found'', api_Title = ''Resource not found'',
     api_Detail = resource @ '' does not exist'', api_Fields = [], api_Err = None\<rparr>"

definition ErrValidation :: "string \<Rightarrow> FieldError list \<Rightarrow> APIError" where
  "ErrValidation detail fs = \<lparr>api_Status = 400, api_Slug = ''validation-failed'', api_Title = ''Validation failed'',
     api_Detail = detail, api_Fields = fs, api_Err = None\<rparr>"

definition ErrConflict :: "string \<Rightarrow> APIError" where
  "ErrConflict detail = \<lparr>api_Status = 409, api_Slug = ''conflict'', api_Title = ''Conflict'',
     api_Detail = detail, api_Fields = [], api_Err = None\<rparr>"

definition ErrUnauthorized :: "string \<Rightarrow> APIError" where
  "ErrUnauthorized detail = \<lparr>api_Status = 401, api_Slug = ''unauthorized'', api_Title = ''Authentication required'',
     api_Detail = detail, api_Fields = [], api_Err = None\<rparr>"

definition ErrTooManyRequests :: "string \<Rightarrow> APIError" where
  "ErrTooManyRequests detail = \<lparr>api_Status = 429, api_Slug = ''too-many-requests'', api_Title = ''Too many requests'',
     api_Detail = detail, api_Fields = [], api_Err = None\<rparr>"

definition ErrForbidden :: "string \<Rightarrow> APIError" where
  "ErrForbidden detail = \<lparr>api_Status = 403, api_Slug = ''forbidden'', api_Title = ''Forbidden'',
     api_Detail = detail, api_Fields = [], api_Err = None\<rparr>"

definition ErrUnprocessable :: "string \<Rightarrow> APIError" where
  "ErrUnprocessable detail = \<lparr>api_Status = 422, api_Slug = ''unprocessable'', api_Title = ''Unprocessable request'',
     api_Detail = detail, api_Fields = [], api_Err = None\<rparr>"

definition ErrInternal :: "error \<Rightarrow> APIError" where
  "ErrInternal err = \<lparr>api_Status = 500, api_Slug = ''internal'', api_Title = ''Internal server error'',
     api_Detail = ''an unexpected error occurred'', api_Fields = [], api_Err = err\<rparr>"

definition ErrUnavailable :: "string \<Rightarrow> error \<Rightarrow> APIError" where
  "ErrUnavailable detail err = \<lparr>api_Status = 503, api_Slug = ''unavailable'', api_Title = ''Service unavailable'',
     api_Detail = detail, api_Fields = [], api_Err = err\<rparr>"

lemmas api_error_defs = ErrNotFound_def ErrValidation_def ErrConflict_def ErrUnauthorized_def ErrTooManyRequests_def
  ErrForbidden_def ErrUnprocessable_def ErrInternal_def ErrUnavailable_def

text \<open>\<open>(e *APIError) Error\<close>.\<close>

definition APIError_Error :: "APIError \<Rightarrow> string" where
  "APIError_Error e = (case api_Err e of Some err \<Rightarrow> api_Title e @ '': '' @ Error_text err
     | None \<Rightarrow> api_Title e @ '': '' @ api_Detail e)"

text \<open>What a handler returns: an \<open>*APIError\<close>, or any other error.\<close>

datatype handler_error = IsAPI APIError | NotAPI goerr

text \<open>
  \<open>WriteJSON\<close>: the body is encoded first; \<open>json_ok\<close> says whether \<open>json.Marshal\<close> accepts a value
  of the API.  A problem is strings and numbers and always encodes.
\<close>

definition encodes :: "('p \<Rightarrow> bool) \<Rightarrow> 'p payload \<Rightarrow> bool" where
  "encodes json_ok b = (case b of Payload p \<Rightarrow> json_ok p | _ \<Rightarrow> True)"

definition WriteJSON :: "('p \<Rightarrow> bool) \<Rightarrow> http_request \<Rightarrow> int \<Rightarrow> 'p payload \<Rightarrow> 'p writer \<Rightarrow> 'p writer" where
  "WriteJSON json_ok r status payload w =
     (if \<not> encodes json_ok payload then
        Write EncodeFailed (WriteHeader 500 (header_Set ''Content-Type'' ''application/problem+json'' w))
      else
        (let w = WriteHeader status (header_Set ''Content-Type''
                   (if 400 \<le> status then ''application/problem+json'' else ''application/json'') w)
         in if rq_Method r = ''HEAD'' then w else Write payload w))"

definition problem_of :: "http_request \<Rightarrow> APIError \<Rightarrow> Problem" where
  "problem_of r e = \<lparr>pb_Type = problemBase @ api_Slug e, pb_Title = api_Title e, pb_Status = api_Status e,
     pb_Detail = api_Detail e, pb_Instance = rq_Path r, pb_RequestID = cx_RequestID r, pb_Errors = api_Fields e\<rparr>"

definition WriteProblem :: "('p \<Rightarrow> bool) \<Rightarrow> http_request \<Rightarrow> handler_error \<Rightarrow> 'p writer \<Rightarrow> 'p writer" where
  "WriteProblem json_ok r err w =
     (let e = (case err of IsAPI e \<Rightarrow> e | NotAPI g \<Rightarrow> ErrInternal (Some g)) in
      WriteJSON json_ok r (api_Status e) (ProblemPayload (problem_of r e)) w)"

section \<open>Addresses and schemes\<close>

text \<open>\<open>strings.Split(s, ",")[0]\<close>.\<close>

definition first_field :: "string \<Rightarrow> string" where
  "first_field s = split_on (CHR '','') s ! 0"

definition forwardedProto :: "http_request \<Rightarrow> string" where
  "forwardedProto r =
     (if rq_TLS r then ''https''
      else if rq_Header r ''X-Forwarded-Proto'' \<noteq> '''' then ToLower (TrimSpace (first_field (rq_Header r ''X-Forwarded-Proto'')))
      else ''http'')"

definition IsSecureRequest :: "http_request \<Rightarrow> bool" where
  "IsSecureRequest r \<longleftrightarrow> forwardedProto r = ''https''"

text \<open>\<open>strings.LastIndex(host, ":")\<close>, and \<open>strings.Trim(host, "[]")\<close>.\<close>

definition last_colon :: "string \<Rightarrow> int" where
  "last_colon s = (let ps = split_on (CHR '':'') s in
     if length ps = 1 then - 1 else int (length s) - int (length (ps ! (length ps - 1))) - 1)"

definition trim_brackets :: "string \<Rightarrow> string" where
  "trim_brackets s = (let b = (\<lambda>c. c = CHR ''['' \<or> c = CHR '']'') in rev (dropWhile b (rev (dropWhile b s))))"

definition ClientIP :: "http_request \<Rightarrow> string" where
  "ClientIP r =
     (if rq_Header r ''X-Forwarded-For'' \<noteq> '''' then TrimSpace (first_field (rq_Header r ''X-Forwarded-For''))
      else if rq_Header r ''X-Real-IP'' \<noteq> '''' then TrimSpace (rq_Header r ''X-Real-IP'')
      else (let host = rq_RemoteAddr r; i = last_colon host
            in trim_brackets (if 0 < i then take (nat i) host else host)))"

section \<open>Middlewares\<close>

text \<open>How a handler ends: it returns, panics, or panics with \<open>http.ErrAbortHandler\<close>.\<close>

datatype outcome = Returned | Panicked | Aborted

type_synonym ('p, 's) http_Handler = "http_request \<Rightarrow> 'p writer \<times> 's \<Rightarrow> outcome \<times> 'p writer \<times> 's"

definition sanitizeID :: "string \<Rightarrow> string" where
  "sanitizeID s =
     (let s = TrimSpace s in
      if s = '''' \<or> 64 < length s then ''''
      else if list_all (\<lambda>c. (97 \<le> (of_char c :: nat) \<and> (of_char c :: nat) \<le> 122) \<or> (65 \<le> (of_char c :: nat) \<and> (of_char c :: nat) \<le> 90)
             \<or> is_digit c \<or> c = CHR ''-'' \<or> c = CHR ''_'') s then s
      else '''')"

definition RequestID :: "string \<Rightarrow> ('p, 's) http_Handler \<Rightarrow> ('p, 's) http_Handler" where
  "RequestID newID next r ws =
     (let given = sanitizeID (rq_Header r ''X-Request-ID''); rid = (if given = '''' then newID else given);
          corr = sanitizeID (rq_Header r ''X-Correlation-ID'');
          r1 = r\<lparr>cx_RequestID := rid\<rparr>;
          (r2, w) = (if corr \<noteq> '''' then (r1\<lparr>cx_CorrelationID := corr\<rparr>, header_Set ''X-Correlation-ID'' corr (fst ws)) else (r1, fst ws))
      in next r2 (header_Set ''X-Request-ID'' rid w, snd ws))"

definition MaxRequestBody :: nat where "MaxRequestBody = 64 * 1024"

definition LimitBody :: "('p, 's) http_Handler \<Rightarrow> ('p, 's) http_Handler" where
  "LimitBody next r =
     next (r\<lparr>rq_Body := (take MaxRequestBody (fst (rq_Body r)), snd (rq_Body r) \<or> MaxRequestBody < length (fst (rq_Body r)))\<rparr>)"

definition SecurityHeaders :: "('p, 's) http_Handler \<Rightarrow> ('p, 's) http_Handler" where
  "SecurityHeaders next r ws =
     (let w = fst ws;
          w = header_Set ''X-Content-Type-Options'' ''nosniff'' w;
          w = header_Set ''X-Frame-Options'' ''DENY'' w;
          w = header_Set ''Referrer-Policy'' ''no-referrer'' w;
          w = header_Set ''Permissions-Policy'' ''camera=(), microphone=(), geolocation=()'' w;
          w = header_Set ''Content-Security-Policy'' (''default-src 'none'; frame-ancestors 'none'' @ [CHR 0x27]) w;
          w = (if forwardedProto r = ''https'' then header_Set ''Strict-Transport-Security'' ''max-age=31536000; includeSubDomains'' w else w)
      in next r (w, snd ws))"

text \<open>A line of the access log.\<close>

record access_line =
  al_Method :: string
  al_Path :: string
  al_Status :: int

definition Logging :: "('p, 's) http_Handler \<Rightarrow> ('p, 's \<times> access_line list) http_Handler" where
  "Logging next r ws =
     (case next r ((fst ws)\<lparr>rw_status := 0\<rparr>, fst (snd ws)) of
        (Returned, w, s) \<Rightarrow>
          (let w = (if rw_status w = 0 then w\<lparr>rw_status := 200\<rparr> else w) in
           if rq_Path r = ''/healthz'' \<or> rq_Path r = ''/metrics'' then (Returned, w, s, snd (snd ws))
           else (Returned, w, s, snd (snd ws) @ [\<lparr>al_Method = rq_Method r, al_Path = rq_Path r, al_Status = rw_status w\<rparr>]))
      | (bad, w, s) \<Rightarrow> (bad, w, s, snd (snd ws)))"

definition Recovery :: "('p \<Rightarrow> bool) \<Rightarrow> ('p, 's) http_Handler \<Rightarrow> ('p, 's) http_Handler" where
  "Recovery json_ok next r ws =
     (case next r ws of
        (Panicked, w, s) \<Rightarrow> (Returned, WriteProblem json_ok r (IsAPI (ErrInternal None)) w, s)
      | other \<Rightarrow> other)"

definition CORS :: "(string \<Rightarrow> bool) \<Rightarrow> ('p, 's) http_Handler \<Rightarrow> ('p, 's) http_Handler" where
  "CORS allowed next r ws =
     (let origin = rq_Header r ''Origin''; w = fst ws;
          w = (if origin \<noteq> '''' \<and> allowed origin
               then header_Set ''Access-Control-Expose-Headers'' ''X-Request-ID, X-Correlation-ID, X-Cache, ETag''
                      (header_Add ''Vary'' ''Origin'' (header_Set ''Access-Control-Allow-Origin'' origin w))
               else w)
      in if rq_Method r = ''OPTIONS'' then
           (if origin \<noteq> '''' \<and> \<not> allowed origin then (Returned, WriteHeader 403 w, snd ws)
            else (Returned, WriteHeader 204
                   (header_Set ''Access-Control-Max-Age'' ''600''
                     (header_Set ''Access-Control-Allow-Headers'' ''Content-Type, X-Request-ID, X-Correlation-ID, If-None-Match''
                       (header_Set ''Access-Control-Allow-Methods'' ''GET, POST, OPTIONS'' w))), snd ws))
         else next r (w, snd ws))"

text \<open>\<open>context.WithTimeout\<close> never extends a deadline.\<close>

definition Timeout :: "duration \<Rightarrow> time \<Rightarrow> ('p, 's) http_Handler \<Rightarrow> ('p, 's) http_Handler" where
  "Timeout d now next r =
     next (r\<lparr>cx_Deadline := Some (case cx_Deadline r of None \<Rightarrow> now + d | Some t \<Rightarrow> min t (now + d))\<rparr>)"

end
