(* ===== verification/ApiBase.thy ===== *)
theory ApiBase
  imports Http RateLimit AnomalyEval
begin

text \<open>
  What the handlers of internal/api act on: the tables, the limiter with the Redis layer behind it
  (the one cache.Cache of cmd/api/main.go), and the statements outside a transaction, which may
  fail without saying whether the server applied them, with other writers in between.  A handler
  gives a response, an \<open>*APIError\<close> or a panic; \<open>handler\<close> of server.go turns that into bytes.
\<close>

section \<open>The state behind the handlers\<close>

record User =
  us_ID :: uuid
  us_Username :: string
  us_DisplayName :: string
  us_PasswordHash :: string
  us_Role :: string
  us_IsActive :: bool
  us_LastLoginAt :: "time option"

record api_tables =
  tb_db :: database
  tb_users :: "User list"
  tb_anomalies :: "Anomaly list"
  tb_aggregates :: "uuid \<rightharpoonup> SessionAggregates"

record api_world =
  ap_tables :: api_tables
  ap_limiter :: Limiter
  ap_calls :: nat

text \<open>
  The environment, indexed by the calls made so far: what other writers have done to the tables,
  the fault of a statement, the answer of Redis, the clock, and new identifiers.
\<close>

record api_env =
  ev_others :: "nat \<Rightarrow> api_tables \<Rightarrow> api_tables"
  ev_fault :: "nat \<Rightarrow> (lib_error \<times> bool) option"
  ev_reply :: "nat \<Rightarrow> reply"
  ev_now :: "nat \<Rightarrow> time"
  ev_new_uuid :: "nat \<Rightarrow> lib_error + uuid"
  ev_hashing :: hashing

section \<open>Handlers\<close>

datatype 'a result = Fine 'a | Fail APIError | Crash

type_synonym 'a hm = "api_world \<Rightarrow> 'a result \<times> api_world"

definition h_return :: "'a \<Rightarrow> 'a hm" where
  "h_return a w = (Fine a, w)"

definition h_fail :: "APIError \<Rightarrow> 'a hm" where
  "h_fail e w = (Fail e, w)"

definition h_bind :: "'a hm \<Rightarrow> ('a \<Rightarrow> 'b hm) \<Rightarrow> 'b hm" where
  "h_bind m k w = (case m w of (Fine a, w') \<Rightarrow> k a w' | (Fail e, w') \<Rightarrow> (Fail e, w') | (Crash, w') \<Rightarrow> (Crash, w'))"

text \<open>A check that may fail: \<open>if err != nil { return err }\<close>.\<close>

definition h_try :: "APIError + 'a \<Rightarrow> 'a hm" where
  "h_try x = (case x of Inl e \<Rightarrow> h_fail e | Inr a \<Rightarrow> h_return a)"

text \<open>One statement; its Go error is left to the handler.\<close>

definition sql :: "api_env \<Rightarrow> (api_tables \<Rightarrow> (goerr + 'a) \<times> api_tables) \<Rightarrow> (goerr + 'a) hm" where
  "sql ev q w =
     (let n = ap_calls w; t = ev_others ev n (ap_tables w); w1 = w\<lparr>ap_calls := n + 1, ap_tables := t\<rparr> in
      case ev_fault ev n of
        None \<Rightarrow> (case q t of (Inl e, _) \<Rightarrow> (Fine (Inl e), w1) | (Inr r, t') \<Rightarrow> (Fine (Inr r), w1\<lparr>ap_tables := t'\<rparr>))
      | Some (e, applied) \<Rightarrow> (Fine (Inl (lib e)),
          if applied then (case q t of (Inl _, _) \<Rightarrow> w1 | (Inr _, t') \<Rightarrow> w1\<lparr>ap_tables := t'\<rparr>) else w1))"

text \<open>A query whose every error is an internal one.\<close>

definition sql_ok :: "api_env \<Rightarrow> (api_tables \<Rightarrow> (goerr + 'a) \<times> api_tables) \<Rightarrow> 'a hm" where
  "sql_ok ev q = h_bind (sql ev q) (\<lambda>x. case x of Inl e \<Rightarrow> h_fail (ErrInternal (Some e)) | Inr a \<Rightarrow> h_return a)"

text \<open>A lookup that answers 404 for a missing row.\<close>

definition sql_found :: "api_env \<Rightarrow> string \<Rightarrow> (api_tables \<Rightarrow> (goerr + 'a) \<times> api_tables) \<Rightarrow> 'a hm" where
  "sql_found ev what q = h_bind (sql ev q) (\<lambda>x. case x of
       Inl e \<Rightarrow> if IsNoRows e then h_fail (ErrNotFound what) else h_fail (ErrInternal (Some e))
     | Inr a \<Rightarrow> h_return a)"

definition clock :: "api_env \<Rightarrow> time hm" where
  "clock ev w = (Fine (ev_now ev (ap_calls w)), w\<lparr>ap_calls := ap_calls w + 1\<rparr>)"

definition one_row :: "'a option \<Rightarrow> goerr + 'a" where
  "one_row r = (case r of None \<Rightarrow> Inl ErrNoRows | Some a \<Rightarrow> Inr a)"

section \<open>Responses\<close>

datatype SameSite = SameSiteStrictMode

record Cookie =
  ck_Name :: string
  ck_Value :: string
  ck_Path :: string
  ck_HttpOnly :: bool
  ck_Secure :: bool
  ck_SameSite :: SameSite
  ck_Expires :: time
  ck_MaxAge :: int

record 'p response =
  rp_status :: int
  rp_headers :: "(string \<times> string) list"
  rp_cookies :: "Cookie list"
  rp_payload :: 'p

text \<open>\<open>httpx.WriteJSON(w, r, http.StatusOK, v)\<close> with nothing set before it.\<close>

definition ok_json :: "'p \<Rightarrow> 'p response" where
  "ok_json v = \<lparr>rp_status = 200, rp_headers = [], rp_cookies = [], rp_payload = v\<rparr>"

text \<open>\<open>Server.handler\<close>; \<open>cookie_text\<close> is \<open>(*http.Cookie).String\<close>.\<close>

definition handler ::
  "('p \<Rightarrow> bool) \<Rightarrow> (Cookie \<Rightarrow> string) \<Rightarrow> (http_request \<Rightarrow> 's \<Rightarrow> 'p response result \<times> 's) \<Rightarrow> ('p, 's) http_Handler" where
  "handler json_ok cookie_text fn r ws =
     (case fn r (snd ws) of
        (Crash, s) \<Rightarrow> (Panicked, fst ws, s)
      | (Fail e, s) \<Rightarrow> (Returned, WriteProblem json_ok r (IsAPI e) (fst ws), s)
      | (Fine rp, s) \<Rightarrow>
          (let w = fold (\<lambda>c. header_Add ''Set-Cookie'' (cookie_text c)) (rp_cookies rp) (fst ws);
               w = fold (\<lambda>kv. header_Set (fst kv) (snd kv)) (rp_headers rp) w
           in (Returned, WriteJSON json_ok r (rp_status rp) (Payload (rp_payload rp)) w, s)))"

section \<open>Rules\<close>

lemma h_bind_cases:
  assumes "h_bind m k w = (x, w2)"
  obtains (Fine) a w1 where "m w = (Fine a, w1)" "k a w1 = (x, w2)"
  | (Fail) e where "m w = (Fail e, w2)" "x = Fail e"
  | (Crash) "m w = (Crash, w2)" "x = Crash"
  using assms unfolding h_bind_def by (auto split: prod.splits result.splits)

lemma h_bind_Fine: "m w = (Fine a, w1) \<Longrightarrow> h_bind m k w = k a w1"
  by (simp add: h_bind_def)

lemma h_bind_Fail: "m w = (Fail e, w1) \<Longrightarrow> h_bind m k w = (Fail e, w1)"
  by (simp add: h_bind_def)

lemma h_bind_return [simp]: "h_bind (h_return a) k = k a"
  by (simp add: h_bind_def h_return_def fun_eq_iff)

lemma h_bind_fail [simp]: "h_bind (h_fail e) k = h_fail e"
  by (simp add: h_bind_def h_fail_def fun_eq_iff)

lemma h_try_simps [simp]: "h_try (Inl e) = h_fail e" "h_try (Inr a) = h_return a"
  by (simp_all add: h_try_def)

lemma one_row_simps [simp]: "one_row None = Inl ErrNoRows" "one_row (Some a) = Inr a"
  by (simp_all add: one_row_def)

text \<open>A statement runs to a result and leaves the limiter alone.\<close>

lemma sql_cases:
  obtains x w' where "sql ev q w = (Fine x, w')" "ap_limiter w' = ap_limiter w" "ap_calls w' = ap_calls w + 1"
proof -
  have "\<exists>x w'. sql ev q w = (Fine x, w') \<and> ap_limiter w' = ap_limiter w \<and> ap_calls w' = ap_calls w + 1"
    by (auto simp: sql_def Let_def split: option.splits prod.splits sum.splits)
  with that show ?thesis by blast
qed

text \<open>What a step never does to the state, whatever it answers.\<close>

definition h_keeps :: "(api_world \<Rightarrow> 'k) \<Rightarrow> 'a hm \<Rightarrow> bool" where
  "h_keeps f m \<longleftrightarrow> (\<forall>w. f (snd (m w)) = f w)"

lemma h_keepsD: "h_keeps f m \<Longrightarrow> m w = (x, w') \<Longrightarrow> f w' = f w"
  unfolding h_keeps_def by (metis snd_conv)

lemma h_keeps_bind: "h_keeps f m \<Longrightarrow> (\<And>a. h_keeps f (k a)) \<Longrightarrow> h_keeps f (h_bind m k)"
  unfolding h_keeps_def h_bind_def by (auto split: prod.split result.split) (metis snd_conv)+

lemma h_keeps_pure [simp]: "h_keeps f (h_return a)" "h_keeps f (h_fail e)" "h_keeps f (h_try x)"
  by (auto simp: h_keeps_def h_return_def h_fail_def h_try_def split: sum.split)

lemma h_keeps_sql: "h_keeps ap_limiter (sql ev q)"
  unfolding h_keeps_def by (metis sql_cases snd_conv)

text \<open>
  What a step keeps of the tables as long as the other writers keep it.
\<close>

definition h_stable :: "(api_tables \<Rightarrow> bool) \<Rightarrow> 'a hm \<Rightarrow> bool" where
  "h_stable P m \<longleftrightarrow> (\<forall>w. P (ap_tables w) \<longrightarrow> P (ap_tables (snd (m w))))"

named_theorems stable_rules

lemma h_stableD: "h_stable P m \<Longrightarrow> m w = (x, w') \<Longrightarrow> P (ap_tables w) \<Longrightarrow> P (ap_tables w')"
  unfolding h_stable_def by (metis snd_conv)

lemma h_stable_bind [stable_rules]: "h_stable P m \<Longrightarrow> (\<And>a. h_stable P (k a)) \<Longrightarrow> h_stable P (h_bind m k)"
  unfolding h_stable_def h_bind_def by (auto split: prod.split result.split)

lemma h_stable_pure [stable_rules]: "h_stable P (h_return a)" "h_stable P (h_fail e)" "h_stable P (h_try x)" "h_stable P (clock ev)"
  by (auto simp: h_stable_def h_return_def h_fail_def h_try_def clock_def split: sum.split)

lemma h_stable_sql:
  assumes "\<And>n t. P t \<Longrightarrow> P (ev_others ev n t)" "\<And>t. P t \<Longrightarrow> P (snd (q t))"
  shows "h_stable P (sql ev q)"
  unfolding h_stable_def
proof (intro allI impI)
  fix w :: api_world assume "P (ap_tables w)"
  then have "P (ev_others ev (ap_calls w) (ap_tables w))" by (rule assms(1))
  with assms(2) [OF this] show "P (ap_tables (snd (sql ev q w)))"
    by (auto simp: sql_def Let_def split: option.split prod.split sum.split)
qed

text \<open>A query that only reads.\<close>

definition reads :: "(api_tables \<Rightarrow> (goerr + 'a) \<times> api_tables) \<Rightarrow> bool" where
  "reads q \<longleftrightarrow> (\<forall>t. snd (q t) = t)"

lemma h_stable_reads:
  assumes "\<And>n t. P t \<Longrightarrow> P (ev_others ev n t)" "reads q"
  shows "h_stable P (sql ev q)" "h_stable P (sql_ok ev q)" "h_stable P (sql_found ev what q)"
proof -
  show s: "h_stable P (sql ev q)" using assms by (intro h_stable_sql) (simp_all add: reads_def)
  show "h_stable P (sql_ok ev q)" "h_stable P (sql_found ev what q)"
    unfolding sql_ok_def sql_found_def
    by (rule h_stable_bind [OF s], simp add: h_stable_pure split: sum.split)+
qed

text \<open>A run that serves one request after the other.\<close>

fun serve_all :: "(http_request \<Rightarrow> 'p response hm) \<Rightarrow> http_request list \<Rightarrow> api_world \<Rightarrow> 'p response result list \<times> api_world" where
  "serve_all h [] w = ([], w)"
| "serve_all h (r # rs) w = (case h r w of (x, w1) \<Rightarrow> (case serve_all h rs w1 of (xs, w2) \<Rightarrow> (x # xs, w2)))"

end
