(* ===== verification/Login.thy ===== *)
theory Login
  imports ApiBase Config
begin

text \<open>
  internal/api/handlers_auth.go and middleware_auth.go with the statements of
  internal/db/dbgen/users.sql.go they use: signing in and out, who the caller is, and the checks
  in front of the other handlers.  The JSON decoder, Argon2, the token codec and HMAC, and
  PostgreSQL's \<open>lower\<close> are parameters.
\<close>

section \<open>Users\<close>

record LoginRequest =
  lr_Username :: string
  lr_Password :: string

record UserDTO =
  ud_ID :: uuid
  ud_Username :: string
  ud_DisplayName :: string
  ud_Role :: string

record LoginResponse =
  lp_User :: UserDTO
  lp_ExpiresAt :: time

definition toUserDTO :: "User \<Rightarrow> UserDTO" where
  "toUserDTO u = \<lparr>ud_ID = us_ID u, ud_Username = us_Username u, ud_DisplayName = us_DisplayName u, ud_Role = us_Role u\<rparr>"

text \<open>
  \<open>al_decode\<close> is \<open>json.NewDecoder(r.Body).Decode\<close> on what can be read of the body; \<open>al_lower\<close>
  is \<open>lower\<close> of the database.
\<close>

record auth_lib =
  al_tokens :: token_lib
  al_IDKey :: argon2_IDKey
  al_decode :: "string \<times> bool \<Rightarrow> LoginRequest option"
  al_lower :: "string \<Rightarrow> string"

text \<open>The parts of \<open>Server\<close> these handlers read; \<open>sv_signer\<close> is the secret of the signer, if any.\<close>

record Server =
  sv_cfg :: API
  sv_signer :: "string option"

definition GetUserByUsername :: "auth_lib \<Rightarrow> string \<Rightarrow> api_tables \<Rightarrow> (goerr + User) \<times> api_tables" where
  "GetUserByUsername al name t = (one_row (find (\<lambda>u. al_lower al (us_Username u) = al_lower al name) (tb_users t)), t)"

definition GetUser :: "uuid \<Rightarrow> api_tables \<Rightarrow> (goerr + User) \<times> api_tables" where
  "GetUser i t = (one_row (find (\<lambda>u. us_ID u = i) (tb_users t)), t)"

definition RecordLogin :: "time \<Rightarrow> uuid \<Rightarrow> api_tables \<Rightarrow> (goerr + unit) \<times> api_tables" where
  "RecordLogin now i t = (Inr (), t\<lparr>tb_users := update_where (\<lambda>u. us_ID u = i) (\<lambda>u. u\<lparr>us_LastLoginAt := Some now\<rparr>) (tb_users t)\<rparr>)"

section \<open>Signing in\<close>

definition SessionCookie :: string where "SessionCookie = ''pitchlab_session''"

text \<open>\<open>int(d.Seconds())\<close>, truncated; exact for the durations of a cookie.\<close>

definition whole_seconds :: "duration \<Rightarrow> int" where
  "whole_seconds d = (if d < 0 then - ((- d) div Second) else d div Second)"

definition sessionCookie :: "http_request \<Rightarrow> string \<Rightarrow> time \<Rightarrow> time \<Rightarrow> Cookie" where
  "sessionCookie r value expires now = \<lparr>ck_Name = SessionCookie, ck_Value = value, ck_Path = ''/'', ck_HttpOnly = True,
     ck_Secure = IsSecureRequest r, ck_SameSite = SameSiteStrictMode, ck_Expires = expires,
     ck_MaxAge = whole_seconds (time_Sub expires now)\<rparr>"

definition limiter_Allow :: "api_env \<Rightarrow> string \<Rightarrow> int \<Rightarrow> bool hm" where
  "limiter_Allow ev key limit w =
     (let n = ap_calls w in case Limiter_Allow (ev_hashing ev) (ev_reply ev n) key limit (ev_now ev n) (ap_limiter w) of
        ((ok, _), l) \<Rightarrow> (Fine ok, w\<lparr>ap_calls := n + 1, ap_limiter := l\<rparr>))"

definition limiter_Reset :: "api_env \<Rightarrow> string \<Rightarrow> unit hm" where
  "limiter_Reset ev key w =
     (let n = ap_calls w in
      (Fine (), w\<lparr>ap_calls := n + 1, ap_limiter := Limiter_Reset (ev_hashing ev) (ev_reply ev n) key (ap_limiter w)\<rparr>))"

fun throttle :: "api_env \<Rightarrow> (string \<times> int) list \<Rightarrow> unit hm" where
  "throttle ev [] = h_return ()"
| "throttle ev ((key, limit) # rest) =
     h_bind (limiter_Allow ev key limit) (\<lambda>allowed.
       if \<not> allowed then h_fail (ErrTooManyRequests ''too many login attempts; try again in a few minutes'')
       else throttle ev rest)"

definition account_key :: "string \<Rightarrow> string" where
  "account_key username = ''user:'' @ ToLower username"

definition rejectLogin :: "'a hm" where
  "rejectLogin = h_fail (ErrUnauthorized ''invalid username or password'')"

text \<open>\<open>DummyVerify\<close> derives a key and drops it.\<close>

definition DummyVerify :: "auth_lib \<Rightarrow> string \<Rightarrow> unit hm" where
  "DummyVerify al password w =
     (case al_IDKey al password (replicate argonSaltLength (CHR 0x00)) current_params argonKeyLength of
        None \<Rightarrow> (Crash, w) | Some _ \<Rightarrow> (Fine (), w))"

definition check_password :: "auth_lib \<Rightarrow> string \<Rightarrow> string \<Rightarrow> bool hm" where
  "check_password al password stored w =
     (case VerifyPassword (al_IDKey al) password stored of
        None \<Rightarrow> (Crash, w)
      | Some (Inl err) \<Rightarrow> (Fail (ErrInternal (Some err)), w)
      | Some (Inr ok) \<Rightarrow> (Fine ok, w))"

definition issue_token :: "api_env \<Rightarrow> auth_lib \<Rightarrow> string \<Rightarrow> User \<Rightarrow> (string \<times> Claims) hm" where
  "issue_token ev al secret user =
     h_bind (clock ev) (\<lambda>now. (\<lambda>w. case Issue (al_tokens al) secret now (ev_new_uuid ev (ap_calls w)) (us_ID user) (us_Username user) (us_Role user) of
        Inl err \<Rightarrow> (Fail (ErrInternal (Some err)), w\<lparr>ap_calls := ap_calls w + 1\<rparr>)
      | Inr tc \<Rightarrow> (Fine tc, w\<lparr>ap_calls := ap_calls w + 1\<rparr>)))"

text \<open>What follows an accepted password.\<close>

definition sign_in :: "api_env \<Rightarrow> auth_lib \<Rightarrow> string \<Rightarrow> http_request \<Rightarrow> string \<Rightarrow> User \<Rightarrow> LoginResponse response hm" where
  "sign_in ev al secret r username user =
     h_bind (issue_token ev al secret user) (\<lambda>(token, claims).
     h_bind (limiter_Reset ev (account_key username)) (\<lambda>_.
     h_bind (clock ev) (\<lambda>db_now.
     h_bind (sql ev (RecordLogin db_now (us_ID user))) (\<lambda>_.
     h_bind (clock ev) (\<lambda>now.
     h_return \<lparr>rp_status = 200, rp_headers = [], rp_cookies = [sessionCookie r token (Expiry claims) now],
       rp_payload = \<lparr>lp_User = toUserDTO user, lp_ExpiresAt = Expiry claims\<rparr>\<rparr>)))))"

text \<open>What follows the throttle.\<close>

definition authenticate :: "api_env \<Rightarrow> auth_lib \<Rightarrow> string \<Rightarrow> http_request \<Rightarrow> string \<Rightarrow> string \<Rightarrow> LoginResponse response hm" where
  "authenticate ev al secret r username password =
     h_bind (sql ev (GetUserByUsername al username)) (\<lambda>found. case found of
       Inl err \<Rightarrow>
         if IsNoRows err then h_bind (DummyVerify al password) (\<lambda>_. rejectLogin)
         else h_fail (ErrInternal (Some err))
     | Inr user \<Rightarrow>
         if \<not> us_IsActive user then h_bind (DummyVerify al password) (\<lambda>_. rejectLogin)
         else h_bind (check_password al password (us_PasswordHash user)) (\<lambda>ok.
           if \<not> ok then rejectLogin else sign_in ev al secret r username user))"

definition login :: "api_env \<Rightarrow> auth_lib \<Rightarrow> Server \<Rightarrow> http_request \<Rightarrow> LoginResponse response hm" where
  "login ev al sv r =
     (case sv_signer sv of
        None \<Rightarrow> h_fail (ErrUnavailable ''authentication is not configured'' None)
      | Some secret \<Rightarrow> (case al_decode al (rq_Body r) of
          None \<Rightarrow> h_fail (ErrValidation ''body must be a JSON object with a username and a password'' [])
        | Some req \<Rightarrow>
            (let username = TrimSpace (lr_Username req) in
             if username = '''' \<or> lr_Password req = '''' then h_fail (ErrValidation ''username and password are required'' [])
             else h_bind (throttle ev [(account_key username, AccountAttemptLimit), (''addr:'' @ ClientIP r, AddressAttemptLimit)]) (\<lambda>_.
                  authenticate ev al secret r username (lr_Password req)))))"

section \<open>Signing out, and the caller\<close>

text \<open>\<open>time.Unix(0, 0)\<close>.\<close>

definition unix_epoch :: time where "unix_epoch = 62135596800 * Second"

datatype auth_payload = SignedOut | CurrentUser UserDTO time

definition logout :: "api_env \<Rightarrow> http_request \<Rightarrow> auth_payload response hm" where
  "logout ev r = h_bind (clock ev) (\<lambda>now.
     h_return \<lparr>rp_status = 200, rp_headers = [], rp_cookies = [(sessionCookie r '''' unix_epoch now)\<lparr>ck_MaxAge := - 1\<rparr>], rp_payload = SignedOut\<rparr>)"

definition currentUser :: "api_env \<Rightarrow> http_request \<Rightarrow> auth_payload response hm" where
  "currentUser ev r =
     (case cx_Claims r of
        None \<Rightarrow> h_fail (ErrUnauthorized ''not signed in'')
      | Some claims \<Rightarrow>
          h_bind (sql ev (GetUser (cl_Subject claims))) (\<lambda>found. case found of
            Inl err \<Rightarrow> if IsNoRows err then h_fail (ErrUnauthorized ''account no longer exists'') else h_fail (ErrInternal (Some err))
          | Inr user \<Rightarrow>
              if \<not> us_IsActive user then h_fail (ErrUnauthorized ''account is disabled'')
              else h_return (ok_json (CurrentUser (toUserDTO user) (Expiry claims)))))"

section \<open>The checks in front of the handlers\<close>

text \<open>They act on the world of the handlers and leave what lies beside it alone.\<close>

definition RoleAdmin :: string where "RoleAdmin = ''admin''"
definition RoleViewer :: string where "RoleViewer = ''viewer''"

definition bearer_token :: "http_request \<Rightarrow> string" where
  "bearer_token r = (case strip_prefix ''Bearer '' (rq_Header r ''Authorization'') of Some token \<Rightarrow> TrimSpace token | None \<Rightarrow> '''')"

definition TokenFromRequest :: "http_request \<Rightarrow> string" where
  "TokenFromRequest r =
     (case rq_Cookie r SessionCookie of
        Some v \<Rightarrow> if v \<noteq> '''' then v else bearer_token r
      | None \<Rightarrow> bearer_token r)"

definition verifyRequest :: "api_env \<Rightarrow> auth_lib \<Rightarrow> Server \<Rightarrow> http_request \<Rightarrow> Claims hm" where
  "verifyRequest ev al sv r =
     (case sv_signer sv of
        None \<Rightarrow> h_fail (ErrUnavailable ''authentication is not configured'' None)
      | Some secret \<Rightarrow>
          (let token = TokenFromRequest r in
           if token = '''' then h_fail (ErrUnauthorized ''no session'')
           else h_bind (clock ev) (\<lambda>now. case Verify (al_tokens al) secret now token of
               Inl err \<Rightarrow> if errors_Is err ErrTokenExpired then h_fail (ErrUnauthorized ''session expired'')
                          else h_fail (ErrUnauthorized ''invalid session'')
             | Inr claims \<Rightarrow> h_return claims)))"

definition RequireAuth ::
  "('p \<Rightarrow> bool) \<Rightarrow> api_env \<Rightarrow> auth_lib \<Rightarrow> Server \<Rightarrow> ('p, api_world \<times> 'x) http_Handler \<Rightarrow> ('p, api_world \<times> 'x) http_Handler" where
  "RequireAuth json_ok ev al sv next r ws =
     (case verifyRequest ev al sv r (fst (snd ws)) of
        (Fine claims, s) \<Rightarrow> next (r\<lparr>cx_Claims := Some claims\<rparr>) (fst ws, s, snd (snd ws))
      | (Fail e, s) \<Rightarrow> (Returned, WriteProblem json_ok r (IsAPI e) (fst ws), s, snd (snd ws))
      | (Crash, s) \<Rightarrow> (Panicked, fst ws, s, snd (snd ws)))"

definition RequireRole ::
  "('p \<Rightarrow> bool) \<Rightarrow> api_env \<Rightarrow> auth_lib \<Rightarrow> Server \<Rightarrow> string \<Rightarrow> ('p, api_world \<times> 'x) http_Handler \<Rightarrow> ('p, api_world \<times> 'x) http_Handler" where
  "RequireRole json_ok ev al sv role next = RequireAuth json_ok ev al sv (\<lambda>r ws.
     case cx_Claims r of
       Some claims \<Rightarrow> if cl_Role claims = role then next r ws
          else (Returned, WriteProblem json_ok r (IsAPI (ErrForbidden (''this action requires the '' @ role @ '' role''))) (fst ws), snd ws)
     | None \<Rightarrow> (Returned, WriteProblem json_ok r (IsAPI (ErrForbidden (''this action requires the '' @ role @ '' role''))) (fst ws), snd ws))"

definition RequireSameOrigin :: "('p \<Rightarrow> bool) \<Rightarrow> Server \<Rightarrow> ('p, 's) http_Handler \<Rightarrow> ('p, 's) http_Handler" where
  "RequireSameOrigin json_ok sv next r ws =
     (if rq_Method r \<in> {''GET'', ''HEAD'', ''OPTIONS''} then next r ws
      else (let origin = rq_Header r ''Origin'' in
        if origin \<noteq> '''' \<and> \<not> AllowsOrigin (sv_cfg sv) origin
        then (Returned, WriteProblem json_ok r (IsAPI (ErrForbidden ''origin is not allowed'')) (fst ws), snd ws)
        else next r ws))"

section \<open>How many guesses one account allows\<close>

text \<open>
  What is left of an account's budget: in the in-process window and in the shared counter.
  \<open>open_until\<close> says that neither of them ends before \<open>E\<close>.
\<close>

definition local_left :: "int \<Rightarrow> string \<Rightarrow> local_windows \<Rightarrow> int" where
  "local_left limit k m = (case m k of None \<Rightarrow> limit | Some w \<Rightarrow> max 0 (limit - win_count w))"

definition shared_left :: "int \<Rightarrow> string \<Rightarrow> redis \<Rightarrow> int" where
  "shared_left limit k r = (case r k of None \<Rightarrow> limit | Some (v, _) \<Rightarrow> max 0 (limit - counter_value (Some v)))"

definition guesses_left :: "hashing \<Rightarrow> int \<Rightarrow> string \<Rightarrow> Limiter \<Rightarrow> int" where
  "guesses_left h limit k l = local_left limit k (local_map l)
     + (case remote l of None \<Rightarrow> 0 | Some c \<Rightarrow> if cache_enabled c then shared_left limit (rateLimitKey h k) (server c) else 0)"

definition open_until :: "hashing \<Rightarrow> time \<Rightarrow> string \<Rightarrow> Limiter \<Rightarrow> bool" where
  "open_until h E k l \<longleftrightarrow>
     (case local_map l k of None \<Rightarrow> True | Some w \<Rightarrow> E \<le> win_reset w)
     \<and> (case remote l of None \<Rightarrow> True | Some c \<Rightarrow> (case server c (rateLimitKey h k) of None \<Rightarrow> True | Some (_, e) \<Rightarrow> E \<le> e))"

lemma local_left_attempt:
  assumes "local_attempt k' t m = (n, m')" "t < E" "E \<le> t + LoginAttemptWindow" "0 \<le> limit"
    and "case m k of None \<Rightarrow> True | Some w \<Rightarrow> E \<le> win_reset w"
  shows "(case m' k of None \<Rightarrow> True | Some w \<Rightarrow> E \<le> win_reset w)
     \<and> local_left limit k m' + (if k' = k \<and> n \<le> limit then 1 else 0) \<le> local_left limit k m"
proof (cases "k' = k")
  case True
  have live: "local_live k t m = (case m k of None \<Rightarrow> 0 | Some w \<Rightarrow> win_count w)"
    using assms(2,5) by (auto simp: local_live_def time_After_def split: option.splits)
  have reset: "E \<le> (if local_opened k m \<le> t \<or> m k = None then t + LoginAttemptWindow else local_opened k m - 1)"
    using assms(2,3,5) by (auto simp: local_opened_def split: option.splits)
  from local_attempt_simps(1,2) [OF assms(1)] True live reset assms(4) show ?thesis
    by (auto simp: local_left_def split: option.splits)
next
  case False
  from local_attempt_simps(3) [OF assms(1), of k] False assms(2,5) have "m' k = m k" by auto
  with assms(5) False show ?thesis by (simp add: local_left_def)
qed

lemma shared_left_attempt:
  assumes "shared_attempt k' t r = (n, r')" "t < E" "E \<le> t + LoginAttemptWindow" "0 \<le> limit"
    and "case r k of None \<Rightarrow> True | Some (_, e) \<Rightarrow> E \<le> e"
  shows "(case r' k of None \<Rightarrow> True | Some (_, e) \<Rightarrow> E \<le> e)
     \<and> shared_left limit k r' + (if k' = k \<and> n \<le> limit then 1 else 0) \<le> shared_left limit k r"
proof (cases "k' = k")
  case True
  have "redis_get t k r = map_option fst (r k)"
    using assms(2,5) by (auto simp: redis_get_def split: option.splits)
  with shared_attempt_simps [OF assms(1)] True assms(3,4) show ?thesis
    by (auto simp: shared_left_def shared_live_def counter_value_def split: option.splits)
next
  case False
  with shared_attempt_simps [OF assms(1)] assms(5) show ?thesis by (simp add: shared_left_def)
qed

lemma open_until_parts:
  "open_until h E k l \<Longrightarrow> (case local_map l k of None \<Rightarrow> True | Some w \<Rightarrow> E \<le> win_reset w)"
  "open_until h E k l \<Longrightarrow> remote l = Some c \<Longrightarrow> (case server c (rateLimitKey h k) of None \<Rightarrow> True | Some (_, e) \<Rightarrow> E \<le> e)"
  by (simp_all add: open_until_def)

text \<open>One attempt on any key: the budget of \<open>k\<close> pays for what is allowed on it.\<close>

lemma Allow_budget:
  assumes "open_until h E k l" "t < E" "E \<le> t + LoginAttemptWindow" "0 \<le> limit"
    and "Limiter_Allow h rep key lm t l = ((ok, rem), l')" "key = k \<Longrightarrow> lm = limit"
  shows "open_until h E k l' \<and> guesses_left h limit k l' + (if key = k \<and> ok then 1 else 0) \<le> guesses_left h limit k l"
proof -
  obtain n m where lo: "local_attempt key t (local_map l) = (n, m)" by fastforce
  note L = local_left_attempt [OF lo assms(2-4) open_until_parts(1) [OF assms(1)]]
  show ?thesis
  proof (cases "remote l")
    case None
    with assms(5,6) L lo show ?thesis
      by (cases "key = k") (auto simp: Allow_local open_until_def guesses_left_def)
  next
    case (Some c)
    show ?thesis
    proof (cases "cache_enabled c")
      case False
      then have "Limiter_Allow h rep key lm t l = ((n \<le> lm, remaining n lm), l\<lparr>remote := Some c, local_map := m\<rparr>)"
        using Some lo by (simp add: Limiter_Allow_def Increment_def cache_call_def allowLocal_def Let_def)
      with assms(1,5,6) Some False L show ?thesis
        by (cases "key = k") (auto simp: open_until_def guesses_left_def)
    next
      case True
      obtain n2 r where sh: "shared_attempt (rateLimitKey h key) t (server c) = (n2, r)" by fastforce
      note S = shared_left_attempt [OF sh assms(2-4) open_until_parts(2) [OF assms(1) Some]]
      show ?thesis
      proof (cases rep)
        case Up
        from Allow_Up [OF Some True sh, of lm] obtain c' where
          a: "Limiter_Allow h Up key lm t l = ((n2 \<le> lm, remaining n2 lm), l\<lparr>remote := Some c'\<rparr>)"
            "cache_enabled c'" "server c' = r" by blast
        with assms(1,5,6) Some True S Up show ?thesis by (auto simp: open_until_def guesses_left_def split: if_splits)
      next
        case (Down ap)
        from Allow_Down [OF Some True lo, of h ap lm] obtain c' where
          a: "Limiter_Allow h (Down ap) key lm t l = ((n \<le> lm, remaining n lm), l\<lparr>remote := Some c', local_map := m\<rparr>)"
            "cache_enabled c'" "server c' = (if ap then snd (shared_attempt (rateLimitKey h key) t (server c)) else server c)"
          by blast
        have s: "shared_left limit (rateLimitKey h k) (server c') \<le> shared_left limit (rateLimitKey h k) (server c)
          \<and> (case server c' (rateLimitKey h k) of None \<Rightarrow> True | Some (_, e) \<Rightarrow> E \<le> e)"
          using a(3) S sh open_until_parts(2) [OF assms(1) Some] by (auto split: if_splits)
        with a assms(5,6) Some True L Down show ?thesis
          by (cases "key = k") (auto simp: open_until_def guesses_left_def)
      qed
    qed
  qed
qed

lemma Reset_other:
  assumes "key \<noteq> k" "rateLimitKey h key \<noteq> rateLimitKey h k"
  shows "open_until h E k (Limiter_Reset h rep key l) = open_until h E k l"
    "guesses_left h limit k (Limiter_Reset h rep key l) = guesses_left h limit k l"
proof -
  have "local_map (Limiter_Reset h rep key l) k = local_map l k"
    using assms(1) by (simp add: Limiter_Reset_def Let_def split: option.split)
  moreover have "case remote (Limiter_Reset h rep key l) of None \<Rightarrow> remote l = None
     | Some c' \<Rightarrow> \<exists>c. remote l = Some c \<and> cache_enabled c' = cache_enabled c \<and> server c' (rateLimitKey h k) = server c (rateLimitKey h k)"
    using assms(2) by (auto simp: Limiter_Reset_def Let_def Forget_def cache_call_def split: option.split reply.split)
  ultimately show "open_until h E k (Limiter_Reset h rep key l) = open_until h E k l"
    "guesses_left h limit k (Limiter_Reset h rep key l) = guesses_left h limit k l"
    by (auto simp: open_until_def guesses_left_def local_left_def shared_left_def split: option.splits)
qed

section \<open>Runs of sign-ins\<close>

text \<open>\<open>key\<close> is the throttle key a request counts on; \<open>reveals\<close> says that its answer depends on the password.\<close>

definition request_key :: "auth_lib \<Rightarrow> http_request \<Rightarrow> string" where
  "request_key al r = (case al_decode al (rq_Body r) of None \<Rightarrow> '''' | Some req \<Rightarrow> account_key (TrimSpace (lr_Username req)))"

definition reveals :: "'a result \<Rightarrow> bool" where
  "reveals x \<longleftrightarrow> (case x of Fine _ \<Rightarrow> True | Fail e \<Rightarrow> api_Status e = 401 | Crash \<Rightarrow> False)"

fun sign_ins :: "api_env \<Rightarrow> auth_lib \<Rightarrow> Server \<Rightarrow> http_request list \<Rightarrow> api_world \<Rightarrow> (string \<times> LoginResponse response result) list \<times> api_world" where
  "sign_ins ev al sv [] w = ([], w)"
| "sign_ins ev al sv (r # rs) w =
     (case login ev al sv r w of (x, w1) \<Rightarrow> (case sign_ins ev al sv rs w1 of (xs, w2) \<Rightarrow> ((request_key al r, x) # xs, w2)))"

text \<open>The clock stays within one attempt window that ends at \<open>E\<close>.\<close>

definition clock_within :: "api_env \<Rightarrow> time \<Rightarrow> bool" where
  "clock_within ev E \<longleftrightarrow> (\<forall>n. ev_now ev n < E \<and> E \<le> ev_now ev n + LoginAttemptWindow)"

lemma limiter_Allow_budget:
  assumes "limiter_Allow ev key lm w = (x, w')" "open_until (ev_hashing ev) E k (ap_limiter w)" "clock_within ev E" "0 \<le> limit"
    and "key = k \<Longrightarrow> lm = limit"
  obtains ok where "x = Fine ok" "open_until (ev_hashing ev) E k (ap_limiter w')"
    "guesses_left (ev_hashing ev) limit k (ap_limiter w') + (if key = k \<and> ok then 1 else 0) \<le> guesses_left (ev_hashing ev) limit k (ap_limiter w)"
proof -
  obtain ok rem l where a: "Limiter_Allow (ev_hashing ev) (ev_reply ev (ap_calls w)) key lm (ev_now ev (ap_calls w)) (ap_limiter w) = ((ok, rem), l)"
    by (metis surj_pair)
  with assms(1) have "x = Fine ok" "ap_limiter w' = l" by (auto simp: limiter_Allow_def Let_def)
  moreover have "open_until (ev_hashing ev) E k l
     \<and> guesses_left (ev_hashing ev) limit k l + (if key = k \<and> ok then 1 else 0) \<le> guesses_left (ev_hashing ev) limit k (ap_limiter w)"
    using assms(3) by (intro Allow_budget [OF assms(2) _ _ assms(4) a assms(5)]) (auto simp: clock_within_def)
  ultimately show ?thesis using that by blast
qed

lemma account_key_neq_addr [simp]: "account_key u \<noteq> CHR ''a'' # a" "CHR ''a'' # a \<noteq> account_key u"
  by (simp_all add: account_key_def)

text \<open>The two throttles of a sign-in; only one that lets it pass reaches the password.\<close>

lemma throttle_budget:
  assumes "throttle ev [(account_key u, AccountAttemptLimit), (''addr:'' @ a, lm)] w = (x, w')"
    and "open_until (ev_hashing ev) E (account_key v) (ap_limiter w)" "clock_within ev E"
  shows "open_until (ev_hashing ev) E (account_key v) (ap_limiter w')
     \<and> guesses_left (ev_hashing ev) AccountAttemptLimit (account_key v) (ap_limiter w')
         + (if account_key u = account_key v \<and> x = Fine () then 1 else 0)
       \<le> guesses_left (ev_hashing ev) AccountAttemptLimit (account_key v) (ap_limiter w)
     \<and> (x = Fine () \<or> (\<exists>e. x = Fail e \<and> api_Status e = 429))"
proof -
  have lim0: "0 \<le> AccountAttemptLimit" by (simp add: AccountAttemptLimit_def)
  obtain y w1 where y: "limiter_Allow ev (account_key u) AccountAttemptLimit w = (y, w1)" by fastforce
  from limiter_Allow_budget [OF y assms(2,3) lim0] obtain ok where ok: "y = Fine ok"
    "open_until (ev_hashing ev) E (account_key v) (ap_limiter w1)"
    "guesses_left (ev_hashing ev) AccountAttemptLimit (account_key v) (ap_limiter w1) + (if account_key u = account_key v \<and> ok then 1 else 0)
       \<le> guesses_left (ev_hashing ev) AccountAttemptLimit (account_key v) (ap_limiter w)" by blast
  show ?thesis
  proof (cases ok)
    case False
    with assms(1) y ok show ?thesis by (auto simp: h_bind_def h_fail_def ErrTooManyRequests_def)
  next
    case True
    obtain z w2 where z: "limiter_Allow ev (''addr:'' @ a) lm w1 = (z, w2)" by fastforce
    from limiter_Allow_budget [OF z ok(2) assms(3) lim0] obtain ok2 where ok2: "z = Fine ok2"
      "open_until (ev_hashing ev) E (account_key v) (ap_limiter w2)"
      "guesses_left (ev_hashing ev) AccountAttemptLimit (account_key v) (ap_limiter w2)
         \<le> guesses_left (ev_hashing ev) AccountAttemptLimit (account_key v) (ap_limiter w1)" by auto
    have r: "(x, w') = (if ok2 then (Fine (), w2) else (Fail (ErrTooManyRequests ''too many login attempts; try again in a few minutes''), w2))"
      using assms(1) y z ok(1) ok2(1) True by (cases ok2) (simp_all add: h_bind_def h_fail_def h_return_def)
    with ok ok2 True show ?thesis
      by (cases ok2; cases "account_key u = account_key v") (simp_all add: ErrTooManyRequests_def)
  qed
qed

text \<open>What comes after the throttle touches the limiter only when the sign-in succeeds.\<close>

lemma h_keeps_check: "h_keeps ap_limiter (check_password al p st)" "h_keeps ap_limiter (DummyVerify al p)"
  "h_keeps ap_limiter (clock ev)" "h_keeps ap_limiter (issue_token ev al s u)"
proof -
  show "h_keeps ap_limiter (check_password al p st)"
    by (auto simp: h_keeps_def check_password_def split: option.split sum.split)
  show "h_keeps ap_limiter (DummyVerify al p)"
    by (auto simp: h_keeps_def DummyVerify_def split: option.split)
  show c: "h_keeps ap_limiter (clock ev)"
    by (auto simp: h_keeps_def clock_def)
  show "h_keeps ap_limiter (issue_token ev al s u)"
    unfolding issue_token_def
    by (rule h_keeps_bind [OF c]) (auto simp: h_keeps_def split: sum.split)
qed

lemma h_keeps_reject [simp]: "h_keeps f rejectLogin"
  by (simp add: rejectLogin_def)

text \<open>A sign-in that fails after the token was issued does not exist.\<close>

lemma sign_in_limiter:
  assumes "sign_in ev al secret r u user w = (x, w')"
  shows "(\<exists>rep. ap_limiter w' = Limiter_Reset (ev_hashing ev) rep (account_key u) (ap_limiter w) \<and> (\<exists>y. x = Fine y))
     \<or> (ap_limiter w' = ap_limiter w \<and> (\<exists>e. x = Fail e \<and> api_Status e = 500))"
proof -
  obtain y w1 where y: "issue_token ev al secret user w = (y, w1)" by fastforce
  have l1: "ap_limiter w1 = ap_limiter w" using h_keepsD [OF h_keeps_check(4) y] .
  show ?thesis
  proof (cases y)
    case (Fail e)
    with y have "api_Status e = 500"
      by (auto simp: issue_token_def h_bind_def clock_def ErrInternal_def split: sum.splits)
    with assms y Fail l1 show ?thesis by (auto simp: sign_in_def h_bind_def)
  next
    case Crash
    with y show ?thesis by (auto simp: issue_token_def h_bind_def clock_def split: sum.splits)
  next
    case (Fine tc)
    obtain token claims where tc: "tc = (token, claims)" by (cases tc)
    define w2 where "w2 = snd (limiter_Reset ev (account_key u) w1)"
    have l2: "ap_limiter w2 = Limiter_Reset (ev_hashing ev) (ev_reply ev (ap_calls w1)) (account_key u) (ap_limiter w)"
      by (simp add: w2_def limiter_Reset_def Let_def l1)
    have r2: "limiter_Reset ev (account_key u) w1 = (Fine (), w2)" by (simp add: w2_def limiter_Reset_def Let_def)
    obtain n w3 where c3: "clock ev w2 = (Fine n, w3)" "ap_limiter w3 = ap_limiter w2"
      by (simp add: clock_def)
    obtain q w4 where c4: "sql ev (RecordLogin n (us_ID user)) w3 = (Fine q, w4)" "ap_limiter w4 = ap_limiter w3"
      by (metis sql_cases)
    obtain n2 w5 where c5: "clock ev w4 = (Fine n2, w5)" "ap_limiter w5 = ap_limiter w4"
      by (simp add: clock_def)
    have "x = Fine \<lparr>rp_status = 200, rp_headers = [], rp_cookies = [sessionCookie r token (Expiry claims) n2],
       rp_payload = \<lparr>lp_User = toUserDTO user, lp_ExpiresAt = Expiry claims\<rparr>\<rparr>" "w' = w5"
      using assms y Fine tc r2 c3 c4 c5 by (auto simp: sign_in_def h_bind_def h_return_def)
    with l2 c3 c4 c5 show ?thesis by auto
  qed
qed

lemma authenticate_limiter:
  assumes "authenticate ev al secret r u p w = (x, w')"
  shows "(\<exists>y rep. x = Fine y \<and> ap_limiter w' = Limiter_Reset (ev_hashing ev) rep (account_key u) (ap_limiter w))
     \<or> ((\<forall>y. x \<noteq> Fine y) \<and> ap_limiter w' = ap_limiter w)"
proof -
  obtain found w1 where f: "sql ev (GetUserByUsername al u) w = (Fine found, w1)" "ap_limiter w1 = ap_limiter w"
    by (metis sql_cases)
  define K where "K = (\<lambda>found. case found of
       Inl err \<Rightarrow>
         if IsNoRows err then h_bind (DummyVerify al p) (\<lambda>_. rejectLogin)
         else h_fail (ErrInternal (Some err))
     | Inr user \<Rightarrow>
         if \<not> us_IsActive user then h_bind (DummyVerify al p) (\<lambda>_. rejectLogin)
         else h_bind (check_password al p (us_PasswordHash user)) (\<lambda>ok.
           if \<not> ok then rejectLogin else sign_in ev al secret r u user))"
  have a: "K found w1 = (x, w')"
    using assms h_bind_Fine [of "sql ev (GetUserByUsername al u)" w found w1 K, OF f(1)]
    unfolding authenticate_def K_def by simp
  have rejected: "(\<forall>y. x \<noteq> Fine y) \<and> ap_limiter w' = ap_limiter w1"
    if "h_bind (DummyVerify al p) (\<lambda>_. rejectLogin) w1 = (x, w')"
    using that by (auto simp: h_bind_def DummyVerify_def rejectLogin_def h_fail_def split: option.splits)
  show ?thesis
  proof (cases found)
    case (Inl err)
    with a f rejected show ?thesis by (cases "IsNoRows err") (auto simp: K_def h_fail_def)
  next
    case (Inr user)
    show ?thesis
    proof (cases "us_IsActive user")
      case False
      with a f Inr rejected show ?thesis by (auto simp: K_def)
    next
      case True
      obtain c w2 where c: "check_password al p (us_PasswordHash user) w1 = (c, w2)" by fastforce
      have l2: "ap_limiter w2 = ap_limiter w" using h_keepsD [OF h_keeps_check(1) c] f(2) by simp
      have run: "h_bind (check_password al p (us_PasswordHash user)) (\<lambda>ok. if \<not> ok then rejectLogin else sign_in ev al secret r u user) w1 = (x, w')"
        using a Inr True by (simp add: K_def)
      show ?thesis
      proof (cases "c = Fine True")
        case True
        with run c have "sign_in ev al secret r u user w2 = (x, w')" by (simp add: h_bind_def)
        from sign_in_limiter [OF this] l2 show ?thesis by auto
      next
        case False
        with run c l2 show ?thesis
          by (cases c) (auto simp: h_bind_def rejectLogin_def h_fail_def split: if_splits)
      qed
    qed
  qed
qed

lemma login_budget:
  assumes "login ev al sv r w = (x, w')" "open_until (ev_hashing ev) E (account_key v) (ap_limiter w)" "clock_within ev E"
    and inj: "rateLimitKey (ev_hashing ev) (request_key al r) = rateLimitKey (ev_hashing ev) (account_key v) \<Longrightarrow> request_key al r = account_key v"
    and fails: "request_key al r = account_key v \<Longrightarrow> \<forall>y. x \<noteq> Fine y"
  shows "open_until (ev_hashing ev) E (account_key v) (ap_limiter w')
     \<and> guesses_left (ev_hashing ev) AccountAttemptLimit (account_key v) (ap_limiter w')
         + (if request_key al r = account_key v \<and> reveals x then 1 else 0)
       \<le> guesses_left (ev_hashing ev) AccountAttemptLimit (account_key v) (ap_limiter w)"
proof (cases "\<exists>secret req. sv_signer sv = Some secret \<and> al_decode al (rq_Body r) = Some req
      \<and> TrimSpace (lr_Username req) \<noteq> '''' \<and> lr_Password req \<noteq> ''''")
  case False
  with assms(1,2) show ?thesis
    by (auto simp: login_def Let_def h_fail_def reveals_def ErrUnavailable_def ErrValidation_def split: option.splits if_splits)
next
  case True
  then obtain secret req where req: "sv_signer sv = Some secret" "al_decode al (rq_Body r) = Some req"
    "TrimSpace (lr_Username req) \<noteq> ''''" "lr_Password req \<noteq> ''''" by blast
  let ?u = "TrimSpace (lr_Username req)"
  have key: "request_key al r = account_key ?u" using req(2) by (simp add: request_key_def)
  obtain y w1 where y: "throttle ev [(account_key ?u, AccountAttemptLimit), (''addr:'' @ ClientIP r, AddressAttemptLimit)] w = (y, w1)"
    by fastforce
  note T = throttle_budget [OF y assms(2,3)]
  have run: "(case y of Fine _ \<Rightarrow> authenticate ev al secret r ?u (lr_Password req) w1 | Fail e \<Rightarrow> (Fail e, w1) | Crash \<Rightarrow> (Crash, w1)) = (x, w')"
    using assms(1) req y by (simp add: login_def Let_def h_bind_def)
  show ?thesis
  proof (cases y)
    case (Fine _)
    with run have a: "authenticate ev al secret r ?u (lr_Password req) w1 = (x, w')" by simp
    from authenticate_limiter [OF a] show ?thesis
    proof
      assume "\<exists>y rep. x = Fine y \<and> ap_limiter w' = Limiter_Reset (ev_hashing ev) rep (account_key ?u) (ap_limiter w1)"
      then obtain y2 rep where r: "x = Fine y2" "ap_limiter w' = Limiter_Reset (ev_hashing ev) rep (account_key ?u) (ap_limiter w1)" by blast
      with fails key have ne: "account_key ?u \<noteq> account_key v" by auto
      with inj key have "rateLimitKey (ev_hashing ev) (account_key ?u) \<noteq> rateLimitKey (ev_hashing ev) (account_key v)" by auto
      from Reset_other [OF ne this] T r ne key show ?thesis by (auto split: if_splits)
    next
      assume "(\<forall>y. x \<noteq> Fine y) \<and> ap_limiter w' = ap_limiter w1"
      with T key Fine show ?thesis by (auto split: if_splits)
    qed
  next
    case (Fail e)
    with run T show ?thesis by (auto simp: reveals_def split: if_splits)
  next
    case Crash
    with T show ?thesis by auto
  qed
qed

lemma sign_ins_budget:
  assumes "sign_ins ev al sv rs w = (xs, w')" "open_until (ev_hashing ev) E (account_key v) (ap_limiter w)" "clock_within ev E"
    and "\<forall>r \<in> set rs. rateLimitKey (ev_hashing ev) (request_key al r) = rateLimitKey (ev_hashing ev) (account_key v) \<longrightarrow> request_key al r = account_key v"
    and "\<forall>kx \<in> set xs. fst kx = account_key v \<longrightarrow> (\<forall>y. snd kx \<noteq> Fine y)"
  shows "int (length (filter (\<lambda>kx. fst kx = account_key v \<and> reveals (snd kx)) xs))
     \<le> guesses_left (ev_hashing ev) AccountAttemptLimit (account_key v) (ap_limiter w)"
  using assms(1,2,4,5)
proof (induction rs arbitrary: w xs)
  case Nil
  have "0 \<le> guesses_left (ev_hashing ev) AccountAttemptLimit (account_key v) (ap_limiter w)"
    by (auto simp: guesses_left_def local_left_def shared_left_def AccountAttemptLimit_def split: option.split)
  with Nil show ?case by simp
next
  case (Cons r rs)
  obtain x w1 where x: "login ev al sv r w = (x, w1)" by fastforce
  from Cons.prems(1) x obtain ys where ys: "sign_ins ev al sv rs w1 = (ys, w')" and xs: "xs = (request_key al r, x) # ys"
    by (auto split: prod.splits)
  from login_budget [OF x Cons.prems(2) assms(3)] Cons.prems(3,4) xs
  have b: "open_until (ev_hashing ev) E (account_key v) (ap_limiter w1)"
    "guesses_left (ev_hashing ev) AccountAttemptLimit (account_key v) (ap_limiter w1)
         + (if request_key al r = account_key v \<and> reveals x then 1 else 0)
       \<le> guesses_left (ev_hashing ev) AccountAttemptLimit (account_key v) (ap_limiter w)" by auto
  have "int (length (filter (\<lambda>kx. fst kx = account_key v \<and> reveals (snd kx)) ys))
     \<le> guesses_left (ev_hashing ev) AccountAttemptLimit (account_key v) (ap_limiter w1)"
    using Cons.prems(3,4) xs by (intro Cons.IH [OF ys b(1)]) auto
  with b(2) xs show ?case by (auto split: if_splits)
qed

section \<open>Properties\<close>

text \<open>
  Guessing one account's password is bounded: within one attempt window that starts with no
  attempt on the account, however the sign-ins of this and other accounts and addresses follow each
  other and whatever Redis answers or fails to, as long as none of the account's succeeds, at most 5
  of its answers depend on the password when counting in process and at most 10 with the shared
  counter.  The truncated hash is assumed
  not to give another account of the run the same Redis key.
\<close>

theorem guesses_bounded:
  assumes "sign_ins ev al sv rs w = (xs, w')" "clock_within ev E"
    and "\<forall>r \<in> set rs. rateLimitKey (ev_hashing ev) (request_key al r) = rateLimitKey (ev_hashing ev) (account_key v) \<longrightarrow> request_key al r = account_key v"
    and "\<forall>kx \<in> set xs. fst kx = account_key v \<longrightarrow> (\<forall>y. snd kx \<noteq> Fine y)"
    and "local_map (ap_limiter w) (account_key v) = None"
    and "\<And>c. remote (ap_limiter w) = Some c \<Longrightarrow> server c (rateLimitKey (ev_hashing ev) (account_key v)) = None"
  shows "length (filter (\<lambda>kx. fst kx = account_key v \<and> reveals (snd kx)) xs) \<le> (if remote (ap_limiter w) = None then 5 else 10)"
proof -
  have "open_until (ev_hashing ev) E (account_key v) (ap_limiter w)"
    using assms(5,6) by (auto simp: open_until_def split: option.split)
  from sign_ins_budget [OF assms(1) this assms(2-4)]
  have "int (length (filter (\<lambda>kx. fst kx = account_key v \<and> reveals (snd kx)) xs))
     \<le> guesses_left (ev_hashing ev) AccountAttemptLimit (account_key v) (ap_limiter w)" .
  also have "\<dots> \<le> (if remote (ap_limiter w) = None then 5 else 10)"
    using assms(5,6) by (auto simp: guesses_left_def local_left_def shared_left_def AccountAttemptLimit_def split: option.split)
  finally show ?thesis by (auto split: if_splits)
qed

definition demo_env :: api_env where
  "demo_env = \<lparr>ev_others = (\<lambda>_ t. t), ev_fault = (\<lambda>_. None), ev_reply = (\<lambda>_. Down False), ev_now = (\<lambda>_. 1),
     ev_new_uuid = (\<lambda>n. Inr n), ev_hashing = plain_hashing\<rparr>"

definition demo_auth :: auth_lib where
  "demo_auth = \<lparr>al_tokens = demo_token_lib, al_IDKey = (\<lambda>pw salt p n. Some (take n (pw @ salt))),
     al_decode = (\<lambda>b. Some \<lparr>lr_Username = '' Ada'', lr_Password = fst b\<rparr>), al_lower = ToLower\<rparr>"

definition demo_world :: api_world where
  "demo_world = \<lparr>ap_tables = \<lparr>tb_db = empty_db, tb_users = [], tb_anomalies = [], tb_aggregates = Map.empty\<rparr>,
     ap_limiter = NewLimiter (Some empty_cache), ap_calls = 0\<rparr>"

definition demo_request :: http_request where
  "demo_request = \<lparr>rq_Method = ''POST'', rq_Path = ''/api/v1/auth/login'', rq_Header = (\<lambda>_. ''''), rq_Query = (\<lambda>_. ''''),
     rq_PathValue = (\<lambda>_. ''''), rq_Cookie = (\<lambda>_. None), rq_RemoteAddr = ''10.0.0.1:999'', rq_TLS = False, rq_Body = (''x'', False),
     cx_RequestID = '''', cx_CorrelationID = '''', cx_Claims = None, cx_Deadline = None\<rparr>"

definition demo_server :: Server where
  "demo_server = \<lparr>sv_cfg = read_config demo_os, sv_signer = Some ''k''\<rparr>"

lemmas login_eval = demo_env_def demo_auth_def demo_world_def demo_request_def demo_server_def login_def authenticate_def
  h_bind_def h_fail_def h_return_def limiter_Allow_def Limiter_Allow_def Increment_def cache_call_def allowLocal_def
  local_attempt_def NewLimiter_def empty_cache_def LoginAttemptWindow_def sql_def GetUserByUsername_def IsNoRows_def
  DummyVerify_def rejectLogin_def one_row_def AccountAttemptLimit_def AddressAttemptLimit_def remaining_def Let_def

lemma demo_names: "TrimSpace '' Ada'' = ''Ada''" "account_key ''Ada'' = ''user:ada''" "ClientIP demo_request = ''10.0.0.1''"
  by code_simp+

lemma demo_refused: "map snd (fst (sign_ins demo_env demo_auth demo_server [demo_request, demo_request] demo_world))
    = [Fail (ErrUnauthorized ''invalid username or password''), Fail (ErrUnauthorized ''invalid username or password'')]"
  using demo_names(3) by (simp add: login_eval demo_names(1,2))

theorem guesses_bounded_witness:
  "length (filter (\<lambda>kx. fst kx = account_key ''Ada'' \<and> reveals (snd kx))
     (fst (sign_ins demo_env demo_auth demo_server [demo_request, demo_request] demo_world))) \<le> 10"
proof -
  obtain xs w' where run: "sign_ins demo_env demo_auth demo_server [demo_request, demo_request] demo_world = (xs, w')" by fastforce
  have xs: "map snd xs = [Fail (ErrUnauthorized ''invalid username or password''), Fail (ErrUnauthorized ''invalid username or password'')]"
    using demo_refused unfolding run by simp
  have "clock_within demo_env 2" by (simp add: clock_within_def demo_env_def LoginAttemptWindow_def)
  moreover have "request_key demo_auth demo_request = account_key ''Ada''"
    by (simp add: request_key_def demo_auth_def demo_names(1))
  moreover have "\<forall>kx \<in> set xs. \<forall>y. snd kx \<noteq> Fine y"
    using xs by (auto simp: map_eq_Cons_conv)
  ultimately have "length (filter (\<lambda>kx. fst kx = account_key ''Ada'' \<and> reveals (snd kx)) xs) \<le> 10"
    using guesses_bounded [OF run, of 2 "''Ada''"] by (simp add: demo_world_def NewLimiter_def empty_cache_def)
  then show ?thesis unfolding run by simp
qed

end
