(* ===== verification/Paging.thy ===== *)
theory Paging
  imports Http Floats "HOL-Library.Product_Lexorder"
begin

text \<open>
  internal/httpx/pagination.go: cursors, page sizes and query parameters, and what a keyset listing
  promises, as the locale \<open>keyset\<close>: the pages of a walk, each read from whatever the table holds
  by then, repeat no row and miss none that was there throughout.  The JSON of a cursor,
  \<open>uuid.Parse\<close>, \<open>strconv.ParseFloat\<close> and \<open>time.Parse\<close> are parameters.
\<close>

section \<open>Pages and cursors\<close>

record Page =
  pg_Limit :: int
  pg_NextCursor :: string
  pg_HasMore :: bool

record 'a listing =
  ls_Data :: "'a list"
  ls_Page :: Page

record Cursor =
  cu_Time :: "time option"
  cu_Name :: string
  cu_Int :: "int option"
  cu_ID :: "uuid option"

definition no_cursor :: Cursor where
  "no_cursor = \<lparr>cu_Time = None, cu_Name = '''', cu_Int = None, cu_ID = None\<rparr>"

record query_lib =
  ql_marshal_cursor :: "Cursor \<Rightarrow> string option"
  ql_unmarshal_cursor :: "string \<Rightarrow> Cursor option"
  ql_uuid_Parse :: "string \<Rightarrow> uuid option"
  ql_ParseFloat :: "string \<Rightarrow> f64 option"
  ql_time_Parse :: "string \<Rightarrow> string \<Rightarrow> time option"

definition Encode :: "query_lib \<Rightarrow> Cursor \<Rightarrow> string" where
  "Encode q c = (case ql_marshal_cursor q c of None \<Rightarrow> '''' | Some raw \<Rightarrow> b64_encode True raw)"

definition field_error :: "string \<Rightarrow> string \<Rightarrow> FieldError list" where
  "field_error f msg = [\<lparr>fe_Field = f, fe_Message = msg\<rparr>]"

definition DecodeCursor :: "query_lib \<Rightarrow> string \<Rightarrow> APIError + Cursor" where
  "DecodeCursor q token =
     (if token = '''' then Inr no_cursor
      else (case b64_decode True False token of
          None \<Rightarrow> Inl (ErrValidation ''cursor is not a valid token'' (field_error ''cursor'' ''malformed''))
        | Some raw \<Rightarrow> (case ql_unmarshal_cursor q raw of
            None \<Rightarrow> Inl (ErrValidation ''cursor is not a valid token'' (field_error ''cursor'' ''malformed''))
          | Some c \<Rightarrow> Inr c)))"

definition Limit :: "http_request \<Rightarrow> int \<Rightarrow> int \<Rightarrow> APIError + int" where
  "Limit r def mx =
     (let raw = rq_Query r ''limit'' in
      if raw = '''' then Inr def
      else (case strconv_Atoi raw of
          None \<Rightarrow> Inl (ErrValidation ''limit must be an integer'' (field_error ''limit'' ''not a number''))
        | Some n \<Rightarrow> if n < 1 \<or> mx < n
            then Inl (ErrValidation (''limit must be between 1 and '' @ show_int mx) (field_error ''limit'' ''out of range''))
            else Inr n))"

text \<open>\<open>rows[:limit]\<close> panics for a negative limit; no caller has one.\<close>

definition Paginate :: "'a list \<Rightarrow> int \<Rightarrow> 'a list \<times> bool" where
  "Paginate rows limit = (if limit < int (length rows) then (take (nat limit) rows, True) else (rows, False))"

section \<open>Query parameters\<close>

definition QueryUUID :: "query_lib \<Rightarrow> http_request \<Rightarrow> string \<Rightarrow> APIError + uuid" where
  "QueryUUID q r key =
     (let raw = TrimSpace (rq_Query r key) in
      if raw = '''' then Inl (ErrValidation (key @ '' is required'') (field_error key ''required''))
      else (case ql_uuid_Parse q raw of
          None \<Rightarrow> Inl (ErrValidation (key @ '' is not a UUID'') (field_error key ''not a UUID''))
        | Some i \<Rightarrow> Inr i))"

definition PathUUID :: "query_lib \<Rightarrow> http_request \<Rightarrow> string \<Rightarrow> APIError + uuid" where
  "PathUUID q r key =
     (case ql_uuid_Parse q (rq_PathValue r key) of
        None \<Rightarrow> Inl (ErrValidation (key @ '' is not a UUID'') (field_error key ''not a UUID''))
      | Some i \<Rightarrow> Inr i)"

definition QueryString :: "http_request \<Rightarrow> string \<Rightarrow> string option" where
  "QueryString r key = (let v = TrimSpace (rq_Query r key) in if v = '''' then None else Some v)"

definition QueryEnum :: "http_request \<Rightarrow> string \<Rightarrow> string list \<Rightarrow> APIError + string option" where
  "QueryEnum r key allowed =
     (case QueryString r key of
        None \<Rightarrow> Inr None
      | Some v \<Rightarrow> (case find (\<lambda>a. ToLower a = ToLower v) allowed of
          Some a \<Rightarrow> Inr (Some a)
        | None \<Rightarrow> Inl (ErrValidation (key @ '' must be one of: '' @ join_with '', '' allowed) (field_error key ''invalid value''))))"

definition strconv_ParseBool :: "string \<Rightarrow> bool option" where
  "strconv_ParseBool s =
     (if s \<in> set [''1'', ''t'', ''T'', ''TRUE'', ''true'', ''True''] then Some True
      else if s \<in> set [''0'', ''f'', ''F'', ''FALSE'', ''false'', ''False''] then Some False else None)"

definition QueryBool :: "http_request \<Rightarrow> string \<Rightarrow> APIError + bool option" where
  "QueryBool r key =
     (let raw = TrimSpace (rq_Query r key) in
      if raw = '''' then Inr None
      else (case strconv_ParseBool raw of
          None \<Rightarrow> Inl (ErrValidation (key @ '' must be true or false'') (field_error key ''not a boolean''))
        | Some b \<Rightarrow> Inr (Some b)))"

definition QueryFloat32 :: "query_lib \<Rightarrow> http_request \<Rightarrow> string \<Rightarrow> APIError + f64 option" where
  "QueryFloat32 q r key =
     (let raw = TrimSpace (rq_Query r key) in
      if raw = '''' then Inr None
      else (case ql_ParseFloat q raw of
          None \<Rightarrow> Inl (ErrValidation (key @ '' must be a number'') (field_error key ''not a number''))
        | Some f \<Rightarrow> Inr (Some (float32 f))))"

text \<open>The layouts are tried in order; the results are in UTC.\<close>

definition time_layouts :: "string list" where
  "time_layouts = [''2006-01-02T15:04:05.999999999Z07:00'', ''2006-01-02T15:04:05Z07:00'', ''2006-01-02'']"

definition QueryTime :: "query_lib \<Rightarrow> http_request \<Rightarrow> string \<Rightarrow> APIError + time option" where
  "QueryTime q r key =
     (let raw = TrimSpace (rq_Query r key) in
      if raw = '''' then Inr None
      else (case find (\<lambda>t. t \<noteq> None) (map (\<lambda>layout. ql_time_Parse q layout raw) time_layouts) of
          Some t \<Rightarrow> Inr t
        | None \<Rightarrow> Inl (ErrValidation (key @ '' must be a date or RFC 3339 timestamp'') (field_error key ''not a timestamp''))))"

text \<open>The included names, as the keys of the map.\<close>

definition QueryIncludes :: "http_request \<Rightarrow> string list \<Rightarrow> string list" where
  "QueryIncludes r defaults =
     (let raw = TrimSpace (rq_Query r ''include'') in
      if raw = '''' then remdups defaults
      else remdups (map ToLower (filter (\<lambda>p. p \<noteq> '''') (map TrimSpace (split_on (CHR '','') raw)))))"

section \<open>Rules\<close>

text \<open>The documented law of the cursor's JSON.\<close>

definition cursor_law :: "query_lib \<Rightarrow> bool" where
  "cursor_law q \<longleftrightarrow> (\<forall>c. \<exists>raw. raw \<noteq> '''' \<and> ql_marshal_cursor q c = Some raw \<and> ql_unmarshal_cursor q raw = Some c)"

lemma b64_encode_Nil [simp]: "b64_encode url s = '''' \<longleftrightarrow> s = ''''"
  by (cases "map of_char s :: nat list" rule: b64_sextets.cases) (auto simp: b64_encode_def)

lemma cursor_round_trip: "cursor_law q \<Longrightarrow> Encode q c \<noteq> '''' \<and> DecodeCursor q (Encode q c) = Inr c"
  unfolding cursor_law_def by (elim allE [of _ c]) (auto simp: Encode_def DecodeCursor_def b64_round_trip)

lemma Limit_bounds: "Limit r def mx = Inr n \<Longrightarrow> n = def \<or> (1 \<le> n \<and> n \<le> mx)"
  by (auto simp: Limit_def Let_def split: if_splits option.splits)

lemma Paginate_take: "0 \<le> limit \<Longrightarrow> Paginate (take (nat limit + 1) rows) limit = (take (nat limit) rows, nat limit < length rows)"
  by (auto simp: Paginate_def min_def)

text \<open>A cursor codec that keeps the law: four fields, the name last.\<close>

definition show_opt :: "int option \<Rightarrow> string" where
  "show_opt x = (case x of None \<Rightarrow> '''' | Some i \<Rightarrow> show_int i)"

definition read_opt :: "string \<Rightarrow> int option" where
  "read_opt s = (case s of [] \<Rightarrow> None | c # cs \<Rightarrow> Some (if c = CHR ''-'' then - int (read_digits cs) else int (read_digits s)))"

definition demo_query_lib :: query_lib where
  "demo_query_lib = \<lparr>
     ql_marshal_cursor = (\<lambda>c. Some (show_opt (cu_Time c) @ CHR '','' # show_opt (cu_Int c) @ CHR '','' #
        show_opt (map_option int (cu_ID c)) @ CHR '','' # cu_Name c)),
     ql_unmarshal_cursor = (\<lambda>raw. case split_on (CHR '','') raw of
        t # n # i # name \<Rightarrow> Some \<lparr>cu_Time = read_opt t, cu_Name = join_with '','' name, cu_Int = read_opt n, cu_ID = map_option nat (read_opt i)\<rparr>
      | _ \<Rightarrow> None),
     ql_uuid_Parse = (\<lambda>s. Some (read_digits s)), ql_ParseFloat = (\<lambda>_. None), ql_time_Parse = (\<lambda>_ _. None)\<rparr>"

lemma show_opt_no_comma: "CHR '','' \<notin> set (show_opt x)"
proof -
  have "CHR '','' \<notin> set (show_nat n)" for n by (rule show_nat_no) simp
  then show ?thesis by (auto simp: show_opt_def show_int_def split: option.split)
qed

lemma read_show_opt: "read_opt (show_opt x) = x"
proof (cases x)
  case (Some i)
  show ?thesis
  proof (cases "i < 0")
    case False
    have "CHR ''-'' \<notin> set (show_nat (nat i))" by (rule show_nat_no) simp
    then obtain c cs where "show_nat (nat i) = c # cs" "c \<noteq> CHR ''-''" by (cases "show_nat (nat i)") auto
    moreover have "read_digits (c # cs) = nat i" unfolding calculation(1) [symmetric] by (rule read_show_nat)
    ultimately show ?thesis using Some False by (simp add: show_opt_def show_int_def read_opt_def)
  qed (simp add: Some show_opt_def show_int_def read_opt_def read_show_nat)
qed (simp add: show_opt_def read_opt_def)

lemma demo_cursor_law: "cursor_law demo_query_lib"
  unfolding cursor_law_def
proof
  fix c :: Cursor
  let ?raw = "show_opt (cu_Time c) @ CHR '','' # show_opt (cu_Int c) @ CHR '','' # show_opt (map_option int (cu_ID c)) @ CHR '','' # cu_Name c"
  have "split_on (CHR '','') ?raw = show_opt (cu_Time c) # show_opt (cu_Int c) # show_opt (map_option int (cu_ID c)) # split_on (CHR '','') (cu_Name c)"
    by (simp add: split_on_append show_opt_no_comma)
  then have "ql_unmarshal_cursor demo_query_lib ?raw = Some c"
    by (cases c) (simp add: demo_query_lib_def read_show_opt join_split option.map_comp comp_def option.map_ident)
  then show "\<exists>raw. raw \<noteq> '''' \<and> ql_marshal_cursor demo_query_lib c = Some raw \<and> ql_unmarshal_cursor demo_query_lib raw = Some c"
    by (intro exI [of _ ?raw]) (simp add: demo_query_lib_def)
qed

section \<open>Keyset listings\<close>

text \<open>
  \<open>rows d\<close> is what the table \<open>d\<close> holds of the listing, in its order; \<open>after c\<close> is the condition a
  cursor adds to the query, and \<open>cursor r\<close> the cursor made from the last row of a page.
\<close>

locale keyset =
  fixes rows :: "'d \<Rightarrow> 'r list"
    and after :: "'c \<Rightarrow> 'r \<Rightarrow> bool"
    and cursor :: "'r \<Rightarrow> 'c"
    and precedes :: "'r \<Rightarrow> 'r \<Rightarrow> bool"
    and ok :: "'d \<Rightarrow> bool"
  assumes ordered: "ok d \<Longrightarrow> sorted_wrt precedes (rows d)"
    and after_cursor: "after (cursor x) y \<longleftrightarrow> precedes x y"
    and after_mono: "after c x \<Longrightarrow> precedes x y \<Longrightarrow> after c y"
    and precedes_trans: "precedes x y \<Longrightarrow> precedes y z \<Longrightarrow> precedes x z"
    and precedes_irrefl: "\<not> precedes x x"
begin

text \<open>One page of at most \<open>m\<close> rows: the query fetches one more.\<close>

definition fetch :: "nat \<Rightarrow> 'c option \<Rightarrow> 'd \<Rightarrow> 'r list" where
  "fetch m c d = take (m + 1) (filter (\<lambda>r. case c of None \<Rightarrow> True | Some c \<Rightarrow> after c r) (rows d))"

definition page :: "nat \<Rightarrow> 'c option \<Rightarrow> 'd \<Rightarrow> 'r list \<times> 'c option" where
  "page m c d = (case Paginate (fetch m c d) (int m) of
     (rs, hasMore) \<Rightarrow> (rs, if hasMore \<and> rs \<noteq> [] then Some (cursor (last rs)) else None))"

text \<open>A walk reads page after page, one table per page, until a page has no successor.\<close>

fun walk :: "nat \<Rightarrow> 'c option \<Rightarrow> 'd list \<Rightarrow> 'r list \<times> bool" where
  "walk m c [] = ([], False)"
| "walk m c (d # ds) =
     (case page m c d of (rs, None) \<Rightarrow> (rs, True)
      | (rs, Some c') \<Rightarrow> (case walk m (Some c') ds of (rest, fin) \<Rightarrow> (rs @ rest, fin)))"

abbreviation past :: "'c option \<Rightarrow> 'r \<Rightarrow> bool" where
  "past c r \<equiv> (case c of None \<Rightarrow> True | Some c \<Rightarrow> after c r)"

lemma page_eq: "page m c d = (take m (filter (past c) (rows d)),
    if m < length (filter (past c) (rows d)) \<and> m \<noteq> 0 then Some (cursor (last (take m (filter (past c) (rows d))))) else None)"
proof -
  have "Paginate (fetch m c d) (int m) = (take m (filter (past c) (rows d)), m < length (filter (past c) (rows d)))"
    using Paginate_take [of "int m" "filter (past c) (rows d)"] by (simp add: fetch_def)
  then show ?thesis by (auto simp: page_def)
qed

lemma sorted_wrt_take_last:
  assumes "sorted_wrt precedes xs" "0 < m" "m < length xs"
  shows "\<forall>x \<in> set (drop m xs). precedes (last (take m xs)) x"
proof
  fix x assume x: "x \<in> set (drop m xs)"
  have "sorted_wrt precedes (take m xs @ drop m xs)" using assms(1) by simp
  moreover have "last (take m xs) \<in> set (take m xs)" using assms(2,3) by (intro last_in_set) auto
  ultimately show "precedes (last (take m xs)) x" using x unfolding sorted_wrt_append by blast
qed

lemma sorted_wrt_last: "sorted_wrt precedes xs \<Longrightarrow> x \<in> set xs \<Longrightarrow> x = last xs \<or> precedes x (last xs)"
  by (induction xs) auto

text \<open>The rows of a walk are in order, and all past its starting point.\<close>

lemma walk_ordered:
  assumes "\<forall>d \<in> set ds. ok d"
  shows "sorted_wrt precedes (fst (walk m c ds)) \<and> (\<forall>r \<in> set (fst (walk m c ds)). past c r)"
  using assms
proof (induction ds arbitrary: c)
  case (Cons d ds)
  let ?rs = "filter (past c) (rows d)"
  have s: "sorted_wrt precedes ?rs" using ordered Cons.prems by (simp add: sorted_wrt_filter)
  show ?case
  proof (cases "m < length ?rs \<and> m \<noteq> 0")
    case False
    have "sorted_wrt precedes (take m ?rs)" using s by (simp add: sorted_wrt_take)
    with False show ?thesis by (auto simp: page_eq dest: in_set_takeD)
  next
    case True
    let ?l = "last (take m ?rs)"
    obtain rest fin where w: "walk m (Some (cursor ?l)) ds = (rest, fin)" by fastforce
    from Cons.IH [of "Some (cursor ?l)"] Cons.prems w
    have rest: "sorted_wrt precedes rest" "\<forall>r \<in> set rest. precedes ?l r" by (auto simp: after_cursor)
    have tk: "sorted_wrt precedes (take m ?rs)" using s by (simp add: sorted_wrt_take)
    have l: "?l \<in> set (take m ?rs)" using True by (intro last_in_set) auto
    have le: "x = ?l \<or> precedes x ?l" if "x \<in> set (take m ?rs)" for x
      using sorted_wrt_last [OF tk that] .
    have "sorted_wrt precedes (take m ?rs @ rest)"
      unfolding sorted_wrt_append using tk rest le precedes_trans by blast
    moreover have "past c r" if "r \<in> set rest" for r
    proof -
      have "past c ?l" using l in_set_takeD by fastforce
      with rest(2) that show ?thesis
        by (cases c) (auto intro: after_mono)
    qed
    ultimately show ?thesis using True w by (auto simp: page_eq dest: in_set_takeD)
  qed
qed simp

lemma ordered_distinct: "sorted_wrt precedes xs \<Longrightarrow> distinct xs"
  by (induction xs) (auto simp: precedes_irrefl)

lemma ordered_unique:
  "sorted_wrt precedes xs \<Longrightarrow> sorted_wrt precedes ys \<Longrightarrow> set xs = set ys \<Longrightarrow> xs = ys"
proof (induction xs arbitrary: ys)
  case (Cons x xs)
  then obtain y ys' where ys: "ys = y # ys'" by (cases ys) auto
  have "x = y"
  proof (rule ccontr)
    assume ne: "x \<noteq> y"
    with Cons.prems(3) ys have "x \<in> set ys'" "y \<in> set xs" by auto
    with Cons.prems(1,2) ys have "precedes y x" "precedes x y" by auto
    then show False using precedes_trans precedes_irrefl by blast
  qed
  moreover have "x \<notin> set xs" "y \<notin> set ys'" using Cons.prems(1,2) ys precedes_irrefl by auto
  ultimately have "set xs = set ys'" using Cons.prems(3) ys by auto
  with Cons.IH Cons.prems(1,2) ys \<open>x = y\<close> show ?case by simp
qed simp

text \<open>A finished walk has every row that each of its pages could have seen.\<close>

lemma walk_complete:
  assumes "\<forall>d \<in> set ds. ok d" "0 < m" "walk m c ds = (rs, True)" "\<forall>d \<in> set ds. r \<in> set (rows d)" "past c r"
  shows "r \<in> set rs"
  using assms
proof (induction ds arbitrary: c rs)
  case (Cons d ds)
  let ?xs = "filter (past c) (rows d)"
  have s: "sorted_wrt precedes ?xs" using ordered Cons.prems(1) by (simp add: sorted_wrt_filter)
  have r: "r \<in> set ?xs" using Cons.prems(4,5) by simp
  show ?case
  proof (cases "m < length ?xs")
    case False
    with Cons.prems(3) r show ?thesis by (auto simp: page_eq)
  next
    case True
    let ?l = "last (take m ?xs)"
    obtain rest where w: "walk m (Some (cursor ?l)) ds = (rest, True)" "rs = take m ?xs @ rest"
      using Cons.prems(2,3) True by (auto simp: page_eq split: prod.splits)
    show ?thesis
    proof (cases "r \<in> set (take m ?xs)")
      case True
      with w show ?thesis by simp
    next
      case False
      with r have "r \<in> set (drop m ?xs)" by (metis Un_iff append_take_drop_id set_append)
      with sorted_wrt_take_last [OF s Cons.prems(2) \<open>m < length ?xs\<close>] have "past (Some (cursor ?l)) r"
        by (simp add: after_cursor)
      with Cons.IH [OF _ Cons.prems(2) w(1)] Cons.prems(1,4) w(2) show ?thesis by auto
    qed
  qed
qed simp

text \<open>A walk over tables whose rows come from one finite set finishes within as many pages as the rows fill.\<close>

lemma walk_finishes:
  assumes "\<forall>d \<in> set ds. ok d \<and> set (rows d) \<subseteq> S" "finite S" "0 < m" "card {r \<in> S. past c r} < m * length ds"
  shows "snd (walk m c ds)"
  using assms
proof (induction ds arbitrary: c)
  case (Cons d ds)
  let ?xs = "filter (past c) (rows d)"
  have s: "sorted_wrt precedes ?xs" using ordered Cons.prems(1) by (simp add: sorted_wrt_filter)
  show ?case
  proof (cases "m < length ?xs")
    case False
    then show ?thesis by (simp add: page_eq)
  next
    case True
    let ?l = "last (take m ?xs)" and ?R = "{r \<in> S. past c r}"
    let ?R' = "{r \<in> S. past (Some (cursor ?l)) r}"
    have l: "?l \<in> set (take m ?xs)" using True Cons.prems(3) by (intro last_in_set) auto
    then have lc: "past c ?l" using in_set_takeD by fastforce
    have tk: "sorted_wrt precedes (take m ?xs)" using s by (simp add: sorted_wrt_take)
    have "?R' \<subseteq> ?R" using lc by (cases c) (auto simp: after_cursor intro: after_mono)
    moreover have "set (take m ?xs) \<subseteq> ?R" using Cons.prems(1) by (auto dest!: in_set_takeD)
    moreover have "?R' \<inter> set (take m ?xs) = {}"
      using sorted_wrt_last [OF tk] precedes_irrefl precedes_trans by (auto simp: after_cursor) blast+
    ultimately have "card ?R' + card (set (take m ?xs)) \<le> card ?R"
      using Cons.prems(2) by (subst card_Un_disjoint [symmetric]) (auto intro!: card_mono finite_subset [of ?R'])
    moreover have "card (set (take m ?xs)) = m" using distinct_card [OF ordered_distinct [OF tk]] True by simp
    ultimately have "card ?R' < m * length ds" using Cons.prems(4) by simp
    with Cons.IH [of "Some (cursor ?l)"] Cons.prems(1-3) have "snd (walk m (Some (cursor ?l)) ds)" by simp
    with True Cons.prems(3) show ?thesis by (simp add: page_eq case_prod_beta)
  qed
qed simp

text \<open>The listing on an unchanging table is read row for row.\<close>

lemma walk_all:
  assumes "ok d" "0 < m" "length (rows d) < m * n"
  shows "walk m None (replicate n d) = (rows d, True)"
proof -
  have fin: "snd (walk m None (replicate n d))"
    using assms ordered_distinct [OF ordered [OF assms(1)]]
    by (intro walk_finishes [of _ "set (rows d)"]) (auto simp: distinct_card)
  obtain rs where w: "walk m None (replicate n d) = (rs, True)" using fin by (metis prod.collapse)
  have ne: "n \<noteq> 0" using assms(3) by (cases n) auto
  have "sorted_wrt precedes rs" using walk_ordered [of "replicate n d" m None] assms(1) w by auto
  moreover have "sorted_wrt precedes (rows d)" using ordered [OF assms(1)] .
  moreover have "set rs = set (rows d)"
  proof
    show "set (rows d) \<subseteq> set rs" using walk_complete [OF _ assms(2) w] assms(1) by auto
    have "set (fst (walk m c ds)) \<subseteq> \<Union> (set ` rows ` set ds)" for c ds
      by (induction m c ds rule: walk.induct) (auto simp: page_eq split: prod.splits dest!: in_set_takeD; blast)+
    from this [of None "replicate n d"] show "set rs \<subseteq> set (rows d)" using w by (auto split: if_splits)
  qed
  ultimately have "rs = rows d"
    using ordered_unique by blast
  with w show ?thesis by simp
qed

end

section \<open>Listings by a key\<close>

text \<open>The two orders in use: ascending, and descending, by a key that no two rows of the listing share.\<close>

locale ascending =
  fixes table :: "'d \<Rightarrow> 'r list" and key :: "'r \<Rightarrow> 'k::linorder" and distinct_keys :: "'d \<Rightarrow> bool"
  assumes keys: "distinct_keys d \<Longrightarrow> distinct (map key (table d))"

sublocale ascending \<subseteq> keyset "\<lambda>d. sort_key key (table d)" "\<lambda>c r. c < key r" key "\<lambda>x y. key x < key y" distinct_keys
proof
  fix d assume "distinct_keys d"
  then have "distinct (map key (sort_key key (table d)))"
    using keys [of d] by (simp add: distinct_map)
  then have "sorted_wrt (<) (map key (sort_key key (table d)))"
    by (simp add: strict_sorted_iff)
  then show "sorted_wrt (\<lambda>x y. key x < key y) (sort_key key (table d))" by (simp add: sorted_wrt_map)
qed auto

locale descending =
  fixes table :: "'d \<Rightarrow> 'r list" and key :: "'r \<Rightarrow> 'k::linorder" and distinct_keys :: "'d \<Rightarrow> bool"
  assumes keys: "distinct_keys d \<Longrightarrow> distinct (map key (table d))"

sublocale descending \<subseteq> keyset "\<lambda>d. rev (sort_key key (table d))" "\<lambda>c r. key r < c" key "\<lambda>x y. key y < key x" distinct_keys
proof
  fix d assume "distinct_keys d"
  then have "distinct (map key (sort_key key (table d)))"
    using keys [of d] by (simp add: distinct_map)
  then have "sorted_wrt (<) (map key (sort_key key (table d)))"
    by (simp add: strict_sorted_iff)
  then show "sorted_wrt (\<lambda>x y. key y < key x) (rev (sort_key key (table d)))" by (simp add: sorted_wrt_map sorted_wrt_rev)
qed auto

end
