(* ===== verification/Listings.thy ===== *)
theory Listings
  imports ApiBase Paging Config "HOL-Library.List_Lexorder"
begin

text \<open>
  The listing endpoints of internal/api/handlers_pitches.go and handlers_athletes.go, the queries
  of internal/db/dbgen they run, and the response shapes of dto.go.  Rows are the columns of theory
  Store; columns that model does not have (birth dates, creation times) are left out of the shapes.
\<close>

section \<open>Response shapes\<close>

record MeasurementDTO =
  md_ReleaseSpeed :: "f64 option"
  md_ReleaseSpinRate :: "f64 option"
  md_SpinAxis :: "f64 option"
  md_PfxX :: "f64 option"
  md_PfxZ :: "f64 option"
  md_PlateX :: "f64 option"
  md_PlateZ :: "f64 option"
  md_ReleaseExtension :: "f64 option"
  md_ReleasePosX :: "f64 option"
  md_ReleasePosZ :: "f64 option"
  md_ArmAngle :: "f64 option"
  md_PfxXArm :: "f64 option"
  md_PlateXBat :: "f64 option"
  md_ZoneHeightNorm :: "f64 option"
  md_InZone :: "bool option"
  md_MeasurementQuality :: string

record PredictionDTO =
  pr_ModelVersion :: string
  pr_Variant :: string
  pr_Probabilities :: "(string \<times> f64) list option"
  pr_PredictedClass :: "string option"
  pr_WhiffProbability :: "f64 option"
  pr_ScoredQuantity :: f64
  pr_Score :: f64

record PitchContextDTO =
  pc_Balls :: int
  pc_Strikes :: int
  pc_OutsWhenUp :: int
  pc_Inning :: int
  pc_InningTopBot :: "string option"
  pc_Stand :: string
  pc_PThrows :: string
  pc_On1B :: bool
  pc_On2B :: bool
  pc_On3B :: bool

record PitchDTO =
  pd_ID :: uuid
  pd_SessionID :: uuid
  pd_SessionPitchIndex :: int
  pd_AtBatNumber :: int
  pd_PitchNumber :: int
  pd_ThrownAt :: time
  pd_Context :: PitchContextDTO
  pd_PitchType :: "string option"
  pd_PitchName :: "string option"
  pd_Measurement :: "MeasurementDTO option"
  pd_Predictions :: "PredictionDTO list"
  pd_ActualOutcome :: "string option"
  pd_PredictionStatus :: string
  pd_CorrelationID :: "string option"

record SessionDTO =
  sd_ID :: uuid
  sd_ExternalSessionUID :: string
  sd_PitcherAthleteID :: uuid
  sd_ExternalGameRef :: "string option"
  sd_SourceGameDate :: "time option"
  sd_OpponentTeam :: "string option"
  sd_StartedAt :: time
  sd_EndedAt :: "time option"
  sd_Status :: string
  sd_IsSynthetic :: bool
  sd_Metrics :: SessionAggregates

record AthleteDTO =
  ad_ID :: uuid
  ad_MLBAMID :: int
  ad_FullName :: string
  ad_Throws :: "string option"
  ad_Bats :: "string option"
  ad_PrimaryRole :: string

record AthleteListItemDTO =
  ai_Athlete :: AthleteDTO
  ai_SessionCount :: int
  ai_PitchCount :: int

text \<open>The parameters of these handlers beside those of the query string: the JSON of the probabilities and the collation of names.\<close>

record list_lib = query_lib +
  ll_probabilities :: "string \<Rightarrow> (string \<times> f64) list option"
  ll_sort_key :: "string \<Rightarrow> string"
  ll_uuid_text :: "uuid \<Rightarrow> string"

definition toMeasurementDTO :: "PitchMeasurement option \<Rightarrow> MeasurementDTO option" where
  "toMeasurementDTO row = (case row of
       None \<Rightarrow> None
     | Some m \<Rightarrow> if me_PitchID m = uuid_Nil then None else Some
         \<lparr>md_ReleaseSpeed = me_ReleaseSpeed m, md_ReleaseSpinRate = me_ReleaseSpinRate m, md_SpinAxis = me_SpinAxis m,
          md_PfxX = me_PfxX m, md_PfxZ = me_PfxZ m, md_PlateX = me_PlateX m, md_PlateZ = me_PlateZ m,
          md_ReleaseExtension = me_ReleaseExtension m, md_ReleasePosX = me_ReleasePosX m, md_ReleasePosZ = me_ReleasePosZ m,
          md_ArmAngle = me_ArmAngle m, md_PfxXArm = me_PfxXArm m, md_PlateXBat = me_PlateXBat m,
          md_ZoneHeightNorm = me_ZoneHeightNorm m, md_InZone = me_InZone m, md_MeasurementQuality = me_MeasurementQuality m\<rparr>)"

definition toPitchDTO :: "list_lib \<Rightarrow> Pitch \<Rightarrow> PitchMeasurement option \<Rightarrow> PitchDTO" where
  "toPitchDTO q p m = \<lparr>pd_ID = p_ID p, pd_SessionID = p_SessionID p, pd_SessionPitchIndex = p_SessionPitchIndex p,
     pd_AtBatNumber = p_AtBatNumber p, pd_PitchNumber = p_PitchNumber p, pd_ThrownAt = p_ThrownAt p,
     pd_Context = \<lparr>pc_Balls = p_Balls p, pc_Strikes = p_Strikes p, pc_OutsWhenUp = p_OutsWhenUp p, pc_Inning = p_Inning p,
       pc_InningTopBot = p_InningTopbot p, pc_Stand = p_Stand p, pc_PThrows = p_PThrows p,
       pc_On1B = p_On1b p, pc_On2B = p_On2b p, pc_On3B = p_On3b p\<rparr>,
     pd_PitchType = p_PitchType p, pd_PitchName = p_PitchName p, pd_Measurement = toMeasurementDTO m, pd_Predictions = [],
     pd_ActualOutcome = p_ActualOutcome p, pd_PredictionStatus = p_PredictionStatus p,
     pd_CorrelationID = map_option (ll_uuid_text q) (p_CorrelationID p)\<rparr>"

definition toPredictionDTO :: "list_lib \<Rightarrow> PitchPrediction \<times> ModelVersion \<Rightarrow> PredictionDTO" where
  "toPredictionDTO q row = (case row of (pr, mv) \<Rightarrow>
     \<lparr>pr_ModelVersion = mv_Version mv, pr_Variant = mv_Variant mv,
      pr_Probabilities = (case pp_Probabilities pr of None \<Rightarrow> None | Some raw \<Rightarrow> if raw = '''' then None else ll_probabilities q raw),
      pr_PredictedClass = pp_PredictedClass pr, pr_WhiffProbability = pp_WhiffProbability pr,
      pr_ScoredQuantity = pp_ScoredQuantity pr, pr_Score = pp_Score pr\<rparr>)"

definition no_aggregates :: SessionAggregates where
  "no_aggregates = \<lparr>agg_PitchCount = 0, agg_AvgReleaseSpeed = None, agg_AvgReleaseSpinRate = None, agg_AvgPitchScore = None\<rparr>"

text \<open>A session row carries its aggregates; they start at zero and NULL.\<close>

definition aggregates_of :: "api_tables \<Rightarrow> uuid \<Rightarrow> SessionAggregates" where
  "aggregates_of t i = (case tb_aggregates t i of None \<Rightarrow> no_aggregates | Some a \<Rightarrow> a)"

definition toSessionDTO :: "Session \<times> SessionAggregates \<Rightarrow> SessionDTO" where
  "toSessionDTO row = (case row of (s, agg) \<Rightarrow>
     \<lparr>sd_ID = ses_ID s, sd_ExternalSessionUID = ses_ExternalSessionUid s, sd_PitcherAthleteID = ses_PitcherAthleteID s,
      sd_ExternalGameRef = ses_ExternalGameRef s, sd_SourceGameDate = ses_SourceGameDate s, sd_OpponentTeam = ses_OpponentTeam s,
      sd_StartedAt = ses_StartedAt s, sd_EndedAt = ses_EndedAt s, sd_Status = ses_Status s, sd_IsSynthetic = ses_IsSynthetic s,
      sd_Metrics = agg\<rparr>)"

definition toAthleteDTO :: "Athlete \<Rightarrow> AthleteDTO" where
  "toAthleteDTO a = \<lparr>ad_ID = ath_ID a, ad_MLBAMID = ath_MlbamID a, ad_FullName = ath_FullName a, ad_Throws = ath_Throws a,
     ad_Bats = ath_Bats a, ad_PrimaryRole = ath_PrimaryRole a\<rparr>"

section \<open>Queries\<close>

definition unset_or :: "'a option \<Rightarrow> ('a \<Rightarrow> bool) \<Rightarrow> bool" where
  "unset_or x P = (case x of None \<Rightarrow> True | Some v \<Rightarrow> P v)"

text \<open>PostgreSQL's order of floats has NaN on top; a comparison with NULL drops the row.\<close>

definition pg_le :: "f64 \<Rightarrow> f64 \<Rightarrow> bool" where
  "pg_le x y \<longleftrightarrow> y = NaN \<or> f64_le x y"

definition sql_limit :: "int \<Rightarrow> 'a list \<Rightarrow> goerr + 'a list" where
  "sql_limit n rows = (if n < 0 then Inl (PgError ''2201W'' ''LIMIT must not be negative'') else Inr (take (nat n) rows))"

text \<open>
  Scanning a row of a LEFT JOIN whose right side is missing: pgx refuses NULL for a column that
  the generated struct holds in a string.
\<close>

definition scan_null :: goerr where
  "scan_null = LibError False ''cannot scan NULL into *string''"

fun scan_joined :: "('a \<times> 'b option) list \<Rightarrow> goerr + ('a \<times> 'b) list" where
  "scan_joined [] = Inr []"
| "scan_joined ((a, None) # rows) = Inl scan_null"
| "scan_joined ((a, Some b) # rows) = (case scan_joined rows of Inl e \<Rightarrow> Inl e | Inr rs \<Rightarrow> Inr ((a, b) # rs))"

definition joined_rows :: "database \<Rightarrow> int \<Rightarrow> Pitch list \<Rightarrow> goerr + (Pitch \<times> PitchMeasurement) list" where
  "joined_rows d lm ps = (case sql_limit lm ps of Inl e \<Rightarrow> Inl e
     | Inr rs \<Rightarrow> scan_joined (map (\<lambda>p. (p, measurement_of d p)) rs))"

record ListPitchesByPitcherParams =
  lp_PitcherAthleteID :: uuid
  lp_Limit :: int
  lp_PitchType :: "string option"
  lp_Outcome :: "string option"
  lp_FromTs :: "time option"
  lp_ToTs :: "time option"
  lp_MinSpeed :: "f64 option"
  lp_MaxSpeed :: "f64 option"
  lp_Cursor :: "(time \<times> uuid) option"

definition pitch_matches :: "ListPitchesByPitcherParams \<Rightarrow> database \<Rightarrow> Pitch \<Rightarrow> bool" where
  "pitch_matches a d p \<longleftrightarrow> p_PitcherAthleteID p = lp_PitcherAthleteID a
     \<and> unset_or (lp_PitchType a) (\<lambda>v. p_PitchType p = Some v)
     \<and> unset_or (lp_Outcome a) (\<lambda>v. p_ActualOutcome p = Some v)
     \<and> unset_or (lp_FromTs a) (\<lambda>v. v \<le> p_ThrownAt p)
     \<and> unset_or (lp_ToTs a) (\<lambda>v. p_ThrownAt p \<le> v)
     \<and> unset_or (lp_MinSpeed a) (\<lambda>v. case Option.bind (measurement_of d p) me_ReleaseSpeed of None \<Rightarrow> False | Some x \<Rightarrow> pg_le v x)
     \<and> unset_or (lp_MaxSpeed a) (\<lambda>v. case Option.bind (measurement_of d p) me_ReleaseSpeed of None \<Rightarrow> False | Some x \<Rightarrow> pg_le x v)"

definition thrown_key :: "Pitch \<Rightarrow> time \<times> uuid" where "thrown_key p = (p_ThrownAt p, p_ID p)"

definition ListPitchesByPitcher :: "ListPitchesByPitcherParams \<Rightarrow> api_tables \<Rightarrow> (goerr + (Pitch \<times> PitchMeasurement) list) \<times> api_tables" where
  "ListPitchesByPitcher a t =
     (joined_rows (tb_db t) (lp_Limit a) (filter (\<lambda>p. unset_or (lp_Cursor a) (\<lambda>c. thrown_key p < c))
        (rev (sort_key thrown_key (filter (pitch_matches a (tb_db t)) (pitches (tb_db t)))))), t)"

definition ListPitchesBySession :: "uuid \<Rightarrow> int \<Rightarrow> int option \<Rightarrow> api_tables \<Rightarrow> (goerr + (Pitch \<times> PitchMeasurement) list) \<times> api_tables" where
  "ListPitchesBySession i lm c t =
     (joined_rows (tb_db t) lm (filter (\<lambda>p. unset_or c (\<lambda>x. x < p_SessionPitchIndex p))
        (sort_key p_SessionPitchIndex (filter (\<lambda>p. p_SessionID p = i) (pitches (tb_db t))))), t)"

definition ListPitchesBySessionDesc :: "uuid \<Rightarrow> int \<Rightarrow> int option \<Rightarrow> api_tables \<Rightarrow> (goerr + (Pitch \<times> PitchMeasurement) list) \<times> api_tables" where
  "ListPitchesBySessionDesc i lm c t =
     (joined_rows (tb_db t) lm (filter (\<lambda>p. unset_or c (\<lambda>x. p_SessionPitchIndex p < x))
        (rev (sort_key p_SessionPitchIndex (filter (\<lambda>p. p_SessionID p = i) (pitches (tb_db t)))))), t)"

definition started_key :: "Session \<Rightarrow> time \<times> uuid" where "started_key s = (ses_StartedAt s, ses_ID s)"

definition ListSessionsByAthlete ::
  "uuid \<Rightarrow> int \<Rightarrow> string option \<Rightarrow> (time \<times> uuid) option \<Rightarrow> api_tables \<Rightarrow> (goerr + (Session \<times> SessionAggregates) list) \<times> api_tables" where
  "ListSessionsByAthlete i lm status c t =
     (case sql_limit lm (filter (\<lambda>s. unset_or c (\<lambda>x. started_key s < x))
         (rev (sort_key started_key (filter (\<lambda>s. ses_PitcherAthleteID s = i \<and> unset_or status (\<lambda>v. ses_Status s = v)) (sessions (tb_db t)))))) of
        Inl e \<Rightarrow> Inl e | Inr rs \<Rightarrow> Inr (map (\<lambda>s. (s, aggregates_of t (ses_ID s))) rs), t)"

text \<open>Ties of \<open>started_at\<close> come in no particular order in PostgreSQL; here the later row first.\<close>

definition ListActiveSessions :: "int \<Rightarrow> api_tables \<Rightarrow> (goerr + (Session \<times> SessionAggregates) list) \<times> api_tables" where
  "ListActiveSessions lm t =
     (case sql_limit lm (rev (sort_key ses_StartedAt (filter (\<lambda>s. ses_Status s = ''ACTIVE'') (sessions (tb_db t))))) of
        Inl e \<Rightarrow> Inl e | Inr rs \<Rightarrow> Inr (map (\<lambda>s. (s, aggregates_of t (ses_ID s))) rs), t)"

definition detected_key :: "Anomaly \<Rightarrow> time \<times> uuid" where "detected_key r = (ao_DetectedAt r, ao_ID r)"

definition anomaly_matches :: "uuid \<Rightarrow> string option \<Rightarrow> string option \<Rightarrow> bool option \<Rightarrow> Anomaly \<Rightarrow> bool" where
  "anomaly_matches i severity metric acknowledged r \<longleftrightarrow> ao_AthleteID r = i
     \<and> unset_or severity (\<lambda>v. ao_Severity r = v) \<and> unset_or metric (\<lambda>v. ao_Metric r = v)
     \<and> unset_or acknowledged (\<lambda>v. v = (ao_AcknowledgedAt r \<noteq> None))"

definition ListAnomaliesByAthlete ::
  "uuid \<Rightarrow> int \<Rightarrow> string option \<Rightarrow> string option \<Rightarrow> bool option \<Rightarrow> (time \<times> uuid) option \<Rightarrow> api_tables \<Rightarrow> (goerr + Anomaly list) \<times> api_tables" where
  "ListAnomaliesByAthlete i lm severity metric acknowledged c t =
     (sql_limit lm (filter (\<lambda>r. unset_or c (\<lambda>x. detected_key r < x))
        (rev (sort_key detected_key (filter (anomaly_matches i severity metric acknowledged) (tb_anomalies t))))), t)"

text \<open>\<open>LIKE\<close> patterns: \<open>%\<close>, \<open>_\<close> and the escape; \<open>ILIKE\<close> compares without case.\<close>

fun like :: "string \<Rightarrow> string \<Rightarrow> bool" where
  "like [] s \<longleftrightarrow> s = []"
| "like (p # ps) s \<longleftrightarrow>
     (if p = CHR ''%'' then like ps s \<or> (case s of [] \<Rightarrow> False | _ # cs \<Rightarrow> like (p # ps) cs)
      else if p = CHR 0x5C then (case ps of [] \<Rightarrow> False | e # es \<Rightarrow> (case s of [] \<Rightarrow> False | c # cs \<Rightarrow> c = e \<and> like es cs))
      else (case s of [] \<Rightarrow> False | c # cs \<Rightarrow> (p = CHR ''_'' \<or> c = p) \<and> like ps cs))"

definition ilike :: "string \<Rightarrow> string \<Rightarrow> bool" where
  "ilike s pat \<longleftrightarrow> like (ToLower pat) (ToLower s)"

definition name_key :: "list_lib \<Rightarrow> Athlete \<Rightarrow> string \<times> string \<times> uuid" where
  "name_key q a = (ll_sort_key q (ath_FullName a), ath_FullName a, ath_ID a)"

definition athlete_matches :: "string option \<Rightarrow> string option \<Rightarrow> string option \<Rightarrow> Athlete \<Rightarrow> bool" where
  "athlete_matches search role throws a \<longleftrightarrow> unset_or search (\<lambda>v. ilike (ath_FullName a) (''%'' @ v @ ''%''))
     \<and> unset_or role (\<lambda>v. ath_PrimaryRole a = v) \<and> unset_or throws (\<lambda>v. ath_Throws a = Some v)"

definition ListAthletes ::
  "list_lib \<Rightarrow> int \<Rightarrow> string option \<Rightarrow> string option \<Rightarrow> string option \<Rightarrow> (string \<times> uuid) option \<Rightarrow> api_tables
   \<Rightarrow> (goerr + (Athlete \<times> int \<times> int) list) \<times> api_tables" where
  "ListAthletes q lm search role throws c t =
     (case sql_limit lm (filter (\<lambda>a. unset_or c (\<lambda>(n, i). (ll_sort_key q n, n, i) < name_key q a))
         (sort_key (name_key q) (filter (athlete_matches search role throws) (athletes (tb_db t))))) of
        Inl e \<Rightarrow> Inl e
      | Inr rs \<Rightarrow> Inr (map (\<lambda>a. (a, int (length (filter (\<lambda>s. ses_PitcherAthleteID s = ath_ID a) (sessions (tb_db t)))),
            int (length (filter (\<lambda>p. p_PitcherAthleteID p = ath_ID a) (pitches (tb_db t)))))) rs), t)"

definition GetAthlete :: "uuid \<Rightarrow> api_tables \<Rightarrow> (goerr + Athlete) \<times> api_tables" where
  "GetAthlete i t = (one_row (find (\<lambda>a. ath_ID a = i) (athletes (tb_db t))), t)"

definition get_session :: "uuid \<Rightarrow> api_tables \<Rightarrow> (goerr + (Session \<times> SessionAggregates)) \<times> api_tables" where
  "get_session i t = (one_row (map_option (\<lambda>s. (s, aggregates_of t i)) (find (\<lambda>s. ses_ID s = i) (sessions (tb_db t)))), t)"

text \<open>The active models' predictions of the given pitches, by pitch and variant.\<close>

definition GetActivePredictionsForPitches :: "uuid list \<Rightarrow> api_tables \<Rightarrow> (goerr + (PitchPrediction \<times> ModelVersion) list) \<times> api_tables" where
  "GetActivePredictionsForPitches ids t =
     (Inr (sort_key (\<lambda>(pr, mv). (pp_PitchID pr, mv_Variant mv))
        (concat (map (\<lambda>pr. map (Pair pr) (filter (\<lambda>mv. mv_ID mv = pp_ModelVersionID pr \<and> mv_IsActive mv) (model_versions (tb_db t))))
          (filter (\<lambda>pr. pp_PitchID pr \<in> set ids) (predictions (tb_db t)))))), t)"

section \<open>Handlers\<close>

text \<open>\<open>int32(limit + 1)\<close>: one row more than the page.\<close>

definition over_fetch :: "int \<Rightarrow> int" where "over_fetch limit = go_int32 (limit + 1)"

text \<open>The page block: a cursor from the last row when there are more.\<close>

definition page_block :: "list_lib \<Rightarrow> int \<Rightarrow> 'r list \<times> bool \<Rightarrow> ('r \<Rightarrow> Cursor) \<Rightarrow> Page" where
  "page_block q limit rm cursor = (case rm of (rs, hasMore) \<Rightarrow>
     \<lparr>pg_Limit = limit,
      pg_NextCursor = (if hasMore \<and> rs \<noteq> [] then Encode (query_lib.truncate q) (cursor (last rs)) else ''''),
      pg_HasMore = hasMore\<rparr>)"

definition time_cursor :: "time \<times> uuid \<Rightarrow> Cursor" where
  "time_cursor k = no_cursor\<lparr>cu_Time := Some (fst k), cu_ID := Some (snd k)\<rparr>"

definition time_position :: "Cursor \<Rightarrow> (time \<times> uuid) option" where
  "time_position c = (case (cu_Time c, cu_ID c) of (Some t, Some i) \<Rightarrow> Some (t, i) | _ \<Rightarrow> None)"

definition name_position :: "Cursor \<Rightarrow> (string \<times> uuid) option" where
  "name_position c = (case cu_ID c of Some i \<Rightarrow> if cu_Name c \<noteq> '''' then Some (cu_Name c, i) else None | None \<Rightarrow> None)"

abbreviation ql :: "list_lib \<Rightarrow> query_lib" where "ql q \<equiv> query_lib.truncate q"

definition get_cursor :: "list_lib \<Rightarrow> http_request \<Rightarrow> Cursor hm" where
  "get_cursor q r = h_try (DecodeCursor (ql q) (rq_Query r ''cursor''))"

definition buildPitchDTOs :: "list_lib \<Rightarrow> api_env \<Rightarrow> (Pitch \<times> PitchMeasurement) list \<Rightarrow> string list \<Rightarrow> PitchDTO list hm" where
  "buildPitchDTOs q ev rows incl =
     h_bind (if ''prediction'' \<in> set incl \<and> rows \<noteq> [] then sql_ok ev (GetActivePredictionsForPitches (map (\<lambda>r. p_ID (fst r)) rows))
             else h_return []) (\<lambda>preds.
     h_return (map (\<lambda>(p, m). (toPitchDTO q p (if ''measurement'' \<in> set incl then Some m else None))
         \<lparr>pd_Predictions := map (toPredictionDTO q) (filter (\<lambda>pm. pp_PitchID (fst pm) = p_ID p) preds)\<rparr>) rows))"

text \<open>The filters of \<open>listPitches\<close>, in the order they are checked, without the position.\<close>

definition pitch_filters :: "list_lib \<Rightarrow> API \<Rightarrow> http_request \<Rightarrow> APIError + int \<times> ListPitchesByPitcherParams" where
  "pitch_filters q cfg r =
     (case QueryUUID (ql q) r ''pitcher_id'' of Inl e \<Rightarrow> Inl e | Inr pitcherID \<Rightarrow>
     (case Limit r (DefaultPageSize cfg) (MaxPageSize cfg) of Inl e \<Rightarrow> Inl e | Inr limit \<Rightarrow>
     (case QueryEnum r ''outcome'' [''BALL'', ''CALLED_STRIKE'', ''SWINGING_STRIKE'', ''FOUL'', ''IN_PLAY''] of Inl e \<Rightarrow> Inl e | Inr outcome \<Rightarrow>
     (case QueryTime (ql q) r ''from'' of Inl e \<Rightarrow> Inl e | Inr from_ts \<Rightarrow>
     (case QueryTime (ql q) r ''to'' of Inl e \<Rightarrow> Inl e | Inr to_ts \<Rightarrow>
     (case QueryFloat32 (ql q) r ''min_speed'' of Inl e \<Rightarrow> Inl e | Inr minSpeed \<Rightarrow>
     (case QueryFloat32 (ql q) r ''max_speed'' of Inl e \<Rightarrow> Inl e | Inr maxSpeed \<Rightarrow>
       if (case (minSpeed, maxSpeed) of (Some a, Some b) \<Rightarrow> f64_lt b a | _ \<Rightarrow> False)
       then Inl (ErrValidation ''max_speed must not be below min_speed'' (field_error ''max_speed'' ''below min_speed''))
       else Inr (limit, \<lparr>lp_PitcherAthleteID = pitcherID, lp_Limit = over_fetch limit, lp_PitchType = QueryString r ''pitch_type'',
              lp_Outcome = outcome, lp_FromTs = from_ts, lp_ToTs = to_ts, lp_MinSpeed = minSpeed, lp_MaxSpeed = maxSpeed,
              lp_Cursor = None\<rparr>))))))))"

definition listPitches :: "list_lib \<Rightarrow> api_env \<Rightarrow> API \<Rightarrow> http_request \<Rightarrow> PitchDTO listing response hm" where
  "listPitches q ev cfg r =
     h_bind (h_try (pitch_filters q cfg r)) (\<lambda>(limit, params).
     h_bind (get_cursor q r) (\<lambda>cursor.
     h_bind (sql_ok ev (ListPitchesByPitcher (params\<lparr>lp_Cursor := time_position cursor\<rparr>))) (\<lambda>rows.
     h_bind (buildPitchDTOs q ev (fst (Paginate rows limit)) (QueryIncludes r [''measurement'', ''prediction''])) (\<lambda>items.
     h_return (ok_json \<lparr>ls_Data = items,
       ls_Page = page_block q limit (Paginate rows limit) (\<lambda>row. time_cursor (thrown_key (fst row)))\<rparr>)))))"

definition listSessionPitches :: "list_lib \<Rightarrow> api_env \<Rightarrow> API \<Rightarrow> http_request \<Rightarrow> PitchDTO listing response hm" where
  "listSessionPitches q ev cfg r =
     h_bind (h_try (PathUUID (ql q) r ''sessionId'')) (\<lambda>i.
     h_bind (h_try (Limit r 100 (MaxPageSize cfg))) (\<lambda>limit.
     h_bind (h_try (QueryEnum r ''order'' [''asc'', ''desc''])) (\<lambda>order.
     h_bind (get_cursor q r) (\<lambda>cursor.
     h_bind (sql_found ev ''session'' (get_session i)) (\<lambda>_.
     h_bind (sql_ok ev (if order = Some ''desc'' then ListPitchesBySessionDesc i (over_fetch limit) (cu_Int cursor)
                        else ListPitchesBySession i (over_fetch limit) (cu_Int cursor))) (\<lambda>rows.
     h_bind (buildPitchDTOs q ev (fst (Paginate rows limit)) (QueryIncludes r [''measurement'', ''prediction''])) (\<lambda>items.
     h_return (ok_json \<lparr>ls_Data = items,
       ls_Page = page_block q limit (Paginate rows limit) (\<lambda>row. no_cursor\<lparr>cu_Int := Some (p_SessionPitchIndex (fst row))\<rparr>)\<rparr>))))))))"

text \<open>The page of an athlete's sessions, which two endpoints share.\<close>

definition sessions_page ::
  "list_lib \<Rightarrow> api_env \<Rightarrow> int \<Rightarrow> uuid \<Rightarrow> string option \<Rightarrow> Cursor \<Rightarrow> SessionDTO listing response hm" where
  "sessions_page q ev limit i status cursor =
     h_bind (sql_ok ev (ListSessionsByAthlete i (over_fetch limit) status (time_position cursor))) (\<lambda>rows.
     h_return (ok_json \<lparr>ls_Data = map toSessionDTO (fst (Paginate rows limit)),
       ls_Page = page_block q limit (Paginate rows limit) (\<lambda>row. time_cursor (started_key (fst row)))\<rparr>))"

definition session_states :: "string list" where "session_states = [''ACTIVE'', ''COMPLETED'', ''ABORTED'']"

definition listSessions :: "list_lib \<Rightarrow> api_env \<Rightarrow> API \<Rightarrow> http_request \<Rightarrow> SessionDTO listing response hm" where
  "listSessions q ev cfg r =
     h_bind (h_try (Limit r (DefaultPageSize cfg) (MaxPageSize cfg))) (\<lambda>limit.
     h_bind (h_try (QueryEnum r ''status'' session_states)) (\<lambda>status.
       if status \<noteq> Some ''ACTIVE'' then
         (case QueryUUID (ql q) r ''athlete_id'' of
            Inl _ \<Rightarrow> h_fail (ErrValidation ''athlete_id is required unless status=ACTIVE'' (field_error ''athlete_id'' ''required''))
          | Inr athleteID \<Rightarrow> h_bind (get_cursor q r) (\<lambda>cursor. sessions_page q ev limit athleteID status cursor))
       else h_bind (sql_ok ev (ListActiveSessions (over_fetch limit))) (\<lambda>rows.
         h_return (ok_json \<lparr>ls_Data = map toSessionDTO (fst (Paginate rows limit)),
           ls_Page = \<lparr>pg_Limit = limit, pg_NextCursor = '''', pg_HasMore = snd (Paginate rows limit)\<rparr>\<rparr>))))"

definition listAthleteSessions :: "list_lib \<Rightarrow> api_env \<Rightarrow> API \<Rightarrow> http_request \<Rightarrow> SessionDTO listing response hm" where
  "listAthleteSessions q ev cfg r =
     h_bind (h_try (PathUUID (ql q) r ''athleteId'')) (\<lambda>i.
     h_bind (h_try (Limit r (DefaultPageSize cfg) (MaxPageSize cfg))) (\<lambda>limit.
     h_bind (h_try (QueryEnum r ''status'' session_states)) (\<lambda>status.
     h_bind (get_cursor q r) (\<lambda>cursor.
     h_bind (sql_found ev ''athlete'' (GetAthlete i)) (\<lambda>_.
     sessions_page q ev limit i status cursor)))))"

definition listAthletes :: "list_lib \<Rightarrow> api_env \<Rightarrow> API \<Rightarrow> http_request \<Rightarrow> AthleteListItemDTO listing response hm" where
  "listAthletes q ev cfg r =
     h_bind (h_try (Limit r (DefaultPageSize cfg) (MaxPageSize cfg))) (\<lambda>limit.
     h_bind (h_try (QueryEnum r ''role'' [''PITCHER'', ''BATTER'', ''TWO_WAY'', ''UNKNOWN''])) (\<lambda>role.
     h_bind (h_try (QueryEnum r ''throws'' [''L'', ''R''])) (\<lambda>throws.
     h_bind (get_cursor q r) (\<lambda>cursor.
     h_bind (sql_ok ev (ListAthletes q (over_fetch limit) (QueryString r ''q'') role throws (name_position cursor))) (\<lambda>rows.
     h_return (ok_json \<lparr>ls_Data = map (\<lambda>(a, ns, np). \<lparr>ai_Athlete = toAthleteDTO a, ai_SessionCount = ns, ai_PitchCount = np\<rparr>) (fst (Paginate rows limit)),
       ls_Page = page_block q limit (Paginate rows limit)
         (\<lambda>row. no_cursor\<lparr>cu_Name := ath_FullName (fst row), cu_ID := Some (ath_ID (fst row))\<rparr>)\<rparr>))))))"

definition listAthleteAnomalies :: "list_lib \<Rightarrow> api_env \<Rightarrow> API \<Rightarrow> http_request \<Rightarrow> Anomaly listing response hm" where
  "listAthleteAnomalies q ev cfg r =
     h_bind (h_try (PathUUID (ql q) r ''athleteId'')) (\<lambda>i.
     h_bind (h_try (Limit r (DefaultPageSize cfg) (MaxPageSize cfg))) (\<lambda>limit.
     h_bind (h_try (QueryEnum r ''severity'' [''MEDIUM'', ''HIGH''])) (\<lambda>severity.
     h_bind (h_try (QueryBool r ''acknowledged'')) (\<lambda>acknowledged.
     h_bind (get_cursor q r) (\<lambda>cursor.
     h_bind (sql_found ev ''athlete'' (GetAthlete i)) (\<lambda>_.
     h_bind (sql_ok ev (ListAnomaliesByAthlete i (over_fetch limit) severity (QueryString r ''metric'') acknowledged (time_position cursor))) (\<lambda>rows.
     h_return (ok_json \<lparr>ls_Data = fst (Paginate rows limit),
       ls_Page = page_block q limit (Paginate rows limit) (\<lambda>row. time_cursor (detected_key row))\<rparr>))))))))"

section \<open>The listings are keyset listings\<close>

definition pitch_ids_distinct :: "api_tables \<Rightarrow> bool" where
  "pitch_ids_distinct t \<longleftrightarrow> distinct (map p_ID (pitches (tb_db t)))"

definition session_ids_distinct :: "api_tables \<Rightarrow> bool" where
  "session_ids_distinct t \<longleftrightarrow> distinct (map ses_ID (sessions (tb_db t)))"

definition athlete_ids_distinct :: "api_tables \<Rightarrow> bool" where
  "athlete_ids_distinct t \<longleftrightarrow> distinct (map ath_ID (athletes (tb_db t)))"

definition anomaly_ids_distinct :: "api_tables \<Rightarrow> bool" where
  "anomaly_ids_distinct t \<longleftrightarrow> distinct (map ao_ID (tb_anomalies t))"

definition session_indices_distinct :: "uuid \<Rightarrow> api_tables \<Rightarrow> bool" where
  "session_indices_distinct i t \<longleftrightarrow> distinct (map p_SessionPitchIndex (filter (\<lambda>p. p_SessionID p = i) (pitches (tb_db t))))"

text \<open>A key that contains an identifier is a key of every part of the table.\<close>

lemma distinct_key:
  assumes "distinct (map ident xs)" "\<And>x y. key x = key y \<Longrightarrow> ident x = ident y"
  shows "distinct (map key (filter P xs))"
proof -
  have "distinct (map ident (filter P xs))" using assms(1) by (rule distinct_map_filter)
  then have inj: "inj_on ident (set (filter P xs))" and d: "distinct (filter P xs)" by (simp_all only: distinct_map)
  have "inj_on key (set (filter P xs))"
  proof (rule inj_onI)
    fix x y assume xy: "x \<in> set (filter P xs)" "y \<in> set (filter P xs)" "key x = key y"
    from inj_onD [OF inj assms(2) [OF xy(3)] xy(1,2)] show "x = y" .
  qed
  with d show ?thesis by (simp add: distinct_map)
qed

interpretation thrown: descending "\<lambda>t. filter (pitch_matches a (tb_db t)) (pitches (tb_db t))" thrown_key pitch_ids_distinct for a
  by unfold_locales (rule distinct_key [where ident = p_ID], simp_all add: pitch_ids_distinct_def thrown_key_def)

interpretation started: descending "\<lambda>t. filter (\<lambda>s. ses_PitcherAthleteID s = i \<and> unset_or status (\<lambda>v. ses_Status s = v)) (sessions (tb_db t))"
    started_key session_ids_distinct for i status
  by unfold_locales (rule distinct_key [where ident = ses_ID], simp_all add: session_ids_distinct_def started_key_def)

interpretation named: ascending "\<lambda>t. filter (athlete_matches search role throws) (athletes (tb_db t))" "name_key q" athlete_ids_distinct
    for q search role throws
  by unfold_locales (rule distinct_key [where ident = ath_ID], simp_all add: athlete_ids_distinct_def name_key_def)

interpretation detected: descending "\<lambda>t. filter (anomaly_matches i severity metric acknowledged) (tb_anomalies t)" detected_key anomaly_ids_distinct
    for i severity metric acknowledged
  by unfold_locales (rule distinct_key [where ident = ao_ID], simp_all add: anomaly_ids_distinct_def detected_key_def)

interpretation indexed: ascending "\<lambda>t. filter (\<lambda>p. p_SessionID p = i) (pitches (tb_db t))" p_SessionPitchIndex "session_indices_distinct i" for i
  by unfold_locales (simp add: session_indices_distinct_def)

interpretation indexed_desc: descending "\<lambda>t. filter (\<lambda>p. p_SessionID p = i) (pitches (tb_db t))" p_SessionPitchIndex "session_indices_distinct i" for i
  by unfold_locales (simp add: session_indices_distinct_def)

section \<open>Reading a listing page by page\<close>

text \<open>A client that follows \<open>next_cursor\<close>; it gives up at the first answer that is not a page.\<close>

definition with_cursor :: "http_request \<Rightarrow> string \<Rightarrow> http_request" where
  "with_cursor r token = r\<lparr>rq_Query := (rq_Query r)(''cursor'' := token)\<rparr>"

fun read_pages :: "(http_request \<Rightarrow> 'a listing response hm) \<Rightarrow> http_request \<Rightarrow> nat \<Rightarrow> string \<Rightarrow> api_world \<Rightarrow> 'a list \<times> bool" where
  "read_pages h r 0 token w = ([], False)"
| "read_pages h r (Suc n) token w =
     (case h (with_cursor r token) w of
        (Fine rp, w') \<Rightarrow>
          (let l = rp_payload rp in
           if pg_HasMore (ls_Page l)
           then (case read_pages h r n (pg_NextCursor (ls_Page l)) w' of (xs, fin) \<Rightarrow> (ls_Data l @ xs, fin))
           else (ls_Data l, True))
      | _ \<Rightarrow> ([], False))"

lemma with_cursor_query [simp]: "rq_Query (with_cursor r token) ''cursor'' = token"
  "k \<noteq> ''cursor'' \<Longrightarrow> rq_Query (with_cursor r token) k = rq_Query r k" "rq_PathValue (with_cursor r token) = rq_PathValue r"
  by (simp_all add: with_cursor_def)

lemma with_cursor_params [simp]:
  "Limit (with_cursor r token) = Limit r" "k \<noteq> ''cursor'' \<Longrightarrow> QueryUUID ql' (with_cursor r token) k = QueryUUID ql' r k"
  "k \<noteq> ''cursor'' \<Longrightarrow> QueryString (with_cursor r token) k = QueryString r k"
  "k \<noteq> ''cursor'' \<Longrightarrow> QueryEnum (with_cursor r token) k = QueryEnum r k"
  "k \<noteq> ''cursor'' \<Longrightarrow> QueryTime ql' (with_cursor r token) k = QueryTime ql' r k"
  "k \<noteq> ''cursor'' \<Longrightarrow> QueryFloat32 ql' (with_cursor r token) k = QueryFloat32 ql' r k"
  by (simp_all add: QueryUUID_def Limit_def QueryEnum_def QueryString_def QueryTime_def QueryFloat32_def fun_eq_iff)

lemma pitch_filters_cursor [simp]: "pitch_filters q cfg (with_cursor r token) = pitch_filters q cfg r"
  by (simp add: pitch_filters_def cong: sum.case_cong if_cong)

lemma time_position_cursor [simp]: "time_position (time_cursor k) = Some k"
  by (simp add: time_position_def time_cursor_def)

lemma scan_joined_fst: "scan_joined xs = Inr rs \<Longrightarrow> map fst rs = map fst xs"
  by (induction xs arbitrary: rs rule: scan_joined.induct) (auto split: sum.splits)

lemma joined_rows_fst: "joined_rows d n ps = Inr rs \<Longrightarrow> map fst rs = take (nat n) ps"
  by (auto simp: joined_rows_def sql_limit_def comp_def dest!: scan_joined_fst split: if_splits)

lemma sql_ok_Fine:
  assumes "sql_ok ev q w = (Fine a, w')"
  obtains t t' where "t = ev_others ev (ap_calls w) (ap_tables w)" "q t = (Inr a, t')"
  using assms by (auto simp: sql_ok_def h_bind_def h_fail_def h_return_def sql_def Let_def split: option.splits prod.splits sum.splits)

lemma buildPitchDTOs_keys:
  assumes "buildPitchDTOs q ev rows incl w = (Fine items, w')"
  shows "map (\<lambda>x. (pd_ThrownAt x, pd_ID x)) items = map (\<lambda>row. thrown_key (fst row)) rows"
    "map pd_ID items = map (\<lambda>row. p_ID (fst row)) rows"
    "map pd_SessionPitchIndex items = map (\<lambda>row. p_SessionPitchIndex (fst row)) rows"
  using assms unfolding buildPitchDTOs_def
  by (auto elim!: h_bind_cases simp: h_return_def toPitchDTO_def thrown_key_def)

text \<open>What a page makes of the rows it fetched: the cursor of its last row when there are more.\<close>

lemma page_block_cursor:
  assumes "length rows \<le> nat limit + 1" "1 \<le> limit"
  shows "fst (Paginate rows limit) = take (nat limit) rows"
    "pg_HasMore (page_block q limit (Paginate rows limit) cur) = (nat limit < length rows)"
    "nat limit < length rows \<Longrightarrow> pg_NextCursor (page_block q limit (Paginate rows limit) cur) = Encode (ql q) (cur (last (take (nat limit) rows)))"
  using assms by (auto simp: Paginate_def page_block_def)

lemma over_fetch_eq: "1 \<le> limit \<Longrightarrow> limit < 2 ^ 31 - 1 \<Longrightarrow> over_fetch limit = limit + 1"
  by (simp add: over_fetch_def go_int32_id)

lemma pitch_filters_Inr:
  "pitch_filters q cfg r = Inr (limit, a) \<Longrightarrow>
     lp_Limit a = over_fetch limit \<and> (limit = DefaultPageSize cfg \<or> (1 \<le> limit \<and> limit \<le> MaxPageSize cfg))"
  unfolding pitch_filters_def by (auto split: sum.splits if_splits dest!: Limit_bounds)

lemma pitch_matches_position [simp]: "pitch_matches (a\<lparr>lp_Cursor := c\<rparr>) = pitch_matches a"
  by (simp add: pitch_matches_def fun_eq_iff)

lemma take_take_more: "take m (take (m + 1) xs) = take m xs"
  by simp

lemma listPitches_page:
  assumes filters: "pitch_filters q cfg r = Inr (limit, a)" and dec: "DecodeCursor (ql q) token = Inr c"
    and limit: "1 \<le> limit" "limit < 2 ^ 31 - 1"
    and run: "listPitches q ev cfg (with_cursor r token) w = (Fine rp, w')"
  obtains t where "t = ev_others ev (ap_calls w) (ap_tables w)"
    "map (\<lambda>x. (pd_ThrownAt x, pd_ID x)) (ls_Data (rp_payload rp)) = map thrown_key (fst (thrown.page a (nat limit) (time_position c) t))"
    "pg_HasMore (ls_Page (rp_payload rp)) \<longleftrightarrow> snd (thrown.page a (nat limit) (time_position c) t) \<noteq> None"
    "\<And>k. snd (thrown.page a (nat limit) (time_position c) t) = Some k \<Longrightarrow> pg_NextCursor (ls_Page (rp_payload rp)) = Encode (ql q) (time_cursor k)"
proof -
  have "h_bind (sql_ok ev (ListPitchesByPitcher (a\<lparr>lp_Cursor := time_position c\<rparr>))) (\<lambda>rows.
     h_bind (buildPitchDTOs q ev (fst (Paginate rows limit)) (QueryIncludes (with_cursor r token) [''measurement'', ''prediction''])) (\<lambda>items.
     h_return (ok_json \<lparr>ls_Data = items,
       ls_Page = page_block q limit (Paginate rows limit) (\<lambda>row. time_cursor (thrown_key (fst row)))\<rparr>))) w = (Fine rp, w')"
    using run by (simp add: listPitches_def filters get_cursor_def dec)
  then obtain rows w1 where rows: "sql_ok ev (ListPitchesByPitcher (a\<lparr>lp_Cursor := time_position c\<rparr>)) w = (Fine rows, w1)"
    and rest: "h_bind (buildPitchDTOs q ev (fst (Paginate rows limit)) (QueryIncludes (with_cursor r token) [''measurement'', ''prediction''])) (\<lambda>items.
     h_return (ok_json \<lparr>ls_Data = items,
       ls_Page = page_block q limit (Paginate rows limit) (\<lambda>row. time_cursor (thrown_key (fst row)))\<rparr>)) w1 = (Fine rp, w')"
    by (rule h_bind_cases) simp_all
  from rest obtain items w2 where items: "buildPitchDTOs q ev (fst (Paginate rows limit)) (QueryIncludes (with_cursor r token) [''measurement'', ''prediction'']) w1 = (Fine items, w2)"
    and rp: "rp_payload rp = \<lparr>ls_Data = items, ls_Page = page_block q limit (Paginate rows limit) (\<lambda>row. time_cursor (thrown_key (fst row)))\<rparr>"
    by (rule h_bind_cases) (auto simp: h_return_def ok_json_def)
  from rows obtain t t' where t: "t = ev_others ev (ap_calls w) (ap_tables w)"
    "ListPitchesByPitcher (a\<lparr>lp_Cursor := time_position c\<rparr>) t = (Inr rows, t')" by (rule sql_ok_Fine)
  let ?xs = "filter (\<lambda>p. case time_position c of None \<Rightarrow> True | Some k \<Rightarrow> thrown_key p < k)
    (rev (sort_key thrown_key (filter (pitch_matches a (tb_db t)) (pitches (tb_db t)))))"
  have fst_rows: "map fst rows = take (nat limit + 1) ?xs"
  proof -
    have n: "nat (over_fetch limit) = nat limit + 1" using limit over_fetch_eq [OF limit] by simp
    from t(2) pitch_filters_Inr [OF filters] have "joined_rows (tb_db t) (over_fetch limit) ?xs = Inr rows"
      by (auto simp: ListPitchesByPitcher_def unset_or_def)
    from joined_rows_fst [OF this] n show ?thesis by simp
  qed
  have len: "length rows = min (length ?xs) (nat limit + 1)" using arg_cong [OF fst_rows, of length] by simp
  have m: "nat limit \<noteq> 0" using limit(1) by simp
  have tk: "map (\<lambda>row. thrown_key (fst row)) (take (nat limit) rows) = map thrown_key (take (nat limit) ?xs)"
    using arg_cong [OF fst_rows, of "\<lambda>ps. map thrown_key (take (nat limit) ps)"] by (simp add: take_map [symmetric] comp_def)
  have le: "length rows \<le> nat limit + 1" using len by simp
  note pb = page_block_cursor [OF le limit(1)]
  show ?thesis
  proof (rule that [OF t(1)])
    show "map (\<lambda>x. (pd_ThrownAt x, pd_ID x)) (ls_Data (rp_payload rp)) = map thrown_key (fst (thrown.page a (nat limit) (time_position c) t))"
      using buildPitchDTOs_keys(1) [OF items] pb(1) len tk by (simp add: rp thrown.page_eq)
    show "pg_HasMore (ls_Page (rp_payload rp)) \<longleftrightarrow> snd (thrown.page a (nat limit) (time_position c) t) \<noteq> None"
      using pb(2) len m by (simp add: rp thrown.page_eq)
    fix k assume k: "snd (thrown.page a (nat limit) (time_position c) t) = Some k"
    then have more: "nat limit < length ?xs" and k2: "k = thrown_key (last (take (nat limit) ?xs))"
      by (auto simp: thrown.page_eq split: if_splits)
    have "rows \<noteq> []" using len more by auto
    have "thrown_key (fst (last (take (nat limit) rows))) = last (map (\<lambda>row. thrown_key (fst row)) (take (nat limit) rows))"
      using m \<open>rows \<noteq> []\<close> by (simp add: last_map)
    also have "\<dots> = k" unfolding tk k2 using m more by (subst last_map) auto
    finally show "pg_NextCursor (ls_Page (rp_payload rp)) = Encode (ql q) (time_cursor k)"
      using pb(3) len more by (simp add: rp)
  qed
qed

text \<open>Following \<open>next_cursor\<close> is a walk over the tables the requests found.\<close>

definition found_by :: "api_env \<Rightarrow> api_tables \<Rightarrow> bool" where
  "found_by ev t \<longleftrightarrow> (\<exists>n t'. t = ev_others ev n t')"

lemma read_pages_walk:
  assumes filters: "pitch_filters q cfg r = Inr (limit, a)" and limit: "1 \<le> limit" "limit < 2 ^ 31 - 1"
    and law: "cursor_law (ql q)" and dec: "DecodeCursor (ql q) token = Inr c"
    and read: "read_pages (listPitches q ev cfg) r n token w = (xs, fin)"
  shows "\<exists>ds. (\<forall>t \<in> set ds. found_by ev t)
     \<and> map (\<lambda>x. (pd_ThrownAt x, pd_ID x)) xs = map thrown_key (fst (thrown.walk a (nat limit) (time_position c) ds))
     \<and> fin = snd (thrown.walk a (nat limit) (time_position c) ds)"
  using dec read
proof (induction n arbitrary: token c w xs fin)
  case 0
  then show ?case by (auto intro: exI [of _ "[]"])
next
  case (Suc n)
  obtain y w' where y: "listPitches q ev cfg (with_cursor r token) w = (y, w')" by fastforce
  show ?case
  proof (cases "\<exists>rp. y = Fine rp")
    case False
    with Suc.prems(2) y have "xs = [] \<and> \<not> fin" by (auto split: result.splits)
    then show ?thesis by (auto intro: exI [of _ "[]"])
  next
    case True
    then obtain rp where rp: "listPitches q ev cfg (with_cursor r token) w = (Fine rp, w')" using y by blast
    from listPitches_page [OF filters Suc.prems(1) limit rp] obtain t where
      t: "t = ev_others ev (ap_calls w) (ap_tables w)"
      and ks: "map (\<lambda>x. (pd_ThrownAt x, pd_ID x)) (ls_Data (rp_payload rp)) = map thrown_key (fst (thrown.page a (nat limit) (time_position c) t))"
      and more: "pg_HasMore (ls_Page (rp_payload rp)) \<longleftrightarrow> snd (thrown.page a (nat limit) (time_position c) t) \<noteq> None"
      and nxt: "\<And>k. snd (thrown.page a (nat limit) (time_position c) t) = Some k \<Longrightarrow> pg_NextCursor (ls_Page (rp_payload rp)) = Encode (ql q) (time_cursor k)"
      by blast
    have found: "found_by ev t" using t by (auto simp: found_by_def)
    obtain rs nx where pg: "thrown.page a (nat limit) (time_position c) t = (rs, nx)" by fastforce
    show ?thesis
    proof (cases nx)
      case None
      with Suc.prems(2) rp more ks pg found show ?thesis
        by (intro exI [of _ "[t]"]) (auto simp: Let_def)
    next
      case (Some k)
      let ?tok = "pg_NextCursor (ls_Page (rp_payload rp))"
      have "DecodeCursor (ql q) ?tok = Inr (time_cursor k)" using nxt cursor_round_trip [OF law] pg Some by simp
      moreover obtain ys f where ys: "read_pages (listPitches q ev cfg) r n ?tok w' = (ys, f)" by fastforce
      ultimately obtain ds where ds: "\<forall>t \<in> set ds. found_by ev t"
        "map (\<lambda>x. (pd_ThrownAt x, pd_ID x)) ys = map thrown_key (fst (thrown.walk a (nat limit) (Some k) ds))"
        "f = snd (thrown.walk a (nat limit) (Some k) ds)"
        using Suc.IH by fastforce
      have "xs = ls_Data (rp_payload rp) @ ys" "fin = f"
        using Suc.prems(2) rp more pg Some ys by (simp_all add: Let_def)
      with ds ks pg Some found show ?thesis
        by (intro exI [of _ "t # ds"]) (simp add: case_prod_beta)
    qed
  qed
qed

section \<open>Properties\<close>

text \<open>
  C25: a client that follows \<open>next_cursor\<close> to the last page of a pitcher's pitches, while other
  writers change the tables between its requests, gets them newest first with none twice, and none
  is missing that the table held, unchanged and matching the filters, whenever it was read; also
  when many share one time.
\<close>

theorem pitch_pages_miss_nothing:
  assumes "pitch_filters q cfg r = Inr (limit, a)" "0 < DefaultPageSize cfg" "DefaultPageSize cfg \<le> MaxPageSize cfg" "MaxPageSize cfg < 2 ^ 31 - 1"
    and "cursor_law (ql q)" "\<And>t. found_by ev t \<Longrightarrow> pitch_ids_distinct t"
    and "read_pages (listPitches q ev cfg) r n '''' w = (xs, True)"
  shows "sorted_wrt (\<lambda>x y. (pd_ThrownAt y, pd_ID y) < (pd_ThrownAt x, pd_ID x)) xs
     \<and> {p_ID p |p. \<forall>t. found_by ev t \<longrightarrow> p \<in> set (pitches (tb_db t)) \<and> pitch_matches a (tb_db t) p} \<subseteq> pd_ID ` set xs"
proof -
  have limit: "1 \<le> limit" "limit < 2 ^ 31 - 1" using pitch_filters_Inr [OF assms(1)] assms(2-4) by auto
  have start: "DecodeCursor (ql q) '''' = Inr no_cursor" "time_position no_cursor = None"
    by (simp_all add: DecodeCursor_def time_position_def no_cursor_def)
  from read_pages_walk [OF assms(1) limit assms(5) start(1) assms(7)] obtain ds where
    ds: "\<forall>t \<in> set ds. found_by ev t"
      "map (\<lambda>x. (pd_ThrownAt x, pd_ID x)) xs = map thrown_key (fst (thrown.walk a (nat limit) None ds))"
      "True = snd (thrown.walk a (nat limit) None ds)"
    unfolding start(2) by blast
  obtain rs where rs: "thrown.walk a (nat limit) None ds = (rs, True)"
    using ds(3) by (cases "thrown.walk a (nat limit) None ds") simp
  have ok: "\<forall>t \<in> set ds. pitch_ids_distinct t" using ds(1) assms(6) by blast
  have "sorted_wrt (\<lambda>x y. thrown_key y < thrown_key x) rs" using thrown.walk_ordered [OF ok, of a "nat limit" None] rs by simp
  then have "sorted_wrt (\<lambda>x y. y < x) (map thrown_key rs)" by (simp add: sorted_wrt_map)
  then have "sorted_wrt (\<lambda>x y. y < x) (map (\<lambda>x. (pd_ThrownAt x, pd_ID x)) xs)" using ds(2) rs by simp
  then have "sorted_wrt (\<lambda>x y. (pd_ThrownAt y, pd_ID y) < (pd_ThrownAt x, pd_ID x)) xs" by (simp only: sorted_wrt_map)
  moreover have "p_ID p \<in> pd_ID ` set xs"
    if p: "\<forall>t. found_by ev t \<longrightarrow> p \<in> set (pitches (tb_db t)) \<and> pitch_matches a (tb_db t) p" for p
  proof -
    have "p \<in> set rs" using limit(1) p ds(1) by (intro thrown.walk_complete [OF ok _ rs]) auto
    then have "thrown_key p \<in> set (map (\<lambda>x. (pd_ThrownAt x, pd_ID x)) xs)" using ds(2) rs by simp
    then show ?thesis by (force simp: thrown_key_def)
  qed
  ultimately show ?thesis by blast
qed

text \<open>Two pitches thrown at one time, read one per page.\<close>

definition demo_list_lib :: list_lib where
  "demo_list_lib = query_lib.extend demo_query_lib \<lparr>ll_probabilities = (\<lambda>_. None), ll_sort_key = ToLower, ll_uuid_text = show_nat\<rparr>"

definition demo_api_tables :: api_tables where
  "demo_api_tables = \<lparr>tb_db = demo_tables, tb_users = [], tb_anomalies = [], tb_aggregates = Map.empty\<rparr>"

definition demo_list_env :: api_env where
  "demo_list_env = \<lparr>ev_others = (\<lambda>_ _. demo_api_tables), ev_fault = (\<lambda>_. None), ev_reply = (\<lambda>_. Down False), ev_now = (\<lambda>_. 1),
     ev_new_uuid = (\<lambda>n. Inr n), ev_hashing = plain_hashing\<rparr>"

definition demo_get :: "(string \<Rightarrow> string) \<Rightarrow> http_request" where
  "demo_get query = \<lparr>rq_Method = ''GET'', rq_Path = ''/api/v1/pitches'', rq_Header = (\<lambda>_. ''''), rq_Query = query,
     rq_PathValue = (\<lambda>_. ''''), rq_Cookie = (\<lambda>_. None), rq_RemoteAddr = ''10.0.0.1:999'', rq_TLS = False, rq_Body = ('''', False),
     cx_RequestID = '''', cx_CorrelationID = '''', cx_Claims = None, cx_Deadline = None\<rparr>"

definition demo_pitch_query :: http_request where
  "demo_pitch_query = demo_get ((\<lambda>_. '''')(''pitcher_id'' := ''1'', ''limit'' := ''1''))"

definition demo_api_world :: api_world where
  "demo_api_world = \<lparr>ap_tables = demo_api_tables, ap_limiter = NewLimiter None, ap_calls = 0\<rparr>"

lemma demo_pitch_filters:
  "pitch_filters demo_list_lib (read_config demo_os) demo_pitch_query = Inr (1, \<lparr>lp_PitcherAthleteID = 1, lp_Limit = 2, lp_PitchType = None,
     lp_Outcome = None, lp_FromTs = None, lp_ToTs = None, lp_MinSpeed = None, lp_MaxSpeed = None, lp_Cursor = None\<rparr>)"
  by code_simp

lemma demo_pages:
  "snd (read_pages (listPitches demo_list_lib demo_list_env (read_config demo_os)) demo_pitch_query 3 '''' demo_api_world)"
  by code_simp

lemma demo_list_cursors: "cursor_law (ql demo_list_lib)"
  using demo_cursor_law by (simp add: cursor_law_def demo_list_lib_def query_lib.defs)

theorem pitch_pages_miss_nothing_witness:
  "{4, 5} \<subseteq> pd_ID ` set (fst (read_pages (listPitches demo_list_lib demo_list_env (read_config demo_os)) demo_pitch_query 3 '''' demo_api_world))"
proof -
  obtain xs where run: "read_pages (listPitches demo_list_lib demo_list_env (read_config demo_os)) demo_pitch_query 3 '''' demo_api_world = (xs, True)"
    using demo_pages by (metis prod.collapse)
  have size: "0 < DefaultPageSize (read_config demo_os)" "DefaultPageSize (read_config demo_os) \<le> MaxPageSize (read_config demo_os)"
    "MaxPageSize (read_config demo_os) < 2 ^ 31 - 1" by code_simp+
  have found: "found_by demo_list_env t \<longleftrightarrow> t = demo_api_tables" for t
    by (auto simp: found_by_def demo_list_env_def)
  have ids: "pitch_ids_distinct t" if "found_by demo_list_env t" for t
    using that unfolding found by (simp add: pitch_ids_distinct_def demo_api_tables_def demo_tables_def demo_pitch_def)
  have "p_ID p \<in> pd_ID ` set xs" if "p = demo_pitch 4 2 \<or> p = demo_pitch 5 3" for p
  proof -
    have "p \<in> set (pitches demo_tables)" using that by (auto simp: demo_tables_def)
    moreover have "p_PitcherAthleteID p = 1" using that by (auto simp: demo_pitch_def)
    ultimately show ?thesis
      using pitch_pages_miss_nothing [OF demo_pitch_filters size demo_list_cursors ids run]
      by (auto simp: found demo_api_tables_def pitch_matches_def unset_or_def)
  qed
  from this [of "demo_pitch 4 2"] this [of "demo_pitch 5 3"] run show ?thesis by (simp add: demo_pitch_def)
qed

end
