(* ===== verification/Resources.thy ===== *)
theory Resources
  imports Listings
begin

text \<open>
  The endpoints of internal/api that read or change one thing: a session, a pitch, the predictions
  of a pitch, an athlete, the models, and the two guarded transitions (closing a session,
  acknowledging an anomaly), with their queries.  \<open>avg\<close> is PostgreSQL's \<open>avg\<close>; model versions
  stand in the order of their creation.
\<close>

section \<open>Response shapes\<close>

record SessionRefDTO =
  sr_ID :: uuid
  sr_FullName :: string
  sr_Throws :: "string option"

record SessionDetailDTO =
  se_Session :: SessionDTO
  se_OutcomeDistribution :: "string \<rightharpoonup> int"
  se_Pitcher :: "SessionRefDTO option"
  se_AnomalyCount :: int

record AthleteTotalsDTO =
  to_SessionCount :: int
  to_PitchCount :: int
  to_FirstPitchAt :: "time option"
  to_LastPitchAt :: "time option"

record AthleteDetailDTO =
  de_Athlete :: AthleteDTO
  de_Totals :: AthleteTotalsDTO

section \<open>Queries\<close>

definition GetPitch :: "uuid \<Rightarrow> api_tables \<Rightarrow> (goerr + Pitch) \<times> api_tables" where
  "GetPitch i t = (one_row (find (\<lambda>p. p_ID p = i) (pitches (tb_db t))), t)"

definition GetPitchMeasurement :: "uuid \<Rightarrow> api_tables \<Rightarrow> (goerr + PitchMeasurement) \<times> api_tables" where
  "GetPitchMeasurement i t = (one_row (find (\<lambda>m. me_PitchID m = i) (measurements (tb_db t))), t)"

definition ListPredictionsForPitch ::
  "uuid \<Rightarrow> string option \<Rightarrow> string option \<Rightarrow> api_tables \<Rightarrow> (goerr + (PitchPrediction \<times> ModelVersion) list) \<times> api_tables" where
  "ListPredictionsForPitch i variant version t =
     (Inr (sort_key (\<lambda>(pr, mv). mv_Variant mv)
        (concat (map (\<lambda>mv. map (\<lambda>pr. (pr, mv)) (filter (\<lambda>pr. pp_PitchID pr = i \<and> pp_ModelVersionID pr = mv_ID mv) (predictions (tb_db t))))
          (rev (filter (\<lambda>mv. unset_or variant (\<lambda>v. mv_Variant mv = v) \<and> unset_or version (\<lambda>v. mv_Version mv = v)) (model_versions (tb_db t))))))), t)"

definition ListModelVersions :: "string option \<Rightarrow> bool option \<Rightarrow> api_tables \<Rightarrow> (goerr + ModelVersion list) \<times> api_tables" where
  "ListModelVersions variant active t =
     (Inr (rev (filter (\<lambda>mv. unset_or variant (\<lambda>v. mv_Variant mv = v) \<and> unset_or active (\<lambda>v. mv_IsActive mv = v)) (model_versions (tb_db t)))), t)"

definition GetSessionOutcomeDistribution :: "uuid \<Rightarrow> api_tables \<Rightarrow> (goerr + (string \<times> int) list) \<times> api_tables" where
  "GetSessionOutcomeDistribution i t =
     (let os = somes (map p_ActualOutcome (filter (\<lambda>p. p_SessionID p = i) (pitches (tb_db t))))
      in (Inr (map (\<lambda>v. (v, int (count_list os v))) (remdups os)), t))"

definition ListAnomaliesBySession :: "uuid \<Rightarrow> api_tables \<Rightarrow> (goerr + Anomaly list) \<times> api_tables" where
  "ListAnomaliesBySession i t = (Inr (rev (sort_key ao_DetectedAt (filter (\<lambda>r. ao_SessionID r = i) (tb_anomalies t)))), t)"

definition GetAnomaly :: "uuid \<Rightarrow> api_tables \<Rightarrow> (goerr + Anomaly) \<times> api_tables" where
  "GetAnomaly i t = (one_row (find (\<lambda>r. ao_ID r = i) (tb_anomalies t)), t)"

definition GetAthleteTotals :: "uuid \<Rightarrow> api_tables \<Rightarrow> (goerr + AthleteTotalsDTO) \<times> api_tables" where
  "GetAthleteTotals i t =
     (let ts = map p_ThrownAt (filter (\<lambda>p. p_PitcherAthleteID p = i) (pitches (tb_db t)))
      in (Inr \<lparr>to_SessionCount = int (length (filter (\<lambda>s. ses_PitcherAthleteID s = i) (sessions (tb_db t)))),
            to_PitchCount = int (length ts),
            to_FirstPitchAt = (if ts = [] then None else Some (Min (set ts))),
            to_LastPitchAt = (if ts = [] then None else Some (Max (set ts)))\<rparr>, t))"

text \<open>The guarded transitions; \<open>now\<close> is the \<open>now()\<close> of the statement.\<close>

definition CloseSession :: "time \<Rightarrow> uuid \<Rightarrow> api_tables \<Rightarrow> (goerr + Session) \<times> api_tables" where
  "CloseSession now i t =
     (let active = (\<lambda>s. ses_ID s = i \<and> ses_Status s = ''ACTIVE'');
          shut = (\<lambda>s. s\<lparr>ses_Status := ''COMPLETED'', ses_EndedAt := Some (case ses_EndedAt s of None \<Rightarrow> now | Some e \<Rightarrow> e)\<rparr>)
      in case find active (sessions (tb_db t)) of
           None \<Rightarrow> (Inl ErrNoRows, t)
         | Some s \<Rightarrow> (Inr (shut s), t\<lparr>tb_db := (tb_db t)\<lparr>sessions := update_where active shut (sessions (tb_db t))\<rparr>\<rparr>))"

definition AcknowledgeAnomaly :: "time \<Rightarrow> uuid \<Rightarrow> api_tables \<Rightarrow> (goerr + Anomaly) \<times> api_tables" where
  "AcknowledgeAnomaly now i t =
     (let unseen = (\<lambda>r. ao_ID r = i \<and> ao_AcknowledgedAt r = None); see = (\<lambda>r. r\<lparr>ao_AcknowledgedAt := Some now\<rparr>)
      in case find unseen (tb_anomalies t) of
           None \<Rightarrow> (Inl ErrNoRows, t)
         | Some r \<Rightarrow> (Inr (see r), t\<lparr>tb_anomalies := update_where unseen see (tb_anomalies t)\<rparr>))"

definition RecomputeAggregates :: "(f64 list \<Rightarrow> f64 option) \<Rightarrow> uuid \<Rightarrow> api_tables \<Rightarrow> (goerr + unit) \<times> api_tables" where
  "RecomputeAggregates avg i t =
     (if \<not> list_ex (\<lambda>s. ses_ID s = i) (sessions (tb_db t)) then (Inl ErrNoRows, t)
      else (Inr (), t\<lparr>tb_aggregates := (tb_aggregates t)(i \<mapsto> session_aggregates avg (tb_db t) i)\<rparr>))"

section \<open>Handlers\<close>

definition getSession :: "list_lib \<Rightarrow> api_env \<Rightarrow> http_request \<Rightarrow> SessionDetailDTO response hm" where
  "getSession q ev r =
     h_bind (h_try (PathUUID (ql q) r ''sessionId'')) (\<lambda>i.
     h_bind (sql_found ev ''session'' (get_session i)) (\<lambda>session.
     h_bind (sql ev (GetAthlete (ses_PitcherAthleteID (fst session)))) (\<lambda>pitcher.
     h_bind (sql_ok ev (GetSessionOutcomeDistribution i)) (\<lambda>dist.
     h_bind (sql_ok ev (ListAnomaliesBySession i)) (\<lambda>found.
     h_return (ok_json
       \<lparr>se_Session = toSessionDTO session, se_OutcomeDistribution = map_of dist,
        se_Pitcher = (case pitcher of Inl _ \<Rightarrow> None
          | Inr a \<Rightarrow> Some \<lparr>sr_ID = ath_ID a, sr_FullName = ath_FullName a, sr_Throws = ath_Throws a\<rparr>),
        se_AnomalyCount = int (length found)\<rparr>))))))"

definition getPitch :: "list_lib \<Rightarrow> api_env \<Rightarrow> http_request \<Rightarrow> PitchDTO response hm" where
  "getPitch q ev r =
     h_bind (h_try (PathUUID (ql q) r ''pitchId'')) (\<lambda>i.
     h_bind (sql_found ev ''pitch'' (GetPitch i)) (\<lambda>pitch.
     h_bind (sql ev (GetPitchMeasurement i)) (\<lambda>m.
     h_bind (case m of Inl err \<Rightarrow> if IsNoRows err then h_return None else h_fail (ErrInternal (Some err)) | Inr x \<Rightarrow> h_return (Some x)) (\<lambda>measurement.
     h_bind (sql_ok ev (ListPredictionsForPitch i None None)) (\<lambda>preds.
     h_return (ok_json ((toPitchDTO q pitch measurement)\<lparr>pd_Predictions := map (toPredictionDTO q) preds\<rparr>)))))))"

definition model_variants :: "string list" where "model_variants = [''stuff'', ''pitching'']"

definition listPitchPredictions :: "list_lib \<Rightarrow> api_env \<Rightarrow> http_request \<Rightarrow> (uuid \<times> PredictionDTO list) response hm" where
  "listPitchPredictions q ev r =
     h_bind (h_try (PathUUID (ql q) r ''pitchId'')) (\<lambda>i.
     h_bind (h_try (QueryEnum r ''variant'' model_variants)) (\<lambda>variant.
     h_bind (sql_found ev ''pitch'' (GetPitch i)) (\<lambda>_.
     h_bind (sql_ok ev (ListPredictionsForPitch i variant (QueryString r ''model_version''))) (\<lambda>rows.
     h_return (ok_json (i, map (toPredictionDTO q) rows))))))"

text \<open>The columns of a model card that the tables do not have are left out of the answer.\<close>

definition listModels :: "api_env \<Rightarrow> http_request \<Rightarrow> ModelVersion list response hm" where
  "listModels ev r =
     h_bind (h_try (QueryEnum r ''variant'' model_variants)) (\<lambda>variant.
     h_bind (h_try (QueryBool r ''active'')) (\<lambda>active.
     h_bind (sql_ok ev (ListModelVersions variant active)) (\<lambda>rows. h_return (ok_json rows))))"

definition getAthlete :: "list_lib \<Rightarrow> api_env \<Rightarrow> http_request \<Rightarrow> AthleteDetailDTO response hm" where
  "getAthlete q ev r =
     h_bind (h_try (PathUUID (ql q) r ''athleteId'')) (\<lambda>i.
     h_bind (sql_found ev ''athlete'' (GetAthlete i)) (\<lambda>a.
     h_bind (sql_ok ev (GetAthleteTotals i)) (\<lambda>totals.
     h_return (ok_json \<lparr>de_Athlete = toAthleteDTO a, de_Totals = totals\<rparr>))))"

text \<open>
  The shape both transitions have: the guarded statement, what follows its row, and otherwise the
  lookup that tells a missing row from one that has made the transition.
\<close>

definition transition ::
  "api_env \<Rightarrow> (time \<Rightarrow> api_tables \<Rightarrow> (goerr + 'a) \<times> api_tables) \<Rightarrow> ('a \<Rightarrow> 'p hm)
   \<Rightarrow> string \<Rightarrow> (api_tables \<Rightarrow> (goerr + 'b) \<times> api_tables) \<Rightarrow> string \<Rightarrow> 'p hm" where
  "transition ev stmt after what lookup conflict =
     h_bind (clock ev) (\<lambda>now.
     h_bind (sql ev (stmt now)) (\<lambda>x. case x of
       Inr a \<Rightarrow> after a
     | Inl err \<Rightarrow>
         if \<not> IsNoRows err then h_fail (ErrInternal (Some err))
         else h_bind (sql_found ev what lookup) (\<lambda>_. h_fail (ErrConflict conflict))))"

definition closeSession :: "list_lib \<Rightarrow> api_env \<Rightarrow> (f64 list \<Rightarrow> f64 option) \<Rightarrow> http_request \<Rightarrow> SessionDTO response hm" where
  "closeSession q ev avg r =
     h_bind (h_try (PathUUID (ql q) r ''sessionId'')) (\<lambda>i.
       transition ev (\<lambda>now. CloseSession now i)
         (\<lambda>_. h_bind (sql ev (RecomputeAggregates avg i)) (\<lambda>_.
              h_bind (sql_ok ev (get_session i)) (\<lambda>row. h_return (ok_json (toSessionDTO row)))))
         ''session'' (get_session i) ''session is not active'')"

definition acknowledgeAnomaly :: "list_lib \<Rightarrow> api_env \<Rightarrow> http_request \<Rightarrow> Anomaly response hm" where
  "acknowledgeAnomaly q ev r =
     h_bind (h_try (PathUUID (ql q) r ''anomalyId'')) (\<lambda>i.
       transition ev (\<lambda>now. AcknowledgeAnomaly now i) (\<lambda>row. h_return (ok_json row))
         ''anomaly'' (GetAnomaly i) ''anomaly is already acknowledged'')"

section \<open>A transition is made once\<close>

text \<open>How many of the answers of a run to requests that name \<open>i\<close> are a success.\<close>

definition accepted :: "(http_request \<Rightarrow> APIError + uuid) \<Rightarrow> uuid \<Rightarrow> http_request list \<Rightarrow> 'p result list \<Rightarrow> nat" where
  "accepted ident i rs xs = length (filter (\<lambda>(r, x). ident r = Inr i \<and> (\<exists>a. x = Fine a)) (zip rs xs))"

lemma accepted_Cons: "accepted ident i (r # rs) (x # xs) = (if ident r = Inr i \<and> (\<exists>a. x = Fine a) then 1 else 0) + accepted ident i rs xs"
  by (simp add: accepted_def)

text \<open>What the guarded statement promises: it takes an open row to a shut one, and no statement opens a row.\<close>

locale guarded_statement =
  fixes stmt :: "uuid \<Rightarrow> time \<Rightarrow> api_tables \<Rightarrow> (goerr + 'r) \<times> api_tables"
    and is_open :: "uuid \<Rightarrow> api_tables \<Rightarrow> bool"
  assumes takes: "stmt i now t = (Inr r, t') \<Longrightarrow> is_open i t \<and> \<not> is_open i t'"
    and stays_shut: "\<not> is_open i t \<Longrightarrow> \<not> is_open i (snd (stmt j now t))"
    and refuses: "\<not> is_open i t \<Longrightarrow> stmt i now t = (Inl ErrNoRows, t)"
begin

definition nobody_opens :: "api_env \<Rightarrow> uuid \<Rightarrow> bool" where
  "nobody_opens ev i \<longleftrightarrow> (\<forall>n t. \<not> is_open i t \<longrightarrow> \<not> is_open i (ev_others ev n t))"

lemma stable_sql: "nobody_opens ev i \<Longrightarrow> h_stable (\<lambda>t. \<not> is_open i t) (sql ev (stmt j now))"
  by (rule h_stable_sql) (simp_all add: nobody_opens_def stays_shut)

lemma stable_transition:
  assumes "nobody_opens ev i" "\<And>a. h_stable (\<lambda>t. \<not> is_open i t) (after a)" "reads lookup"
  shows "h_stable (\<lambda>t. \<not> is_open i t) (transition ev (stmt j) after what lookup conflict)"
proof -
  have o: "\<And>n t. \<not> is_open i t \<Longrightarrow> \<not> is_open i (ev_others ev n t)" using assms(1) by (simp add: nobody_opens_def)
  show ?thesis
    unfolding transition_def
    by (auto intro!: stable_rules stable_sql [OF assms(1)] assms(2) h_stable_reads [where P = "\<lambda>t. \<not> is_open i t", OF o assms(3)] split: sum.split)
qed

text \<open>An accepted transition finds the row open and leaves it shut; on a shut row there is none.\<close>

lemma sql_stmt_shut:
  assumes "nobody_opens ev i" "sql ev (stmt i now) w = (Fine (Inr r), w')"
  shows "is_open i (ap_tables w) \<and> \<not> is_open i (ap_tables w')"
proof -
  let ?t = "ev_others ev (ap_calls w) (ap_tables w)"
  obtain t' where "stmt i now ?t = (Inr r, t')" "ap_tables w' = t'"
    using assms(2) by (auto simp: sql_def Let_def split: option.splits prod.splits sum.splits)
  with takes assms(1) show ?thesis unfolding nobody_opens_def by blast
qed

lemma transition_shut:
  assumes "nobody_opens ev i" "\<And>a. h_stable (\<lambda>t. \<not> is_open i t) (after a)"
    and "transition ev (stmt i) after what lookup conflict w = (Fine x, w')"
  shows "is_open i (ap_tables w) \<and> \<not> is_open i (ap_tables w')"
  using assms(3) unfolding transition_def
proof (cases rule: h_bind_cases)
  case (Fine now w1)
  have w1: "ap_tables w1 = ap_tables w" using Fine(1) by (auto simp: clock_def)
  from Fine(2) show ?thesis
  proof (cases rule: h_bind_cases)
    case (Fine y w2)
    show ?thesis
    proof (cases y)
      case (Inl err)
      with Fine(2) show ?thesis
        by (auto simp: h_fail_def elim!: h_bind_cases split: if_splits)
    next
      case (Inr a)
      with Fine(1) sql_stmt_shut [OF assms(1), of now w1 a w2] w1 have "is_open i (ap_tables w)" "\<not> is_open i (ap_tables w2)" by auto
      moreover have "after a w2 = (Fine x, w')" using Fine(2) Inr by simp
      ultimately show ?thesis using h_stableD [OF assms(2)] by blast
    qed
  qed simp_all
qed simp_all

text \<open>Of the requests of a run that name one row, at most one is answered with success, none if it was shut.\<close>

lemma accepted_once:
  assumes "nobody_opens ev i" "\<And>j a. h_stable (\<lambda>t. \<not> is_open i t) (after j a)" "\<And>j. reads (lookup j)"
    and h: "\<And>r. h r = h_bind (h_try (ident r)) (\<lambda>j. transition ev (stmt j) (after j) what (lookup j) conflict)"
    and "serve_all h rs w = (xs, w')"
  shows "accepted ident i rs xs \<le> (if is_open i (ap_tables w) then 1 else 0)
     \<and> (0 < accepted ident i rs xs \<or> \<not> is_open i (ap_tables w) \<longrightarrow> \<not> is_open i (ap_tables w'))"
  using assms(5)
proof (induction rs arbitrary: w xs)
  case (Cons r rs)
  obtain x w1 where x: "h r w = (x, w1)" by fastforce
  obtain ys where ys: "serve_all h rs w1 = (ys, w')" "xs = x # ys"
    using Cons.prems x by (auto split: prod.splits)
  note IH = Cons.IH [OF ys(1)]
  have st: "\<not> is_open i (ap_tables w1)" if "\<not> is_open i (ap_tables w)"
  proof -
    have "h_stable (\<lambda>t. \<not> is_open i t) (h r)"
      unfolding h by (intro stable_rules stable_transition assms)
    from h_stableD [OF this x that] show ?thesis .
  qed
  show ?case
  proof (cases "ident r = Inr i \<and> (\<exists>a. x = Fine a)")
    case True
    then obtain a where "transition ev (stmt i) (after i) what (lookup i) conflict w = (Fine a, w1)" using x by (auto simp: h)
    from transition_shut [OF assms(1) assms(2) this] IH True ys(2) show ?thesis by (auto simp: accepted_Cons)
  next
    case False
    with IH st ys(2) show ?thesis by (auto simp: accepted_Cons split: if_splits)
  qed
qed (simp add: accepted_def)

end

section \<open>The two transitions\<close>

definition session_active :: "uuid \<Rightarrow> api_tables \<Rightarrow> bool" where
  "session_active i t \<longleftrightarrow> list_ex (\<lambda>s. ses_ID s = i \<and> ses_Status s = ''ACTIVE'') (sessions (tb_db t))"

definition anomaly_unseen :: "uuid \<Rightarrow> api_tables \<Rightarrow> bool" where
  "anomaly_unseen i t \<longleftrightarrow> list_ex (\<lambda>r. ao_ID r = i \<and> ao_AcknowledgedAt r = None) (tb_anomalies t)"

lemma update_where_no: "(\<And>x. P x \<Longrightarrow> \<not> P (f x)) \<Longrightarrow> \<not> list_ex P (update_where P f xs)"
  by (auto simp: update_where_def list_ex_iff)

interpretation closing: guarded_statement "\<lambda>i now. CloseSession now i" session_active
proof
  fix i now t r t' assume run: "CloseSession now i t = (Inr r, t')"
  then have "find (\<lambda>s. ses_ID s = i \<and> ses_Status s = ''ACTIVE'') (sessions (tb_db t)) \<noteq> None"
    by (auto simp: CloseSession_def Let_def split: option.splits)
  then have "session_active i t" unfolding find_None_ex session_active_def by simp
  moreover have "sessions (tb_db t') = update_where (\<lambda>s. ses_ID s = i \<and> ses_Status s = ''ACTIVE'')
      (\<lambda>s. s\<lparr>ses_Status := ''COMPLETED'', ses_EndedAt := Some (case ses_EndedAt s of None \<Rightarrow> now | Some e \<Rightarrow> e)\<rparr>) (sessions (tb_db t))"
    using run by (auto simp: CloseSession_def Let_def split: option.splits)
  then have "\<not> session_active i t'"
    unfolding session_active_def by (simp only:) (rule update_where_no, simp)
  ultimately show "session_active i t \<and> \<not> session_active i t'" by simp
next
  fix i j now t assume "\<not> session_active i t"
  then show "\<not> session_active i (snd (CloseSession now j t))"
    by (auto simp: CloseSession_def session_active_def list_ex_iff update_where_def Let_def split: option.splits if_splits)
next
  fix i now t assume "\<not> session_active i t"
  then show "CloseSession now i t = (Inl ErrNoRows, t)"
    by (simp add: CloseSession_def session_active_def find_None_ex [symmetric] Let_def)
qed

interpretation acknowledging: guarded_statement "\<lambda>i now. AcknowledgeAnomaly now i" anomaly_unseen
proof
  fix i now t r t' assume run: "AcknowledgeAnomaly now i t = (Inr r, t')"
  then have "find (\<lambda>r. ao_ID r = i \<and> ao_AcknowledgedAt r = None) (tb_anomalies t) \<noteq> None"
    by (auto simp: AcknowledgeAnomaly_def Let_def split: option.splits)
  then have "anomaly_unseen i t" unfolding find_None_ex anomaly_unseen_def by simp
  moreover have "tb_anomalies t' = update_where (\<lambda>r. ao_ID r = i \<and> ao_AcknowledgedAt r = None) (\<lambda>r. r\<lparr>ao_AcknowledgedAt := Some now\<rparr>) (tb_anomalies t)"
    using run by (auto simp: AcknowledgeAnomaly_def Let_def split: option.splits)
  then have "\<not> anomaly_unseen i t'"
    unfolding anomaly_unseen_def by (simp only:) (rule update_where_no, simp)
  ultimately show "anomaly_unseen i t \<and> \<not> anomaly_unseen i t'" by simp
next
  fix i j now t assume "\<not> anomaly_unseen i t"
  then show "\<not> anomaly_unseen i (snd (AcknowledgeAnomaly now j t))"
    by (auto simp: AcknowledgeAnomaly_def anomaly_unseen_def list_ex_iff update_where_def Let_def split: option.splits if_splits)
next
  fix i now t assume "\<not> anomaly_unseen i t"
  then show "AcknowledgeAnomaly now i t = (Inl ErrNoRows, t)"
    by (simp add: AcknowledgeAnomaly_def anomaly_unseen_def find_None_ex [symmetric] Let_def)
qed

lemma reads_queries [simp]: "reads (get_session i)" "reads (GetAnomaly i)" "reads (GetAthlete i)" "reads (GetPitch i)"
  by (simp_all add: reads_def get_session_def GetAnomaly_def GetAthlete_def GetPitch_def)

lemma aggregates_stable: "\<not> session_active i t \<Longrightarrow> \<not> session_active i (snd (RecomputeAggregates avg j t))"
  by (simp add: RecomputeAggregates_def session_active_def)

lemma closing_after_stable:
  assumes "closing.nobody_opens ev i"
  shows "h_stable (\<lambda>t. \<not> session_active i t) (h_bind (sql ev (RecomputeAggregates avg j)) (\<lambda>_. h_bind (sql_ok ev (get_session j)) (\<lambda>row. h_return (ok_json (f row)))))"
  using assms unfolding closing.nobody_opens_def
  by (intro stable_rules h_stable_sql h_stable_reads) (simp_all add: aggregates_stable)

text \<open>A session that was just closed is reported as it is stored: not active.\<close>

lemma closed_answer:
  assumes "closing.nobody_opens ev i" "PathUUID (ql q) r ''sessionId'' = Inr i" "closeSession q ev avg r w = (Fine rp, w')"
  shows "sd_Status (rp_payload rp) \<noteq> ''ACTIVE''"
proof -
  let ?after = "h_bind (sql ev (RecomputeAggregates avg i)) (\<lambda>_. h_bind (sql_ok ev (get_session i)) (\<lambda>row. h_return (ok_json (toSessionDTO row))))"
  obtain now w1 s w2 where w2: "sql ev (CloseSession now i) w1 = (Fine (Inr s), w2)" "?after w2 = (Fine rp, w')"
    using assms(2,3) unfolding closeSession_def transition_def
    by (auto elim!: h_bind_cases simp: h_fail_def split: sum.splits if_splits)
  have s2: "\<not> session_active i (ap_tables w2)" using closing.sql_stmt_shut [OF assms(1) w2(1)] by simp
  obtain y w3 where w3: "sql ev (RecomputeAggregates avg i) w2 = (Fine y, w3)"
    "h_bind (sql_ok ev (get_session i)) (\<lambda>row. h_return (ok_json (toSessionDTO row))) w3 = (Fine rp, w')"
    using w2(2)
  proof (cases rule: h_bind_cases)
    case (Fine y w3)
    with that show ?thesis by blast
  qed simp_all
  have a: "\<not> session_active i (ap_tables w3)"
    using assms(1) unfolding closing.nobody_opens_def
    by (intro h_stableD [OF h_stable_sql w3(1), of "\<lambda>t. \<not> session_active i t"]) (simp_all add: aggregates_stable s2)
  from w3(2) obtain row where row: "get_session i (ev_others ev (ap_calls w3) (ap_tables w3)) = (Inr row, ev_others ev (ap_calls w3) (ap_tables w3))"
    "rp = ok_json (toSessionDTO row)"
    by (auto elim!: h_bind_cases sql_ok_Fine simp: h_return_def get_session_def)
  have "\<not> session_active i (ev_others ev (ap_calls w3) (ap_tables w3))" using a assms(1) unfolding closing.nobody_opens_def by blast
  with row show ?thesis
    by (auto simp: get_session_def one_row_def session_active_def list_ex_iff ok_json_def toSessionDTO_def split: option.splits dest!: find_Some_list)
qed

definition anomaly_seen :: "uuid \<Rightarrow> api_tables \<Rightarrow> bool" where
  "anomaly_seen i t \<longleftrightarrow> list_ex (\<lambda>r. ao_ID r = i) (tb_anomalies t) \<and> \<not> anomaly_unseen i t"

lemma seen_lookup: "anomaly_seen i t \<Longrightarrow> \<exists>r. GetAnomaly i t = (Inr r, t)"
  by (cases "find (\<lambda>r. ao_ID r = i) (tb_anomalies t)")
    (simp_all add: anomaly_seen_def GetAnomaly_def find_None_ex)

lemma sql_quiet: "ev_fault ev (ap_calls w) = None \<Longrightarrow> q (ev_others ev (ap_calls w) (ap_tables w)) = (x, ev_others ev (ap_calls w) (ap_tables w)) \<Longrightarrow>
    sql ev q w = (Fine x, w\<lparr>ap_calls := ap_calls w + 1, ap_tables := ev_others ev (ap_calls w) (ap_tables w)\<rparr>)"
  by (cases x) (simp_all add: sql_def Let_def)

lemma acknowledge_seen:
  assumes "\<And>n t. anomaly_seen i t \<Longrightarrow> anomaly_seen i (ev_others ev n t)" "anomaly_seen i (ap_tables w)"
    and "\<forall>n \<ge> ap_calls w. ev_fault ev n = None" "PathUUID (ql q) r ''anomalyId'' = Inr i"
  obtains w' where "acknowledgeAnomaly q ev r w = (Fail (ErrConflict ''anomaly is already acknowledged''), w')"
    "anomaly_seen i (ap_tables w')" "ap_calls w \<le> ap_calls w'"
proof -
  let ?w1 = "w\<lparr>ap_calls := ap_calls w + 1\<rparr>" and ?t1 = "ev_others ev (ap_calls w + 1) (ap_tables w)"
  let ?w2 = "?w1\<lparr>ap_calls := ap_calls w + 2, ap_tables := ?t1\<rparr>" and ?t2 = "ev_others ev (ap_calls w + 2) ?t1"
  have s1: "anomaly_seen i ?t1" "anomaly_seen i ?t2" using assms(1,2) by blast+
  then have "AcknowledgeAnomaly now i ?t1 = (Inl ErrNoRows, ?t1)" for now
    by (simp add: acknowledging.refuses anomaly_seen_def)
  then have 1: "sql ev (AcknowledgeAnomaly now i) ?w1 = (Fine (Inl ErrNoRows), ?w2)" for now
    using assms(3) by (subst sql_quiet) simp_all
  obtain row where "GetAnomaly i ?t2 = (Inr row, ?t2)" using seen_lookup [OF s1(2)] by blast
  then have 2: "sql ev (GetAnomaly i) ?w2 = (Fine (Inr row), ?w2\<lparr>ap_calls := ap_calls w + 3, ap_tables := ?t2\<rparr>)"
    using assms(3) by (subst sql_quiet) simp_all
  have "acknowledgeAnomaly q ev r w = (Fail (ErrConflict ''anomaly is already acknowledged''), ?w2\<lparr>ap_calls := ap_calls w + 3, ap_tables := ?t2\<rparr>)"
    using assms(4) 1 2 by (simp add: acknowledgeAnomaly_def transition_def clock_def h_bind_def sql_found_def h_return_def h_fail_def)
  with that s1(2) show ?thesis by simp
qed

lemma acknowledge_seen_all:
  assumes "\<And>n t. anomaly_seen i t \<Longrightarrow> anomaly_seen i (ev_others ev n t)" "anomaly_seen i (ap_tables w)"
    and "\<forall>n \<ge> ap_calls w. ev_fault ev n = None" "\<forall>r \<in> set rs. PathUUID (ql q) r ''anomalyId'' = Inr i"
  shows "fst (serve_all (acknowledgeAnomaly q ev) rs w) = replicate (length rs) (Fail (ErrConflict ''anomaly is already acknowledged''))"
  using assms(2-4)
proof (induction rs arbitrary: w)
  case (Cons r rs)
  from Cons.prems obtain w' where "acknowledgeAnomaly q ev r w = (Fail (ErrConflict ''anomaly is already acknowledged''), w')"
    "anomaly_seen i (ap_tables w')" "ap_calls w \<le> ap_calls w'"
    using acknowledge_seen [OF assms(1), of w q r] by auto
  with Cons.IH [of w'] Cons.prems show ?case by (simp add: case_prod_beta)
qed simp

section \<open>Properties\<close>

text \<open>
  C26: a session is closed once.  Over any sequence of close requests, for this and other sessions,
  with other writers in between that do not reopen it and statements that fail or whose answers are
  lost, at most one request for the session is answered with success; then the session is and stays
  closed, and the answer does not show it as active.
\<close>

theorem session_closed_once:
  assumes "\<And>n t. \<not> session_active i t \<Longrightarrow> \<not> session_active i (ev_others ev n t)"
    and "serve_all (closeSession q ev avg) rs w = (xs, w')"
  shows "accepted (\<lambda>r. PathUUID (ql q) r ''sessionId'') i rs xs \<le> 1
     \<and> (0 < accepted (\<lambda>r. PathUUID (ql q) r ''sessionId'') i rs xs \<longrightarrow> session_active i (ap_tables w) \<and> \<not> session_active i (ap_tables w'))
     \<and> (\<forall>r w1 rp w2. PathUUID (ql q) r ''sessionId'' = Inr i \<and> closeSession q ev avg r w1 = (Fine rp, w2) \<longrightarrow> sd_Status (rp_payload rp) \<noteq> ''ACTIVE'')"
proof -
  have o: "closing.nobody_opens ev i" using assms(1) by (simp add: closing.nobody_opens_def)
  have "accepted (\<lambda>r. PathUUID (ql q) r ''sessionId'') i rs xs \<le> (if session_active i (ap_tables w) then 1 else 0)
     \<and> (0 < accepted (\<lambda>r. PathUUID (ql q) r ''sessionId'') i rs xs \<or> \<not> session_active i (ap_tables w) \<longrightarrow> \<not> session_active i (ap_tables w'))"
    by (rule closing.accepted_once [where h = "closeSession q ev avg" and lookup = get_session and what = "''session''" and conflict = "''session is not active''"
          and after = "\<lambda>j _. h_bind (sql ev (RecomputeAggregates avg j)) (\<lambda>_. h_bind (sql_ok ev (get_session j)) (\<lambda>row. h_return (ok_json (toSessionDTO row))))"])
      (simp_all add: o closing_after_stable closeSession_def assms(2))
  with closed_answer [OF o] show ?thesis by (auto split: if_splits)
qed

text \<open>
  C27: an acknowledgement whose answer is lost after the server applied it is reported as an internal
  error, and every retry as a conflict, as long as no other writer undoes it: the caller is never
  told that it was the one who acknowledged.
\<close>

theorem lost_acknowledgement:
  assumes "\<And>n t. anomaly_seen i t \<Longrightarrow> anomaly_seen i (ev_others ev n t)"
    and "anomaly_unseen i (ev_others ev (ap_calls w + 1) (ap_tables w))"
    and "ev_fault ev (ap_calls w + 1) = Some (e, True)" "\<forall>n > ap_calls w + 1. ev_fault ev n = None"
    and "\<forall>r' \<in> set (r # rs). PathUUID (ql q) r' ''anomalyId'' = Inr i"
  shows "fst (serve_all (acknowledgeAnomaly q ev) (r # rs) w)
     = Fail (ErrInternal (Some (lib e))) # replicate (length rs) (Fail (ErrConflict ''anomaly is already acknowledged''))"
proof -
  let ?t = "ev_others ev (ap_calls w + 1) (ap_tables w)" and ?now = "ev_now ev (ap_calls w)"
  have "find (\<lambda>r. ao_ID r = i \<and> ao_AcknowledgedAt r = None) (tb_anomalies ?t) \<noteq> None"
    unfolding find_None_ex using assms(2) by (simp add: anomaly_unseen_def)
  then obtain row t' where ack: "AcknowledgeAnomaly ?now i ?t = (Inr row, t')"
    by (auto simp: AcknowledgeAnomaly_def Let_def)
  then have "\<not> anomaly_unseen i t'" using acknowledging.takes by blast
  moreover have "tb_anomalies t' = update_where (\<lambda>r. ao_ID r = i \<and> ao_AcknowledgedAt r = None) (\<lambda>r. r\<lparr>ao_AcknowledgedAt := Some ?now\<rparr>) (tb_anomalies ?t)"
    using ack by (auto simp: AcknowledgeAnomaly_def Let_def split: option.splits)
  then have ids: "map ao_ID (tb_anomalies t') = map ao_ID (tb_anomalies ?t)" by (auto simp: update_where_def)
  have "i \<in> set (map ao_ID (tb_anomalies ?t))" using assms(2) by (auto simp: anomaly_unseen_def list_ex_iff)
  then have "list_ex (\<lambda>r. ao_ID r = i) (tb_anomalies t')" unfolding ids [symmetric] by (auto simp: list_ex_iff)
  ultimately have seen: "anomaly_seen i t'" by (simp add: anomaly_seen_def)
  let ?w' = "w\<lparr>ap_calls := ap_calls w + 2, ap_tables := t'\<rparr>"
  have "acknowledgeAnomaly q ev r w = (Fail (ErrInternal (Some (lib e))), ?w')"
    using assms(3,5) ack by (simp add: acknowledgeAnomaly_def transition_def clock_def h_bind_def sql_def h_fail_def Let_def)
  moreover have "fst (serve_all (acknowledgeAnomaly q ev) rs ?w') = replicate (length rs) (Fail (ErrConflict ''anomaly is already acknowledged''))"
    using assms(4,5) seen by (intro acknowledge_seen_all [OF assms(1)]) auto
  ultimately show ?thesis by (simp add: case_prod_beta)
qed

text \<open>One active session, one open anomaly.\<close>

definition demo_anomaly :: Anomaly where
  "demo_anomaly = \<lparr>ao_ID = 8, ao_AthleteID = 1, ao_SessionID = 3, ao_Metric = ''release_speed'', ao_PitchType = Some ''FF'', ao_ObservedValue = Fin 86,
     ao_BaselineMedian = Fin 94, ao_RobustSigma = Fin 1, ao_ZRobust = Fin (- 8), ao_Direction = ''DECREASE'', ao_Severity = ''HIGH'',
     ao_WindowSessions = 1, ao_DetectorVersion = ''1'', ao_DetectedAt = 30, ao_AcknowledgedAt = None\<rparr>"

definition demo_calls :: "(nat \<Rightarrow> (lib_error \<times> bool) option) \<Rightarrow> api_env" where
  "demo_calls faults = \<lparr>ev_others = (\<lambda>_ t. t), ev_fault = faults, ev_reply = (\<lambda>_. Down False), ev_now = (\<lambda>_. 40),
     ev_new_uuid = (\<lambda>n. Inr n), ev_hashing = plain_hashing\<rparr>"

definition demo_service :: api_world where
  "demo_service = demo_api_world\<lparr>ap_tables := demo_api_tables\<lparr>tb_anomalies := [demo_anomaly]\<rparr>\<rparr>"

definition demo_action :: http_request where
  "demo_action = (demo_get (\<lambda>_. ''''))\<lparr>rq_Method := ''POST'', rq_PathValue := (\<lambda>k. if k = ''sessionId'' then ''3'' else ''8'')\<rparr>"

lemma demo_ident: "PathUUID (ql demo_list_lib) demo_action ''sessionId'' = Inr 3" "PathUUID (ql demo_list_lib) demo_action ''anomalyId'' = Inr 8"
  by code_simp+

lemma demo_closed:
  "accepted (\<lambda>r. PathUUID (ql demo_list_lib) r ''sessionId'') 3 [demo_action, demo_action]
     (fst (serve_all (closeSession demo_list_lib (demo_calls (\<lambda>_. None)) (\<lambda>_. None)) [demo_action, demo_action] demo_service)) = 1"
  by (simp add: accepted_def demo_ident closeSession_def transition_def clock_def h_bind_def sql_def sql_ok_def sql_found_def h_return_def h_fail_def Let_def
      CloseSession_def RecomputeAggregates_def get_session_def demo_service_def demo_api_world_def demo_api_tables_def demo_sessions demo_calls_def
      demo_outing_def update_where_def)

theorem session_closed_once_witness:
  "\<not> session_active 3 (ap_tables (snd (serve_all (closeSession demo_list_lib (demo_calls (\<lambda>_. None)) (\<lambda>_. None)) [demo_action, demo_action] demo_service)))"
proof -
  obtain xs w' where run: "serve_all (closeSession demo_list_lib (demo_calls (\<lambda>_. None)) (\<lambda>_. None)) [demo_action, demo_action] demo_service = (xs, w')"
    by fastforce
  have "\<not> session_active 3 t \<Longrightarrow> \<not> session_active 3 (ev_others (demo_calls (\<lambda>_. None)) n t)" for n t
    by (simp add: demo_calls_def)
  from session_closed_once [OF this run] demo_closed show ?thesis unfolding run by simp
qed

theorem lost_acknowledgement_witness:
  "fst (serve_all (acknowledgeAnomaly demo_list_lib (demo_calls (\<lambda>n. if n = 1 then Some (NetErr ''reset'', True) else None))) [demo_action, demo_action] demo_service)
     = Fail (ErrInternal (Some (lib (NetErr ''reset'')))) # replicate (length [demo_action]) (Fail (ErrConflict ''anomaly is already acknowledged''))"
  by (rule lost_acknowledgement [where i = 8])
    (simp_all add: demo_calls_def demo_ident anomaly_unseen_def demo_service_def demo_api_world_def demo_anomaly_def)

end
