(* ===== verification/Analytics.thy ===== *)
theory Analytics
  imports Resources
begin

text \<open>
  The rollup of one athlete: internal/db/dbgen/analytics.sql.go, \<open>getAthleteAnalytics\<close> of
  internal/api/handlers_athletes.go with its cache-aside through internal/cache, and why the cache
  cannot be told from the database while the tables rest.  PostgreSQL's \<open>avg\<close>, the collation, the
  JSON of the rollup and the layout of times in the key are parameters.
\<close>

section \<open>Response shapes\<close>

record AthleteSummaryDTO =
  su_PitchCount :: int
  su_SessionCount :: int
  su_AvgReleaseSpeed :: "f64 option"
  su_AvgReleaseSpinRate :: "f64 option"
  su_AvgReleaseExtension :: "f64 option"
  su_AvgPitchScore :: "f64 option"
  su_WhiffRate :: "f64 option"
  su_CalledStrikeRate :: "f64 option"
  su_InZoneRate :: "f64 option"

record PitchTypeStatDTO =
  st_PitchType :: string
  st_PitchName :: "string option"
  st_Count :: int
  st_UsagePct :: f64
  st_AvgReleaseSpeed :: "f64 option"
  st_AvgReleaseSpinRate :: "f64 option"
  st_AvgPfxXArm :: "f64 option"
  st_AvgPfxZ :: "f64 option"
  st_AvgPitchScore :: "f64 option"
  st_WhiffRate :: "f64 option"

record TrendPointDTO =
  tp_SessionID :: uuid
  tp_SourceGameDate :: "time option"
  tp_StartedAt :: time
  tp_Metrics :: SessionAggregates

record AnalyticsDTO =
  an_AthleteID :: uuid
  an_Period :: "time option \<times> time option"
  an_Summary :: AthleteSummaryDTO
  an_PitchTypeDistribution :: "PitchTypeStatDTO list"
  an_Trend :: "TrendPointDTO list"
  an_OpenAnomalyCount :: int

record rollup_lib =
  rl_avg :: "f64 list \<Rightarrow> f64 option"
  rl_marshal :: "AnalyticsDTO \<Rightarrow> string option"
  rl_unmarshal :: "string \<Rightarrow> AnalyticsDTO option"
  rl_RFC3339Nano :: "time \<Rightarrow> string"

section \<open>Queries\<close>

text \<open>The rows of the two LEFT JOINs, and \<open>COALESCE(avg(...), 0)\<close> and \<open>COALESCE(n / NULLIF(m, 0), 0)\<close>.\<close>

definition rated_rows :: "database \<Rightarrow> (Pitch \<Rightarrow> bool) \<Rightarrow> (Pitch \<times> PitchMeasurement option \<times> f64 option) list" where
  "rated_rows d P = concat (map (\<lambda>p. map (\<lambda>sc. (p, measurement_of d p, sc)) (joined_scores d p)) (filter P (pitches d)))"

definition avg_or_zero :: "rollup_lib \<Rightarrow> f64 option list \<Rightarrow> f64" where
  "avg_or_zero rl xs = (case rl_avg rl (somes xs) of None \<Rightarrow> Fin 0 | Some x \<Rightarrow> x)"

definition ratio :: "nat \<Rightarrow> nat \<Rightarrow> f64" where
  "ratio n m = (if m = 0 then Fin 0 else f64_div (float64 (int n)) (float64 (int m)))"

definition in_period :: "uuid \<Rightarrow> time option \<Rightarrow> time option \<Rightarrow> Pitch \<Rightarrow> bool" where
  "in_period i from_ts to_ts p \<longleftrightarrow> p_PitcherAthleteID p = i \<and> unset_or from_ts (\<lambda>v. v \<le> p_ThrownAt p) \<and> unset_or to_ts (\<lambda>v. p_ThrownAt p \<le> v)"

definition swings :: "string option list \<Rightarrow> string option list" where
  "swings = filter (\<lambda>x. x \<in> {Some ''SWINGING_STRIKE'', Some ''FOUL'', Some ''IN_PLAY''})"

definition whiff_rate :: "string option list \<Rightarrow> f64" where
  "whiff_rate os = ratio (count_list os (Some ''SWINGING_STRIKE'')) (length (swings os))"

record AthleteSummaryRow =
  rw_PitchCount :: int
  rw_SessionCount :: int
  rw_AvgReleaseSpeed :: f64
  rw_AvgReleaseSpinRate :: f64
  rw_AvgReleaseExtension :: f64
  rw_AvgPitchScore :: f64
  rw_WhiffRate :: f64
  rw_CalledStrikeRate :: f64
  rw_InZoneRate :: f64

definition GetAthleteSummary ::
  "rollup_lib \<Rightarrow> uuid \<Rightarrow> time option \<Rightarrow> time option \<Rightarrow> api_tables \<Rightarrow> (goerr + AthleteSummaryRow) \<times> api_tables" where
  "GetAthleteSummary rl i from_ts to_ts t =
     (let rows = rated_rows (tb_db t) (in_period i from_ts to_ts);
          os = map (\<lambda>(p, _). p_ActualOutcome p) rows;
          col = (\<lambda>sel. avg_or_zero rl (map (\<lambda>(_, m, _). Option.bind m sel) rows));
          zones = somes (map (\<lambda>(_, m, _). Option.bind m me_InZone) rows)
      in (Inr \<lparr>rw_PitchCount = int (length rows), rw_SessionCount = int (length (remdups (map (\<lambda>(p, _). p_SessionID p) rows))),
            rw_AvgReleaseSpeed = col me_ReleaseSpeed, rw_AvgReleaseSpinRate = col me_ReleaseSpinRate,
            rw_AvgReleaseExtension = col me_ReleaseExtension, rw_AvgPitchScore = avg_or_zero rl (map (\<lambda>(_, _, sc). sc) rows),
            rw_WhiffRate = whiff_rate os, rw_CalledStrikeRate = ratio (count_list os (Some ''CALLED_STRIKE'')) (length rows),
            rw_InZoneRate = ratio (length (filter id zones)) (length zones)\<rparr>, t))"

record PitchTypeRow =
  pt_PitchType :: string
  pt_PitchName :: "string option"
  pt_N :: int
  pt_AvgReleaseSpeed :: f64
  pt_AvgReleaseSpinRate :: f64
  pt_AvgPfxXArm :: f64
  pt_AvgPfxZ :: f64
  pt_AvgPitchScore :: f64
  pt_WhiffRate :: f64

text \<open>\<open>max(pitch_name)\<close> by the collation; groups of one size come in no particular order in PostgreSQL.\<close>

definition max_name :: "list_lib \<Rightarrow> string list \<Rightarrow> string option" where
  "max_name q names = (if names = [] then None else Some (last (sort_key (\<lambda>s. (ll_sort_key q s, s)) names)))"

definition pitch_type_row :: "list_lib \<Rightarrow> rollup_lib \<Rightarrow> string \<Rightarrow> (Pitch \<times> PitchMeasurement option \<times> f64 option) list \<Rightarrow> PitchTypeRow" where
  "pitch_type_row q rl ty rows =
     (let g = filter (\<lambda>(p, _). p_PitchType p = Some ty) rows; col = (\<lambda>sel. avg_or_zero rl (map (\<lambda>(_, m, _). Option.bind m sel) g))
      in \<lparr>pt_PitchType = ty, pt_PitchName = max_name q (somes (map (\<lambda>(p, _). p_PitchName p) g)), pt_N = int (length g),
          pt_AvgReleaseSpeed = col me_ReleaseSpeed, pt_AvgReleaseSpinRate = col me_ReleaseSpinRate, pt_AvgPfxXArm = col me_PfxXArm,
          pt_AvgPfxZ = col me_PfxZ, pt_AvgPitchScore = avg_or_zero rl (map (\<lambda>(_, _, sc). sc) g),
          pt_WhiffRate = whiff_rate (map (\<lambda>(p, _). p_ActualOutcome p) g)\<rparr>)"

definition GetAthletePitchTypeDistribution ::
  "list_lib \<Rightarrow> rollup_lib \<Rightarrow> uuid \<Rightarrow> time option \<Rightarrow> time option \<Rightarrow> api_tables \<Rightarrow> (goerr + PitchTypeRow list) \<times> api_tables" where
  "GetAthletePitchTypeDistribution q rl i from_ts to_ts t =
     (let rows = rated_rows (tb_db t) (\<lambda>p. in_period i from_ts to_ts p \<and> p_PitchType p \<noteq> None)
      in (Inr (rev (sort_key pt_N (map (\<lambda>ty. pitch_type_row q rl ty rows) (remdups (somes (map (\<lambda>(p, _). p_PitchType p) rows)))))), t))"

definition GetAthleteSessionTrend :: "uuid \<Rightarrow> int \<Rightarrow> api_tables \<Rightarrow> (goerr + TrendPointDTO list) \<times> api_tables" where
  "GetAthleteSessionTrend i lm t =
     (case sql_limit lm (rev (sort_key ses_StartedAt (filter (\<lambda>s. ses_PitcherAthleteID s = i \<and> 0 < agg_PitchCount (aggregates_of t (ses_ID s)))
           (sessions (tb_db t))))) of
        Inl e \<Rightarrow> Inl e
      | Inr rs \<Rightarrow> Inr (map (\<lambda>s. \<lparr>tp_SessionID = ses_ID s, tp_SourceGameDate = ses_SourceGameDate s, tp_StartedAt = ses_StartedAt s,
            tp_Metrics = aggregates_of t (ses_ID s)\<rparr>) rs), t)"

definition CountOpenAnomalies :: "uuid \<Rightarrow> api_tables \<Rightarrow> (goerr + int) \<times> api_tables" where
  "CountOpenAnomalies i t = (Inr (int (length (filter (\<lambda>r. ao_AthleteID r = i \<and> ao_AcknowledgedAt r = None) (tb_anomalies t)))), t)"

section \<open>The handler\<close>

definition nilIfEmpty :: "f64 \<Rightarrow> int \<Rightarrow> f64 option" where
  "nilIfEmpty v pitchCount = (if pitchCount = 0 then None else Some v)"

definition asStringPtr :: "string option \<Rightarrow> string option" where
  "asStringPtr v = (case v of Some s \<Rightarrow> if s = '''' then None else Some s | None \<Rightarrow> None)"

definition summary_dto :: "AthleteSummaryRow \<Rightarrow> AthleteSummaryDTO" where
  "summary_dto s = (let n = rw_PitchCount s in
     \<lparr>su_PitchCount = n, su_SessionCount = rw_SessionCount s,
      su_AvgReleaseSpeed = nilIfEmpty (rw_AvgReleaseSpeed s) n, su_AvgReleaseSpinRate = nilIfEmpty (rw_AvgReleaseSpinRate s) n,
      su_AvgReleaseExtension = nilIfEmpty (rw_AvgReleaseExtension s) n, su_AvgPitchScore = nilIfEmpty (rw_AvgPitchScore s) n,
      su_WhiffRate = nilIfEmpty (rw_WhiffRate s) n, su_CalledStrikeRate = nilIfEmpty (rw_CalledStrikeRate s) n,
      su_InZoneRate = nilIfEmpty (rw_InZoneRate s) n\<rparr>)"

definition stat_dto :: "int \<Rightarrow> PitchTypeRow \<Rightarrow> PitchTypeStatDTO" where
  "stat_dto all_pitches d =
     \<lparr>st_PitchType = pt_PitchType d, st_PitchName = asStringPtr (pt_PitchName d), st_Count = pt_N d,
      st_UsagePct = (if 0 < all_pitches then f64_div (float64 (pt_N d)) (float64 all_pitches) else Fin 0),
      st_AvgReleaseSpeed = nilIfEmpty (pt_AvgReleaseSpeed d) (pt_N d), st_AvgReleaseSpinRate = nilIfEmpty (pt_AvgReleaseSpinRate d) (pt_N d),
      st_AvgPfxXArm = nilIfEmpty (pt_AvgPfxXArm d) (pt_N d), st_AvgPfxZ = nilIfEmpty (pt_AvgPfxZ d) (pt_N d),
      st_AvgPitchScore = nilIfEmpty (pt_AvgPitchScore d) (pt_N d), st_WhiffRate = nilIfEmpty (pt_WhiffRate d) (pt_N d)\<rparr>"

definition computeAthleteAnalytics ::
  "list_lib \<Rightarrow> rollup_lib \<Rightarrow> api_env \<Rightarrow> uuid \<Rightarrow> time option \<Rightarrow> time option \<Rightarrow> string list \<Rightarrow> AnalyticsDTO hm" where
  "computeAthleteAnalytics q rl ev i from_ts to_ts incl =
     h_bind (sql_ok ev (GetAthleteSummary rl i from_ts to_ts)) (\<lambda>summary.
     h_bind (if ''distribution'' \<in> set incl then sql_ok ev (GetAthletePitchTypeDistribution q rl i from_ts to_ts) else h_return []) (\<lambda>dist.
     h_bind (if ''trend'' \<in> set incl then sql_ok ev (GetAthleteSessionTrend i 60) else h_return []) (\<lambda>trend.
     h_bind (sql_ok ev (CountOpenAnomalies i)) (\<lambda>unseen.
     h_return \<lparr>an_AthleteID = i, an_Period = (from_ts, to_ts), an_Summary = summary_dto summary,
       an_PitchTypeDistribution = map (stat_dto (sum_list (map pt_N dist))) dist, an_Trend = trend, an_OpenAnomalyCount = unseen\<rparr>))))"

definition formatTimeParam :: "rollup_lib \<Rightarrow> time option \<Rightarrow> string" where
  "formatTimeParam rl t = (case t of None \<Rightarrow> '''' | Some v \<Rightarrow> rl_RFC3339Nano rl v)"

definition variant_parts :: "rollup_lib \<Rightarrow> time option \<Rightarrow> time option \<Rightarrow> string list \<Rightarrow> string list" where
  "variant_parts rl from_ts to_ts incl =
     [''from='' @ formatTimeParam rl from_ts, ''to='' @ formatTimeParam rl to_ts, ''include='' @ join_with '','' (sort incl)]"

definition analyticsVariant :: "hashing \<Rightarrow> rollup_lib \<Rightarrow> time option \<Rightarrow> time option \<Rightarrow> string list \<Rightarrow> string" where
  "analyticsVariant h rl from_ts to_ts incl = Variant_key h (variant_parts rl from_ts to_ts incl)"

text \<open>One call of the Redis layer; without one every call is a miss.\<close>

definition with_cache :: "api_env \<Rightarrow> (time \<Rightarrow> reply \<Rightarrow> Cache \<Rightarrow> 'a \<times> Cache) \<Rightarrow> 'a \<Rightarrow> 'a hm" where
  "with_cache ev f none w =
     (let n = ap_calls w; l = ap_limiter w in case remote l of
        None \<Rightarrow> (Fine none, w\<lparr>ap_calls := n + 1\<rparr>)
      | Some c \<Rightarrow> (case f (ev_now ev n) (ev_reply ev n) c of (a, c') \<Rightarrow> (Fine a, w\<lparr>ap_calls := n + 1, ap_limiter := l\<lparr>remote := Some c'\<rparr>\<rparr>)))"

definition writeAnalytics :: "AnalyticsDTO \<Rightarrow> string \<Rightarrow> AnalyticsDTO response" where
  "writeAnalytics out state =
     \<lparr>rp_status = 200, rp_headers = [(''X-Cache'', state), (''Cache-Control'', ''private, max-age=60'')], rp_cookies = [], rp_payload = out\<rparr>"

text \<open>The parameters of a request, in the order they are checked.\<close>

definition analytics_params :: "list_lib \<Rightarrow> http_request \<Rightarrow> APIError + uuid \<times> time option \<times> time option" where
  "analytics_params q r =
     (case PathUUID (ql q) r ''athleteId'' of Inl e \<Rightarrow> Inl e | Inr i \<Rightarrow>
     (case QueryTime (ql q) r ''from'' of Inl e \<Rightarrow> Inl e | Inr from_ts \<Rightarrow>
     (case QueryTime (ql q) r ''to'' of Inl e \<Rightarrow> Inl e | Inr to_ts \<Rightarrow>
       if (case (from_ts, to_ts) of (Some a, Some b) \<Rightarrow> b < a | _ \<Rightarrow> False)
       then Inl (ErrValidation ''to must not precede from'' (field_error ''to'' ''before from''))
       else Inr (i, from_ts, to_ts))))"

definition requested_sections :: "http_request \<Rightarrow> string list" where
  "requested_sections r = QueryIncludes r [''distribution'', ''trend'']"

definition getAthleteAnalytics :: "list_lib \<Rightarrow> rollup_lib \<Rightarrow> api_env \<Rightarrow> http_request \<Rightarrow> AnalyticsDTO response hm" where
  "getAthleteAnalytics q rl ev r =
     h_bind (h_try (analytics_params q r)) (\<lambda>(i, from_ts, to_ts).
     h_bind (sql_found ev ''athlete'' (GetAthlete i)) (\<lambda>_.
     h_bind (with_cache ev (\<lambda>now rep. Generation (ev_hashing ev) now rep i) 0) (\<lambda>generation.
     let incl = requested_sections r; variant = analyticsVariant (ev_hashing ev) rl from_ts to_ts incl in
     h_bind (with_cache ev (\<lambda>now rep. GetAnalytics (ev_hashing ev) (rl_unmarshal rl) now rep i generation variant) None) (\<lambda>cached.
       case cached of
         Some out \<Rightarrow> h_return (writeAnalytics out ''HIT'')
       | None \<Rightarrow>
           h_bind (computeAthleteAnalytics q rl ev i from_ts to_ts incl) (\<lambda>out.
           h_bind (with_cache ev (\<lambda>now rep c. ((), SetAnalytics (ev_hashing ev) (rl_marshal rl) now rep i generation variant out c)) ()) (\<lambda>_.
           h_return (writeAnalytics out ''MISS'')))))))"

section \<open>The cache against the database\<close>

text \<open>What a rollup is, on tables that rest.\<close>

definition rollup :: "list_lib \<Rightarrow> rollup_lib \<Rightarrow> api_tables \<Rightarrow> uuid \<Rightarrow> time option \<Rightarrow> time option \<Rightarrow> string list \<Rightarrow> AnalyticsDTO" where
  "rollup q rl t i from_ts to_ts incl =
     (let dist = (if ''distribution'' \<in> set incl then projr (fst (GetAthletePitchTypeDistribution q rl i from_ts to_ts t)) else [])
      in \<lparr>an_AthleteID = i, an_Period = (from_ts, to_ts), an_Summary = summary_dto (projr (fst (GetAthleteSummary rl i from_ts to_ts t))),
          an_PitchTypeDistribution = map (stat_dto (sum_list (map pt_N dist))) dist,
          an_Trend = (if ''trend'' \<in> set incl then projr (fst (GetAthleteSessionTrend i 60 t)) else []),
          an_OpenAnomalyCount = projr (fst (CountOpenAnomalies i t))\<rparr>)"

text \<open>
  The documented behaviour of the parameters: what was encoded is what is decoded, distinct times
  print differently and without a bar, identifiers print differently and without a colon.
\<close>

definition rollup_laws :: "hashing \<Rightarrow> rollup_lib \<Rightarrow> bool" where
  "rollup_laws h rl \<longleftrightarrow> (\<forall>x raw. rl_marshal rl x = Some raw \<longrightarrow> rl_unmarshal rl raw = Some x)
     \<and> inj (rl_RFC3339Nano rl) \<and> (\<forall>t. rl_RFC3339Nano rl t \<noteq> '''' \<and> CHR ''|'' \<notin> set (rl_RFC3339Nano rl t))
     \<and> inj (uuid_text h) \<and> (\<forall>i. CHR '':'' \<notin> set (uuid_text h i))"

type_synonym rollup_query = "uuid \<times> time option \<times> time option \<times> string list"

text \<open>The hash of the key keeps apart the texts it is given in a run.\<close>

definition hash_keeps_apart :: "hashing \<Rightarrow> rollup_lib \<Rightarrow> rollup_query set \<Rightarrow> bool" where
  "hash_keeps_apart h rl Q \<longleftrightarrow> (\<forall>(i, f, t, inc) \<in> Q. \<forall>(i', f', t', inc') \<in> Q.
     analyticsVariant h rl f t inc = analyticsVariant h rl f' t' inc'
       \<longrightarrow> join_with ''|'' (variant_parts rl f t inc) = join_with ''|'' (variant_parts rl f' t' inc'))"

definition section_names :: "string list \<Rightarrow> bool" where
  "section_names incl \<longleftrightarrow> (\<forall>x \<in> set incl. CHR '','' \<notin> set x \<and> x \<noteq> '''')"

lemma formatTimeParam_inject:
  assumes "rollup_laws h rl"
  shows "formatTimeParam rl x = formatTimeParam rl y \<longleftrightarrow> x = y"
proof -
  have "inj (rl_RFC3339Nano rl)" "rl_RFC3339Nano rl v \<noteq> ''''" "'''' \<noteq> rl_RFC3339Nano rl v" for v
    using assms unfolding rollup_laws_def by metis+
  then show ?thesis by (cases x; cases y) (auto simp: formatTimeParam_def inj_eq)
qed

lemma formatTimeParam_no_bar: "rollup_laws h rl \<Longrightarrow> CHR ''|'' \<notin> set (formatTimeParam rl x)"
  by (cases x) (auto simp: formatTimeParam_def rollup_laws_def)

lemma variant_parts_inject:
  assumes laws: "rollup_laws h rl" and names: "section_names inc" "section_names inc'"
    and eq: "join_with ''|'' (variant_parts rl f t inc) = join_with ''|'' (variant_parts rl f' t' inc')"
  shows "f = f' \<and> t = t' \<and> set inc = set inc'"
proof -
  let ?a = "\<lambda>f. ''from='' @ formatTimeParam rl f" and ?b = "\<lambda>t. ''to='' @ formatTimeParam rl t"
  have no: "CHR ''|'' \<notin> set (?a f)" "CHR ''|'' \<notin> set (?b f)" for f using formatTimeParam_no_bar [OF laws] by auto
  have j: "join_with ''|'' (variant_parts rl f t inc) = ?a f @ CHR ''|'' # ?b t @ CHR ''|'' # ''include='' @ join_with '','' (sort inc)" for f t inc
    by (simp add: variant_parts_def)
  have s: "split_on (CHR ''|'') (?a f @ CHR ''|'' # ?b t @ CHR ''|'' # c) = ?a f # ?b t # split_on (CHR ''|'') c" for f t c
    by (simp only: split_on_append [OF no(1)] split_on_append [OF no(2)])
  have ab: "?a f = ?a f'" "?b t = ?b t'"
    using arg_cong [OF eq, of "split_on (CHR ''|'')"] unfolding j s by auto
  then have ft: "f = f'" "t = t'" using formatTimeParam_inject [OF laws] by simp_all
  with eq have "join_with '','' (sort inc) = join_with '','' (sort inc')" unfolding j by simp
  then have "sort inc = sort inc'" using names by (intro join_inject) (auto simp: section_names_def)
  then have "set inc = set inc'" by (metis set_sort)
  with ft show ?thesis by simp
qed

lemma rollup_sections: "set inc = set inc' \<Longrightarrow> rollup q rl t i f u inc = rollup q rl t i f u inc'"
  by (simp add: rollup_def)

lemma analyticsKey_ident:
  assumes "rollup_laws h rl" "analyticsKey h i g v = analyticsKey h i' g' v'"
  shows "i = i' \<and> v = v'"
proof -
  have c: "CHR '':'' \<notin> set (uuid_text h i)" for i using assms(1) by (simp add: rollup_laws_def)
  have cut: "a = b" if "a @ CHR '':'' # x = b @ CHR '':'' # y" "CHR '':'' \<notin> set a" "CHR '':'' \<notin> set b" for a b x y :: string
    using that by (metis split_on_append list.inject)
  have "uuid_text h i @ CHR '':'' # (''analytics:s'' @ show_int cache_SchemaVersion @ '':g'' @ show_int g @ '':'' @ v)
      = uuid_text h i' @ CHR '':'' # (''analytics:s'' @ show_int cache_SchemaVersion @ '':g'' @ show_int g' @ '':'' @ v')"
    using assms(2) by (simp add: analyticsKey_def)
  from cut [OF this c c] have "uuid_text h i = uuid_text h i'" .
  then have "i = i'" using assms(1) by (simp add: rollup_laws_def inj_eq)
  with assms(2) show ?thesis by (simp add: analyticsKey_inject)
qed

text \<open>Whatever is cached for a query of \<open>Q\<close> is its rollup of \<open>t\<close>.\<close>

definition cache_true :: "list_lib \<Rightarrow> rollup_lib \<Rightarrow> hashing \<Rightarrow> api_tables \<Rightarrow> rollup_query set \<Rightarrow> Cache \<Rightarrow> bool" where
  "cache_true q rl h t Q c \<longleftrightarrow> (\<forall>i f u inc g raw e out. (i, f, u, inc) \<in> Q \<longrightarrow>
     server c (analyticsKey h i g (analyticsVariant h rl f u inc)) = Some (RBlob raw, e) \<longrightarrow>
     rl_unmarshal rl raw = Some out \<longrightarrow> out = rollup q rl t i f u inc)"

lemma cache_true_server: "server c' = server c \<Longrightarrow> cache_true q rl h t Q c' = cache_true q rl h t Q c"
  by (simp add: cache_true_def)

lemma cache_true_cold: "server c = Map.empty \<Longrightarrow> cache_true q rl h t Q c"
  by (simp add: cache_true_def)

lemma cache_true_stored:
  assumes laws: "rollup_laws h rl" and apart: "hash_keeps_apart h rl Q" and names: "\<forall>(i, f, u, inc) \<in> Q. section_names inc"
    and "cache_true q rl h t Q c" "(i, f, u, inc) \<in> Q" "rl_marshal rl (rollup q rl t i f u inc) = Some raw"
  shows "cache_true q rl h t Q (c\<lparr>server := (server c)(analyticsKey h i g (analyticsVariant h rl f u inc) \<mapsto> (RBlob raw, e))\<rparr>)"
  unfolding cache_true_def
proof (intro allI impI)
  fix i' f' u' inc' g' raw' e' out
  assume Q: "(i', f', u', inc') \<in> Q" and out: "rl_unmarshal rl raw' = Some out"
    and hit: "server (c\<lparr>server := (server c)(analyticsKey h i g (analyticsVariant h rl f u inc) \<mapsto> (RBlob raw, e))\<rparr>)
      (analyticsKey h i' g' (analyticsVariant h rl f' u' inc')) = Some (RBlob raw', e')"
  show "out = rollup q rl t i' f' u' inc'"
  proof (cases "analyticsKey h i' g' (analyticsVariant h rl f' u' inc') = analyticsKey h i g (analyticsVariant h rl f u inc)")
    case False
    with hit assms(4) Q out show ?thesis by (simp add: cache_true_def) blast
  next
    case True
    from analyticsKey_ident [OF laws this] have "i' = i" "analyticsVariant h rl f' u' inc' = analyticsVariant h rl f u inc" by simp_all
    note same = this
    have sn: "section_names inc'" "section_names inc" using names Q assms(5) by (auto split: prod.splits)
    have "join_with ''|'' (variant_parts rl f' u' inc') = join_with ''|'' (variant_parts rl f u inc)"
      using apart Q assms(5) same(2) unfolding hash_keeps_apart_def split_beta by (metis fst_conv snd_conv)
    from variant_parts_inject [OF laws sn this] same(1) have "rollup q rl t i' f' u' inc' = rollup q rl t i f u inc"
      by (metis rollup_sections)
    moreover have "out = rollup q rl t i f u inc"
    proof -
      have "raw' = raw" using hit True by simp
      with out assms(6) laws show ?thesis unfolding rollup_laws_def by fastforce
    qed
    ultimately show ?thesis by simp
  qed
qed

lemma section_names_requested: "section_names (requested_sections r)"
proof -
  have tl: "c \<notin> set (ToLower s)" if "c \<notin> set s" "c = CHR '',''" for c s
  proof
    assume "c \<in> set (ToLower s)"
    then obtain x where x: "x \<in> set s" "c = to_lower x" by (auto simp: ToLower_def)
    then have "x = c"
    proof (cases "65 \<le> (of_char x :: nat) \<and> (of_char x :: nat) \<le> 90")
      case True
      then have "(of_char c :: nat) = of_char x + 32" using x(2) by (simp add: to_lower_def)
      with True that(2) show ?thesis by simp
    qed (auto simp: to_lower_def)
    with x(1) that(1) show False by simp
  qed
  have tr: "set (TrimSpace s) \<subseteq> set s" for s
    unfolding TrimSpace_def by (auto dest!: set_dropWhileD)
  have "CHR '','' \<notin> set (ToLower (TrimSpace p))" if "p \<in> set (split_on (CHR '','') s)" for p s
    using split_on_parts [OF that] tr by (intro tl) auto
  moreover have "ToLower p = '''' \<longleftrightarrow> p = ''''" for p by (simp add: ToLower_def)
  ultimately show ?thesis
    by (auto simp: section_names_def requested_sections_def QueryIncludes_def Let_def split: if_splits)
qed

lemma quiet_sql:
  assumes "\<And>n. ev_others ev n t = t" "reads qy" "ap_tables w = t"
  shows "sql ev qy w = (x, w') \<Longrightarrow> ap_tables w' = t \<and> ap_limiter w' = ap_limiter w \<and> (\<forall>a. x = Fine (Inr a) \<longrightarrow> a = projr (fst (qy t)))"
proof -
  have r: "snd (qy t) = t" using assms(2) by (simp add: reads_def)
  show "sql ev qy w = (x, w') \<Longrightarrow> ap_tables w' = t \<and> ap_limiter w' = ap_limiter w \<and> (\<forall>a. x = Fine (Inr a) \<longrightarrow> a = projr (fst (qy t)))"
    using r assms(1,3) by (cases "qy t"; cases "fst (qy t)") (auto simp: sql_def Let_def split: option.splits)
qed

text \<open>A step that on tables \<open>t\<close> at rest can only succeed with \<open>v\<close>.\<close>

definition settles :: "api_tables \<Rightarrow> 'a hm \<Rightarrow> 'a \<Rightarrow> bool" where
  "settles t m v \<longleftrightarrow> (\<forall>w x w'. ap_tables w = t \<longrightarrow> m w = (x, w') \<longrightarrow>
     ap_tables w' = t \<and> ap_limiter w' = ap_limiter w \<and> (\<forall>a. x = Fine a \<longrightarrow> a = v))"

lemma settlesD: "settles t m v \<Longrightarrow> ap_tables w = t \<Longrightarrow> m w = (x, w') \<Longrightarrow>
    ap_tables w' = t \<and> ap_limiter w' = ap_limiter w \<and> (\<forall>a. x = Fine a \<longrightarrow> a = v)"
  unfolding settles_def by blast

lemma settles_return: "settles t (h_return v) v"
  by (simp add: settles_def h_return_def)

lemma settles_bind: "settles t m v \<Longrightarrow> settles t (k v) v' \<Longrightarrow> settles t (h_bind m k) v'"
  unfolding settles_def by (intro allI impI, elim h_bind_cases) (metis, metis result.distinct(1), metis result.distinct(3))

lemma settles_sql_ok:
  assumes "\<And>n. ev_others ev n t = t" "reads qy"
  shows "settles t (sql_ok ev qy) (projr (fst (qy t)))"
  unfolding settles_def
proof (intro allI impI)
  fix w x w' assume w: "ap_tables w = t" "sql_ok ev qy w = (x, w')"
  obtain y w1 where y: "sql ev qy w = (y, w1)" by fastforce
  from quiet_sql [OF assms w(1) y] y w(2) show "ap_tables w' = t \<and> ap_limiter w' = ap_limiter w \<and> (\<forall>a. x = Fine a \<longrightarrow> a = projr (fst (qy t)))"
    by (auto simp: sql_ok_def h_bind_def h_return_def h_fail_def split: result.splits sum.splits)
qed

lemma settles_if: "settles t m v \<Longrightarrow> settles t m' v' \<Longrightarrow> settles t (if b then m else m') (if b then v else v')"
  by simp

lemma quiet_sql_found:
  assumes "\<And>n. ev_others ev n t = t" "reads qy" "ap_tables w = t" "sql_found ev what qy w = (x, w')"
  shows "ap_tables w' = t \<and> ap_limiter w' = ap_limiter w"
proof -
  obtain y w1 where y: "sql ev qy w = (y, w1)" by fastforce
  from quiet_sql [OF assms(1-3) y] y assms(4) show ?thesis
    by (auto simp: sql_found_def h_bind_def h_return_def h_fail_def split: result.splits sum.splits if_splits)
qed

lemma reads_rollup [simp]:
  "reads (GetAthleteSummary rl i f u)" "reads (GetAthletePitchTypeDistribution q rl i f u)" "reads (GetAthleteSessionTrend i n)" "reads (CountOpenAnomalies i)"
  by (simp_all add: reads_def GetAthleteSummary_def GetAthletePitchTypeDistribution_def GetAthleteSessionTrend_def CountOpenAnomalies_def Let_def)

lemma settles_compute:
  assumes "\<And>n. ev_others ev n t = t"
  shows "settles t (computeAthleteAnalytics q rl ev i f u inc) (rollup q rl t i f u inc)"
  unfolding computeAthleteAnalytics_def rollup_def Let_def
  by (intro settles_bind [OF settles_sql_ok [OF assms]] settles_bind [OF settles_if [OF settles_sql_ok [OF assms] settles_return]] settles_return) simp_all

lemma with_cache_Fine:
  obtains (none) w' where "remote (ap_limiter w) = None" "with_cache ev f none w = (Fine none, w')" "ap_tables w' = ap_tables w" "ap_limiter w' = ap_limiter w"
  | (some) c a c' w' where "remote (ap_limiter w) = Some c" "f (ev_now ev (ap_calls w)) (ev_reply ev (ap_calls w)) c = (a, c')"
      "with_cache ev f none w = (Fine a, w')" "ap_tables w' = ap_tables w" "remote (ap_limiter w') = Some c'"
  by (cases "remote (ap_limiter w)"; cases "f (ev_now ev (ap_calls w)) (ev_reply ev (ap_calls w)) (the (remote (ap_limiter w)))")
    (auto simp: with_cache_def Let_def)

lemma Generation_server: "Generation h now rep i c = (g, c') \<Longrightarrow> server c' = server c"
  by (auto simp: Generation_def cache_call_def split: if_splits reply.splits option.splits rval.splits prod.splits)

lemma GetAnalytics_server:
  assumes "GetAnalytics h decode now rep i g v c = (x, c')"
  shows "server c' = server c \<and> (\<forall>out. x = Some out \<longrightarrow> (\<exists>raw e. server c (analyticsKey h i g v) = Some (RBlob raw, e) \<and> decode raw = Some out))"
  using assms
  by (auto simp: GetAnalytics_def cache_call_def redis_get_def split: if_splits reply.splits option.splits rval.splits prod.splits)

lemma SetAnalytics_server:
  "server (SetAnalytics h encode now rep i g v out c) = server c
   \<or> (\<exists>raw e. encode out = Some raw \<and> server (SetAnalytics h encode now rep i g v out c) = (server c)(analyticsKey h i g v \<mapsto> (RBlob raw, e)))"
  by (auto simp: SetAnalytics_def cache_call_def redis_set_def split: option.splits reply.splits)

definition resting :: "list_lib \<Rightarrow> rollup_lib \<Rightarrow> api_env \<Rightarrow> api_tables \<Rightarrow> rollup_query set \<Rightarrow> api_world \<Rightarrow> bool" where
  "resting q rl ev t Q w \<longleftrightarrow> ap_tables w = t \<and> (\<forall>c. remote (ap_limiter w) = Some c \<longrightarrow> cache_true q rl (ev_hashing ev) t Q c)"

lemma resting_same: "resting q rl ev t Q w \<Longrightarrow> ap_tables w' = t \<and> ap_limiter w' = ap_limiter w \<Longrightarrow> resting q rl ev t Q w'"
  by (simp add: resting_def)

lemma resting_analytics:
  assumes laws: "rollup_laws (ev_hashing ev) rl" and apart: "hash_keeps_apart (ev_hashing ev) rl Q" and names: "\<forall>(i, f, u, inc) \<in> Q. section_names inc"
    and quiet: "\<And>n. ev_others ev n t = t" and w: "resting q rl ev t Q w"
    and params: "analytics_params q r = Inr (i, f, u)" and Q: "(i, f, u, requested_sections r) \<in> Q"
    and run: "getAthleteAnalytics q rl ev r w = (x, w')"
  shows "resting q rl ev t Q w' \<and> (\<forall>rp. x = Fine rp \<longrightarrow> rp_payload rp = rollup q rl t i f u (requested_sections r))"
proof -
  let ?inc = "requested_sections r" and ?h = "ev_hashing ev"
  let ?v = "analyticsVariant ?h rl f u ?inc"
  let ?gen = "with_cache ev (\<lambda>now rep. Generation ?h now rep i) 0"
  let ?get = "\<lambda>g. with_cache ev (\<lambda>now rep. GetAnalytics ?h (rl_unmarshal rl) now rep i g ?v) None"
  let ?set = "\<lambda>g out. with_cache ev (\<lambda>now rep c. ((), SetAnalytics ?h (rl_marshal rl) now rep i g ?v out c)) ()"
  let ?found = "sql_found ev ''athlete'' (GetAthlete i)"
  let ?miss = "\<lambda>g. h_bind (computeAthleteAnalytics q rl ev i f u ?inc) (\<lambda>out. h_bind (?set g out) (\<lambda>_. h_return (writeAnalytics out ''MISS'')))"
  obtain x1 w1 where s1: "?found w = (x1, w1)" by fastforce
  have r1: "resting q rl ev t Q w1"
    using quiet_sql_found [OF quiet _ _ s1] w resting_same [OF w] by (simp add: resting_def)
  obtain g w2 where s2: "?gen w1 = (Fine g, w2)" "resting q rl ev t Q w2"
  proof (cases rule: with_cache_Fine [where ev = ev and w = w1 and none = 0 and f = "\<lambda>now rep. Generation ?h now rep i"])
    case (none w')
    with that r1 show ?thesis by (simp add: resting_def)
  next
    case (some c a c' w')
    have "cache_true q rl ?h t Q c" using r1 some(1) unfolding resting_def by blast
    then have "cache_true q rl ?h t Q c'" using cache_true_server [OF Generation_server [OF some(2)]] by blast
    then have "resting q rl ev t Q w'" using r1 some(4,5) by (simp add: resting_def)
    with that some(3) show ?thesis by blast
  qed
  obtain y w3 where s3: "?get g w2 = (Fine y, w3)" "resting q rl ev t Q w3" "\<forall>out. y = Some out \<longrightarrow> out = rollup q rl t i f u ?inc"
  proof (cases rule: with_cache_Fine [where ev = ev and w = w2 and none = None and f = "\<lambda>now rep. GetAnalytics ?h (rl_unmarshal rl) now rep i g ?v"])
    case (none w')
    with that s2(2) show ?thesis by (simp add: resting_def)
  next
    case (some c a c' w')
    note hit = GetAnalytics_server [OF some(2)]
    have true: "cache_true q rl ?h t Q c" using s2(2) some(1) by (simp add: resting_def)
    have "cache_true q rl ?h t Q c'" using true cache_true_server [OF conjunct1 [OF hit]] by blast
    then have "resting q rl ev t Q w'" using some(4,5) s2(2) by (simp add: resting_def)
    moreover have "\<forall>out. a = Some out \<longrightarrow> out = rollup q rl t i f u ?inc" using hit true Q unfolding cache_true_def by blast
    ultimately show ?thesis using that some(3) by blast
  qed
  have sc: "settles t (computeAthleteAnalytics q rl ev i f u ?inc) (rollup q rl t i f u ?inc)"
    using quiet by (rule settles_compute)
  have miss: "resting q rl ev t Q w4 \<and> (\<forall>rp. z = Fine rp \<longrightarrow> rp_payload rp = rollup q rl t i f u ?inc)" if "?miss g w3 = (z, w4)" for z w4
    using that
  proof (cases rule: h_bind_cases)
    case (Fine out w5)
    note f5 = settlesD [OF sc _ Fine(1)]
    have w3: "ap_tables w3 = t" using s3(2) by (simp add: resting_def)
    have out: "out = rollup q rl t i f u ?inc" using f5 [OF w3] by blast
    have r5: "resting q rl ev t Q w5" using f5 [OF w3] by (intro resting_same [OF s3(2)]) blast
    obtain w6 where s6: "?set g out w5 = (Fine (), w6)" "resting q rl ev t Q w6"
    proof (cases rule: with_cache_Fine [where ev = ev and w = w5 and none = "()" and f = "\<lambda>now rep c. ((), SetAnalytics ?h (rl_marshal rl) now rep i g ?v out c)"])
      case (none w')
      with that r5 show ?thesis by (simp add: resting_def)
    next
      case (some c a c' w')
      have true: "cache_true q rl ?h t Q c" using r5 some(1) by (simp add: resting_def)
      have c': "c' = SetAnalytics ?h (rl_marshal rl) (ev_now ev (ap_calls w5)) (ev_reply ev (ap_calls w5)) i g ?v out c"
        using some(2) by simp
      consider "server c' = server c"
        | raw e where "rl_marshal rl out = Some raw" "server c' = (server c)(analyticsKey ?h i g ?v \<mapsto> (RBlob raw, e))"
        unfolding c' using SetAnalytics_server [of ?h "rl_marshal rl" "ev_now ev (ap_calls w5)" "ev_reply ev (ap_calls w5)" i g ?v out c] by blast
      then have "cache_true q rl ?h t Q c'"
      proof cases
        case 1
        with true show ?thesis using cache_true_server by blast
      next
        case (2 raw e)
        from cache_true_stored [OF laws apart names true Q 2(1) [unfolded out], of g e] show ?thesis
          using cache_true_server [of c' "c\<lparr>server := (server c)(analyticsKey ?h i g ?v \<mapsto> (RBlob raw, e))\<rparr>"] 2(2) by simp
      qed
      then have "resting q rl ev t Q w'" using some(4,5) r5 by (simp add: resting_def)
      with that some(3) show ?thesis by simp
    qed
    with Fine(2) out show ?thesis by (auto simp: h_bind_def h_return_def writeAnalytics_def)
  next
    case (Fail e)
    have "resting q rl ev t Q w4" using settlesD [OF sc _ Fail(1)] s3(2) by (intro resting_same [OF s3(2)]) (simp add: resting_def)
    with Fail(2) show ?thesis by simp
  next
    case Crash
    have "resting q rl ev t Q w4" using settlesD [OF sc _ Crash(1)] s3(2) by (intro resting_same [OF s3(2)]) (simp add: resting_def)
    with Crash(2) show ?thesis by simp
  qed
  have "getAthleteAnalytics q rl ev r w = (case x1 of Fine _ \<Rightarrow> (case y of Some out \<Rightarrow> (Fine (writeAnalytics out ''HIT''), w3) | None \<Rightarrow> ?miss g w3)
      | Fail e \<Rightarrow> (Fail e, w1) | Crash \<Rightarrow> (Crash, w1))"
    by (cases x1; cases y) (simp_all add: getAthleteAnalytics_def params h_bind_def [of ?found] s1 Let_def h_bind_def [of ?gen] s2(1) h_bind_def [of "?get g"] s3(1) h_return_def)
  with run r1 s3 miss show ?thesis by (cases x1; cases y) (auto simp: writeAnalytics_def)
qed

definition rollup_queries :: "list_lib \<Rightarrow> http_request list \<Rightarrow> rollup_query set" where
  "rollup_queries q rs = {(i, f, u, requested_sections r) |i f u r. r \<in> set rs \<and> analytics_params q r = Inr (i, f, u)}"

section \<open>Properties\<close>


text \<open>An athlete without pitches and one open anomaly, asked for twice.\<close>

definition demo_rollup_tables :: api_tables where
  "demo_rollup_tables = demo_api_tables\<lparr>tb_db := demo_tables\<lparr>pitches := []\<rparr>, tb_anomalies := [demo_anomaly]\<rparr>"

definition demo_rollup_lib :: "AnalyticsDTO \<Rightarrow> rollup_lib" where
  "demo_rollup_lib d = \<lparr>rl_avg = (\<lambda>_. None), rl_marshal = (\<lambda>x. if x = d then Some ''d'' else None),
     rl_unmarshal = (\<lambda>s. if s = ''d'' then Some d else None), rl_RFC3339Nano = show_int\<rparr>"

definition demo_rollup :: AnalyticsDTO where
  "demo_rollup = \<lparr>an_AthleteID = 1, an_Period = (None, None),
     an_Summary = \<lparr>su_PitchCount = 0, su_SessionCount = 0, su_AvgReleaseSpeed = None, su_AvgReleaseSpinRate = None, su_AvgReleaseExtension = None,
       su_AvgPitchScore = None, su_WhiffRate = None, su_CalledStrikeRate = None, su_InZoneRate = None\<rparr>,
     an_PitchTypeDistribution = [], an_Trend = [], an_OpenAnomalyCount = 1\<rparr>"

definition demo_redis_env :: api_env where
  "demo_redis_env = (demo_calls (\<lambda>_. None))\<lparr>ev_reply := (\<lambda>_. Up)\<rparr>"

definition demo_rollup_world :: api_world where
  "demo_rollup_world = \<lparr>ap_tables = demo_rollup_tables, ap_limiter = NewLimiter (Some empty_cache), ap_calls = 0\<rparr>"

definition demo_rollup_request :: http_request where
  "demo_rollup_request = (demo_get (\<lambda>_. ''''))\<lparr>rq_PathValue := (\<lambda>k. if k = ''athleteId'' then ''1'' else ''8'')\<rparr>"

lemma demo_rollup_run:
  "map (\<lambda>x. case x of Fine rp \<Rightarrow> Some (rp_headers rp ! 0, an_OpenAnomalyCount (rp_payload rp)) | _ \<Rightarrow> None)
     (fst (serve_all (getAthleteAnalytics demo_list_lib (demo_rollup_lib demo_rollup) demo_redis_env) [demo_rollup_request, demo_rollup_request] demo_rollup_world))
   = [Some ((''X-Cache'', ''MISS''), 1), Some ((''X-Cache'', ''HIT''), 1)]"
  by code_simp

text \<open>
  A write of the API does not invalidate: after the only open anomaly was acknowledged, the rollup
  still counts it, from the cache.
\<close>

lemma demo_stale_count:
  "(let (_, w1) = getAthleteAnalytics demo_list_lib (demo_rollup_lib demo_rollup) demo_redis_env demo_rollup_request demo_rollup_world;
        (_, w2) = acknowledgeAnomaly demo_list_lib demo_redis_env demo_rollup_request w1;
        (x, w3) = getAthleteAnalytics demo_list_lib (demo_rollup_lib demo_rollup) demo_redis_env demo_rollup_request w2
    in (map ao_AcknowledgedAt (tb_anomalies (ap_tables w2)), case x of Fine rp \<Rightarrow> Some (an_OpenAnomalyCount (rp_payload rp)) | _ \<Rightarrow> None))
   = ([Some 40], Some 1)"
  by code_simp

lemma demo_rollup_laws: "rollup_laws (ev_hashing demo_redis_env) (demo_rollup_lib d)"
proof -
  have "CHR ''|'' \<notin> set (show_nat n)" "CHR '':'' \<notin> set (show_nat n)" for n by (rule show_nat_no; simp)+
  then have "show_int t \<noteq> '''' \<and> CHR ''|'' \<notin> set (show_int t)" "CHR '':'' \<notin> set (show_nat n)" for t n by (auto simp: show_int_def)
  moreover have "inj show_nat" by (metis injI read_show_nat)
  ultimately show ?thesis
    by (auto simp: rollup_laws_def demo_rollup_lib_def demo_redis_env_def demo_calls_def plain_hashing_def inj_def)
qed


section \<open>Rates\<close>

lemma float64_count: "n < 2 ^ 53 \<Longrightarrow> float64 (int n) = Fin (of_nat n)"
  using rnd_fmt_of_nat [of n binary64] by (cases "n = 0") (simp_all add: float64_def binary64_def)

lemma ratio_bounds:
  assumes "n \<le> m" "m < 2 ^ 53"
  shows "Fin 0 \<le> ratio n m \<and> ratio n m \<le> Fin 1"
proof (cases "m = 0")
  case False
  have "ratio n m = rnd64 (of_nat n / of_nat m)"
    using False assms by (simp add: ratio_def float64_count)
  moreover have "0 \<le> (of_nat n / of_nat m :: rat)" "(of_nat n / of_nat m :: rat) \<le> 1" using assms(1) False by simp_all
  ultimately show ?thesis using rnd_fmt_mono [of 0 "of_nat n / of_nat m" binary64] rnd_fmt_mono [of "of_nat n / of_nat m" 1 binary64] rnd64_1
    by simp
qed (simp add: ratio_def)

lemma whiffs_are_swings: "count_list os (Some ''SWINGING_STRIKE'') \<le> length (swings os)"
  by (induction os) (auto simp: swings_def)

lemma length_somes: "length (somes xs) \<le> length xs"
  by (simp add: somes_def)

lemma whiff_rate_bounds: "length os < 2 ^ 53 \<Longrightarrow> Fin 0 \<le> whiff_rate os \<and> whiff_rate os \<le> Fin 1"
  unfolding whiff_rate_def
  by (rule ratio_bounds [OF whiffs_are_swings]) (rule le_less_trans [of _ "length os"], simp_all add: swings_def)

text \<open>The groups of a listing do not overlap.\<close>

lemma groups_disjoint:
  assumes "distinct ts"
  shows "sum_list (map (\<lambda>ty. length (filter (\<lambda>x. key x = Some ty) xs)) ts) \<le> length xs"
proof (induction xs)
  case (Cons x xs)
  have "sum_list (map (\<lambda>ty. length (filter (\<lambda>x. key x = Some ty) (x # xs))) ts)
      = sum_list (map (\<lambda>ty. length (filter (\<lambda>x. key x = Some ty) xs)) ts) + sum_list (map (\<lambda>ty. if key x = Some ty then 1 else 0) ts)"
    by (subst sum_list_addf [symmetric]) (auto intro!: arg_cong [of _ _ sum_list])
  also have "sum_list (map (\<lambda>ty. if key x = Some ty then 1 else 0) ts) \<le> (1 :: nat)"
    using assms by (induction ts) (auto simp: sum_list_eq_0_iff)
  finally show ?case using Cons.IH by simp
qed simp


lemma sum_list_sort_key: "sum_list (map f (sort_key k xs)) = (sum_list (map f xs) :: int)"
proof -
  have "sum_list (map f (insort_key k x ys)) = f x + sum_list (map f ys)" for x ys by (induction ys) auto
  then show ?thesis by (induction xs) auto
qed

lemma int_sum_list: "int (sum_list (map g xs)) = sum_list (map (\<lambda>x. int (g x)) xs)"
  by (induction xs) auto

lemma usage_bounds:
  assumes "pt_N d = int n" "n \<le> m" "m < 2 ^ 53"
  shows "Fin 0 \<le> st_UsagePct (stat_dto (int m) d) \<and> st_UsagePct (stat_dto (int m) d) \<le> Fin 1"
proof -
  have "st_UsagePct (stat_dto (int m) d) = ratio n m" using assms(1) by (simp add: stat_dto_def ratio_def)
  with ratio_bounds [OF assms(2,3)] show ?thesis by simp
qed

lemma stats_bounds:
  assumes "length (rated_rows (tb_db t) (\<lambda>p. in_period i f u p \<and> p_PitchType p \<noteq> None)) < 2 ^ 53"
    and "d \<in> set (projr (fst (GetAthletePitchTypeDistribution q rl i f u t)))"
  shows "Fin 0 \<le> pt_WhiffRate d \<and> pt_WhiffRate d \<le> Fin 1"
    "Fin 0 \<le> st_UsagePct (stat_dto (sum_list (map pt_N (projr (fst (GetAthletePitchTypeDistribution q rl i f u t))))) d)
     \<and> st_UsagePct (stat_dto (sum_list (map pt_N (projr (fst (GetAthletePitchTypeDistribution q rl i f u t))))) d) \<le> Fin 1"
proof -
  let ?rows = "rated_rows (tb_db t) (\<lambda>p. in_period i f u p \<and> p_PitchType p \<noteq> None)"
  let ?types = "remdups (somes (map (\<lambda>(p, _). p_PitchType p) ?rows))"
  let ?group = "\<lambda>ty. filter (\<lambda>(p, _). p_PitchType p = Some ty) ?rows"
  let ?dist = "projr (fst (GetAthletePitchTypeDistribution q rl i f u t))"
  have n: "pt_N (pitch_type_row q rl ty ?rows) = int (length (?group ty))" for ty by (simp add: pitch_type_row_def Let_def)
  have d: "set ?dist = (\<lambda>ty. pitch_type_row q rl ty ?rows) ` set ?types"
    by (simp add: GetAthletePitchTypeDistribution_def Let_def)
  then obtain ty where ty: "d = pitch_type_row q rl ty ?rows" "ty \<in> set ?types" using assms(2) by auto
  have g: "length (?group ty) < 2 ^ 53" using assms(1) by (rule le_less_trans [OF length_filter_le])
  show "Fin 0 \<le> pt_WhiffRate d \<and> pt_WhiffRate d \<le> Fin 1"
    using whiff_rate_bounds [of "map (\<lambda>(p, _). p_ActualOutcome p) (?group ty)"] g by (simp add: ty(1) pitch_type_row_def Let_def)
  have "sum_list (map pt_N ?dist) = sum_list (map pt_N (map (\<lambda>ty. pitch_type_row q rl ty ?rows) ?types))"
    by (simp add: GetAthletePitchTypeDistribution_def Let_def rev_map [symmetric] sum_list_sort_key)
  also have "\<dots> = int (sum_list (map (\<lambda>ty. length (?group ty)) ?types))"
    by (simp only: map_map comp_def n int_sum_list)
  finally have all: "sum_list (map pt_N ?dist) = int (sum_list (map (\<lambda>ty. length (?group ty)) ?types))" .
  have "sum_list (map (\<lambda>ty. length (?group ty)) ?types) \<le> length ?rows"
    by (simp only: case_prod_unfold groups_disjoint [where key = "\<lambda>x. p_PitchType (fst x)"] distinct_remdups)
  moreover have "length (?group ty) \<le> sum_list (map (\<lambda>ty. length (?group ty)) ?types)"
    using ty(2) by (intro member_le_sum_list) auto
  ultimately show "Fin 0 \<le> st_UsagePct (stat_dto (sum_list (map pt_N ?dist)) d) \<and> st_UsagePct (stat_dto (sum_list (map pt_N ?dist)) d) \<le> Fin 1"
    unfolding all ty(1) using n assms(1) by (intro usage_bounds [of _ "length (?group ty)"]) (simp_all only: le_less_trans)
qed

lemma summary_bounds:
  assumes "length (rated_rows (tb_db t) (in_period i f u)) < 2 ^ 53" "GetAthleteSummary rl i f u t = (Inr s, t')"
  shows "Fin 0 \<le> rw_WhiffRate s \<and> rw_WhiffRate s \<le> Fin 1" "Fin 0 \<le> rw_CalledStrikeRate s \<and> rw_CalledStrikeRate s \<le> Fin 1"
    "Fin 0 \<le> rw_InZoneRate s \<and> rw_InZoneRate s \<le> Fin 1"
proof -
  let ?rows = "rated_rows (tb_db t) (in_period i f u)"
  let ?os = "map (\<lambda>(p, _). p_ActualOutcome p) ?rows" and ?zones = "somes (map (\<lambda>(_, m, _). Option.bind m me_InZone) ?rows)"
  have z: "length ?zones < 2 ^ 53" using assms(1) by (rule le_less_trans [OF length_somes, of "map g ?rows" for g, simplified])
  have c: "count_list ?os (Some ''CALLED_STRIKE'') \<le> length ?rows" using count_le_length [of ?os] by simp
  show "Fin 0 \<le> rw_WhiffRate s \<and> rw_WhiffRate s \<le> Fin 1"
    using assms whiff_rate_bounds [of ?os] by (auto simp: GetAthleteSummary_def Let_def)
  show "Fin 0 \<le> rw_CalledStrikeRate s \<and> rw_CalledStrikeRate s \<le> Fin 1"
    using assms ratio_bounds [OF c assms(1)] by (auto simp: GetAthleteSummary_def Let_def)
  show "Fin 0 \<le> rw_InZoneRate s \<and> rw_InZoneRate s \<le> Fin 1"
    using assms ratio_bounds [OF length_filter_le z, of id] by (auto simp: GetAthleteSummary_def Let_def)
qed

text \<open>
  C29: the rates of a rollup are rates.  With fewer than 2^53 pitches behind it, every whiff rate,
  called-strike rate, in-zone rate and share of usage that is reported lies between 0 and 1 (so none
  is NaN or infinite), and the rates of the summary are left out exactly when there is no pitch.
\<close>

theorem rates_bounded:
  assumes "length (rated_rows (tb_db t) (in_period i f u)) < 2 ^ 53"
    and "length (rated_rows (tb_db t) (\<lambda>p. in_period i f u p \<and> p_PitchType p \<noteq> None)) < 2 ^ 53"
  shows "let r = rollup q rl t i f u incl; s = an_Summary r in
       (\<forall>x \<in> {su_WhiffRate s, su_CalledStrikeRate s, su_InZoneRate s}.
          (x = None) = (su_PitchCount s = 0) \<and> (\<forall>v. x = Some v \<longrightarrow> Fin 0 \<le> v \<and> v \<le> Fin 1))
     \<and> (\<forall>d \<in> set (an_PitchTypeDistribution r).
          (\<forall>v. st_WhiffRate d = Some v \<longrightarrow> Fin 0 \<le> v \<and> v \<le> Fin 1) \<and> Fin 0 \<le> st_UsagePct d \<and> st_UsagePct d \<le> Fin 1)"
proof -
  obtain s t' where s: "GetAthleteSummary rl i f u t = (Inr s, t')" by (auto simp: GetAthleteSummary_def Let_def)
  have "an_Summary (rollup q rl t i f u incl) = summary_dto s" by (simp add: rollup_def s Let_def)
  moreover have "\<forall>x \<in> {su_WhiffRate (summary_dto s), su_CalledStrikeRate (summary_dto s), su_InZoneRate (summary_dto s)}.
      (x = None) = (su_PitchCount (summary_dto s) = 0) \<and> (\<forall>v. x = Some v \<longrightarrow> Fin 0 \<le> v \<and> v \<le> Fin 1)"
    using summary_bounds [OF assms(1) s] by (simp add: summary_dto_def nilIfEmpty_def Let_def)
  moreover have "(\<forall>v. st_WhiffRate d = Some v \<longrightarrow> Fin 0 \<le> v \<and> v \<le> Fin 1) \<and> Fin 0 \<le> st_UsagePct d \<and> st_UsagePct d \<le> Fin 1"
    if "d \<in> set (an_PitchTypeDistribution (rollup q rl t i f u incl))" for d
  proof -
    let ?dist = "projr (fst (GetAthletePitchTypeDistribution q rl i f u t))"
    from that obtain e where "e \<in> set ?dist" "d = stat_dto (sum_list (map pt_N ?dist)) e"
      by (auto simp: rollup_def Let_def split: if_splits)
    with stats_bounds [OF assms(2) this(1)] show ?thesis by (auto simp: stat_dto_def nilIfEmpty_def)
  qed
  ultimately show ?thesis by (simp add: Let_def)
qed

text \<open>One fastball that was taken in the zone.\<close>

definition demo_taken_tables :: api_tables where
  "demo_taken_tables = demo_api_tables\<lparr>tb_db := demo_tables\<lparr>pitches := [(demo_pitch 5 3)\<lparr>p_ActualOutcome := Some ''CALLED_STRIKE''\<rparr>]\<rparr>\<rparr>"

theorem rates_bounded_witness:
  "\<exists>d v. an_PitchTypeDistribution (rollup demo_list_lib (demo_rollup_lib demo_rollup) demo_taken_tables 1 None None [''distribution'']) = [d]
     \<and> Fin 0 \<le> st_UsagePct d \<and> st_UsagePct d \<le> Fin 1
     \<and> su_CalledStrikeRate (an_Summary (rollup demo_list_lib (demo_rollup_lib demo_rollup) demo_taken_tables 1 None None [''distribution''])) = Some v \<and> v \<le> Fin 1"
proof -
  let ?r = "rollup demo_list_lib (demo_rollup_lib demo_rollup) demo_taken_tables 1 None None [''distribution'']"
  have rows: "length (rated_rows (tb_db demo_taken_tables) (in_period 1 None None)) = 1"
    "length (rated_rows (tb_db demo_taken_tables) (\<lambda>p. in_period 1 None None p \<and> p_PitchType p \<noteq> None)) = 1"
    by code_simp+
  then have few: "length (rated_rows (tb_db demo_taken_tables) (in_period 1 None None)) < 2 ^ 53"
    "length (rated_rows (tb_db demo_taken_tables) (\<lambda>p. in_period 1 None None p \<and> p_PitchType p \<noteq> None)) < 2 ^ 53"
    by simp_all
  have types: "map (\<lambda>(p, _). p_PitchType p) (rated_rows (tb_db demo_taken_tables) (\<lambda>p. in_period 1 None None p \<and> p_PitchType p \<noteq> None)) = [Some ''FF'']"
    by code_simp
  have "\<exists>d. an_PitchTypeDistribution ?r = [d]"
    unfolding rollup_def GetAthletePitchTypeDistribution_def Let_def types by (simp add: somes_def)
  moreover have "su_PitchCount (an_Summary ?r) \<noteq> 0"
    using rows by (simp add: rollup_def GetAthleteSummary_def summary_dto_def Let_def)
  ultimately obtain d where d: "an_PitchTypeDistribution ?r = [d]" "su_PitchCount (an_Summary ?r) \<noteq> 0" by blast
  from rates_bounded [OF few, of demo_list_lib "demo_rollup_lib demo_rollup" "[''distribution'']"] d show ?thesis
    by (auto simp: Let_def)
qed


end
