(* ===== verification/Live.thy ===== *)
theory Live
  imports WsHub Analytics Login "HOL-Library.AList" "HOL-Library.Multiset"
begin

text \<open>
  internal/api/websocket.go: the snapshot a client gets when its socket opens, the caller of a socket,
  and the fan-out that turns the events of the two topics into broadcasts, with its throttle of the
  rollups.  The tables, the cache and the clock are those of \<open>ApiBase\<close>; PostgreSQL's \<open>avg\<close>
  and the decoders of the payloads are parameters.
\<close>

section \<open>The snapshot of a session\<close>

definition SnapshotPitchCount :: int where "SnapshotPitchCount = 20"

text \<open>What the API puts on the wire: the union of the types it hands to the hub as \<open>any\<close>.\<close>

record LiveMetricsDTO =
  lv_PitchCount :: int
  lv_LastPitchAt :: time
  lv_ReleaseSpeed :: "f64 option"

record LivePitchDTO =
  lp_PitchID :: uuid
  lp_SessionPitchIndex :: int
  lp_AtBatNumber :: int
  lp_PitchNumber :: int
  lp_ThrownAt :: time
  lp_Context :: PitchContext
  lp_Stand :: string
  lp_PThrows :: string
  lp_PitchType :: string
  lp_PitchName :: string
  lp_Measurement :: NormalizedMeasurement
  lp_Predictions :: "PredictionResult list"
  lp_ActualOutcome :: string
  lp_PredictionStatus :: string
  lp_IsSynthetic :: bool

datatype live_data =
    SessionDetail SessionDetailDTO
  | SessionMetrics SessionAggregates
  | RecentPitches "PitchDTO list"
  | LivePitch LivePitchDTO
  | LiveRollup LiveMetricsDTO
  | LiveAnomaly AnomalyDetected

record GetSessionLiveMetricsRow =
  gl_PitchCount :: int
  gl_WhiffCount :: int
  gl_AvgReleaseSpeed :: f64
  gl_SpeedCount :: int
  gl_AvgReleaseSpinRate :: f64
  gl_SpinCount :: int
  gl_AvgPitchScore :: f64
  gl_ScoreCount :: int

text \<open>
  The rows of the query's two left joins, and a column of it: its average over the values that are
  not NULL, 0 when there are none, with their number.  \<open>avg\<close> is PostgreSQL's.
\<close>

definition live_rows :: "database \<Rightarrow> uuid \<Rightarrow> (Pitch \<times> PitchMeasurement option \<times> f64 option) list" where
  "live_rows d i = concat (map (\<lambda>p. map (\<lambda>sc. (p, measurement_of d p, sc)) (joined_scores d p))
     (filter (\<lambda>p. p_SessionID p = i) (pitches d)))"

definition counted_avg :: "(f64 list \<Rightarrow> f64 option) \<Rightarrow> f64 option list \<Rightarrow> f64 \<times> int" where
  "counted_avg avg vs = ((case avg (somes vs) of None \<Rightarrow> Fin 0 | Some v \<Rightarrow> v), int (length (somes vs)))"

definition GetSessionLiveMetrics ::
  "(f64 list \<Rightarrow> f64 option) \<Rightarrow> uuid \<Rightarrow> api_tables \<Rightarrow> (goerr + GetSessionLiveMetricsRow) \<times> api_tables" where
  "GetSessionLiveMetrics avg i t =
     (let rows = live_rows (tb_db t) i;
          speed = counted_avg avg (map (\<lambda>(p, m, sc). Option.bind m me_ReleaseSpeed) rows);
          spin = counted_avg avg (map (\<lambda>(p, m, sc). Option.bind m me_ReleaseSpinRate) rows);
          score = counted_avg avg (map (\<lambda>(p, m, sc). sc) rows)
      in (Inr \<lparr>gl_PitchCount = int (length rows),
               gl_WhiffCount = int (length (filter (\<lambda>(p, m, sc). p_ActualOutcome p = Some ''SWINGING_STRIKE'') rows)),
               gl_AvgReleaseSpeed = fst speed, gl_SpeedCount = snd speed, gl_AvgReleaseSpinRate = fst spin,
               gl_SpinCount = snd spin, gl_AvgPitchScore = fst score, gl_ScoreCount = snd score\<rparr>, t))"

definition float32Ptr :: "f64 option \<Rightarrow> f64 option" where
  "float32Ptr v = map_option float32 v"

definition float32IfCounted :: "f64 \<Rightarrow> int \<Rightarrow> f64 option" where
  "float32IfCounted v n = (if n \<le> 0 then None else Some (float32 v))"

definition liveSessionMetrics ::
  "(f64 list \<Rightarrow> f64 option) \<Rightarrow> api_env \<Rightarrow> uuid \<Rightarrow> SessionAggregates \<Rightarrow> SessionAggregates hm" where
  "liveSessionMetrics avg ev sessionID stored =
     h_bind (with_cache ev (\<lambda>now rep c. LiveSession (ev_hashing ev) now rep sessionID c) None) (\<lambda>live.
     case live of
       Some l \<Rightarrow> h_return \<lparr>agg_PitchCount = go_int32 (lm_PitchCount l),
           agg_AvgReleaseSpeed = float32Ptr (lm_AvgReleaseSpeed l), agg_AvgReleaseSpinRate = float32Ptr (lm_AvgReleaseSpin l),
           agg_AvgPitchScore = float32Ptr (lm_AvgPitchScore l)\<rparr>
     | None \<Rightarrow> h_bind (sql ev (GetSessionLiveMetrics avg sessionID)) (\<lambda>x. case x of
           Inl err \<Rightarrow> h_return stored
         | Inr row \<Rightarrow>
             if gl_PitchCount row = 0 then h_return stored
             else h_return \<lparr>agg_PitchCount = go_int32 (gl_PitchCount row),
               agg_AvgReleaseSpeed = float32IfCounted (gl_AvgReleaseSpeed row) (gl_SpeedCount row),
               agg_AvgReleaseSpinRate = float32IfCounted (gl_AvgReleaseSpinRate row) (gl_SpinCount row),
               agg_AvgPitchScore = float32IfCounted (gl_AvgPitchScore row) (gl_ScoreCount row)\<rparr>))"

text \<open>
  \<open>SessionSnapshot\<close>: its \<open>ErrSessionNotFound\<close> is the 404 that the handshake makes of it, any
  other error the 500.
\<close>

definition SessionSnapshot ::
  "list_lib \<Rightarrow> (f64 list \<Rightarrow> f64 option) \<Rightarrow> api_env \<Rightarrow> uuid \<Rightarrow> live_data WsHub.Snapshot hm" where
  "SessionSnapshot q avg ev sessionID =
     h_bind (sql_found ev ''session'' (get_session sessionID)) (\<lambda>session.
     h_bind (sql ev (GetAthlete (ses_PitcherAthleteID (fst session)))) (\<lambda>pitcher.
     h_bind (liveSessionMetrics avg ev sessionID (Listings.sd_Metrics (toSessionDTO session))) (\<lambda>metrics.
     h_bind (sql_ok ev (ListPitchesBySessionDesc sessionID SnapshotPitchCount None)) (\<lambda>rows.
     h_bind (buildPitchDTOs q ev rows [''measurement'', ''prediction'']) (\<lambda>items.
     h_return \<lparr>sn_Data = \<lparr>
         sd_Session = SessionDetail \<lparr>se_Session = (toSessionDTO session)\<lparr>Listings.sd_Metrics := metrics\<rparr>,
           se_OutcomeDistribution = Map.empty,
           se_Pitcher = (case pitcher of Inl _ \<Rightarrow> None
             | Inr a \<Rightarrow> Some \<lparr>sr_ID = ath_ID a, sr_FullName = ath_FullName a, sr_Throws = ath_Throws a\<rparr>),
           se_AnomalyCount = 0\<rparr>,
         sd_Metrics = SessionMetrics metrics,
         sd_LastPitchIndex = (case rows of [] \<Rightarrow> 0 | (p, m) # _ \<Rightarrow> p_SessionPitchIndex p),
         sd_RecentPitches = RecentPitches items\<rparr>,
       sn_Closed = (ses_Status (fst session) \<noteq> ''ACTIVE''), sn_Reason = ses_Status (fst session)\<rparr>)))))"

section \<open>The caller of a socket\<close>

text \<open>\<open>Authenticate\<close>, and what \<open>WithWebSocket\<close> gives the handler: an authenticator when a signer is set by then.\<close>

definition Authenticate :: "api_env \<Rightarrow> auth_lib \<Rightarrow> (uuid \<Rightarrow> string) \<Rightarrow> Server \<Rightarrow> http_request \<Rightarrow> WsClient.Identity hm" where
  "Authenticate ev al str sv r = h_bind (verifyRequest ev al sv r) (\<lambda>claims.
     h_return \<lparr>id_UserID = str (cl_Subject claims), id_Username = cl_Username claims, id_Role = cl_Role claims,
       id_ExpiresAt = Expiry claims\<rparr>)"

definition WithWebSocket :: "Server \<Rightarrow> WsHub.WsConfig" where
  "WithWebSocket sv = \<lparr>wc_limit = MaxConnectionsPerAddress, wc_auth = (sv_signer sv \<noteq> None)\<rparr>"

section \<open>Fan-out\<close>

definition MetricsInterval :: duration where "MetricsInterval = Second"

text \<open>The map of a fan-out is an association list with distinct keys; behind it is the broadcaster.\<close>

record 'w Fanout =
  fo_lastSent :: "(uuid \<times> time) list"
  fo_hub :: 'w

type_synonym 'w broadcaster = "uuid \<Rightarrow> string \<Rightarrow> string \<Rightarrow> live_data \<Rightarrow> 'w \<Rightarrow> 'w"

definition NewFanout :: "'w \<Rightarrow> 'w Fanout" where
  "NewFanout hub = \<lparr>fo_lastSent = [], fo_hub = hub\<rparr>"

definition shouldSendMetrics :: "time \<Rightarrow> uuid \<Rightarrow> (uuid \<times> time) list \<Rightarrow> bool \<times> (uuid \<times> time) list" where
  "shouldSendMetrics now sessionID lastSent =
     (if (case map_of lastSent sessionID of Some prev \<Rightarrow> time_Sub now prev < MetricsInterval | None \<Rightarrow> False)
      then (False, lastSent)
      else (let m = AList.update sessionID now lastSent in
        (True, if 1024 < length m then filter (\<lambda>(i, t). \<not> 10 * MetricsInterval < time_Sub now t) m else m)))"

definition toLivePitchDTO :: "PitchAnalyzed \<Rightarrow> LivePitchDTO" where
  "toLivePitchDTO p =
     \<lparr>lp_PitchID = an_PitchID p, lp_SessionPitchIndex = seq_SessionPitchIndex (an_Sequence p),
      lp_AtBatNumber = seq_AtBatNumber (an_Sequence p), lp_PitchNumber = seq_PitchNumber (an_Sequence p),
      lp_ThrownAt = an_ThrownAt p, lp_Context = an_Context p, lp_Stand = an_Stand p, lp_PThrows = an_PThrows p,
      lp_PitchType = an_PitchType p, lp_PitchName = an_PitchName p, lp_Measurement = an_Measurement p,
      lp_Predictions = an_Predictions p, lp_ActualOutcome = an_ActualOutcome p,
      lp_PredictionStatus = an_PredictionStatus p, lp_IsSynthetic = an_IsSynthetic p\<rparr>"

record fanout_lib =
  json_PitchAnalyzed :: "string \<Rightarrow> lib_error + PitchAnalyzed"
  json_Anomaly :: "string \<Rightarrow> lib_error + AnomalyDetected"
  fo_uuid_text :: "uuid \<Rightarrow> string"

definition handlePitch :: "fanout_lib \<Rightarrow> 'w broadcaster \<Rightarrow> time \<Rightarrow> Envelope \<Rightarrow> 'w Fanout \<Rightarrow> error \<times> 'w Fanout" where
  "handlePitch fl publish now evt f =
     (case Unmarshal (json_PitchAnalyzed fl) evt of
        Inl err \<Rightarrow> (None, f)
      | Inr payload \<Rightarrow>
         (let i = an_SessionID payload;
              f = f\<lparr>fo_hub := publish i WsClient.TypePitchAnalyzed (fo_uuid_text fl (CorrelationID evt))
                    (LivePitch (toLivePitchDTO payload)) (fo_hub f)\<rparr>;
              (send, m) = shouldSendMetrics now i (fo_lastSent f);
              f = f\<lparr>fo_lastSent := m\<rparr>
          in (None, if send then f\<lparr>fo_hub := publish i TypeSessionMetrics ''''
                (LiveRollup \<lparr>lv_PitchCount = seq_SessionPitchIndex (an_Sequence payload), lv_LastPitchAt = an_ThrownAt payload,
                   lv_ReleaseSpeed = ReleaseSpeed (an_Measurement payload)\<rparr>) (fo_hub f)\<rparr> else f)))"

definition handleAnomaly :: "fanout_lib \<Rightarrow> 'w broadcaster \<Rightarrow> Envelope \<Rightarrow> 'w Fanout \<Rightarrow> error \<times> 'w Fanout" where
  "handleAnomaly fl publish evt f =
     (case Unmarshal (json_Anomaly fl) evt of
        Inl err \<Rightarrow> (None, f)
      | Inr payload \<Rightarrow> (None, f\<lparr>fo_hub := publish (ad_SessionID payload) TypeAnomalyDetected
            (fo_uuid_text fl (CorrelationID evt)) (LiveAnomaly payload) (fo_hub f)\<rparr>))"

definition Fanout_Handle :: "fanout_lib \<Rightarrow> 'w broadcaster \<Rightarrow> time \<Rightarrow> Envelope \<Rightarrow> 'w Fanout \<Rightarrow> error \<times> 'w Fanout" where
  "Fanout_Handle fl publish now evt f =
     (if EventType evt = Events.TypePitchAnalyzed then handlePitch fl publish now evt f
      else if EventType evt = TypeAnomaly then handleAnomaly fl publish evt f
      else (None, f))"

text \<open>The hub as a broadcaster, and the consumers of cmd/api that feed it.\<close>

definition hub_publish :: "time \<Rightarrow> live_data WsHub.World broadcaster" where
  "hub_publish now i ty corr data w =
     (let m = broadcast_message now i ty corr (DataAny data); w1 = publish_check m w in
      if h_done w then w1 else snd (publish_send m w1))"

definition fanout_consumer :: "string \<Rightarrow> string \<Rightarrow> ConsumerConfig" where
  "fanout_consumer topic grp =
     NewConsumer ((DefaultConsumerConfig topic grp)\<lparr>Concurrency := 1, StartFromLatest := True, DLQTopic := ''''\<rparr>) False"

section \<open>The throttle\<close>

fun throttled :: "(uuid \<times> time) list \<Rightarrow> (uuid \<times> time) list \<Rightarrow> bool list" where
  "throttled m [] = []"
| "throttled m ((i, now) # calls) = (case shouldSendMetrics now i m of (send, m') \<Rightarrow> send # throttled m' calls)"

text \<open>
  The reference: everything ever sent is remembered, and a rollup is refused exactly when one of the
  same session was sent less than the interval ago.
\<close>

fun once_per_interval :: "(uuid \<times> time) list \<Rightarrow> (uuid \<times> time) list \<Rightarrow> bool list" where
  "once_per_interval sent [] = []"
| "once_per_interval sent ((i, now) # calls) =
     (let send = \<not> list_ex (\<lambda>(j, t). j = i \<and> now - t < MetricsInterval) sent in
      send # once_per_interval (if send then (i, now) # sent else sent) calls)"

definition remembers :: "(uuid \<times> time) list \<Rightarrow> (uuid \<times> time) list \<Rightarrow> time \<Rightarrow> bool" where
  "remembers m sent now \<longleftrightarrow> distinct (map fst m)
     \<and> (\<forall>i t. map_of m i = Some t \<longrightarrow> (i, t) \<in> set sent \<and> (\<forall>t'. (i, t') \<in> set sent \<longrightarrow> t' \<le> t))
     \<and> (\<forall>i t'. map_of m i = None \<longrightarrow> (i, t') \<in> set sent \<longrightarrow> MetricsInterval < now - t')
     \<and> (\<forall>(i, t) \<in> set sent. t \<le> now)"

lemma remembers_later: "remembers m sent t \<Longrightarrow> t \<le> u \<Longrightarrow> remembers m sent u"
  unfolding remembers_def by fastforce

lemma time_Sub_interval: "time_Sub a b < MetricsInterval \<longleftrightarrow> a - b < MetricsInterval"
  "10 * MetricsInterval < time_Sub a b \<longleftrightarrow> 10 * MetricsInterval < a - b"
  by (simp_all add: MetricsInterval_def time_Sub_less_iff time_Sub_greater_iff)

lemma refused_iff:
  assumes "remembers m sent now"
  shows "(case map_of m i of Some prev \<Rightarrow> time_Sub now prev < MetricsInterval | None \<Rightarrow> False)
     \<longleftrightarrow> list_ex (\<lambda>(j, t). j = i \<and> now - t < MetricsInterval) sent"
proof (cases "map_of m i")
  case None
  with assms show ?thesis unfolding remembers_def list_ex_iff by fastforce
next
  case (Some t)
  with assms have t: "(i, t) \<in> set sent" "\<And>t'. (i, t') \<in> set sent \<Longrightarrow> t' \<le> t" by (auto simp: remembers_def)
  show ?thesis
  proof
    assume "case map_of m i of Some prev \<Rightarrow> time_Sub now prev < MetricsInterval | None \<Rightarrow> False"
    with Some t(1) show "list_ex (\<lambda>(j, t). j = i \<and> now - t < MetricsInterval) sent"
      by (force simp: list_ex_iff time_Sub_interval)
  next
    assume "list_ex (\<lambda>(j, t). j = i \<and> now - t < MetricsInterval) sent"
    then obtain t' where "(i, t') \<in> set sent" "now - t' < MetricsInterval" by (auto simp: list_ex_iff)
    with t(2) [of t'] Some show "case map_of m i of Some prev \<Rightarrow> time_Sub now prev < MetricsInterval | None \<Rightarrow> False"
      by (simp add: time_Sub_interval)
  qed
qed

lemma remembers_sent:
  assumes "remembers m sent now"
  shows "remembers (AList.update i now m) ((i, now) # sent) now"
  using assms unfolding remembers_def
  by (auto simp: update_conv' distinct_update split: if_splits)

lemma map_of_filter_keep:
  "distinct (map fst m) \<Longrightarrow> map_of (filter (\<lambda>(i, t). P i t) m) i = (case map_of m i of None \<Rightarrow> None | Some t \<Rightarrow> if P i t then Some t else None)"
  by (induction m) (auto split: option.splits simp: image_iff dest: map_of_SomeD)

lemma remembers_swept:
  assumes "remembers m sent now"
  shows "remembers (filter (\<lambda>(i, t). \<not> 10 * MetricsInterval < time_Sub now t) m) sent now"
proof -
  let ?m = "filter (\<lambda>(i, t). \<not> 10 * MetricsInterval < time_Sub now t) m"
  have d: "distinct (map fst m)" using assms by (simp add: remembers_def)
  have look: "map_of ?m i = (case map_of m i of None \<Rightarrow> None | Some t \<Rightarrow> if \<not> 10 * MetricsInterval < now - t then Some t else None)" for i
    using map_of_filter_keep [OF d, of "\<lambda>i t. \<not> 10 * MetricsInterval < now - t" i] by (simp add: time_Sub_interval)
  have "distinct (map fst ?m)" using d by (rule distinct_map_filter)
  moreover have "(i, t) \<in> set sent \<and> (\<forall>t'. (i, t') \<in> set sent \<longrightarrow> t' \<le> t)" if "map_of ?m i = Some t" for i t
    using that assms by (auto simp: look remembers_def split: option.splits if_splits)
  moreover have "MetricsInterval < now - t'" if "map_of ?m i = None" "(i, t') \<in> set sent" for i t'
  proof (cases "map_of m i")
    case None
    with that assms show ?thesis by (auto simp: remembers_def)
  next
    case (Some t)
    with that(1) have "10 * MetricsInterval < now - t" by (simp add: look split: if_splits)
    moreover have "t' \<le> t" using Some that(2) assms by (auto simp: remembers_def)
    ultimately show ?thesis by (simp add: MetricsInterval_def)
  qed
  ultimately show ?thesis using assms unfolding remembers_def by blast
qed

lemma throttled_once:
  "remembers m sent now \<Longrightarrow> sorted (now # map snd calls) \<Longrightarrow> throttled m calls = once_per_interval sent calls"
proof (induction calls arbitrary: m sent now)
  case (Cons c calls)
  obtain i t where c: "c = (i, t)" by fastforce
  have r: "remembers m sent t" using Cons.prems c by (intro remembers_later [OF Cons.prems(1)]) simp
  have s: "sorted (t # map snd calls)" using Cons.prems(2) c by simp
  show ?case
  proof (cases "list_ex (\<lambda>(j, u). j = i \<and> t - u < MetricsInterval) sent")
    case True
    with refused_iff [OF r, of i] Cons.IH [OF r s] show ?thesis by (simp add: c shouldSendMetrics_def)
  next
    case False
    have "remembers (AList.update i t m) ((i, t) # sent) t" using r by (rule remembers_sent)
    with remembers_swept have "remembers (snd (shouldSendMetrics t i m)) ((i, t) # sent) t"
      using False refused_iff [OF r, of i] by (auto simp: shouldSendMetrics_def Let_def)
    with Cons.IH [OF _ s] False refused_iff [OF r, of i] show ?thesis
      by (simp add: c shouldSendMetrics_def Let_def)
  qed
qed simp

section \<open>What the fan-out publishes\<close>

text \<open>A broadcaster that keeps what it is given, and a run of the handler over a topic.\<close>

type_synonym broadcast = "uuid \<times> string \<times> string \<times> live_data"

definition keep_broadcast :: "broadcast list broadcaster" where
  "keep_broadcast i ty corr d bs = bs @ [(i, ty, corr, d)]"

fun fan_out :: "fanout_lib \<Rightarrow> 'w broadcaster \<Rightarrow> (time \<times> Envelope) list \<Rightarrow> 'w Fanout \<Rightarrow> 'w Fanout" where
  "fan_out fl publish [] f = f"
| "fan_out fl publish ((now, evt) # es) f = fan_out fl publish es (snd (Fanout_Handle fl publish now evt f))"

text \<open>What an event announces, if it can be decoded.\<close>

definition announced :: "fanout_lib \<Rightarrow> Envelope \<Rightarrow> broadcast list" where
  "announced fl evt =
     (if EventType evt = Events.TypePitchAnalyzed
      then (case json_PitchAnalyzed fl (Data evt) of Inl _ \<Rightarrow> []
        | Inr p \<Rightarrow> [(an_SessionID p, WsClient.TypePitchAnalyzed, fo_uuid_text fl (CorrelationID evt), LivePitch (toLivePitchDTO p))])
      else if EventType evt = TypeAnomaly
      then (case json_Anomaly fl (Data evt) of Inl _ \<Rightarrow> []
        | Inr a \<Rightarrow> [(ad_SessionID a, TypeAnomalyDetected, fo_uuid_text fl (CorrelationID evt), LiveAnomaly a)])
      else [])"

definition is_rollup :: "broadcast \<Rightarrow> bool" where
  "is_rollup b \<longleftrightarrow> fst (snd b) = TypeSessionMetrics"

text \<open>The analyzed pitches that can be decoded, with the time they are handled: the calls of the throttle.\<close>

definition rollup_calls :: "fanout_lib \<Rightarrow> (time \<times> Envelope) list \<Rightarrow> (uuid \<times> time) list" where
  "rollup_calls fl es = concat (map (\<lambda>(now, evt).
     if EventType evt = Events.TypePitchAnalyzed
     then (case json_PitchAnalyzed fl (Data evt) of Inl _ \<Rightarrow> [] | Inr p \<Rightarrow> [(an_SessionID p, now)]) else []) es)"

lemma Handle_never_fails: "fst (Fanout_Handle fl publish now evt f) = None"
  by (simp add: Fanout_Handle_def handlePitch_def handleAnomaly_def Let_def split: sum.splits prod.splits)

lemma Handle_announces:
  "\<exists>rolls. fo_hub (snd (Fanout_Handle fl keep_broadcast now evt f)) = fo_hub f @ announced fl evt @ rolls
     \<and> filter is_rollup (announced fl evt) = [] \<and> list_all is_rollup rolls"
proof -
  have types: "Events.TypePitchAnalyzed \<noteq> TypeAnomaly" "WsClient.TypePitchAnalyzed \<noteq> TypeSessionMetrics"
    "TypeAnomalyDetected \<noteq> TypeSessionMetrics"
    by (simp_all add: ws_type_defs Events.TypePitchAnalyzed_def TypeAnomaly_def)
  consider (pitch) p where "EventType evt = Events.TypePitchAnalyzed" "json_PitchAnalyzed fl (Data evt) = Inr p"
    | (other) "EventType evt \<noteq> Events.TypePitchAnalyzed \<or> (\<exists>x. json_PitchAnalyzed fl (Data evt) = Inl x)"
    by (cases "json_PitchAnalyzed fl (Data evt)") auto
  then show ?thesis
  proof cases
    case pitch
    let ?send = "fst (shouldSendMetrics now (an_SessionID p) (fo_lastSent f))"
    let ?roll = "(an_SessionID p, TypeSessionMetrics, '''', LiveRollup \<lparr>lv_PitchCount = seq_SessionPitchIndex (an_Sequence p),
       lv_LastPitchAt = an_ThrownAt p, lv_ReleaseSpeed = ReleaseSpeed (an_Measurement p)\<rparr>)"
    from pitch types show ?thesis
      by (intro exI [of _ "if ?send then [?roll] else []"])
        (simp add: Fanout_Handle_def handlePitch_def Unmarshal_def announced_def keep_broadcast_def is_rollup_def split_beta Let_def)
  next
    case other
    with types show ?thesis
      by (cases "EventType evt = TypeAnomaly"; cases "json_Anomaly fl (Data evt)"; intro exI [of _ "[]"])
        (auto simp: Fanout_Handle_def handlePitch_def handleAnomaly_def Unmarshal_def announced_def keep_broadcast_def is_rollup_def)
  qed
qed

lemma fan_out_announces:
  "filter (\<lambda>b. \<not> is_rollup b) (fo_hub (fan_out fl keep_broadcast es f))
     = filter (\<lambda>b. \<not> is_rollup b) (fo_hub f) @ concat (map (\<lambda>(now, evt). announced fl evt) es)"
proof (induction es arbitrary: f)
  case (Cons x es)
  obtain now evt where x: "x = (now, evt)" by fastforce
  obtain rolls where r: "fo_hub (snd (Fanout_Handle fl keep_broadcast now evt f)) = fo_hub f @ announced fl evt @ rolls"
    "filter is_rollup (announced fl evt) = []" "list_all is_rollup rolls"
    using Handle_announces by blast
  then have "filter (\<lambda>b. \<not> is_rollup b) (announced fl evt) = announced fl evt" "filter (\<lambda>b. \<not> is_rollup b) rolls = []"
    by (auto simp: filter_id_conv filter_empty_conv list_all_iff)
  with Cons.IH [of "snd (Fanout_Handle fl keep_broadcast now evt f)"] r(1) x show ?case by simp
qed simp

lemma Handle_rollups:
  "map fst (filter is_rollup (fo_hub (snd (Fanout_Handle fl keep_broadcast now evt f))))
     = map fst (filter is_rollup (fo_hub f)) @
       map fst (map fst (filter snd (zip (rollup_calls fl [(now, evt)]) (throttled (fo_lastSent f) (rollup_calls fl [(now, evt)])))))
   \<and> throttled (fo_lastSent f) (rollup_calls fl ((now, evt) # es))
     = throttled (fo_lastSent f) (rollup_calls fl [(now, evt)])
       @ throttled (fo_lastSent (snd (Fanout_Handle fl keep_broadcast now evt f))) (rollup_calls fl es)"
  by (auto simp: Fanout_Handle_def handlePitch_def handleAnomaly_def Unmarshal_def Let_def keep_broadcast_def rollup_calls_def
      is_rollup_def ws_type_defs Events.TypePitchAnalyzed_def TypeAnomaly_def split: sum.splits prod.splits if_splits)

lemma rollup_calls_Cons: "rollup_calls fl (x # es) = rollup_calls fl [x] @ rollup_calls fl es"
  by (simp add: rollup_calls_def)

lemma length_throttled [simp]: "length (throttled m cs) = length cs"
  by (induction m cs rule: throttled.induct) (auto split: prod.splits)

lemma fan_out_rollups:
  "map fst (filter is_rollup (fo_hub (fan_out fl keep_broadcast es f)))
     = map fst (filter is_rollup (fo_hub f)) @
       map fst (map fst (filter snd (zip (rollup_calls fl es) (throttled (fo_lastSent f) (rollup_calls fl es)))))"
proof (induction es arbitrary: f)
  case (Cons x es)
  obtain now evt where x: "x = (now, evt)" by fastforce
  show ?case
    unfolding x fan_out.simps Cons.IH
    using Handle_rollups [of fl now evt f es]
    by (simp add: rollup_calls_Cons [of fl "(now, evt)" es])
qed (simp add: rollup_calls_def)

section \<open>Metrics and snapshot over quiet tables\<close>

lemma pg_reads [simp]: "reads (GetSessionLiveMetrics avg i)" "reads (get_session i)" "reads (GetAthlete i)"
    "reads (ListPitchesBySessionDesc i n c)" "reads (GetActivePredictionsForPitches ids)"
  by (simp_all add: reads_def GetSessionLiveMetrics_def Let_def get_session_def GetAthlete_def ListPitchesBySessionDesc_def
      GetActivePredictionsForPitches_def)

lemma map_sort_key: "map f (sort_key f xs) = sort (map f xs)"
  by (rule sym, rule properties_for_sort) simp_all

lemma head_of_take_rev_sort:
  assumes "map f ys = take n (rev (sort (map f xs)))" "0 < n"
  shows "(case ys of [] \<Rightarrow> 0 | y # _ \<Rightarrow> f y) = (if xs = [] then (0 :: int) else Max (f ` set xs))"
proof (cases "xs = []")
  case True
  with assms show ?thesis by simp
next
  case False
  let ?s = "sort (map f xs)"
  have ne: "?s \<noteq> []" using False by (metis length_0_conv length_map length_sort)
  have "last ?s = Max (set ?s)"
  proof (rule sym, rule Max_eqI)
    show "y \<le> last ?s" if "y \<in> set ?s" for y
      using that ne sorted_sort [of "map f xs"] by (metis in_set_conv_nth last_conv_nth sorted_nth_mono length_pos_if_in_set diff_less zero_less_one Suc_leI less_Suc_eq_le Suc_diff_1)
    show "last ?s \<in> set ?s" using ne by (rule last_in_set)
  qed simp
  moreover have "map f ys = last ?s # tl (take n (rev ?s))"
  proof -
    obtain b where b: "rev ?s = last ?s # b" using ne by (metis append_butlast_last_id rev.simps(2) rev_append rev_rev_ident rev_singleton_conv append_Cons append_Nil)
    show ?thesis unfolding assms(1) b using assms(2) by (cases n) simp_all
  qed
  ultimately show ?thesis using False by (cases ys) auto
qed

lemma quiet_with_cache: "with_cache ev f none w = (x, w') \<Longrightarrow> ap_tables w' = ap_tables w"
  by (auto simp: with_cache_def Let_def split: option.splits prod.splits)

lemma with_cache_cases:
  obtains a w1 where "with_cache ev f none w = (Fine a, w1)"
proof (cases "remote (ap_limiter w)")
  case (Some c)
  then show ?thesis using that
    by (cases "f (ev_now ev (ap_calls w)) (ev_reply ev (ap_calls w)) c") (simp add: with_cache_def)
qed (use that in \<open>simp add: with_cache_def\<close>)

lemma quiet_metrics:
  assumes quiet: "\<And>n t. ev_others ev n t = t" and run: "liveSessionMetrics avg ev i stored w = (x, w')"
  shows "ap_tables w' = ap_tables w \<and> (\<exists>m. x = Fine m)"
proof -
  obtain l w1 where c: "with_cache ev (\<lambda>now rep c. LiveSession (ev_hashing ev) now rep i c) None w = (Fine l, w1)"
    by (rule with_cache_cases)
  have t1: "ap_tables w1 = ap_tables w" using quiet_with_cache [OF c] .
  obtain y w2 where s: "sql ev (GetSessionLiveMetrics avg i) w1 = (Fine y, w2)" by (metis sql_cases)
  have "ap_tables w2 = ap_tables w1" using quiet_sql [OF quiet pg_reads(1) refl s] by blast
  with run c s t1 show ?thesis
    by (auto simp: liveSessionMetrics_def h_bind_def h_return_def split: option.splits sum.splits if_splits)
qed

text \<open>
  Without a cached hash the numbers are those that \<open>RecomputeAggregates\<close> writes to the session row
  when it is closed.
\<close>

lemma live_rows_aggregates:
  fixes d i
  defines "rows \<equiv> concat (map (\<lambda>p. map (\<lambda>sc. (measurement_of d p, sc)) (joined_scores d p)) (filter (\<lambda>p. p_SessionID p = i) (pitches d)))"
  shows "length (live_rows d i) = length rows" "map (\<lambda>(p, m, sc). Option.bind m sel) (live_rows d i) = map (\<lambda>r. Option.bind (fst r) sel) rows"
    "map (\<lambda>(p, m, sc). sc) (live_rows d i) = map snd rows"
  unfolding rows_def live_rows_def by (simp_all add: length_concat map_concat comp_def)

lemma counted_column:
  assumes "\<forall>vs. avg vs = None \<longleftrightarrow> vs = []"
  shows "float32IfCounted (fst (counted_avg avg vs)) (snd (counted_avg avg vs)) = map_option float32 (avg (somes vs))"
  using assms [rule_format, of "somes vs"]
  by (cases "somes vs = []") (auto simp: counted_avg_def float32IfCounted_def split: option.splits)


lemma session_aggregates_live:
  "session_aggregates avg d i =
     \<lparr>agg_PitchCount = int (length (live_rows d i)),
      agg_AvgReleaseSpeed = map_option float32 (avg (somes (map (\<lambda>(p, m, sc). Option.bind m me_ReleaseSpeed) (live_rows d i)))),
      agg_AvgReleaseSpinRate = map_option float32 (avg (somes (map (\<lambda>(p, m, sc). Option.bind m me_ReleaseSpinRate) (live_rows d i)))),
      agg_AvgPitchScore = map_option float32 (avg (somes (map (\<lambda>(p, m, sc). sc) (live_rows d i))))\<rparr>"
  by (simp only: session_aggregates_def Let_def live_rows_aggregates)

lemma fallback_rows:
  assumes laws: "\<forall>vs. avg vs = None \<longleftrightarrow> vs = []" and few: "length (live_rows (tb_db t) i) < 2 ^ 31"
    and row: "GetSessionLiveMetrics avg i t = (Inr row, t')"
  shows "\<lparr>agg_PitchCount = go_int32 (gl_PitchCount row),
     agg_AvgReleaseSpeed = float32IfCounted (gl_AvgReleaseSpeed row) (gl_SpeedCount row),
     agg_AvgReleaseSpinRate = float32IfCounted (gl_AvgReleaseSpinRate row) (gl_SpinCount row),
     agg_AvgPitchScore = float32IfCounted (gl_AvgPitchScore row) (gl_ScoreCount row)\<rparr> = session_aggregates avg (tb_db t) i"
    and "gl_PitchCount row = int (length (live_rows (tb_db t) i))"
proof -
  have "go_int32 (int (length (live_rows (tb_db t) i))) = int (length (live_rows (tb_db t) i))"
    using few by (intro go_int32_id) simp_all
  with row show "\<lparr>agg_PitchCount = go_int32 (gl_PitchCount row),
     agg_AvgReleaseSpeed = float32IfCounted (gl_AvgReleaseSpeed row) (gl_SpeedCount row),
     agg_AvgReleaseSpinRate = float32IfCounted (gl_AvgReleaseSpinRate row) (gl_SpinCount row),
     agg_AvgPitchScore = float32IfCounted (gl_AvgPitchScore row) (gl_ScoreCount row)\<rparr> = session_aggregates avg (tb_db t) i"
    by (auto simp: GetSessionLiveMetrics_def Let_def counted_column [OF laws] session_aggregates_live)
  show "gl_PitchCount row = int (length (live_rows (tb_db t) i))"
    using row by (auto simp: GetSessionLiveMetrics_def Let_def)
qed

text \<open>The hash that the next call of the Redis layer reads for a session, if there is one to be had.\<close>

definition cached_hash :: "api_env \<Rightarrow> uuid \<Rightarrow> api_world \<Rightarrow> live_hash option" where
  "cached_hash ev i w = (case remote (ap_limiter w) of None \<Rightarrow> None
     | Some c \<Rightarrow> if cache_enabled c \<and> ev_reply ev (ap_calls w) = Up
         then live_value (redis_get (ev_now ev (ap_calls w)) (liveKey (ev_hashing ev) i) (server c)) else None)"

lemma no_hash_read:
  assumes "cached_hash ev i w = None"
  obtains w1 where "with_cache ev (\<lambda>now rep c. LiveSession (ev_hashing ev) now rep i c) None w = (Fine None, w1)"
    "ap_tables w1 = ap_tables w" "ap_calls w1 = ap_calls w + 1"
proof (cases "remote (ap_limiter w)")
  case None
  with that show ?thesis by (simp add: with_cache_def)
next
  case (Some c)
  obtain a c' where l: "LiveSession (ev_hashing ev) (ev_now ev (ap_calls w)) (ev_reply ev (ap_calls w)) i c = (a, c')" by fastforce
  with assms Some have "a = None"
    by (auto simp: cached_hash_def LiveSession_def cache_call_def split: option.splits if_splits reply.splits)
  with that Some l show ?thesis by (simp add: with_cache_def)
qed

lemma live_rows_empty: "live_rows d i = [] \<longleftrightarrow> filter (\<lambda>p. p_SessionID p = i) (pitches d) = []"
  by (auto simp: live_rows_def joined_scores_def Let_def filter_empty_conv split: if_splits)

lemma quiet_step:
  assumes "\<And>n t. ev_others ev n t = t" "reads qy" "ev_fault ev (ap_calls w) = None"
  shows "sql ev qy w = (Fine (fst (qy (ap_tables w))), w\<lparr>ap_calls := ap_calls w + 1\<rparr>)"
proof -
  have "snd (qy (ap_tables w)) = ap_tables w" using assms(2) by (simp add: reads_def)
  then show ?thesis using assms(1,3)
    by (cases "qy (ap_tables w)"; cases "fst (qy (ap_tables w))") (auto simp: sql_def Let_def)
qed

section \<open>What a dashboard is told\<close>

text \<open>
  C39: without a hash it can read, the live metrics of a session are what closing it would store.
  No client, a client that is switched off, a Redis that does not answer, and a hash that is missing
  or has expired are all the same here.  The numbers are the aggregates of the rows that the query
  sees; the stored metrics stand in for them exactly when the query fails or sees no pitch of the
  session.  \<open>avg\<close> of no values is null, and of some a number; a session has fewer than \<open>2^31\<close> rows.
\<close>

theorem fallback_is_aggregates:
  fixes ev w
  defines "t \<equiv> ev_others ev (ap_calls w + 1) (ap_tables w)"
  assumes "cached_hash ev i w = None" and "\<forall>vs. avg vs = None \<longleftrightarrow> vs = []" and "length (live_rows (tb_db t) i) < 2 ^ 31"
  shows "fst (liveSessionMetrics avg ev i stored w) =
     Fine (if ev_fault ev (ap_calls w + 1) = None \<and> list_ex (\<lambda>p. p_SessionID p = i) (pitches (tb_db t))
           then session_aggregates avg (tb_db t) i else stored)"
proof -
  obtain w1 where c: "with_cache ev (\<lambda>now rep c. LiveSession (ev_hashing ev) now rep i c) None w = (Fine None, w1)"
    "ap_tables w1 = ap_tables w" "ap_calls w1 = ap_calls w + 1"
    using assms(2) by (rule no_hash_read)
  obtain row where r: "GetSessionLiveMetrics avg i t = (Inr row, t)" by (simp add: GetSessionLiveMetrics_def Let_def)
  have s: "fst (sql ev (GetSessionLiveMetrics avg i) w1)
      = Fine (case ev_fault ev (ap_calls w + 1) of None \<Rightarrow> Inr row | Some (e, _) \<Rightarrow> Inl (lib e))"
    using r [unfolded t_def] by (simp add: sql_def c(2,3) Let_def split: option.split prod.split)
  have "list_ex (\<lambda>p. p_SessionID p = i) (pitches (tb_db t)) \<longleftrightarrow> gl_PitchCount row \<noteq> 0"
    using fallback_rows(2) [OF assms(3,4) r] live_rows_empty [of "tb_db t" i]
    by (auto simp: list_ex_iff filter_empty_conv)
  with fallback_rows(1) [OF assms(3,4) r] s show ?thesis
    by (cases "sql ev (GetSessionLiveMetrics avg i) w1")
      (auto simp: liveSessionMetrics_def h_bind_def c(1) h_return_def split: option.splits)
qed

text \<open>
  C38: over tables that nobody else changes meanwhile, a snapshot carries the twenty latest pitches of its
  session, newest first, and as its last index the highest one stored: a client that then sees a
  pitch with the next index has missed nothing.
\<close>

theorem snapshot_is_latest:
  assumes quiet: "\<And>n t. ev_others ev n t = t" and run: "SessionSnapshot q avg ev i w = (Fine sn, w')"
  defines "xs \<equiv> filter (\<lambda>p. p_SessionID p = i) (pitches (tb_db (ap_tables w)))"
  shows "(\<exists>items. sd_RecentPitches (sn_Data sn) = RecentPitches items
        \<and> map pd_SessionPitchIndex items = take 20 (rev (sort (map p_SessionPitchIndex xs))))
     \<and> sd_LastPitchIndex (sn_Data sn) = (if xs = [] then 0 else Max (p_SessionPitchIndex ` set xs))"
proof -
  from run [unfolded SessionSnapshot_def] obtain s w1 p w2 m w3 rows w4 items where
    1: "sql_found ev ''session'' (get_session i) w = (Fine s, w1)" and
    2: "sql ev (GetAthlete (ses_PitcherAthleteID (fst s))) w1 = (Fine p, w2)" and
    3: "liveSessionMetrics avg ev i (Listings.sd_Metrics (toSessionDTO s)) w2 = (Fine m, w3)" and
    4: "sql_ok ev (ListPitchesBySessionDesc i SnapshotPitchCount None) w3 = (Fine rows, w4)" and
    5: "buildPitchDTOs q ev rows [''measurement'', ''prediction''] w4 = (Fine items, w')" and
    sn: "sd_RecentPitches (sn_Data sn) = RecentPitches items"
      "sd_LastPitchIndex (sn_Data sn) = (case rows of [] \<Rightarrow> 0 | (p, m) # _ \<Rightarrow> p_SessionPitchIndex p)"
    by (elim h_bind_cases) (auto simp: h_return_def)
  have t1: "ap_tables w1 = ap_tables w" using quiet_sql_found [OF quiet pg_reads(2) refl 1] by blast
  have t2: "ap_tables w2 = ap_tables w1" using quiet_sql [OF quiet pg_reads(3) refl 2] by blast
  have t3: "ap_tables w3 = ap_tables w" using quiet_metrics [OF quiet 3] t1 t2 by simp
  from 4 obtain t t' where "t = ev_others ev (ap_calls w3) (ap_tables w3)"
    "ListPitchesBySessionDesc i SnapshotPitchCount None t = (Inr rows, t')" by (rule sql_ok_Fine)
  then have "joined_rows (tb_db (ap_tables w)) 20 (rev (sort_key p_SessionPitchIndex xs)) = Inr rows"
    using t3 quiet by (auto simp: ListPitchesBySessionDesc_def unset_or_def SnapshotPitchCount_def xs_def)
  from joined_rows_fst [OF this] have fsts: "map fst rows = take 20 (rev (sort_key p_SessionPitchIndex xs))" by simp
  have idx: "map p_SessionPitchIndex (map fst rows) = take 20 (rev (sort (map p_SessionPitchIndex xs)))"
    unfolding fsts by (simp add: take_map [symmetric] rev_map [symmetric] map_sort_key)
  have "(case map fst rows of [] \<Rightarrow> 0 | y # _ \<Rightarrow> p_SessionPitchIndex y) = (if xs = [] then 0 else Max (p_SessionPitchIndex ` set xs))"
    using head_of_take_rev_sort [OF idx] by simp
  moreover have "(case map fst rows of [] \<Rightarrow> 0 | y # _ \<Rightarrow> p_SessionPitchIndex y) = (case rows of [] \<Rightarrow> 0 | (p, m) # _ \<Rightarrow> p_SessionPitchIndex p)"
    by (cases rows) (auto split: prod.splits)
  moreover have "map pd_SessionPitchIndex items = map p_SessionPitchIndex (map fst rows)"
    using buildPitchDTOs_keys(3) [OF 5] by simp
  ultimately show ?thesis using sn idx by auto
qed

text \<open>
  C37: the throttle with its sweep decides as if it remembered every rollup ever sent: one is refused
  exactly when a rollup of the same session went out less than a second before.
\<close>

theorem sweep_is_invisible:
  assumes "sorted (map snd calls)"
  shows "throttled [] calls = once_per_interval [] calls"
proof (cases calls)
  case (Cons c cs)
  have "remembers [] [] (snd c)" by (simp add: remembers_def)
  from throttled_once [OF this, of calls] assms Cons show ?thesis by simp
qed simp

text \<open>
  C40: over a run of the fan-out, the messages other than rollups are exactly what the events announce, one
  for each event that can be decoded, in the order of the topic, with the correlation id of the event;
  the rollups go to the sessions the throttle lets through.
\<close>

theorem fan_out_faithful:
  "filter (\<lambda>b. \<not> is_rollup b) (fo_hub (fan_out fl keep_broadcast es (NewFanout []))) = concat (map (\<lambda>(now, e). announced fl e) es)
   \<and> map fst (filter is_rollup (fo_hub (fan_out fl keep_broadcast es (NewFanout []))))
     = map fst (map fst (filter snd (zip (rollup_calls fl es) (throttled [] (rollup_calls fl es)))))"
  using fan_out_announces [of fl es "NewFanout []"] fan_out_rollups [of fl es "NewFanout []"]
  by (simp add: NewFanout_def)


section \<open>Examples\<close>

definition demo_avg :: "f64 list \<Rightarrow> f64 option" where
  "demo_avg vs = (case vs of [] \<Rightarrow> None | v # _ \<Rightarrow> Some v)"

definition no_numbers :: SessionAggregates where
  "no_numbers = \<lparr>agg_PitchCount = 0, agg_AvgReleaseSpeed = None, agg_AvgReleaseSpinRate = None, agg_AvgPitchScore = None\<rparr>"

text \<open>A Redis that is up and has only a hash that expired at time 0.\<close>

definition demo_stale_hash :: api_world where
  "demo_stale_hash = demo_api_world\<lparr>ap_limiter := (ap_limiter demo_api_world)\<lparr>remote :=
     Some \<lparr>cache_enabled = True, server = (\<lambda>_. Some (RHash empty_hash, 0)), ops = []\<rparr>\<rparr>\<rparr>"

definition demo_up :: api_env where
  "demo_up = (demo_calls (\<lambda>_. None))\<lparr>ev_reply := (\<lambda>_. Up)\<rparr>"

theorem fallback_is_aggregates_witness:
  "fst (liveSessionMetrics demo_avg demo_up 2 no_numbers demo_stale_hash) = Fine (session_aggregates demo_avg demo_tables 2)"
proof -
  have laws: "\<forall>vs. demo_avg vs = None \<longleftrightarrow> vs = []" by (simp add: demo_avg_def split: list.splits)
  have t: "ev_others demo_up (ap_calls demo_stale_hash + 1) (ap_tables demo_stale_hash) = demo_api_tables"
    "tb_db demo_api_tables = demo_tables"
    by (simp_all add: demo_up_def demo_calls_def demo_stale_hash_def demo_api_world_def demo_api_tables_def)
  have "length (live_rows demo_tables 2) = 1" by code_simp
  then have few: "length (live_rows demo_tables 2) < 2 ^ 31" by simp
  have some: "list_ex (\<lambda>p. p_SessionID p = 2) (pitches demo_tables)" by code_simp
  have stale: "cached_hash demo_up 2 demo_stale_hash = None" by code_simp
  have fine: "ev_fault demo_up n = None" for n by (simp add: demo_up_def demo_calls_def)
  show ?thesis
    using fallback_is_aggregates [OF stale laws, unfolded t, OF few, of no_numbers] some fine by simp
qed

lemma demo_snapshot:
  "(case fst (SessionSnapshot demo_list_lib demo_avg (demo_calls (\<lambda>_. None)) 2 demo_api_world) of Fine sn \<Rightarrow> sn_Closed sn = False | _ \<Rightarrow> False)"
  by code_simp

theorem snapshot_is_latest_witness:
  "\<exists>sn w'. SessionSnapshot demo_list_lib demo_avg (demo_calls (\<lambda>_. None)) 2 demo_api_world = (Fine sn, w')
     \<and> sd_LastPitchIndex (sn_Data sn) = 1"
proof -
  obtain sn w' where run: "SessionSnapshot demo_list_lib demo_avg (demo_calls (\<lambda>_. None)) 2 demo_api_world = (Fine sn, w')"
    using demo_snapshot by (cases "SessionSnapshot demo_list_lib demo_avg (demo_calls (\<lambda>_. None)) 2 demo_api_world") (auto split: ApiBase.result.splits)
  let ?xs = "filter (\<lambda>p. p_SessionID p = 2) (pitches (tb_db (ap_tables demo_api_world)))"
  have "map p_SessionPitchIndex ?xs = [1]" by code_simp
  then have "?xs \<noteq> []" "p_SessionPitchIndex ` set ?xs = {1}" by (auto simp only: list.map list.set simp flip: set_map)
  with snapshot_is_latest [OF _ run] have "sd_LastPitchIndex (sn_Data sn) = 1" by (simp add: demo_calls_def)
  with run show ?thesis by blast
qed

theorem sweep_is_invisible_witness:
  "throttled [] [(1, 0), (1, 5), (2, 6), (1, Second)] = once_per_interval [] [(1, 0), (1, 5), (2, 6), (1, Second)]
   \<and> throttled [] [(1, 0), (1, 5), (2, 6), (1, Second)] = [True, False, True, True]"
proof -
  have "throttled [] [(1, 0), (1, 5), (2, 6), (1, Second)] = once_per_interval [] [(1, 0), (1, 5), (2, 6), (1, Second)]"
    by (rule sweep_is_invisible) simp
  moreover have "throttled [] [(1, 0), (1, 5), (2, 6), (1, Second)] = [True, False, True, True]" by code_simp
  ultimately show ?thesis by blast
qed

end
