(* ===== verification/Explanation.thy ===== *)
theory Explanation
  imports Resources Ingest
begin

text \<open>
  internal/api/handlers_explanation.go: attributing a stored pitch to its features.  The feature
  vector is rebuilt from the tables with the builder of the stream processor and sent to the
  inference service through the client and its breaker, which all requests of a process share.
\<close>

section \<open>Response shapes\<close>

record FeatureContributionDTO =
  fc_Feature :: string
  fc_Value :: "f64 option"
  fc_Contribution :: f64

record ExplanationDTO =
  xp_PitchID :: uuid
  xp_Variant :: string
  xp_ModelVersion :: string
  xp_Target :: string
  xp_PredictedClass :: string
  xp_Probabilities :: "(string \<times> f64) list"
  xp_TargetClass :: string
  xp_Space :: string
  xp_BaseValue :: f64
  xp_PredictedValue :: f64
  xp_PredictedProbability :: f64
  xp_OtherContribution :: f64
  xp_Contributions :: "FeatureContributionDTO list"
  xp_InferenceMs :: f64

section \<open>The features of a stored pitch\<close>

text \<open>
  \<open>featureInputFrom\<close>.  Widening a \<open>float32\<close> column changes nothing here: the columns hold numbers
  that are binary32 already.  The names the code leaves unset are empty.
\<close>

definition stored_raw :: "Pitch \<Rightarrow> PitchMeasurement \<Rightarrow> RawMeasurement" where
  "stored_raw p m =
     \<lparr>PitchType = (case p_PitchType p of None \<Rightarrow> '''' | Some t \<Rightarrow> t), PitchName = '''',
      ReleaseSpeed = me_ReleaseSpeed m, ReleaseSpinRate = me_ReleaseSpinRate m, SpinAxis = me_SpinAxis m,
      ReleasePosX = me_ReleasePosX m, ReleasePosY = None, ReleasePosZ = me_ReleasePosZ m,
      ReleaseExtension = me_ReleaseExtension m, PfxX = me_PfxX m, PfxZ = me_PfxZ m, PlateX = me_PlateX m,
      PlateZ = me_PlateZ m, SzTop = me_SzTop m, SzBot = me_SzBot m, EffectiveSpeed = None, ArmAngle = me_ArmAngle m\<rparr>"

definition featureInputFrom :: "Pitch \<Rightarrow> PitchMeasurement \<Rightarrow> FeatureInput" where
  "featureInputFrom p m = (let raw = stored_raw p m in
     \<lparr>in_Measurement = RawMeasurement.extend raw
        \<lparr>PfxXArm = me_PfxXArm m, ReleasePosXArm = me_ReleasePosXArm m, PlateXBat = me_PlateXBat m,
         ZoneHeightNorm = me_ZoneHeightNorm m, InZone = me_InZone m, NormalizationVersion = me_NormalizationVersion m,
         MeasurementQuality = me_MeasurementQuality m\<rparr>,
      in_Context = \<lparr>Balls = p_Balls p, Strikes = p_Strikes p, OutsWhenUp = p_OutsWhenUp p, Inning = p_Inning p,
        InningTopBot = '''', On1B = p_On1b p, On2B = p_On2b p, On3B = p_On3b p, BatScore = None, FldScore = None,
        NThruOrderPitcher = None\<rparr>,
      in_Stand = p_Stand p, in_PThrows = p_PThrows p, in_PitchType = PitchType raw,
      VeloDiffVsFB = None, PfxXDiffVsFB = None, PfxZDiffVsFB = None, ReleaseDistFromFB = None,
      in_PitchNumber = p_PitchNumber p, DaysSincePrev = None\<rparr>)"

section \<open>The handler\<close>

definition explanation_variant :: "string option \<Rightarrow> Variant" where
  "explanation_variant param = (if param = Some ''stuff'' then VariantStuff else VariantPitching)"

text \<open>What is read before the service is called.\<close>

definition explanation_request :: "list_lib \<Rightarrow> api_env \<Rightarrow> mathlib \<Rightarrow> bool \<Rightarrow> http_request \<Rightarrow> (uuid \<times> Variant \<times> PitchFeatures) hm" where
  "explanation_request l ev ml enabled r =
     h_bind (h_try (PathUUID (query_lib.truncate l) r ''pitchId'')) (\<lambda>i.
     h_bind (h_try (QueryEnum r ''variant'' [''pitching'', ''stuff''])) (\<lambda>param.
     let variant = explanation_variant param in
     if \<not> enabled then h_fail (ErrUnavailable ''explanations are not enabled on this instance'' None)
     else h_bind (sql_found ev ''pitch'' (GetPitch i)) (\<lambda>pitch.
          h_bind (sql ev (GetPitchMeasurement i)) (\<lambda>found. case found of
            Inl err \<Rightarrow> if IsNoRows err then h_fail (ErrUnprocessable ''this pitch has no measurement, so there is nothing to attribute'')
                       else h_fail (ErrInternal (Some err))
          | Inr measurement \<Rightarrow> h_return (i, variant,
              \<lparr>pf_PitchID = ll_uuid_text l i, pf_CountState = CountState (p_Balls pitch) (p_Strikes pitch),
               Features = BuildFeatures ml (featureInputFrom pitch measurement) variant\<rparr>)))))"

definition explanation_dto :: "uuid \<Rightarrow> PredictResponse \<Rightarrow> Prediction \<Rightarrow> ExplanationDTO" where
  "explanation_dto i resp p =
     (let out = \<lparr>xp_PitchID = i, xp_Variant = resp_Variant resp, xp_ModelVersion = ModelVersion resp, xp_Target = resp_Target resp,
        xp_PredictedClass = (case PredictedClass p of None \<Rightarrow> '''' | Some c \<Rightarrow> c), xp_Probabilities = Probabilities p,
        xp_TargetClass = '''', xp_Space = '''', xp_BaseValue = Fin 0, xp_PredictedValue = Fin 0, xp_PredictedProbability = Fin 0,
        xp_OtherContribution = Fin 0, xp_Contributions = [], xp_InferenceMs = InferenceMs resp\<rparr> in
      case pred_Explanation p of
        None \<Rightarrow> out
      | Some e \<Rightarrow> out\<lparr>xp_TargetClass := TargetClass e, xp_Space := Space e, xp_BaseValue := BaseValue e,
          xp_PredictedValue := PredictedValue e, xp_PredictedProbability := PredictedProbability e,
          xp_OtherContribution := OtherContribution e,
          xp_Contributions := map (\<lambda>c. \<lparr>fc_Feature = con_Feature c, fc_Value = con_Value c, fc_Contribution = SHAP c\<rparr>) (Contributions e)\<rparr>)"

text \<open>What follows the answer; a nil response would panic.\<close>

definition explanation_answer :: "uuid \<Rightarrow> goerr + PredictResponse option \<Rightarrow> ExplanationDTO response result" where
  "explanation_answer i answer = (case answer of
       Inl err \<Rightarrow> Fail (ErrUnavailable ''the inference service is unavailable'' (Some err))
     | Inr None \<Rightarrow> Crash
     | Inr (Some resp) \<Rightarrow> (case Predictions resp of
          [] \<Rightarrow> Fail (ErrInternal None)
        | p # _ \<Rightarrow> Fine (ok_json (explanation_dto i resp p))))"

text \<open>The state beside the tables: the client, if there is one, and the inference service.\<close>

type_synonym 's inference = "Client option \<times> 's"

definition getPitchExplanation ::
  "list_lib \<Rightarrow> api_env \<Rightarrow> mathlib \<Rightarrow> ('s, 'req, 'body) Backend \<Rightarrow> http_request \<Rightarrow> api_world \<Rightarrow> 's inference
   \<Rightarrow> ExplanationDTO response result \<times> api_world \<times> 's inference" where
  "getPitchExplanation l ev ml be r w cs = (case cs of (client, s) \<Rightarrow>
     (case explanation_request l ev ml (client \<noteq> None) r w of
        (Fail e, w') \<Rightarrow> (Fail e, w', cs)
      | (Crash, w') \<Rightarrow> (Crash, w', cs)
      | (Fine (i, variant, features), w') \<Rightarrow> (case client of
          None \<Rightarrow> (Crash, w', cs)
        | Some c \<Rightarrow> (let n = ap_calls w' in
            case Explain (ev_now ev n) (ev_now ev (n + 1)) be c variant features 8 s of
              (answer, c', s') \<Rightarrow> (explanation_answer i answer, w'\<lparr>ap_calls := n + 2\<rparr>, (Some c', s'))))))"

section \<open>The explained features and the scored ones\<close>

text \<open>
  What the columns keep of a measurement: every value rounded to binary32.  And the reading with
  the stand that is stored when the device reported none.
\<close>

definition as_stored :: "NormalizedMeasurement \<Rightarrow> NormalizedMeasurement" where
  "as_stored m = m\<lparr>ReleaseSpeed := f32 (ReleaseSpeed m), ReleaseSpinRate := f32 (ReleaseSpinRate m),
     SpinAxis := f32 (SpinAxis m), ReleasePosX := f32 (ReleasePosX m), ReleasePosY := f32 (ReleasePosY m),
     ReleasePosZ := f32 (ReleasePosZ m), ReleaseExtension := f32 (ReleaseExtension m), PfxX := f32 (PfxX m),
     PfxZ := f32 (PfxZ m), PlateX := f32 (PlateX m), PlateZ := f32 (PlateZ m), SzTop := f32 (SzTop m),
     SzBot := f32 (SzBot m), EffectiveSpeed := f32 (EffectiveSpeed m), ArmAngle := f32 (ArmAngle m),
     PfxXArm := f32 (PfxXArm m), ReleasePosXArm := f32 (ReleasePosXArm m), PlateXBat := f32 (PlateXBat m),
     ZoneHeightNorm := f32 (ZoneHeightNorm m)\<rparr>"

definition with_stand :: "PitchRaw \<Rightarrow> PitchRaw" where
  "with_stand raw = raw\<lparr>raw_Batter := (raw_Batter raw)\<lparr>BatterRef_Stand := defaultStand (BatterRef_Stand (raw_Batter raw))\<rparr>\<rparr>"

lemma as_stored_fields:
  "ReleaseSpeed (as_stored m) = f32 (ReleaseSpeed m)" "ReleaseSpinRate (as_stored m) = f32 (ReleaseSpinRate m)"
  "SpinAxis (as_stored m) = f32 (SpinAxis m)" "ReleasePosZ (as_stored m) = f32 (ReleasePosZ m)"
  "ReleaseExtension (as_stored m) = f32 (ReleaseExtension m)" "PfxZ (as_stored m) = f32 (PfxZ m)"
  "PlateX (as_stored m) = f32 (PlateX m)" "ArmAngle (as_stored m) = f32 (ArmAngle m)" "PfxXArm (as_stored m) = f32 (PfxXArm m)"
  "ReleasePosXArm (as_stored m) = f32 (ReleasePosXArm m)" "PlateXBat (as_stored m) = f32 (PlateXBat m)"
  "ZoneHeightNorm (as_stored m) = f32 (ZoneHeightNorm m)" "InZone (as_stored m) = InZone m"
  by (simp_all add: as_stored_def)

lemma with_stand_given: "BatterRef_Stand (raw_Batter raw) \<noteq> '''' \<Longrightarrow> with_stand raw = raw"
  by (simp add: with_stand_def defaultStand_def)

lemma valid_columns:
  assumes "validateRaw q raw = None" "fits_schema raw"
  shows "go_int16 (Balls (raw_Context raw)) = Balls (raw_Context raw)" "go_int16 (Strikes (raw_Context raw)) = Strikes (raw_Context raw)"
    "go_int16 (OutsWhenUp (raw_Context raw)) = OutsWhenUp (raw_Context raw)" "go_int16 (Inning (raw_Context raw)) = Inning (raw_Context raw)"
    "go_int16 (PitchNumber raw) = PitchNumber raw"
  using validateRaw_None [OF assms(1)] assms(2) by (simp_all add: go_int16_id fits_schema_def int16_range_def)

definition same_situation :: "FeatureInput \<Rightarrow> FeatureInput \<Rightarrow> bool" where
  "same_situation i j \<longleftrightarrow>
     (let c = in_Context i; d = in_Context j in
        Balls c = Balls d \<and> Strikes c = Strikes d \<and> OutsWhenUp c = OutsWhenUp d \<and> Inning c = Inning d
      \<and> On1B c = On1B d \<and> On2B c = On2B d \<and> On3B c = On3B d)
     \<and> in_PitchNumber i = in_PitchNumber j \<and> DaysSincePrev i = DaysSincePrev j"

definition same_location :: "FeatureInput \<Rightarrow> FeatureInput \<Rightarrow> bool" where
  "same_location i j \<longleftrightarrow>
     (let m = in_Measurement i; n = in_Measurement j in
        PlateXBat m = PlateXBat n \<and> ZoneHeightNorm m = ZoneHeightNorm n \<and> InZone m = InZone n \<and> PlateX m = PlateX n)"

text \<open>The features the tables cannot give back.\<close>

definition unrecovered :: "string set" where
  "unrecovered = {''n_thruorder_pitcher'', ''score_diff''}"

definition recovered :: "features \<Rightarrow> features" where
  "recovered f = (\<lambda>k. if k \<in> unrecovered then None else f k)"

lemma recovered_putFloat: "k \<notin> unrecovered \<Longrightarrow> putFloat k v (recovered f) = recovered (putFloat k v f)"
  by (auto simp: recovered_def putFloat_def fun_eq_iff split: option.split)

lemma recovered_upd: "k \<notin> unrecovered \<Longrightarrow> (recovered f)(k \<mapsto> x) = recovered (f(k \<mapsto> x))"
  by (auto simp: recovered_def)

lemma recovered_gone: "k \<in> unrecovered \<Longrightarrow> recovered (f(k \<mapsto> x)) = recovered f"
  by (auto simp: recovered_def)

lemma recovered_id: "(\<And>k. k \<in> unrecovered \<Longrightarrow> f k = None) \<Longrightarrow> recovered f = f"
  by (auto simp: recovered_def)

lemma location_recovered:
  assumes "same_location i j"
  shows "location_features ml i (recovered f) = recovered (location_features ml j f)"
  using assms
  by (cases "InZone (in_Measurement j)"; cases "PlateX (in_Measurement j)"; cases "ZoneHeightNorm (in_Measurement j)")
    (simp_all add: same_location_def location_features_def Let_def recovered_putFloat recovered_upd unrecovered_def)

text \<open>An input without score and times through the order loses just those two features.\<close>

lemma situation_recovered:
  assumes "same_situation i j" "BatScore (in_Context i) = None" "NThruOrderPitcher (in_Context i) = None"
  shows "situation_features i (recovered f) = recovered (situation_features j f)"
proof -
  let ?g = "f(''balls'' \<mapsto> FInt (Balls (in_Context j)), ''strikes'' \<mapsto> FInt (Strikes (in_Context j)),
      ''count_state'' \<mapsto> FStr (CountState (Balls (in_Context j)) (Strikes (in_Context j))),
      ''outs_when_up'' \<mapsto> FInt (OutsWhenUp (in_Context j)),
      ''runners_state'' \<mapsto> FStr (RunnersState (On1B (in_Context j)) (On2B (in_Context j)) (On3B (in_Context j))),
      ''inning'' \<mapsto> FInt (Inning (in_Context j)))"
  let ?n = "case NThruOrderPitcher (in_Context j) of None \<Rightarrow> ?g | Some n \<Rightarrow> ?g(''n_thruorder_pitcher'' \<mapsto> FInt n)"
  let ?s = "case (BatScore (in_Context j), FldScore (in_Context j)) of
      (Some bat, Some fld) \<Rightarrow> ?n(''score_diff'' \<mapsto> FInt (go_int64 (bat - fld))) | _ \<Rightarrow> ?n"
  have n: "recovered ?n = recovered ?g" by (simp add: recovered_gone unrecovered_def split: option.split)
  have s: "recovered ?s = recovered ?g" using n by (simp add: recovered_gone unrecovered_def split: option.split)
  have "situation_features i (recovered f) = putFloat ''pitcher_days_since_prev_game'' (DaysSincePrev j)
      ((recovered ?g)(''pitch_number'' \<mapsto> FInt (in_PitchNumber j)))"
    using assms by (simp add: same_situation_def situation_features_def Let_def recovered_upd unrecovered_def)
  also have "\<dots> = recovered (situation_features j f)"
    unfolding s [symmetric] by (simp add: situation_features_def Let_def recovered_upd recovered_putFloat unrecovered_def)
  finally show ?thesis .
qed

lemma built_recovered:
  assumes "same_shape i j" "same_situation i j" "same_location i j"
    and "BatScore (in_Context i) = None" "NThruOrderPitcher (in_Context i) = None"
  shows "BuildFeatures ml i v = recovered (BuildFeatures ml j v)"
proof -
  let ?f = "shape_features ml j"
  from stuff_ignores_situation [OF assms(1), of ml] have shape: "shape_features ml i = ?f"
    unfolding BuildFeatures_def Let_def by simp
  have keep: "recovered ?f = ?f"
    by (rule recovered_id) (auto simp: unrecovered_def shape_keys_def intro: shape_dom)
  have "location_features ml i (situation_features i (recovered ?f)) = recovered (location_features ml j (situation_features j ?f))"
    by (simp only: location_recovered [OF assms(3)] situation_recovered [OF assms(2,4,5)])
  with shape keep show ?thesis unfolding BuildFeatures_def Let_def by simp
qed

lemma row_features:
  assumes "validateRaw q (pi_raw pin) = None" "fits_schema (pi_raw pin)"
  shows "BuildFeatures ml (featureInputFrom (pitch_row pin sid index) (measurementParams i dev (pi_normalized pin))) v
     = recovered (BuildFeatures ml (raw_input (as_stored (pi_normalized pin)) (with_stand (pi_raw pin))) v)"
proof (rule built_recovered)
  let ?i = "featureInputFrom (pitch_row pin sid index) (measurementParams i dev (pi_normalized pin))"
  let ?j = "raw_input (as_stored (pi_normalized pin)) (with_stand (pi_raw pin))"
  have t: "(case strPtr s of None \<Rightarrow> '''' | Some t \<Rightarrow> t) = s" for s by (simp add: strPtr_def)
  note defs = featureInputFrom_def raw_input_def pitch_row_def measurementParams_def stored_raw_def Let_def RawMeasurement.defs
    with_stand_def as_stored_fields
  show "same_shape ?i ?j" "same_location ?i ?j"
    by (simp_all add: same_shape_def same_location_def defs t)
  show "same_situation ?i ?j" by (simp add: same_situation_def defs valid_columns [OF assms])
  show "BatScore (in_Context ?i) = None" "NThruOrderPitcher (in_Context ?i) = None" by (simp_all add: defs)
qed

lemma call_guarded_Ok:
  "call_guarded t1 t2 be c req s = (Inr out, c', s')
   \<Longrightarrow> \<exists>resp. out = Some resp \<and> Client_post be c ''/v1/predict'' req s = (Inr resp, s')"
  by (auto simp: call_guarded_cases split: if_splits prod.splits sum.splits)

lemma explanation_request_Fine:
  assumes "explanation_request l ev ml enabled r w = (Fine (j, v, pf), w')" "\<And>n t. ev_others ev n t = t"
  obtains param pitch m where "PathUUID (query_lib.truncate l) r ''pitchId'' = Inr j" "enabled" "v = explanation_variant param"
    "find (\<lambda>p. p_ID p = j) (pitches (tb_db (ap_tables w))) = Some pitch"
    "find (\<lambda>m. me_PitchID m = j) (measurements (tb_db (ap_tables w))) = Some m"
    "pf = \<lparr>pf_PitchID = ll_uuid_text l j, pf_CountState = CountState (p_Balls pitch) (p_Strikes pitch),
       Features = BuildFeatures ml (featureInputFrom pitch m) v\<rparr>" "ap_tables w' = ap_tables w"
  using assms
  by (auto simp: explanation_request_def h_bind_def h_try_def h_return_def h_fail_def sql_found_def sql_def GetPitch_def
      GetPitchMeasurement_def one_row_def Let_def split: sum.splits if_splits prod.splits option.splits result.splits)

text \<open>The request of \<open>Explain\<close>, answered.\<close>

definition explained_by ::
  "('s, 'req, 'body) Backend \<Rightarrow> Client \<Rightarrow> 's \<Rightarrow> Variant \<Rightarrow> PitchFeatures \<Rightarrow> PredictResponse \<Rightarrow> 's \<Rightarrow> bool" where
  "explained_by be c s v features resp s' \<longleftrightarrow>
     Client_post be c ''/v1/predict'' \<lparr>req_Variant = v, Pitches = [features], req_Explain = True, TopN = 8\<rparr> s = (Inr resp, s')"

lemma getPitchExplanation_Fine:
  assumes "getPitchExplanation l ev ml be r w (Some c, s) = (Fine rp, w', cs')"
  obtains i v features w1 resp p rest where
    "explanation_request l ev ml True r w = (Fine (i, v, features), w1)" "ap_tables w' = ap_tables w1"
    "explained_by be c s v features resp (snd cs')" "Predictions resp = p # rest" "rp = ok_json (explanation_dto i resp p)"
proof -
  obtain i v features w1 where q: "explanation_request l ev ml True r w = (Fine (i, v, features), w1)"
    using assms by (auto simp: getPitchExplanation_def split: prod.splits result.splits)
  let ?n = "ap_calls w1"
  obtain answer c' s' where e: "Explain (ev_now ev ?n) (ev_now ev (?n + 1)) be c v features 8 s = (answer, c', s')"
    by (rule prod_cases3)
  with q assms have out: "explanation_answer i answer = Fine rp" "cs' = (Some c', s')" "ap_tables w' = ap_tables w1"
    by (auto simp: getPitchExplanation_def Let_def)
  then obtain resp p rest where a: "answer = Inr (Some resp)" "Predictions resp = p # rest" "rp = ok_json (explanation_dto i resp p)"
    by (auto simp: explanation_answer_def split: sum.splits option.splits list.splits)
  from e a(1) have "explained_by be c s v features resp s'"
    using call_guarded_Ok [of _ _ be c _ s "Some resp" c' s'] by (simp add: Explain_def explained_by_def)
  with q out a show ?thesis by (intro that) simp_all
qed

section \<open>Properties\<close>


text \<open>A reading of a fastball stored as pitch 4, and a service that answers with one prediction.\<close>

definition demo_reading :: RawMeasurement where
  "demo_reading = blank_reading\<lparr>ReleaseSpeed := Some (Fin 95)\<rparr>"

definition demo_input :: persistInput where
  "demo_input = \<lparr>pi_env = an_envelope, pi_raw = demo_raw\<lparr>raw_Measurement := demo_reading\<rparr>,
     pi_normalized = Normalize demo_reading ''R'' ''L'', pi_pitcherID = 7, pi_batterID = None, pi_sessionID = 1, pi_pitchID = 4,
     pi_predictions = [], pi_status = ''OK''\<rparr>"

definition demo_stored :: api_world where
  "demo_stored = demo_api_world\<lparr>ap_tables := demo_api_tables\<lparr>tb_db := empty_db\<lparr>pitches := [pitch_row demo_input 1 1],
     measurements := [measurementParams 4 None (pi_normalized demo_input)]\<rparr>\<rparr>\<rparr>"

definition demo_prediction :: Prediction where
  "demo_prediction = \<lparr>pred_PitchID = ''4'', Probabilities = [], PredictedClass = Some ''BALL'', WhiffProbability = None,
     ScoredQuantity = Fin 0, Score = Fin 100, pred_Explanation = None\<rparr>"

definition explain_backend :: "(nat, predictRequest, predictRequest) Backend" where
  "explain_backend = echo_backend\<lparr>decode_prediction := (\<lambda>body. Inr (empty_response\<lparr>Predictions := [demo_prediction]\<rparr>))\<rparr>"

definition demo_explain_request :: http_request where
  "demo_explain_request = (demo_get (\<lambda>_. ''''))\<lparr>rq_PathValue := (\<lambda>_. ''4'')\<rparr>"

definition resting_env :: api_env where
  "resting_env = demo_list_env\<lparr>ev_others := (\<lambda>_ t. t)\<rparr>"

lemma demo_explained:
  "case getPitchExplanation demo_list_lib resting_env (pl_math (demo_pipeline None)) explain_backend demo_explain_request demo_stored
      (Some (New (DefaultConfig ''http://ml'')), 0) of (Fine rp, w', c', n) \<Rightarrow> n = 1 | _ \<Rightarrow> False"
  by code_simp


text \<open>An ordinary reading, 94.7 mph in binary64, is not what its column keeps.\<close>

definition ordinary_speed :: f64 where
  "ordinary_speed = Fin (6663920073624781 / 70368744177664)"

definition ordinary_reading :: NormalizedMeasurement where
  "ordinary_reading = Normalize (blank_reading\<lparr>ReleaseSpeed := Some ordinary_speed\<rparr>) ''R'' ''L''"

lemma ordinary_speed_rounded: "float32 ordinary_speed \<noteq> ordinary_speed"
proof
  let ?q = "6663920073624781 / 70368744177664 :: rat"
  assume "float32 ordinary_speed = ordinary_speed"
  moreover have "ilog2 ?q = 6" by (rule ilog2_unique) (simp_all add: pow2_def)
  ultimately have "?q = of_int (round_even (?q * 131072)) / 131072"
    by (simp add: float32_def ordinary_speed_def rnd_fmt_def rne_pos_def ulp_exp_def binary32_def pow2_def Let_def split: if_splits)
  then have "(6663920073624781 :: rat) = of_int (round_even (?q * 131072) * 536870912)" by (simp add: field_simps)
  then have "6663920073624781 = round_even (?q * 131072) * 536870912"
    unfolding of_int_eq_iff [symmetric, where 'a = rat] by simp
  then have "(6663920073624781 :: int) mod 2 = 0" by presburger
  then show False by simp
qed

lemma ordinary_reading_is_rounded: "as_stored ordinary_reading \<noteq> ordinary_reading"
proof
  assume "as_stored ordinary_reading = ordinary_reading"
  moreover have "ReleaseSpeed ordinary_reading = Some ordinary_speed" by code_simp
  ultimately have "f32 (Some ordinary_speed) = Some ordinary_speed" by (metis as_stored_fields(1))
  then show False using ordinary_speed_rounded by (simp add: f32_def)
qed

end
