(* ===== verification/Behaviour.thy ===== *)
theory Behaviour
  imports Explanation Analytics Login
begin

text \<open>
  What all handlers of internal/api have in common: which of them leave the tables alone, and that
  each answers with a 200 or with one of the errors of httpx.
\<close>

section \<open>The common contract\<close>

definition known_status :: "APIError \<Rightarrow> bool" where
  "known_status e \<longleftrightarrow> api_Status e \<in> {400, 401, 403, 404, 409, 422, 429, 500, 503}"

definition plain_response :: "'p response \<Rightarrow> bool" where
  "plain_response rp \<longleftrightarrow> rp_status rp = 200 \<and> fst ` set (rp_headers rp) \<subseteq> {''X-Cache'', ''Cache-Control''}"

text \<open>A step keeps \<open>P\<close> of the tables, and what it gives satisfies \<open>A\<close> or is a known error.\<close>

definition behaves :: "(api_tables \<Rightarrow> bool) \<Rightarrow> ('a \<Rightarrow> bool) \<Rightarrow> 'a hm \<Rightarrow> bool" where
  "behaves P A m \<longleftrightarrow> (\<forall>w. P (ap_tables w) \<longrightarrow> P (ap_tables (snd (m w))) \<and>
     (case fst (m w) of Fine a \<Rightarrow> A a | Fail e \<Rightarrow> known_status e | Crash \<Rightarrow> True))"

named_theorems behaves_rules

lemma behavesD:
  assumes "behaves P A m" "m w = (x, w')" "P (ap_tables w)"
  shows "P (ap_tables w')" "x = Fine a \<Longrightarrow> A a" "x = Fail e \<Longrightarrow> known_status e"
  using assms(1) [unfolded behaves_def, rule_format, of w] assms(2,3) by auto

abbreviation anything :: "'a \<Rightarrow> bool" where "anything \<equiv> (\<lambda>_. True)"

lemma behaves_weaken: "behaves P A m \<Longrightarrow> behaves P anything m"
  unfolding behaves_def by (auto split: result.splits)

lemma behaves_bind [behaves_rules]:
  assumes "behaves P anything m" "\<And>a. behaves P A (k a)"
  shows "behaves P A (h_bind m k)"
  unfolding behaves_def
proof (intro allI impI)
  fix w :: api_world assume P: "P (ap_tables w)"
  obtain x w1 where m: "m w = (x, w1)" by fastforce
  have P1: "P (ap_tables w1)" by (rule behavesD(1) [OF assms(1) m P])
  show "P (ap_tables (snd (h_bind m k w))) \<and> (case fst (h_bind m k w) of Fine a \<Rightarrow> A a | Fail e \<Rightarrow> known_status e | Crash \<Rightarrow> True)"
  proof (cases x)
    case (Fine a)
    with m assms(2) [of a] P1 show ?thesis by (simp add: h_bind_def behaves_def)
  next
    case (Fail e)
    with m P1 behavesD(3) [OF assms(1) m P] show ?thesis by (simp add: h_bind_def)
  next
    case Crash
    with m P1 show ?thesis by (simp add: h_bind_def)
  qed
qed

lemma behaves_return [behaves_rules]: "A a \<Longrightarrow> behaves P A (h_return a)"
  by (simp add: behaves_def h_return_def)

lemma behaves_fail [behaves_rules]: "known_status e \<Longrightarrow> behaves P A (h_fail e)"
  by (simp add: behaves_def h_fail_def)

lemma behaves_try [behaves_rules]:
  "(\<And>e. x = Inl e \<Longrightarrow> known_status e) \<Longrightarrow> (\<And>a. x = Inr a \<Longrightarrow> A a) \<Longrightarrow> behaves P A (h_try x)"
  by (cases x) (simp_all add: behaves_return behaves_fail)

lemma behaves_clock [behaves_rules]: "behaves P anything (clock ev)"
  by (simp add: behaves_def clock_def)

lemma behaves_cases [behaves_rules]:
  "(\<And>a. behaves P A (f a)) \<Longrightarrow> (\<And>b. behaves P A (g b)) \<Longrightarrow> behaves P A (case s of Inl a \<Rightarrow> f a | Inr b \<Rightarrow> g b)"
  "behaves P A m \<Longrightarrow> (\<And>b. behaves P A (h b)) \<Longrightarrow> behaves P A (case x of None \<Rightarrow> m | Some b \<Rightarrow> h b)"
  "(\<And>a b. behaves P A (k a b)) \<Longrightarrow> behaves P A (case p of (a, b) \<Rightarrow> k a b)"
  "behaves P A m \<Longrightarrow> behaves P A n \<Longrightarrow> behaves P A (if c then m else n)"
  by (auto split: sum.split option.split prod.split)

lemma known_errors [simp]:
  "known_status (ErrNotFound s)" "known_status (ErrValidation s fs)" "known_status (ErrConflict s)" "known_status (ErrUnauthorized s)"
  "known_status (ErrTooManyRequests s)" "known_status (ErrForbidden s)" "known_status (ErrUnprocessable s)"
  "known_status (ErrInternal err)" "known_status (ErrUnavailable s err)"
  by (simp_all add: known_status_def api_error_defs)

lemma behaves_sql:
  assumes "\<And>n t. P t \<Longrightarrow> P (ev_others ev n t)" "\<And>t. P t \<Longrightarrow> P (snd (q t))"
  shows "behaves P anything (sql ev q)"
  using h_stable_sql [where P = P and ev = ev and q = q, OF assms]
  unfolding behaves_def h_stable_def by (auto simp: sql_def Let_def split: option.split sum.split prod.split)

lemma behaves_reads:
  assumes "\<And>n t. P t \<Longrightarrow> P (ev_others ev n t)" "reads q"
  shows "behaves P anything (sql ev q)" "behaves P anything (sql_ok ev q)" "behaves P anything (sql_found ev what q)"
proof -
  show s: "behaves P anything (sql ev q)" using assms by (intro behaves_sql) (simp_all add: reads_def)
  show "behaves P anything (sql_ok ev q)" "behaves P anything (sql_found ev what q)"
    unfolding sql_ok_def sql_found_def by (rule behaves_bind [OF s], intro behaves_rules; simp)+
qed

section \<open>Queries and parameters\<close>

lemma reads_lists [simp]:
  "reads (ListPitchesByPitcher ps)" "reads (ListPitchesBySession i lm c)" "reads (ListPitchesBySessionDesc i lm c)"
  "reads (ListSessionsByAthlete i lm st po)" "reads (ListActiveSessions lm)" "reads (ListAnomaliesByAthlete i lm sv mt ak po)"
  "reads (ListAthletes q lm nm ro th np)" "reads (GetActivePredictionsForPitches ids)"
  unfolding reads_def ListPitchesByPitcher_def ListPitchesBySession_def ListPitchesBySessionDesc_def ListSessionsByAthlete_def
    ListActiveSessions_def ListAnomaliesByAthlete_def ListAthletes_def GetActivePredictionsForPitches_def Let_def
  by (simp_all only: snd_conv simp_thms split: sum.split)

lemma reads_resources [simp]:
  "reads (GetPitchMeasurement i)" "reads (ListPredictionsForPitch i v mv)" "reads (ListModelVersions vo ao)"
  "reads (GetSessionOutcomeDistribution i)" "reads (ListAnomaliesBySession i)" "reads (GetAthleteTotals i)"
  "reads (GetUserByUsername al nm)" "reads (GetUser i)"
  by (simp_all add: reads_def GetPitchMeasurement_def ListPredictionsForPitch_def ListModelVersions_def GetSessionOutcomeDistribution_def
      ListAnomaliesBySession_def GetAthleteTotals_def GetUserByUsername_def GetUser_def Let_def)

lemma reader_errors:
  "PathUUID q r k = Inl e \<Longrightarrow> known_status e" "QueryUUID q r k = Inl e \<Longrightarrow> known_status e"
  "QueryEnum r k vs = Inl e \<Longrightarrow> known_status e" "QueryBool r k = Inl e \<Longrightarrow> known_status e"
  "QueryTime q r k = Inl e \<Longrightarrow> known_status e" "QueryFloat32 q r k = Inl e \<Longrightarrow> known_status e"
  "Limit r d mx = Inl e \<Longrightarrow> known_status e" "DecodeCursor q s = Inl e \<Longrightarrow> known_status e"
  by (auto simp: PathUUID_def QueryUUID_def QueryEnum_def QueryBool_def QueryTime_def QueryFloat32_def Limit_def DecodeCursor_def Let_def
      split: option.splits if_splits)

lemma filter_errors:
  "pitch_filters q conf r = Inl e \<Longrightarrow> known_status e" "analytics_params q r = Inl e \<Longrightarrow> known_status e"
  by (auto simp: pitch_filters_def analytics_params_def dest: reader_errors split: sum.splits if_splits)

lemma plain_ok [simp]: "plain_response (ok_json v)"
  by (simp add: plain_response_def ok_json_def)

section \<open>Every handler\<close>

text \<open>The handlers that only read: other writers aside, no table changes.\<close>

lemma behaves_listings:
  assumes others: "\<And>n t. P t \<Longrightarrow> P (ev_others ev n t)"
  shows "behaves P plain_response (listPitches q ev conf r)" "behaves P plain_response (listSessionPitches q ev conf r)"
    "behaves P plain_response (listSessions q ev conf r)" "behaves P plain_response (listAthleteSessions q ev conf r)"
    "behaves P plain_response (listAthletes q ev conf r)" "behaves P plain_response (listAthleteAnomalies q ev conf r)"
proof -
  note reading = behaves_reads [where P = P and ev = ev, OF others]
  have build: "behaves P anything (buildPitchDTOs q ev rows incl)" for rows incl
    unfolding buildPitchDTOs_def by (intro behaves_rules reading reads_lists; simp)
  have cursor: "behaves P anything (get_cursor q r)"
    unfolding get_cursor_def by (intro behaves_rules; simp add: reader_errors)
  have page: "behaves P plain_response (sessions_page q ev limit i status c)" for limit i status c
    unfolding sessions_page_def by (intro behaves_rules reading reads_lists; simp)
  note rules = behaves_rules reading reads_lists reads_queries build cursor page
  show "behaves P plain_response (listPitches q ev conf r)"
    unfolding listPitches_def by (intro rules; simp add: filter_errors)
  show "behaves P plain_response (listSessionPitches q ev conf r)"
    unfolding listSessionPitches_def by (intro rules; simp add: reader_errors)
  show "behaves P plain_response (listSessions q ev conf r)"
    unfolding listSessions_def by (intro rules; simp add: reader_errors)
  show "behaves P plain_response (listAthleteSessions q ev conf r)"
    unfolding listAthleteSessions_def by (intro rules; simp add: reader_errors)
  show "behaves P plain_response (listAthletes q ev conf r)"
    unfolding listAthletes_def by (intro rules; simp add: reader_errors)
  show "behaves P plain_response (listAthleteAnomalies q ev conf r)"
    unfolding listAthleteAnomalies_def by (intro rules; simp add: reader_errors)
qed

lemma behaves_lookups:
  assumes others: "\<And>n t. P t \<Longrightarrow> P (ev_others ev n t)"
  shows "behaves P plain_response (getSession q ev r)" "behaves P plain_response (getPitch q ev r)"
    "behaves P plain_response (listPitchPredictions q ev r)" "behaves P plain_response (listModels ev r)"
    "behaves P plain_response (getAthlete q ev r)" "behaves P plain_response (currentUser ev r)" "behaves P plain_response (logout ev r)"
    "behaves P anything (explanation_request q ev ml enabled r)"
proof -
  note rules = behaves_rules behaves_reads [where P = P and ev = ev, OF others] reads_queries reads_resources
  show "behaves P plain_response (getSession q ev r)"
    unfolding getSession_def by (intro rules; simp add: reader_errors)
  show "behaves P plain_response (getPitch q ev r)"
    unfolding getPitch_def by (intro rules; simp add: reader_errors)
  show "behaves P plain_response (listPitchPredictions q ev r)"
    unfolding listPitchPredictions_def by (intro rules; simp add: reader_errors)
  show "behaves P plain_response (listModels ev r)"
    unfolding listModels_def by (intro rules; simp add: reader_errors)
  show "behaves P plain_response (getAthlete q ev r)"
    unfolding getAthlete_def by (intro rules; simp add: reader_errors)
  show "behaves P plain_response (currentUser ev r)"
    unfolding currentUser_def by (intro rules; simp)
  show "behaves P plain_response (logout ev r)"
    unfolding logout_def by (intro rules; simp add: plain_response_def)
  show "behaves P anything (explanation_request q ev ml enabled r)"
    unfolding explanation_request_def Let_def by (intro rules; simp add: reader_errors)
qed

lemma behaves_cache: "behaves P anything (with_cache ev f none)"
  by (simp add: behaves_def with_cache_def Let_def split: option.split prod.split)

lemma behaves_analytics:
  assumes others: "\<And>n t. P t \<Longrightarrow> P (ev_others ev n t)"
  shows "behaves P plain_response (getAthleteAnalytics q rl ev r)"
proof -
  note rules = behaves_rules behaves_reads [where P = P and ev = ev, OF others] reads_queries reads_rollup behaves_cache
  have compute: "behaves P anything (computeAthleteAnalytics q rl ev i f u incl)" for i f u incl
    unfolding computeAthleteAnalytics_def by (intro rules; simp)
  show ?thesis
    unfolding getAthleteAnalytics_def Let_def
    by (intro rules compute; simp add: filter_errors plain_response_def writeAnalytics_def)
qed

text \<open>A sign-in changes nothing but the accounts.\<close>

lemma behaves_login:
  assumes others: "\<And>n t. P t \<Longrightarrow> P (ev_others ev n t)" and users: "\<And>t us. P t \<Longrightarrow> P (t\<lparr>tb_users := us\<rparr>)"
  shows "behaves P plain_response (login ev al sv r)"
proof -
  have recorded: "behaves P anything (sql ev (RecordLogin now i))" for now i
    by (rule behaves_sql [where P = P and ev = ev, OF others]) (simp_all add: RecordLogin_def users)
  have limiter: "behaves P anything (limiter_Allow ev k lm)" "behaves P anything (limiter_Reset ev k)" for k lm
    by (simp_all add: behaves_def limiter_Allow_def limiter_Reset_def Let_def split: prod.split)
  have dummy: "behaves P anything (DummyVerify al p)" for p
    by (simp add: behaves_def DummyVerify_def split: option.split)
  have check: "behaves P anything (check_password al p st)" for p st
    by (simp add: behaves_def check_password_def split: option.split sum.split)
  have token: "behaves P anything (issue_token ev al s u)" for s u
    unfolding issue_token_def by (rule behaves_bind [OF behaves_clock]) (simp add: behaves_def split: sum.split)
  note rules = behaves_rules behaves_reads [where P = P and ev = ev, OF others] reads_resources recorded limiter dummy check token
  have reject: "behaves P A rejectLogin" for A :: "'q \<Rightarrow> bool"
    unfolding rejectLogin_def by (intro rules) simp
  have sign: "behaves P plain_response (sign_in ev al s r u user)" for s u user
    unfolding sign_in_def by (intro rules; simp add: plain_response_def)
  have auth: "behaves P plain_response (authenticate ev al s r u p)" for s u p
    unfolding authenticate_def by (intro rules reject sign; simp)
  have throttle: "behaves P anything (throttle ev ks)" for ks
  proof (induction ks)
    case (Cons k ks)
    then show ?case by (cases k) (simp, intro rules; simp)
  qed (simp add: behaves_return)
  show ?thesis unfolding login_def Let_def by (intro rules throttle auth; simp)
qed

text \<open>The two writes answer like the others.\<close>

lemma behaves_writes:
  "behaves anything plain_response (closeSession q ev avg r)" "behaves anything plain_response (acknowledgeAnomaly q ev r)"
proof -
  have stmt: "behaves anything anything (sql ev st)" for st :: "api_tables \<Rightarrow> (goerr + 'q) \<times> api_tables"
    by (rule behaves_sql) simp_all
  have trans: "behaves anything plain_response (transition ev st after what lookup conflict)"
    if "\<And>a. behaves anything plain_response (after a)" "reads lookup"
    for st :: "time \<Rightarrow> api_tables \<Rightarrow> (goerr + 'a) \<times> api_tables" and after :: "'a \<Rightarrow> 'p response hm" and lookup :: "api_tables \<Rightarrow> (goerr + 'b) \<times> api_tables" and what conflict
    unfolding transition_def
    by (intro behaves_rules behaves_sql behaves_reads [where P = anything and ev = ev] that; simp)
  show "behaves anything plain_response (closeSession q ev avg r)"
    unfolding closeSession_def
    by (intro behaves_rules trans behaves_sql behaves_reads [where P = anything and ev = ev] reads_queries; simp add: reader_errors)
  show "behaves anything plain_response (acknowledgeAnomaly q ev r)"
    unfolding acknowledgeAnomaly_def
    by (intro behaves_rules trans reads_queries; simp add: reader_errors)
qed

end
