(* ===== verification/Routes.thy ===== *)
theory Routes
  imports Live Behaviour
begin

text \<open>
  internal/api/server.go: the routes, the mux they are registered on, the middlewares around it and
  the two health endpoints, with \<open>InstrumentRoute\<close> of internal/observability/http.go.  Patterns are
  the strings of the code, matched as \<open>http.ServeMux\<close> does.  The route of the sockets is the handshake
  of internal/ws/handler.go on the server's own snapshot and authenticator; what happens on a socket
  afterwards is in \<open>WsHub\<close>.  The scrape handler, Prometheus's own, is a parameter.
\<close>

section \<open>What the server answers with\<close>

record checkResult =
  cr_Status :: string
  cr_Error :: string

record readyResponse =
  rr_Status :: string
  rr_Version :: string
  rr_Checks :: "string \<rightharpoonup> checkResult"
  rr_Degraded :: "string list"

datatype api_payload =
    P_Text string
  | P_Health string
  | P_Ready readyResponse
  | P_Login LoginResponse
  | P_Auth auth_payload
  | P_Athletes "AthleteListItemDTO listing"
  | P_Athlete AthleteDetailDTO
  | P_Analytics AnalyticsDTO
  | P_Sessions "SessionDTO listing"
  | P_Anomalies "Anomaly listing"
  | P_Session SessionDetailDTO
  | P_Closed SessionDTO
  | P_Pitches "PitchDTO listing"
  | P_Pitch PitchDTO
  | P_Predictions "uuid \<times> PredictionDTO list"
  | P_Explanation ExplanationDTO
  | P_Models "ModelVersion list"
  | P_Anomaly Anomaly
  | P_Socket "live_data WsHub.Snapshot"

section \<open>State and parameters\<close>

text \<open>The counters of the routes: one observation per finished request, and the requests in flight.\<close>

record http_metrics =
  hm_total :: "(string \<times> string \<times> int) list"
  hm_inflight :: int

text \<open>The world of the handlers, with the inference client and the counters beside it.\<close>

type_synonym 's app = "api_world \<times> 's inference \<times> http_metrics"

text \<open>
  The channel that \<open>WithWebSocket\<close> attached.  \<open>wv_slots\<close> is the handler's count of open sockets by
  address, \<open>wv_refused\<close> the status with which the upgrade library declines a request, if it does,
  and \<open>wv_running\<close> whether the hub takes registrations, each at the call they are consulted.
\<close>

record ws_env =
  wv_cfg :: WsHub.WsConfig
  wv_slots :: "nat \<Rightarrow> string \<rightharpoonup> int"
  wv_refused :: "nat \<Rightarrow> (int \<times> string) option"
  wv_running :: "nat \<Rightarrow> bool"

text \<open>
  \<open>sl_escaped\<close> is \<open>URL.EscapedPath\<close>, \<open>sl_unescape\<close> is \<open>url.PathUnescape\<close> and \<open>sl_location\<close> the text of
  the redirect; \<open>sl_metrics\<close> is the optional scrape handler, \<open>sl_ws\<close> the optional channel.
\<close>

record ('s, 'req, 'body) server_lib =
  sl_server :: Server
  sl_env :: api_env
  sl_lists :: list_lib
  sl_rollups :: rollup_lib
  sl_avg :: "f64 list \<Rightarrow> f64 option"
  sl_math :: mathlib
  sl_backend :: "('s, 'req, 'body) Backend"
  sl_auth :: auth_lib
  sl_json_ok :: "api_payload \<Rightarrow> bool"
  sl_cookie_text :: "Cookie \<Rightarrow> string"
  sl_escaped :: "http_request \<Rightarrow> string"
  sl_unescape :: "string \<Rightarrow> string"
  sl_location :: "http_request \<Rightarrow> string \<Rightarrow> string"
  sl_metrics :: "(api_payload, 's app) http_Handler option"
  sl_ws :: "ws_env option"

section \<open>Health\<close>

definition handleHealthz :: "('s, 'req, 'body) server_lib \<Rightarrow> (api_payload, 's app) http_Handler" where
  "handleHealthz sl r ws =
     (Returned, WriteJSON (sl_json_ok sl) r 200 (Payload (P_Health (Version (sv_cfg (sl_server sl))))) (fst ws), snd ws)"

text \<open>\<open>Store.Healthy\<close> and \<open>Cache.Ping\<close>; the latencies are left out.\<close>

definition Healthy :: "api_env \<Rightarrow> error hm" where
  "Healthy ev = h_bind (sql ev (\<lambda>t. (Inr (), t))) (\<lambda>x. h_return (case x of Inl e \<Rightarrow> Some e | Inr _ \<Rightarrow> None))"

definition Ping :: "api_env \<Rightarrow> Cache \<Rightarrow> error hm" where
  "Ping ev c w =
     (if \<not> cache_enabled c then (Fine (Some (ErrorsNew ''cache.Ping'' ''cache is not configured'')), w)
      else (Fine (case ev_reply ev (ap_calls w) of Up \<Rightarrow> None | Down _ \<Rightarrow> Some (lib (NetErr ''redis is down''))),
            w\<lparr>ap_calls := ap_calls w + 1\<rparr>))"

definition check_of :: "string \<Rightarrow> error \<Rightarrow> checkResult" where
  "check_of bad e = (case e of None \<Rightarrow> \<lparr>cr_Status = ''ok'', cr_Error = ''''\<rparr> | Some err \<Rightarrow> \<lparr>cr_Status = bad, cr_Error = Error_text err\<rparr>)"

definition readiness :: "('s, 'req, 'body) server_lib \<Rightarrow> (int \<times> readyResponse) hm" where
  "readiness sl =
     h_bind (Healthy (sl_env sl)) (\<lambda>pg.
     h_bind (\<lambda>w. case remote (ap_limiter w) of None \<Rightarrow> (Fine None, w)
               | Some c \<Rightarrow> h_bind (Ping (sl_env sl) c) (\<lambda>e. h_return (Some e)) w) (\<lambda>redis.
     let status = (if pg = None then 200 else 503);
         checks = [''postgres'' \<mapsto> check_of ''down'' pg];
         checks = (case redis of None \<Rightarrow> checks | Some e \<Rightarrow> checks(''redis'' \<mapsto> check_of ''degraded'' e));
         degraded = (case redis of Some (Some _) \<Rightarrow> [''redis''] | _ \<Rightarrow> [])
     in h_return (status, \<lparr>rr_Status = (if status \<noteq> 200 then ''unavailable'' else if degraded \<noteq> [] then ''degraded'' else ''ok''),
          rr_Version = Version (sv_cfg (sl_server sl)), rr_Checks = checks, rr_Degraded = degraded\<rparr>)))"

definition handleReadyz :: "('s, 'req, 'body) server_lib \<Rightarrow> (api_payload, 's app) http_Handler" where
  "handleReadyz sl r ws =
     (case readiness sl (fst (snd ws)) of
        (Fine (status, body), w) \<Rightarrow> (Returned, WriteJSON (sl_json_ok sl) r status (Payload (P_Ready body)) (fst ws), w, snd (snd ws))
      | (_, w) \<Rightarrow> (Panicked, fst ws, w, snd (snd ws)))"

section \<open>The handshake of a socket\<close>

text \<open>\<open>http.Error\<close>.\<close>

definition http_Error :: "string \<Rightarrow> int \<Rightarrow> api_payload writer \<Rightarrow> api_payload writer" where
  "http_Error text code w = Write (Payload (P_Text text))
     (WriteHeader code (header_Set ''X-Content-Type-Options'' ''nosniff'' (header_Set ''Content-Type'' ''text/plain; charset=utf-8'' w)))"

text \<open>
  The connection taken over: both recorders hold 101, and nothing more goes through the writer.  The
  library's own header lines are left out.
\<close>

definition Hijack :: "api_payload writer \<Rightarrow> api_payload writer" where
  "Hijack w = w\<lparr>rw_status := 101, rw_sent := Some (101, \<lambda>_. [])\<rparr>"

text \<open>
  \<open>ServeHTTP\<close> of internal/ws/handler.go: the checks in their order, the snapshot, the upgrade, and the
  opening message, which is sent at once on a closed session and otherwise when the hub runs.  A
  declined upgrade is answered by the library.
\<close>

definition serveWS :: "('s, 'req, 'body) server_lib \<Rightarrow> ws_env \<Rightarrow> (api_payload, 's app) http_Handler" where
  "serveWS sl we r ws = (case ws of (wr, w, beside) \<Rightarrow>
     (let ev = sl_env sl; sv = sl_server sl; q = sl_lists sl;
          problem = (\<lambda>e w. (Returned, WriteProblem (sl_json_ok sl) r (IsAPI e) wr, w, beside)) in
      (case PathUUID (ql q) r ''sessionId'' of
         Inl e \<Rightarrow> problem e w
       | Inr sessionID \<Rightarrow>
           if \<not> AllowsOrigin (sv_cfg sv) (rq_Header r ''Origin'') then problem (ErrForbidden ''origin is not allowed'') w
           else (case (if wc_auth (wv_cfg we) then Authenticate ev (sl_auth sl) (ll_uuid_text q) sv r w else (Fine no_identity, w)) of
              (Crash, w) \<Rightarrow> (Panicked, wr, w, beside)
            | (Fail e, w) \<Rightarrow> problem e w
            | (Fine identity, w) \<Rightarrow>
                (case reserve (wc_limit (wv_cfg we)) (ClientIP r) (wv_slots we (ap_calls w)) of
                   None \<Rightarrow> problem (ErrTooManyRequests ''too many open connections from this address'') w
                 | Some _ \<Rightarrow>
                     (case SessionSnapshot q (sl_avg sl) ev sessionID w of
                        (Crash, w) \<Rightarrow> (Panicked, wr, w, beside)
                      | (Fail e, w) \<Rightarrow> problem e w
                      | (Fine snapshot, w) \<Rightarrow>
                          (case wv_refused we (ap_calls w) of
                             Some (code, text) \<Rightarrow> (Returned, http_Error text code (header_Set ''Sec-Websocket-Version'' ''13'' wr), w, beside)
                           | None \<Rightarrow> (Returned,
                               if sn_Closed snapshot \<or> wv_running we (ap_calls w)
                               then (Hijack wr)\<lparr>rw_body := rw_body wr @ [Payload (P_Socket snapshot)]\<rparr>
                               else Hijack wr, w, beside))))))))"

section \<open>Registering handlers\<close>

definition routeLabel :: "string \<Rightarrow> string" where
  "routeLabel pattern = (if CHR '' '' \<in> set pattern then tl (dropWhile (\<lambda>c. c \<noteq> CHR '' '') pattern) else pattern)"

text \<open>\<open>statusWriter\<close> starts with no code; a panic skips the counters but not the gauge.\<close>

definition InstrumentRoute :: "string \<Rightarrow> (api_payload, 's app) http_Handler \<Rightarrow> (api_payload, 's app) http_Handler" where
  "InstrumentRoute route next r ws = (case ws of (w, a, i, m) \<Rightarrow>
     (case next r (w\<lparr>rw_status := 0\<rparr>, a, i, m\<lparr>hm_inflight := hm_inflight m + 1\<rparr>) of (out, w', a', i', m') \<Rightarrow>
       (let code = rw_status w'; w'' = (if code = 0 then w'\<lparr>rw_status := rw_status w\<rparr> else w');
            m' = m'\<lparr>hm_inflight := hm_inflight m' - 1\<rparr>
        in (out, w'', a', i',
            if out = Returned then m'\<lparr>hm_total := hm_total m' @ [(rq_Method r, route, if code = 0 then 200 else code)]\<rparr> else m'))))"

type_synonym 's route = "string \<times> (api_payload, 's app) http_Handler"

definition route :: "('s, 'req, 'body) server_lib \<Rightarrow> string \<Rightarrow> (api_payload, 's app) http_Handler \<Rightarrow> 's route" where
  "route sl pattern h = (pattern, if sl_metrics sl \<noteq> None then InstrumentRoute (routeLabel pattern) h else h)"

definition secure :: "('s, 'req, 'body) server_lib \<Rightarrow> string \<Rightarrow> (api_payload, 's app) http_Handler \<Rightarrow> 's route" where
  "secure sl pattern h = route sl pattern (RequireAuth (sl_json_ok sl) (sl_env sl) (sl_auth sl) (sl_server sl) h)"

definition secureRole :: "('s, 'req, 'body) server_lib \<Rightarrow> string \<Rightarrow> string \<Rightarrow> (api_payload, 's app) http_Handler \<Rightarrow> 's route" where
  "secureRole sl role pattern h = route sl pattern (RequireRole (sl_json_ok sl) (sl_env sl) (sl_auth sl) (sl_server sl) role h)"

text \<open>\<open>s.handler(s.f)\<close>: a handler on the tables, or one that also uses the inference client.\<close>

definition shown :: "('a \<Rightarrow> 'p) \<Rightarrow> 'a response \<Rightarrow> 'p response" where
  "shown f rp = \<lparr>rp_status = rp_status rp, rp_headers = rp_headers rp, rp_cookies = rp_cookies rp, rp_payload = f (rp_payload rp)\<rparr>"

definition map_result :: "('a \<Rightarrow> 'b) \<Rightarrow> 'a result \<Rightarrow> 'b result" where
  "map_result f x = (case x of Fine a \<Rightarrow> Fine (f a) | Fail e \<Rightarrow> Fail e | Crash \<Rightarrow> Crash)"

definition serve :: "('s, 'req, 'body) server_lib \<Rightarrow> ('a \<Rightarrow> api_payload) \<Rightarrow> (http_request \<Rightarrow> 'a response hm) \<Rightarrow> (api_payload, 's app) http_Handler" where
  "serve sl f fn = handler (sl_json_ok sl) (sl_cookie_text sl)
     (\<lambda>r s. case fn r (fst s) of (x, w) \<Rightarrow> (map_result (shown f) x, w, snd s))"

definition serve_explanation :: "('s, 'req, 'body) server_lib \<Rightarrow> (api_payload, 's app) http_Handler" where
  "serve_explanation sl = handler (sl_json_ok sl) (sl_cookie_text sl)
     (\<lambda>r s. case s of (w, i, m) \<Rightarrow> (case getPitchExplanation (sl_lists sl) (sl_env sl) (sl_math sl) (sl_backend sl) r w i of
        (x, w', i') \<Rightarrow> (map_result (shown P_Explanation) x, w', i', m)))"

definition routes :: "('s, 'req, 'body) server_lib \<Rightarrow> 's route list" where
  "routes sl = (let q = sl_lists sl; ev = sl_env sl; cfg = sv_cfg (sl_server sl) in
     [route sl ''GET /healthz'' (handleHealthz sl),
      route sl ''GET /readyz'' (handleReadyz sl)]
   @ (case sl_metrics sl of None \<Rightarrow> [] | Some h \<Rightarrow> [(''GET /metrics'', h)])
   @ [route sl ''POST /api/v1/auth/login'' (serve sl P_Login (login ev (sl_auth sl) (sl_server sl))),
      route sl ''POST /api/v1/auth/logout'' (serve sl P_Auth (logout ev)),
      secure sl ''GET /api/v1/auth/me'' (serve sl P_Auth (currentUser ev)),
      secure sl ''GET /api/v1/athletes'' (serve sl P_Athletes (listAthletes q ev cfg)),
      secure sl ''GET /api/v1/athletes/{athleteId}'' (serve sl P_Athlete (getAthlete q ev)),
      secure sl ''GET /api/v1/athletes/{athleteId}/analytics'' (serve sl P_Analytics (getAthleteAnalytics q (sl_rollups sl) ev)),
      secure sl ''GET /api/v1/athletes/{athleteId}/sessions'' (serve sl P_Sessions (listAthleteSessions q ev cfg)),
      secure sl ''GET /api/v1/athletes/{athleteId}/anomalies'' (serve sl P_Anomalies (listAthleteAnomalies q ev cfg)),
      secure sl ''GET /api/v1/sessions'' (serve sl P_Sessions (listSessions q ev cfg)),
      secure sl ''GET /api/v1/sessions/{sessionId}'' (serve sl P_Session (getSession q ev)),
      secure sl ''GET /api/v1/sessions/{sessionId}/pitches'' (serve sl P_Pitches (listSessionPitches q ev cfg)),
      secureRole sl RoleAdmin ''POST /api/v1/sessions/{sessionId}/close'' (serve sl P_Closed (closeSession q ev (sl_avg sl))),
      secure sl ''GET /api/v1/pitches/{pitchId}/explanation'' (serve_explanation sl),
      secure sl ''GET /api/v1/pitches'' (serve sl P_Pitches (listPitches q ev cfg)),
      secure sl ''GET /api/v1/pitches/{pitchId}'' (serve sl P_Pitch (getPitch q ev)),
      secure sl ''GET /api/v1/pitches/{pitchId}/predictions'' (serve sl P_Predictions (listPitchPredictions q ev)),
      secure sl ''GET /api/v1/models'' (serve sl P_Models (listModels ev)),
      secureRole sl RoleAdmin ''POST /api/v1/anomalies/{anomalyId}/acknowledge'' (serve sl P_Anomaly (acknowledgeAnomaly q ev))]
   @ (case sl_ws sl of None \<Rightarrow> [] | Some we \<Rightarrow> [route sl ''GET /ws/sessions/{sessionId}'' (serveWS sl we)]))"

section \<open>The mux\<close>

datatype segment = Lit string | Wild string

definition segment_of :: "string \<Rightarrow> segment" where
  "segment_of s = (if s \<noteq> '''' \<and> s ! 0 = CHR ''{'' then Wild (butlast (tl s)) else Lit s)"

definition pattern_method :: "string \<Rightarrow> string" where
  "pattern_method pattern = takeWhile (\<lambda>c. c \<noteq> CHR '' '') pattern"

definition path_segments :: "string \<Rightarrow> string list" where
  "path_segments p = tl (split_on (CHR ''/'') p)"

definition pattern_segments :: "string \<Rightarrow> segment list" where
  "pattern_segments pattern = map segment_of (path_segments (routeLabel pattern))"

text \<open>A wildcard takes one segment, and not the empty one after a trailing slash.\<close>

fun match_segments :: "segment list \<Rightarrow> string list \<Rightarrow> (string \<times> string) list option" where
  "match_segments [] [] = Some []"
| "match_segments (Lit a # ps) (s # ss) = (if s = a then match_segments ps ss else None)"
| "match_segments (Wild x # ps) (s # ss) = (if s = '''' then None else map_option ((#) (x, s)) (match_segments ps ss))"
| "match_segments _ _ = None"

definition method_matches :: "string \<Rightarrow> string \<Rightarrow> bool" where
  "method_matches pm m \<longleftrightarrow> pm = m \<or> pm = ''GET'' \<and> m = ''HEAD''"

text \<open>\<open>path.Clean\<close> of a rooted path, and \<open>cleanPath\<close> of the mux, which keeps a trailing slash.\<close>

fun clean_segments :: "string list \<Rightarrow> string list \<Rightarrow> string list" where
  "clean_segments acc [] = rev acc"
| "clean_segments acc (s # ss) =
     (if s = '''' \<or> s = ''.'' then clean_segments acc ss
      else if s = ''..'' then clean_segments (tl acc) ss
      else clean_segments (s # acc) ss)"

definition cleanPath :: "string \<Rightarrow> string" where
  "cleanPath p =
     (if p = '''' then ''/''
      else (let p = (if p ! 0 = CHR ''/'' then p else CHR ''/'' # p);
                np = CHR ''/'' # join_with ''/'' (clean_segments [] (path_segments p))
            in if p ! (length p - 1) = CHR ''/'' \<and> np \<noteq> ''/'' then np @ ''/'' else np))"

text \<open>\<open>http.Redirect\<close>.\<close>

definition http_Redirect :: "string \<Rightarrow> int \<Rightarrow> http_request \<Rightarrow> api_payload writer \<Rightarrow> api_payload writer" where
  "http_Redirect url code r w =
     (let w = header_Set ''Location'' url w;
          w = (if rq_Method r \<in> {''GET'', ''HEAD''} then header_Set ''Content-Type'' ''text/html; charset=utf-8'' w else w);
          w = WriteHeader code w
      in if rq_Method r = ''GET'' then Write (Payload (P_Text url)) w else w)"

definition allowed_methods :: "string list \<Rightarrow> string list" where
  "allowed_methods ms = remdups (concat (map (\<lambda>m. if m = ''GET'' then [''GET'', ''HEAD''] else [m]) ms))"

text \<open>The path that is matched, the wildcards a pattern takes of it, and the request its handler sees.\<close>

definition request_path :: "('s, 'req, 'body) server_lib \<Rightarrow> http_request \<Rightarrow> string" where
  "request_path sl r = (if rq_Method r = ''CONNECT'' then sl_escaped sl r else cleanPath (sl_escaped sl r))"

definition route_match :: "('s, 'req, 'body) server_lib \<Rightarrow> http_request \<Rightarrow> string \<Rightarrow> (string \<times> string) list option" where
  "route_match sl r pattern = match_segments (pattern_segments pattern) (map (sl_unescape sl) (path_segments (request_path sl r)))"

definition with_path_values :: "(string \<times> string) list \<Rightarrow> http_request \<Rightarrow> http_request" where
  "with_path_values vs r = r\<lparr>rq_PathValue := (\<lambda>k. case map_of vs k of Some v \<Rightarrow> v | None \<Rightarrow> '''')\<rparr>"

definition mux_ServeHTTP :: "('s, 'req, 'body) server_lib \<Rightarrow> 's route list \<Rightarrow> (api_payload, 's app) http_Handler" where
  "mux_ServeHTTP sl rts r ws =
     (if request_path sl r \<noteq> sl_escaped sl r
      then (Returned, http_Redirect (sl_location sl r (request_path sl r)) 301 r (fst ws), snd ws)
      else (case find (\<lambda>rt. method_matches (pattern_method (fst rt)) (rq_Method r) \<and> route_match sl r (fst rt) \<noteq> None) rts of
         Some rt \<Rightarrow> snd rt (with_path_values (the (route_match sl r (fst rt))) r) ws
       | None \<Rightarrow>
           (case map (pattern_method \<circ> fst) (filter (\<lambda>rt. route_match sl r (fst rt) \<noteq> None) rts) of
              [] \<Rightarrow> (Returned, http_Error ''404 page not found'' 404 (fst ws), snd ws)
            | ms \<Rightarrow> (Returned, http_Error ''Method Not Allowed'' 405 (header_Set ''Allow'' (join_with '', '' (allowed_methods ms)) (fst ws)), snd ws))))"

section \<open>The server\<close>

text \<open>\<open>newID\<close> is what \<open>uuid.NewString\<close> gives this request, \<open>now\<close> when it reached the timeout.\<close>

definition Routes ::
  "('s, 'req, 'body) server_lib \<Rightarrow> string \<Rightarrow> time \<Rightarrow> (api_payload, 's app \<times> access_line list) http_Handler" where
  "Routes sl newID now =
     (let cfg = sv_cfg (sl_server sl) in
      RequestID newID (LimitBody (SecurityHeaders (Logging (CORS (AllowsOrigin cfg) (Recovery (sl_json_ok sl)
        (Http.Timeout (ReadTimeout cfg) now (RequireSameOrigin (sl_json_ok sl) (sl_server sl) (mux_ServeHTTP sl (routes sl))))))))))"


section \<open>One route per path\<close>

text \<open>Two patterns that some path satisfies both agree segment by segment, wildcards aside.\<close>

fun overlap :: "segment list \<Rightarrow> segment list \<Rightarrow> bool" where
  "overlap [] [] = True"
| "overlap (Lit a # ps) (Lit b # qs) \<longleftrightarrow> a = b \<and> overlap ps qs"
| "overlap (Lit a # ps) (Wild x # qs) \<longleftrightarrow> overlap ps qs"
| "overlap (Wild x # ps) (q # qs) \<longleftrightarrow> overlap ps qs"
| "overlap _ _ = False"

lemma match_Cons:
  "match_segments (p # ps) ss = Some a
   \<Longrightarrow> \<exists>s ss' a'. ss = s # ss' \<and> match_segments ps ss' = Some a' \<and> (\<forall>l. p = Lit l \<longrightarrow> s = l)"
  by (cases p; cases ss) (auto split: if_splits)

lemma match_Nil: "match_segments [] ss = Some a \<Longrightarrow> ss = []"
  by (cases ss) auto

lemma match_overlap: "match_segments ps ss = Some a \<Longrightarrow> match_segments qs ss = Some b \<Longrightarrow> overlap ps qs"
  by (induction ps qs arbitrary: ss a b rule: overlap.induct) (force dest: match_Cons match_Nil)+

definition patterns :: "string list" where
  "patterns = [''GET /healthz'', ''GET /readyz'', ''GET /metrics'', ''POST /api/v1/auth/login'', ''POST /api/v1/auth/logout'',
     ''GET /api/v1/auth/me'', ''GET /api/v1/athletes'', ''GET /api/v1/athletes/{athleteId}'', ''GET /api/v1/athletes/{athleteId}/analytics'',
     ''GET /api/v1/athletes/{athleteId}/sessions'', ''GET /api/v1/athletes/{athleteId}/anomalies'', ''GET /api/v1/sessions'',
     ''GET /api/v1/sessions/{sessionId}'', ''GET /api/v1/sessions/{sessionId}/pitches'', ''POST /api/v1/sessions/{sessionId}/close'',
     ''GET /api/v1/pitches/{pitchId}/explanation'', ''GET /api/v1/pitches'', ''GET /api/v1/pitches/{pitchId}'',
     ''GET /api/v1/pitches/{pitchId}/predictions'', ''GET /api/v1/models'', ''POST /api/v1/anomalies/{anomalyId}/acknowledge'',
     ''GET /ws/sessions/{sessionId}'']"

lemma fst_route [simp]: "fst (route sl p h) = p" "fst (secure sl p h) = p" "fst (secureRole sl role p h) = p"
  by (simp_all add: route_def secure_def secureRole_def)

lemma routes_patterns: "fst ` set (routes sl) \<subseteq> set patterns"
  unfolding routes_def Let_def patterns_def by (auto split: option.splits)

lemma patterns_apart: "\<forall>p \<in> set patterns. \<forall>q \<in> set patterns. overlap (pattern_segments p) (pattern_segments q) \<longrightarrow> p = q"
  by code_simp

text \<open>A path has at most one route, so the order in which the table is searched does not matter.\<close>

lemma route_unique:
  assumes "rt \<in> set (routes sl)" "rt' \<in> set (routes sl)"
    and "match_segments (pattern_segments (fst rt)) ss = Some a" "match_segments (pattern_segments (fst rt')) ss = Some b"
  shows "fst rt = fst rt'"
proof -
  have "fst rt \<in> set patterns" "fst rt' \<in> set patterns" using routes_patterns assms(1,2) by blast+
  with patterns_apart match_overlap [OF assms(3,4)] show ?thesis by blast
qed

end
