(* ===== verification/Access.thy ===== *)
theory Access
  imports Routes
begin

text \<open>
  Who may do what over the HTTP surface: the middlewares, the mux, the authentication of every route
  and the handlers together.  A noticeable thing (a changed row, data in an answer) is shown to need
  a condition on the request; the condition is carried from the handlers outwards, layer by layer.
\<close>

section \<open>What only some requests may do\<close>

text \<open>
  \<open>needs\<close> says that a handler does a noticeable thing (\<open>bad\<close>, of what is written and of the tables,
  before and after) only for requests that \<open>C\<close> admits; \<open>world_of\<close> finds the world in the state.
\<close>

type_synonym seen = "api_payload payload list \<times> api_tables"

definition needs ::
  "('s \<Rightarrow> api_world) \<Rightarrow> (http_request \<Rightarrow> api_world \<Rightarrow> bool) \<Rightarrow> (seen \<Rightarrow> seen \<Rightarrow> bool) \<Rightarrow> (api_payload, 's) http_Handler \<Rightarrow> bool" where
  "needs world_of C bad h \<longleftrightarrow> (\<forall>r wr s out wr' s'. h r (wr, s) = (out, wr', s') \<longrightarrow>
     bad (rw_body wr, ap_tables (world_of s)) (rw_body wr', ap_tables (world_of s')) \<longrightarrow> C r (world_of s))"

lemma needsI:
  "(\<And>r wr s out wr' s'. h r (wr, s) = (out, wr', s') \<Longrightarrow>
     bad (rw_body wr, ap_tables (world_of s)) (rw_body wr', ap_tables (world_of s')) \<Longrightarrow> C r (world_of s)) \<Longrightarrow> needs world_of C bad h"
  by (simp add: needs_def)

lemma needsD:
  "needs world_of C bad h \<Longrightarrow> h r (wr, s) = (out, wr', s') \<Longrightarrow>
     bad (rw_body wr, ap_tables (world_of s)) (rw_body wr', ap_tables (world_of s')) \<Longrightarrow> C r (world_of s)"
  unfolding needs_def by blast

lemma needs_weaken: "needs world_of C bad h \<Longrightarrow> (\<And>r w. C r w \<Longrightarrow> C' r w) \<Longrightarrow> needs world_of C' bad h"
  unfolding needs_def by blast

text \<open>What anybody may be told: problems, texts, health, and what concerns the caller's own account.\<close>

definition public :: "api_payload payload \<Rightarrow> bool" where
  "public b \<longleftrightarrow> (case b of Payload (P_Text _) \<Rightarrow> True | Payload (P_Health _) \<Rightarrow> True | Payload (P_Ready _) \<Rightarrow> True
     | Payload (P_Login _) \<Rightarrow> True | Payload (P_Auth _) \<Rightarrow> True | Payload _ \<Rightarrow> False | _ \<Rightarrow> True)"

lemma public_simps [simp]:
  "public (ProblemPayload pb)" "public EncodeFailed" "public (Payload (P_Text x))" "public (Payload (P_Health x))"
  "public (Payload (P_Ready y))" "public (Payload (P_Login l))" "public (Payload (P_Auth a))"
  by (simp_all add: public_def)

definition same_credentials :: "http_request \<Rightarrow> http_request \<Rightarrow> bool" where
  "same_credentials r r' \<longleftrightarrow> rq_Method r' = rq_Method r \<and> rq_Header r' = rq_Header r \<and> rq_Cookie r' = rq_Cookie r"

lemma body_header [simp]: "rw_body (header_Set k v w) = rw_body w" "rw_body (header_Add k v w) = rw_body w" "rw_body (WriteHeader c w) = rw_body w"
  by (simp_all add: header_Set_def header_Add_def WriteHeader_def Let_def split: option.split)

lemma body_Write [simp]: "rw_body (Write b w) = rw_body w @ [b]"
  by (simp add: Write_def Let_def split: option.split)

lemma body_WriteJSON:
  "\<exists>bs. rw_body (WriteJSON j r st b w) = rw_body w @ bs \<and> (bs = [] \<or> bs = [b] \<or> bs = [EncodeFailed])"
  by (auto simp: WriteJSON_def Let_def)

lemma body_problem: "\<exists>bs. rw_body (WriteProblem j r e w) = rw_body w @ bs \<and> (bs = [] \<or> (\<exists>pb. bs = [ProblemPayload pb]))"
  by (auto simp: WriteProblem_def WriteJSON_def encodes_def Let_def split: handler_error.split)

text \<open>The mux hands a request to a route, or answers itself.\<close>

lemma mux_cases:
  assumes "mux_ServeHTTP sl rts r (wr, s) = (out, wr', s')"
  obtains (routed) rt r' where "rt \<in> set rts" "method_matches (pattern_method (fst rt)) (rq_Method r)"
      "same_credentials r r' \<and> cx_RequestID r' = cx_RequestID r \<and> rq_Path r' = rq_Path r" "snd rt r' (wr, s) = (out, wr', s')"
  | (own) "out = Returned" "s' = s"
      "wr' \<in> {http_Redirect u 301 r wr |u. True} \<union> {http_Error t c wr |t c. c \<in> {404, 405}} \<union> {http_Error t 405 (header_Set ''Allow'' v wr) |t v. True}"
proof (cases "request_path sl r = sl_escaped sl r")
  case False
  with assms show ?thesis by (intro own) (auto simp: mux_ServeHTTP_def)
next
  case True
  note run = assms [unfolded mux_ServeHTTP_def]
  show ?thesis
  proof (cases "find (\<lambda>rt. method_matches (pattern_method (fst rt)) (rq_Method r) \<and> route_match sl r (fst rt) \<noteq> None) rts")
    case None
    then show ?thesis
    proof (cases "map (pattern_method \<circ> fst) (filter (\<lambda>rt. route_match sl r (fst rt) \<noteq> None) rts)")
      case Nil
      with None run True show ?thesis by (intro own) auto
    next
      case (Cons m ms)
      from run [unfolded None Cons] True show ?thesis by (intro own) auto
    qed
  next
    case (Some rt)
    let ?r = "with_path_values (the (route_match sl r (fst rt))) r"
    from run True Some have "snd rt ?r (wr, s) = (out, wr', s')" by simp
    moreover from find_Some_list [OF Some] have "rt \<in> set rts" "method_matches (pattern_method (fst rt)) (rq_Method r)" by simp_all
    moreover have "same_credentials r ?r \<and> cx_RequestID ?r = cx_RequestID r \<and> rq_Path ?r = rq_Path r"
      by (simp add: with_path_values_def same_credentials_def)
    ultimately show ?thesis by (intro routed)
  qed
qed

lemma own_body:
  assumes "wr' \<in> {http_Redirect u 301 r wr |u. True} \<union> {http_Error t c wr |t c. c \<in> {404, 405}} \<union> {http_Error t 405 (header_Set ''Allow'' v wr) |t v. True}"
  shows "rw_body wr' = rw_body wr \<or> (\<exists>t. rw_body wr' = rw_body wr @ [Payload (P_Text t)])"
  using assms by (auto simp: http_Error_def http_Redirect_def Let_def)

locale noticed =
  fixes bad :: "seen \<Rightarrow> seen \<Rightarrow> bool"
  assumes bad_refl: "\<not> bad s s"
    and bad_public: "public b \<Longrightarrow> bad s (bs @ [b], t) \<Longrightarrow> bad s (bs, t)"
begin

lemma bad_problem: "bad s (rw_body (WriteProblem j r e w), t) \<Longrightarrow> bad s (rw_body w, t)"
  using body_problem [of j r e w] bad_public [OF public_simps(1)] by fastforce

lemma not_bad_public: "public b \<Longrightarrow> \<not> bad (bs, t) (bs @ [b], t)"
  using bad_public bad_refl by blast

lemma bad_json:
  assumes "public b" "bad s (rw_body (WriteJSON j r st b w), t)"
  shows "bad s (rw_body w, t)"
proof -
  consider "rw_body (WriteJSON j r st b w) = rw_body w" | "rw_body (WriteJSON j r st b w) = rw_body w @ [b]"
    | "rw_body (WriteJSON j r st b w) = rw_body w @ [EncodeFailed]"
    using body_WriteJSON [of j r st b w] by auto
  then show ?thesis
  proof cases
    case 1
    with assms(2) show ?thesis by simp
  next
    case 2
    with assms(2) show ?thesis using bad_public [OF assms(1), of s "rw_body w" t] by simp
  next
    case 3
    with assms(2) show ?thesis using bad_public [OF public_simps(2), of s "rw_body w" t] by simp
  qed
qed

lemma needs_Recovery: "needs world_of C bad h \<Longrightarrow> needs world_of C bad (Recovery j h)"
proof (rule needsI)
  fix r wr s out wr' s' assume h: "needs world_of C bad h" and run: "Recovery j h r (wr, s) = (out, wr', s')"
    and b: "bad (rw_body wr, ap_tables (world_of s)) (rw_body wr', ap_tables (world_of s'))"
  obtain out1 w1 s1 where inner: "h r (wr, s) = (out1, w1, s1)" by (rule prod_cases3)
  with run have "s' = s1" "wr' = w1 \<or> wr' = WriteProblem j r (IsAPI (ErrInternal None)) w1"
    by (auto simp: Recovery_def split: outcome.splits)
  with b have "bad (rw_body wr, ap_tables (world_of s)) (rw_body w1, ap_tables (world_of s1))"
    using bad_problem by blast
  with needsD [OF h inner] show "C r (world_of s)" .
qed

lemma needs_Logging: "needs world_of C bad h \<Longrightarrow> needs (world_of \<circ> fst) C bad (Logging h)"
proof (rule needsI)
  fix r wr s out wr' s' assume h: "needs world_of C bad h" and run: "Logging h r (wr, s) = (out, wr', s')"
    and b: "bad (rw_body wr, ap_tables ((world_of \<circ> fst) s)) (rw_body wr', ap_tables ((world_of \<circ> fst) s'))"
  obtain out1 w1 s1 where inner: "h r (wr\<lparr>rw_status := 0\<rparr>, fst s) = (out1, w1, s1)" by (rule prod_cases3)
  with run have "rw_body wr' = rw_body w1" "fst s' = s1"
    by (auto simp: Logging_def Let_def split: outcome.splits if_splits)
  with needsD [OF h inner] b show "C r ((world_of \<circ> fst) s)" by simp
qed

lemma needs_InstrumentRoute: "needs fst C bad h \<Longrightarrow> needs fst C bad (InstrumentRoute lbl h)"
proof (rule needsI)
  fix r wr s out wr' s' assume h: "needs fst C bad h" and run: "InstrumentRoute lbl h r (wr, s) = (out, wr', s')"
    and b: "bad (rw_body wr, ap_tables (fst s)) (rw_body wr', ap_tables (fst s'))"
  obtain a i m where s: "s = (a, i, m)" by (rule prod_cases3)
  obtain out1 w1 a1 i1 m1 where inner: "h r (wr\<lparr>rw_status := 0\<rparr>, a, i, m\<lparr>hm_inflight := hm_inflight m + 1\<rparr>) = (out1, w1, a1, i1, m1)"
    by (metis prod.collapse)
  with run s have "rw_body wr' = rw_body w1" "fst s' = a1" by (auto simp: InstrumentRoute_def Let_def)
  with needsD [OF h inner] b s show "C r (fst s)" by simp
qed

text \<open>A route table: every route under the method of its pattern.\<close>

lemma needs_mux:
  assumes "\<And>p h. (p, h) \<in> set rts \<Longrightarrow> needs fst (\<lambda>r w. method_matches (pattern_method p) (rq_Method r) \<longrightarrow> C r w) bad h"
    and cong: "\<And>r r' w. same_credentials r r' \<Longrightarrow> C r' w = C r w"
  shows "needs fst C bad (mux_ServeHTTP sl rts)"
proof (rule needsI)
  fix r wr s out wr' s' assume run: "mux_ServeHTTP sl rts r (wr, s) = (out, wr', s')"
    and b: "bad (rw_body wr, ap_tables (fst s)) (rw_body wr', ap_tables (fst s'))"
  from run show "C r (fst s)"
  proof (cases rule: mux_cases)
    case (routed rt r')
    with assms(1) [of "fst rt" "snd rt"] have "needs fst (\<lambda>r w. method_matches (pattern_method (fst rt)) (rq_Method r) \<longrightarrow> C r w) bad (snd rt)" by simp
    from needsD [OF this routed(4) b] routed(2,3) have "C r' (fst s)" by (simp add: same_credentials_def)
    with cong [of r r' "fst s"] routed(3) show ?thesis by simp
  next
    case own
    from own_body [OF own(3)] have "\<not> bad (rw_body wr, ap_tables (fst s)) (rw_body wr', ap_tables (fst s'))"
    proof (elim disjE exE conjE)
      assume "rw_body wr' = rw_body wr"
      then show ?thesis using own(2) bad_refl by simp
    next
      fix x assume "rw_body wr' = rw_body wr @ [Payload (P_Text x)]"
      then show ?thesis using own(2) not_bad_public [OF public_simps(3) [of x]] by simp
    qed
    with b show ?thesis by simp
  qed
qed

end

text \<open>What \<open>RequireSameOrigin\<close> lets through.\<close>

definition origin_ok :: "Server \<Rightarrow> http_request \<Rightarrow> bool" where
  "origin_ok sv r \<longleftrightarrow> rq_Method r \<in> {''GET'', ''HEAD'', ''OPTIONS''} \<or> rq_Header r ''Origin'' = '''' \<or> AllowsOrigin (sv_cfg sv) (rq_Header r ''Origin'')"

text \<open>What a layer that only passes on hands to the next handler: its writer and its request.\<close>

definition forwarded :: "('p, http_request) http_Handler" where
  "forwarded r ws = (Returned, fst ws, r)"

definition passed :: "(('p, http_request) http_Handler \<Rightarrow> ('p, http_request) http_Handler) \<Rightarrow> http_request \<Rightarrow> 'p writer \<Rightarrow> 'p writer \<times> http_request" where
  "passed layer r w = snd (layer forwarded r (w, r))"

text \<open>A condition that looks at the method, the headers and the cookies of a request only.\<close>

locale gate = noticed bad for bad :: "seen \<Rightarrow> seen \<Rightarrow> bool" +
  fixes C :: "http_request \<Rightarrow> api_world \<Rightarrow> bool"
  assumes C_cong: "same_credentials r r' \<Longrightarrow> C r' w = C r w"
begin

lemma needs_pass:
  assumes "\<And>r wr s. M r (wr, s) = h (snd (m r wr)) (fst (m r wr), s)"
    and "\<And>r wr. rw_body (fst (m r wr)) = rw_body wr" "\<And>r wr. same_credentials r (snd (m r wr))"
    and h: "needs world_of C bad h"
  shows "needs world_of C bad M"
proof (rule needsI)
  fix r wr s out wr' s' assume run: "M r (wr, s) = (out, wr', s')"
    and b: "bad (rw_body wr, ap_tables (world_of s)) (rw_body wr', ap_tables (world_of s'))"
  from needsD [OF h run [unfolded assms(1)]] b assms(2) have "C (snd (m r wr)) (world_of s)" by simp
  with C_cong [OF assms(3)] show "C r (world_of s)" by simp
qed

lemmas pass_defs = passed_def forwarded_def same_credentials_def Let_def

lemma needs_RequestID: "needs world_of C bad h \<Longrightarrow> needs world_of C bad (RequestID newID h)"
  by (erule needs_pass [where m = "passed (RequestID newID)", rotated -1]) (simp_all add: RequestID_def pass_defs split: prod.split)

lemma needs_LimitBody: "needs world_of C bad h \<Longrightarrow> needs world_of C bad (LimitBody h)"
  by (erule needs_pass [where m = "passed LimitBody", rotated -1]) (simp_all add: LimitBody_def pass_defs)

lemma needs_Timeout: "needs world_of C bad h \<Longrightarrow> needs world_of C bad (Http.Timeout d now h)"
  by (erule needs_pass [where m = "passed (Http.Timeout d now)", rotated -1]) (simp_all add: Http.Timeout_def pass_defs)

lemma needs_SecurityHeaders: "needs world_of C bad h \<Longrightarrow> needs world_of C bad (SecurityHeaders h)"
  by (erule needs_pass [where m = "passed SecurityHeaders", rotated -1]) (simp_all add: SecurityHeaders_def pass_defs)

lemma needs_CORS: "needs world_of C bad h \<Longrightarrow> needs world_of C bad (CORS allowed h)"
proof (rule needsI)
  fix r wr s out wr' s' assume h: "needs world_of C bad h" and run: "CORS allowed h r (wr, s) = (out, wr', s')"
    and b: "bad (rw_body wr, ap_tables (world_of s)) (rw_body wr', ap_tables (world_of s'))"
  show "C r (world_of s)"
  proof (cases "rq_Method r = ''OPTIONS''")
    case True
    with run have "rw_body wr' = rw_body wr" "s' = s" by (auto simp: CORS_def Let_def split: if_splits)
    with b bad_refl show ?thesis by simp
  next
    case False
    with run obtain w' where "h r (w', s) = (out, wr', s')" "rw_body w' = rw_body wr"
      by (auto simp: CORS_def Let_def split: if_splits)
    with needsD [OF h] b show ?thesis by metis
  qed
qed

lemmas needs_layers = needs_RequestID needs_LimitBody needs_SecurityHeaders needs_Logging needs_CORS needs_Recovery needs_Timeout

text \<open>Behind the same-origin check only reads and requests of allowed origins do it.\<close>

lemma needs_RequireSameOrigin:
  "needs world_of C bad h \<Longrightarrow> needs world_of (\<lambda>r w. C r w \<and> origin_ok sv r) bad (RequireSameOrigin j sv h)"
proof (rule needsI)
  fix r wr s out wr' s' assume h: "needs world_of C bad h" and run: "RequireSameOrigin j sv h r (wr, s) = (out, wr', s')"
    and b: "bad (rw_body wr, ap_tables (world_of s)) (rw_body wr', ap_tables (world_of s'))"
  show "C r (world_of s) \<and> origin_ok sv r"
  proof (cases "origin_ok sv r")
    case True
    then have "h r (wr, s) = (out, wr', s')" using run by (auto simp: RequireSameOrigin_def origin_ok_def Let_def split: if_splits)
    with needsD [OF h] b True show ?thesis by metis
  next
    case False
    then have "wr' = WriteProblem j r (IsAPI (ErrForbidden ''origin is not allowed'')) wr" "s' = s"
      using run by (auto simp: RequireSameOrigin_def origin_ok_def Let_def split: if_splits)
    with b bad_problem bad_refl show ?thesis by blast
  qed
qed

end

section \<open>Who is let through\<close>

definition signed_in :: "('s, 'req, 'body) server_lib \<Rightarrow> (Claims \<Rightarrow> bool) \<Rightarrow> http_request \<Rightarrow> api_world \<Rightarrow> bool" where
  "signed_in sl P r w \<longleftrightarrow> (case fst (verifyRequest (sl_env sl) (sl_auth sl) (sl_server sl) r w) of Fine c \<Rightarrow> P c | _ \<Rightarrow> False)"

lemma verifyRequest_tables:
  "verifyRequest ev al sv r w = (x, w') \<Longrightarrow> ap_tables w' = ap_tables w"
  by (auto simp: verifyRequest_def h_bind_def clock_def h_fail_def h_return_def Let_def split: option.splits if_splits sum.splits)

lemma signed_in_cong: "same_credentials r r' \<Longrightarrow> signed_in sl P r' w = signed_in sl P r w"
proof -
  assume "same_credentials r r'"
  then have "bearer_token r' = bearer_token r" "rq_Cookie r' = rq_Cookie r" by (simp_all add: bearer_token_def same_credentials_def)
  then have "TokenFromRequest r' = TokenFromRequest r" by (simp add: TokenFromRequest_def split: option.split)
  then have "verifyRequest ev al sv r' = verifyRequest ev al sv r" for ev al sv by (simp add: verifyRequest_def split: option.split)
  then show ?thesis by (simp add: signed_in_def)
qed

text \<open>What the inner handler sees of the caller.\<close>

definition caller :: "(Claims \<Rightarrow> bool) \<Rightarrow> http_request \<Rightarrow> bool" where
  "caller P r \<longleftrightarrow> (\<forall>c. cx_Claims r = Some c \<longrightarrow> P c)"

context noticed
begin

lemma needs_RequireAuth:
  assumes h: "needs fst (\<lambda>r w. caller P r) bad h"
  shows "needs fst (signed_in sl P) bad (RequireAuth (sl_json_ok sl) (sl_env sl) (sl_auth sl) (sl_server sl) h)"
proof (rule needsI)
  fix r wr s out wr' s' assume run: "RequireAuth (sl_json_ok sl) (sl_env sl) (sl_auth sl) (sl_server sl) h r (wr, s) = (out, wr', s')"
    and b: "bad (rw_body wr, ap_tables (fst s)) (rw_body wr', ap_tables (fst s'))"
  obtain x w1 where v: "verifyRequest (sl_env sl) (sl_auth sl) (sl_server sl) r (fst s) = (x, w1)" by fastforce
  note t = verifyRequest_tables [OF v]
  show "signed_in sl P r (fst s)"
  proof (cases x)
    case (Fine c)
    with run v have "h (r\<lparr>cx_Claims := Some c\<rparr>) (wr, w1, snd s) = (out, wr', s')" by (simp add: RequireAuth_def)
    from needsD [OF h this] b t have "caller P (r\<lparr>cx_Claims := Some c\<rparr>)" by simp
    with Fine v show ?thesis by (simp add: signed_in_def caller_def)
  next
    case (Fail e)
    with run v have "wr' = WriteProblem (sl_json_ok sl) r (IsAPI e) wr" "fst s' = w1" by (auto simp: RequireAuth_def)
    with b t bad_problem bad_refl show ?thesis by metis
  next
    case Crash
    with run v have "wr' = wr" "fst s' = w1" by (auto simp: RequireAuth_def)
    with b t bad_refl show ?thesis by metis
  qed
qed

lemma needs_RequireRole:
  "needs fst (signed_in sl (\<lambda>c. cl_Role c = role)) bad (RequireRole (sl_json_ok sl) (sl_env sl) (sl_auth sl) (sl_server sl) role h)"
  unfolding RequireRole_def
proof (rule needs_RequireAuth, rule needsI)
  fix r wr s out wr' s'
  assume run: "(case cx_Claims r of
       Some claims \<Rightarrow> if cl_Role claims = role then h r (wr, s)
          else (Returned, WriteProblem (sl_json_ok sl) r (IsAPI (ErrForbidden (''this action requires the '' @ role @ '' role''))) (fst (wr, s)), snd (wr, s))
     | None \<Rightarrow> (Returned, WriteProblem (sl_json_ok sl) r (IsAPI (ErrForbidden (''this action requires the '' @ role @ '' role''))) (fst (wr, s)), snd (wr, s)))
     = (out, wr', s')"
    and b: "bad (rw_body wr, ap_tables (fst s)) (rw_body wr', ap_tables (fst s'))"
  show "caller (\<lambda>c. cl_Role c = role) r"
  proof (rule ccontr)
    assume "\<not> caller (\<lambda>c. cl_Role c = role) r"
    with run have "\<exists>e. wr' = WriteProblem (sl_json_ok sl) r e wr" "s' = s"
      by (auto simp: caller_def split: option.splits if_splits)
    with b bad_problem bad_refl show False by metis
  qed
qed

end

section \<open>The routes\<close>

text \<open>How \<open>Server.handler\<close> ends: a panic, a problem, or one JSON answer after the headers of the response.\<close>

lemma handler_cases:
  fixes wr wr' :: "'p writer"
  assumes "handler j ct fn r (wr, s) = (out, wr', s')"
  obtains (Crash) "fn r s = (Crash, s')" "out = Panicked" "wr' = wr"
  | (Fail) e where "fn r s = (Fail e, s')" "out = Returned" "wr' = WriteProblem j r (IsAPI e) wr"
  | (Fine) rp wr1 where "fn r s = (Fine rp, s')" "out = Returned" "rw_body wr1 = rw_body wr" "rw_sent wr1 = rw_sent wr"
      "\<And>k. k \<notin> insert ''Set-Cookie'' (fst ` set (rp_headers rp)) \<Longrightarrow> rw_header wr1 k = rw_header wr k"
      "wr' = WriteJSON j r (rp_status rp) (Payload (rp_payload rp)) wr1"
proof -
  obtain x s1 where fn: "fn r s = (x, s1)" by fastforce
  have cookies: "rw_body (fold (\<lambda>c. header_Add k (t c)) cs w) = rw_body w \<and> rw_sent (fold (\<lambda>c. header_Add k (t c)) cs w) = rw_sent w
      \<and> (\<forall>k'. k' \<noteq> k \<longrightarrow> rw_header (fold (\<lambda>c. header_Add k (t c)) cs w) k' = rw_header w k')"
    for cs :: "Cookie list" and k t and w :: "'p writer"
    by (induction cs arbitrary: w) (simp_all add: header_Add_def)
  have headers: "rw_body (fold (\<lambda>kv. header_Set (fst kv) (snd kv)) hs w) = rw_body w \<and> rw_sent (fold (\<lambda>kv. header_Set (fst kv) (snd kv)) hs w) = rw_sent w
      \<and> (\<forall>k'. k' \<notin> fst ` set hs \<longrightarrow> rw_header (fold (\<lambda>kv. header_Set (fst kv) (snd kv)) hs w) k' = rw_header w k')"
    for hs and w :: "'p writer"
    by (induction hs arbitrary: w) (simp_all add: header_Set_def)
  show ?thesis
  proof (cases x)
    case x: (Fine rp)
    let ?w = "fold (\<lambda>kv. header_Set (fst kv) (snd kv)) (rp_headers rp) (fold (\<lambda>c. header_Add ''Set-Cookie'' (ct c)) (rp_cookies rp) wr)"
    from assms fn x have "wr' = WriteJSON j r (rp_status rp) (Payload (rp_payload rp)) ?w" "s' = s1" "out = Returned"
      by (auto simp: handler_def Let_def)
    with fn x show ?thesis by (intro Fine [of rp ?w]) (simp_all add: cookies headers)
  next
    case x: (Fail e)
    with assms fn show ?thesis by (intro Fail [of e]) (auto simp: handler_def)
  next
    case x: Crash
    with assms fn show ?thesis by (intro Crash) (auto simp: handler_def)
  qed
qed

text \<open>A handler that never does it.\<close>

abbreviation never :: "(seen \<Rightarrow> seen \<Rightarrow> bool) \<Rightarrow> (api_payload, 's app) http_Handler \<Rightarrow> bool" where
  "never bad h \<equiv> needs fst (\<lambda>_ _. False) bad h"

definition route_needs :: "(http_request \<Rightarrow> api_world \<Rightarrow> bool) \<Rightarrow> (seen \<Rightarrow> seen \<Rightarrow> bool) \<Rightarrow> 's route \<Rightarrow> bool" where
  "route_needs C bad rt \<longleftrightarrow> needs fst (\<lambda>r w. method_matches (pattern_method (fst rt)) (rq_Method r) \<longrightarrow> C r w) bad (snd rt)"

context noticed
begin

lemma route_needs_route: "needs fst C bad h \<Longrightarrow> route_needs C bad (route sl p h)"
  unfolding route_needs_def route_def by (auto intro: needs_weaken needs_InstrumentRoute)

lemma route_needs_never: "never bad h \<Longrightarrow> route_needs C bad (route sl p h)"
  by (rule route_needs_route) (erule needs_weaken, simp)

lemma route_needs_foreign: "never bad h \<Longrightarrow> route_needs C bad (p, h)"
  unfolding route_needs_def fst_conv snd_conv by (erule needs_weaken) simp

lemma route_needs_secure:
  assumes "never bad h"
  shows "route_needs C bad (secure sl p h)"
proof -
  have "never bad (RequireAuth (sl_json_ok sl) (sl_env sl) (sl_auth sl) (sl_server sl) h)"
    by (rule needs_weaken [OF needs_RequireAuth [where P = "\<lambda>_. False"]], rule needs_weaken [OF assms])
      (simp_all add: signed_in_def split: result.splits)
  then show ?thesis unfolding secure_def by (rule route_needs_never)
qed

lemma route_needs_any: "route_needs (signed_in sl (\<lambda>_. True)) bad (secure sl p h)"
  unfolding secure_def by (rule route_needs_route, rule needs_RequireAuth, rule needsI) (simp add: caller_def)

lemma route_needs_role:
  assumes "\<And>r w. method_matches (pattern_method p) (rq_Method r) \<Longrightarrow> signed_in sl (\<lambda>c. cl_Role c = role) r w \<Longrightarrow> C r w"
  shows "route_needs C bad (secureRole sl role p h)"
proof -
  have "route_needs (signed_in sl (\<lambda>c. cl_Role c = role)) bad (secureRole sl role p h)"
    unfolding secureRole_def by (rule route_needs_route, rule needs_RequireRole)
  then show ?thesis unfolding route_needs_def by (rule needs_weaken) (use assms in auto)
qed

lemma needs_routes:
  assumes "list_all (route_needs C bad) rts" "\<And>r r' w. same_credentials r r' \<Longrightarrow> C r' w = C r w"
  shows "needs fst C bad (mux_ServeHTTP sl rts)"
  using assms by (intro needs_mux) (auto simp: list_all_iff route_needs_def)

end

section \<open>Writes and data\<close>

text \<open>The tables other than the accounts, and the payloads that not everybody may see.\<close>

definition rows :: "api_tables \<Rightarrow> database \<times> Anomaly list \<times> (uuid \<rightharpoonup> SessionAggregates)" where
  "rows t = (tb_db t, tb_anomalies t, tb_aggregates t)"

definition rows_changed :: "seen \<Rightarrow> seen \<Rightarrow> bool" where
  "rows_changed s s' \<longleftrightarrow> rows (snd s') \<noteq> rows (snd s)"

definition api_data :: "(api_payload payload \<Rightarrow> bool) \<Rightarrow> api_payload payload \<Rightarrow> bool" where
  "api_data S b \<longleftrightarrow> \<not> public b \<and> S b"

definition data_told :: "(api_payload payload \<Rightarrow> bool) \<Rightarrow> seen \<Rightarrow> seen \<Rightarrow> bool" where
  "data_told S s s' \<longleftrightarrow> filter (api_data S) (fst s') \<noteq> filter (api_data S) (fst s)"

lemma public_api_data [simp]: "public b \<Longrightarrow> \<not> api_data S b"
  by (simp add: api_data_def)

text \<open>What opens a socket; and a request that carries a session, unless \<open>A\<close> holds anyway.\<close>

definition socket_opening :: "api_payload payload \<Rightarrow> bool" where
  "socket_opening b \<longleftrightarrow> (\<exists>sn. b = Payload (P_Socket sn))"

definition admitted :: "('s, 'req, 'body) server_lib \<Rightarrow> bool \<Rightarrow> http_request \<Rightarrow> api_world \<Rightarrow> bool" where
  "admitted sl A r w \<longleftrightarrow> signed_in sl (\<lambda>_. True) r w \<or> A"

definition admin_post :: "('s, 'req, 'body) server_lib \<Rightarrow> http_request \<Rightarrow> api_world \<Rightarrow> bool" where
  "admin_post sl r w \<longleftrightarrow> signed_in sl (\<lambda>c. cl_Role c = RoleAdmin) r w \<and> rq_Method r = ''POST''"

interpretation writing: gate rows_changed "admin_post sl"
  by unfold_locales (auto simp: rows_changed_def admin_post_def signed_in_cong, simp_all add: same_credentials_def)

interpretation telling: gate "data_told S" "admitted sl A" for S sl A
  by unfold_locales (auto simp: data_told_def admitted_def signed_in_cong)

text \<open>What a handler of the API does to its state, and what it gives.\<close>

definition acts :: "(api_tables \<Rightarrow> bool) \<Rightarrow> (http_request \<Rightarrow> 's app \<Rightarrow> api_payload response result \<times> 's app) \<Rightarrow> bool" where
  "acts P fn \<longleftrightarrow> (\<forall>r s x s'. fn r s = (x, s') \<longrightarrow> P (ap_tables (fst s)) \<longrightarrow> P (ap_tables (fst s'))
     \<and> (case x of Fine rp \<Rightarrow> plain_response rp | Fail e \<Rightarrow> known_status e | Crash \<Rightarrow> True))"

lemma actsD:
  assumes "acts P fn" "fn r s = (x, s')" "P (ap_tables (fst s))"
  shows "P (ap_tables (fst s'))" "x = Fine rp \<Longrightarrow> plain_response rp" "x = Fail e \<Longrightarrow> known_status e"
proof -
  have "P (ap_tables (fst s')) \<and> (case x of Fine rp \<Rightarrow> plain_response rp | Fail e \<Rightarrow> known_status e | Crash \<Rightarrow> True)"
    using assms unfolding acts_def by blast
  then show "P (ap_tables (fst s'))" "x = Fine rp \<Longrightarrow> plain_response rp" "x = Fail e \<Longrightarrow> known_status e" by auto
qed

lemma acts_serve:
  assumes "\<And>r. behaves P plain_response (fn r)"
  shows "acts P (\<lambda>r (s :: 's app). case fn r (fst s) of (x, w) \<Rightarrow> (map_result (shown f) x, w, snd s))"
  unfolding acts_def
proof (intro allI impI)
  fix r and s :: "'s app" and x s'
  assume run: "(case fn r (fst s) of (x, w) \<Rightarrow> (map_result (shown f) x, w, snd s)) = (x, s')" and P: "P (ap_tables (fst s))"
  obtain y w where y: "fn r (fst s) = (y, w)" by fastforce
  with run have eq: "x = map_result (shown f) y" "fst s' = w" by auto
  note b = behavesD [OF assms y P]
  have "case x of Fine rp \<Rightarrow> plain_response rp | Fail e \<Rightarrow> known_status e | Crash \<Rightarrow> True"
    using b(2,3) eq(1) by (cases y) (auto simp: map_result_def shown_def plain_response_def)
  with b(1) eq(2) show "P (ap_tables (fst s')) \<and> (case x of Fine rp \<Rightarrow> plain_response rp | Fail e \<Rightarrow> known_status e | Crash \<Rightarrow> True)" by simp
qed

lemma acts_explanation:
  fixes sl :: "('s, 'req, 'body) server_lib"
  assumes "\<And>n t. P t \<Longrightarrow> P (ev_others (sl_env sl) n t)"
  shows "acts P (\<lambda>r s. case s of (w, i, m) \<Rightarrow> (case getPitchExplanation (sl_lists sl) (sl_env sl) (sl_math sl) (sl_backend sl) r w i of
        (x, w', i') \<Rightarrow> (map_result (shown P_Explanation) x, w', i', m)))"
  unfolding acts_def
proof (intro allI impI)
  fix r and s :: "'s app" and x s'
  assume run: "(case s of (w, i, m) \<Rightarrow> (case getPitchExplanation (sl_lists sl) (sl_env sl) (sl_math sl) (sl_backend sl) r w i of
        (x, w', i') \<Rightarrow> (map_result (shown P_Explanation) x, w', i', m))) = (x, s')" and P: "P (ap_tables (fst s))"
  obtain w client b m where s: "s = (w, (client, b), m)" by (metis prod.collapse)
  obtain y w1 where q: "explanation_request (sl_lists sl) (sl_env sl) (sl_math sl) (client \<noteq> None) r w = (y, w1)" by fastforce
  note bq = behavesD [OF behaves_lookups(8) [where P = P, OF assms] q]
  have P1: "P (ap_tables w1)" using bq(1) P s by simp
  have known: "known_status e" if "explanation_answer i a = Fail e" for i a e
    using that by (auto simp: explanation_answer_def split: sum.splits option.splits list.splits)
  have plain: "plain_response rp" if "explanation_answer i a = Fine rp" for i a rp
    using that by (auto simp: explanation_answer_def split: sum.splits option.splits list.splits)
  obtain z w2 i2 where g: "getPitchExplanation (sl_lists sl) (sl_env sl) (sl_math sl) (sl_backend sl) r w (client, b) = (z, w2, i2)" by (rule prod_cases3)
  have "ap_tables w2 = ap_tables w1 \<and> (case z of Fine rp \<Rightarrow> plain_response rp | Fail e \<Rightarrow> known_status e | Crash \<Rightarrow> True)"
    using g q bq(3) P s plain known
    by (cases y) (auto simp: getPitchExplanation_def Let_def split: prod.splits option.splits result.splits)
  moreover have "x = map_result (shown P_Explanation) z" "fst s' = w2" using run s g by auto
  ultimately show "P (ap_tables (fst s')) \<and> (case x of Fine rp \<Rightarrow> plain_response rp | Fail e \<Rightarrow> known_status e | Crash \<Rightarrow> True)"
    using P1 by (cases z) (auto simp: map_result_def shown_def plain_response_def)
qed

lemma handler_never_writes:
  assumes "\<And>R. acts (\<lambda>t. rows t = R) fn"
  shows "never rows_changed (handler j ct fn)"
proof (rule needsI)
  fix r wr s out wr' s' assume run: "handler j ct fn r (wr, s) = (out, wr', s')"
    and b: "rows_changed (rw_body wr, ap_tables (fst s)) (rw_body wr', ap_tables (fst s'))"
  obtain x where "fn r s = (x, s')" using run by (cases rule: handler_cases) blast+
  from actsD(1) [OF assms [of "rows (ap_tables (fst s))"] this refl] b show False by (simp add: rows_changed_def)
qed

lemma serve_never_tells:
  assumes "\<And>a. public (Payload (f a))"
  shows "never (data_told S) (serve sl f fn)"
proof (rule needsI)
  fix r wr s out wr' s' assume run: "serve sl f fn r (wr, s) = (out, wr', s')"
    and b: "data_told S (rw_body wr, ap_tables (fst s)) (rw_body wr', ap_tables (fst s'))"
  have "\<not> data_told S (rw_body wr, t) (rw_body wr, t')" for t t' by (simp add: data_told_def)
  moreover from run [unfolded serve_def] have "data_told S (rw_body wr, ap_tables (fst s)) (rw_body wr, ap_tables (fst s'))"
  proof (cases rule: handler_cases)
    case (Fail e)
    with b telling.bad_problem show ?thesis by simp
  next
    case (Fine rp wr1)
    have "\<exists>a. rp_payload rp = f a"
      using Fine(1) by (auto simp: map_result_def shown_def split: prod.splits result.splits)
    with assms have "public (Payload (rp_payload rp))" by auto
    from telling.bad_json [OF this b [unfolded Fine(6)]] Fine(3) show ?thesis by simp
  qed (use b in simp)
  ultimately show False by blast
qed

section \<open>The whole server\<close>

context gate
begin

lemma needs_Routes:
  assumes "needs fst C bad (RequireSameOrigin (sl_json_ok sl) (sl_server sl) (mux_ServeHTTP sl (routes sl)))"
  shows "needs (fst \<circ> fst) C bad (Routes sl newID now)"
  unfolding Routes_def Let_def by (intro needs_layers assms)

end

definition allowed_write :: "('s, 'req, 'body) server_lib \<Rightarrow> http_request \<Rightarrow> api_world \<Rightarrow> bool" where
  "allowed_write sl r w \<longleftrightarrow> admin_post sl r w \<and> origin_ok (sl_server sl) r"

interpretation checked_writing: gate rows_changed "allowed_write sl"
  by unfold_locales
    (auto simp: allowed_write_def admin_post_def signed_in_cong origin_ok_def, simp_all add: same_credentials_def origin_ok_def)

text \<open>The scrape handler keeps the rows and writes no data of the API.\<close>

definition foreign_never :: "(seen \<Rightarrow> seen \<Rightarrow> bool) \<Rightarrow> ('s, 'req, 'body) server_lib \<Rightarrow> bool" where
  "foreign_never bad sl \<longleftrightarrow> (\<forall>h. sl_metrics sl = Some h \<longrightarrow> never bad h)"

lemma told_json:
  assumes "public b"
  shows "filter (api_data S) (rw_body (WriteJSON j r st b w)) = filter (api_data S) (rw_body w)"
proof -
  obtain bs where "rw_body (WriteJSON j r st b w) = rw_body w @ bs" "bs = [] \<or> bs = [b] \<or> bs = [EncodeFailed]"
    using body_WriteJSON by blast
  with assms show ?thesis by auto
qed

lemma health_tells: "never (data_told S) (handleHealthz sl)" "never (data_told S) (handleReadyz sl)"
  by (rule needsI; auto simp: handleHealthz_def handleReadyz_def data_told_def told_json split: prod.splits result.splits)+

lemma behaves_readiness:
  assumes "\<And>n t. P t \<Longrightarrow> P (ev_others (sl_env sl) n t)"
  shows "behaves P (\<lambda>sb. fst sb \<in> {200, 503}) (readiness sl)"
proof -
  have healthy: "behaves P anything (Healthy (sl_env sl))"
    unfolding Healthy_def by (intro behaves_rules behaves_sql [where P = P and ev = "sl_env sl", OF assms]) simp_all
  have ping: "behaves P anything (\<lambda>w. case remote (ap_limiter w) of None \<Rightarrow> (Fine None, w)
               | Some c \<Rightarrow> h_bind (Ping (sl_env sl) c) (\<lambda>e. h_return (Some e)) w)"
    by (auto simp: behaves_def h_bind_def h_return_def Ping_def split: option.split)
  show ?thesis unfolding readiness_def Let_def
    by (intro behaves_rules healthy ping) simp
qed

lemma health_writes:
  assumes "\<And>n t R. rows t = R \<Longrightarrow> rows (ev_others (sl_env sl) n t) = R"
  shows "never rows_changed (handleHealthz sl)" "never rows_changed (handleReadyz sl)"
proof -
  show "never rows_changed (handleHealthz sl)"
    by (rule needsI) (auto simp: handleHealthz_def rows_changed_def)
  show "never rows_changed (handleReadyz sl)"
  proof (rule needsI)
    fix r wr s out wr' s' assume run: "handleReadyz sl r (wr, s) = (out, wr', s')"
      and b: "rows_changed (rw_body wr, ap_tables (fst s)) (rw_body wr', ap_tables (fst s'))"
    obtain x w where x: "readiness sl (fst s) = (x, w)" by fastforce
    with run have "fst s' = w" by (auto simp: handleReadyz_def split: result.splits prod.splits)
    with behavesD(1) [OF behaves_readiness [where P = "\<lambda>t. rows t = rows (ap_tables (fst s))", OF assms] x refl] b
    show False by (simp add: rows_changed_def)
  qed
qed

text \<open>The handshake writes no rows, and the snapshot goes only to a caller that the authenticator lets pass.\<close>

lemma body_http_Error: "rw_body (http_Error t c w) = rw_body w @ [Payload (P_Text t)]"
  by (simp add: http_Error_def)

lemma verifyRequest_Authenticate:
  "Authenticate ev al str sv r w = (Fine i, w') \<Longrightarrow> \<exists>c. fst (verifyRequest ev al sv r w) = Fine c"
  "Authenticate ev al str sv r w = (x, w') \<Longrightarrow> ap_tables w' = ap_tables w"
  using verifyRequest_tables [of ev al sv r w]
  by (auto simp: Authenticate_def h_return_def elim!: h_bind_cases)

lemma behaves_snapshot:
  assumes others: "\<And>n t. P t \<Longrightarrow> P (ev_others ev n t)"
  shows "behaves P anything (SessionSnapshot q avg ev i)"
proof -
  note rules = behaves_rules behaves_reads [where P = P and ev = ev, OF others] reads_lists pg_reads behaves_cache
  have build: "behaves P anything (buildPitchDTOs q ev rows incl)" for rows incl
    unfolding buildPitchDTOs_def by (intro rules; simp)
  have metrics: "behaves P anything (liveSessionMetrics avg ev i stored)" for stored
    unfolding liveSessionMetrics_def by (intro rules; simp)
  show ?thesis unfolding SessionSnapshot_def by (intro rules build metrics; simp)
qed

lemma serveWS_cases:
  assumes run: "serveWS sl we r (wr, s) = (out, wr', s')"
  obtains (quiet) bs where "rw_body wr' = rw_body wr @ bs" "\<forall>b \<in> set bs. public b"
  | (told) sn where "rw_body wr' = rw_body wr @ [Payload (P_Socket sn)]" "wc_auth (wv_cfg we) \<longrightarrow> signed_in sl (\<lambda>_. True) r (fst s)"
proof -
  have quiet': thesis if "rw_body wr' = rw_body wr \<or> (\<exists>b. rw_body wr' = rw_body wr @ [b] \<and> public b)"
    using that quiet by fastforce
  have problem: thesis if "wr' = WriteProblem (sl_json_ok sl) r e wr" for e
    using body_problem [of "sl_json_ok sl" r e wr] that by (intro quiet') auto
  obtain w beside where s: "s = (w, beside)" by (rule prod.exhaust)
  define auth where "auth = (if wc_auth (wv_cfg we) then Authenticate (sl_env sl) (sl_auth sl) (ll_uuid_text (sl_lists sl)) (sl_server sl) r w
      else (Fine no_identity, w))"
  note run = run [unfolded s serveWS_def Let_def prod.case, folded auth_def]
  show thesis
  proof (cases "PathUUID (ql (sl_lists sl)) r ''sessionId''")
    case (Inl e)
    with run show thesis by (intro problem) auto
  next
    case sid: (Inr sid)
    show thesis
    proof (cases "AllowsOrigin (sv_cfg (sl_server sl)) (rq_Header r ''Origin'')")
      case False
      with run sid show thesis by (intro problem) auto
    next
      case origin: True
      obtain a w1 where a: "auth = (a, w1)" by fastforce
      note run = run [unfolded sid sum.case a prod.case]
      show thesis
      proof (cases a)
        case (Fail e)
        with run origin show thesis by (intro problem) auto
      next
        case Crash
        with run origin show thesis by (intro quiet') auto
      next
        case (Fine ident)
        with a have signed: "wc_auth (wv_cfg we) \<longrightarrow> signed_in sl (\<lambda>_. True) r (fst s)"
          using verifyRequest_Authenticate(1) [of "sl_env sl" "sl_auth sl" "ll_uuid_text (sl_lists sl)" "sl_server sl" r w ident w1]
          by (auto simp: auth_def signed_in_def s split: if_splits)
        obtain x w2 where x: "SessionSnapshot (sl_lists sl) (sl_avg sl) (sl_env sl) sid w1 = (x, w2)" by fastforce
        show thesis
        proof (cases "reserve (wc_limit (wv_cfg we)) (ClientIP r) (wv_slots we (ap_calls w1))")
          case None
          with run origin Fine show thesis by (intro problem) auto
        next
          case (Some m)
          note run = run [unfolded Fine result.case Some option.case x prod.case]
          show thesis
          proof (cases x)
            case (Fail e)
            with run origin show thesis by (intro problem) auto
          next
            case Crash
            with run origin show thesis by (intro quiet') auto
          next
            case (Fine sn)
            with run origin signed show thesis
              by (cases "wv_refused we (ap_calls w2)")
                (auto simp: body_http_Error Hijack_def split: if_splits intro: quiet' told)
          qed
        qed
      qed
    qed
  qed
qed

lemma serveWS_never_writes:
  assumes others: "\<And>n t R. rows t = R \<Longrightarrow> rows (ev_others (sl_env sl) n t) = R"
  shows "never rows_changed (serveWS sl we)"
proof (rule needsI)
  fix r wr and s :: "'a app" and out wr' s' assume run: "serveWS sl we r (wr, s) = (out, wr', s')"
    and b: "rows_changed (rw_body wr, ap_tables (fst s)) (rw_body wr', ap_tables (fst s'))"
  obtain w beside where s: "s = (w, beside)" by (rule prod.exhaust)
  define auth where "auth = (if wc_auth (wv_cfg we) then Authenticate (sl_env sl) (sl_auth sl) (ll_uuid_text (sl_lists sl)) (sl_server sl) r w
      else (Fine no_identity, w))"
  obtain a w1 where a: "auth = (a, w1)" by fastforce
  then have t1: "ap_tables w1 = ap_tables w"
    using verifyRequest_Authenticate(2) [of "sl_env sl" "sl_auth sl" "ll_uuid_text (sl_lists sl)" "sl_server sl" r w a w1]
    by (auto simp: auth_def split: if_splits)
  have snap: "rows (ap_tables w2) = rows (ap_tables w)"
    if "SessionSnapshot (sl_lists sl) (sl_avg sl) (sl_env sl) sid w1 = (x, w2)" for sid x w2
    using behavesD(1) [OF behaves_snapshot [where P = "\<lambda>t. rows t = rows (ap_tables w)", OF others] that] t1 by simp
  have "fst s' = w \<or> fst s' = w1 \<or> (\<exists>sid x. SessionSnapshot (sl_lists sl) (sl_avg sl) (sl_env sl) sid w1 = (x, fst s'))"
    using run unfolding s serveWS_def Let_def prod.case auth_def [symmetric] a
    by (auto split: sum.splits if_splits result.splits option.splits prod.splits)
  with snap t1 have "rows (ap_tables (fst s')) = rows (ap_tables w)" by metis
  with b s show False by (simp add: rows_changed_def)
qed

text \<open>The tables of routes: who may change rows, who is told data.\<close>

lemma routes_write:
  assumes others: "\<And>n t R. rows t = R \<Longrightarrow> rows (ev_others (sl_env sl) n t) = R" and foreign: "foreign_never rows_changed sl"
  shows "list_all (route_needs (admin_post sl) rows_changed) (routes sl)"
proof -
  have quiet: "never rows_changed (serve sl f fn)" if "\<And>r R. behaves (\<lambda>t. rows t = R) plain_response (fn r)" for f fn
    unfolding serve_def by (rule handler_never_writes, rule acts_serve, rule that)
  have explain: "never rows_changed (serve_explanation sl)"
    unfolding serve_explanation_def by (rule handler_never_writes, rule acts_explanation) (use others in auto)
  have login: "never rows_changed (serve sl P_Login (login (sl_env sl) (sl_auth sl) (sl_server sl)))"
    by (rule quiet, rule behaves_login) (use others in \<open>auto simp: rows_def\<close>)
  have admin: "route_needs (admin_post sl) rows_changed (secureRole sl RoleAdmin p h)" if "pattern_method p = ''POST''" for p h
    by (rule writing.route_needs_role) (use that in \<open>simp add: admin_post_def method_matches_def\<close>)
  have options: "list_all (route_needs (admin_post sl) rows_changed) (case sl_metrics sl of None \<Rightarrow> [] | Some h \<Rightarrow> [(p, h)])"
    "list_all (route_needs (admin_post sl) rows_changed) (case sl_ws sl of None \<Rightarrow> [] | Some we \<Rightarrow> [route sl q (serveWS sl we)])" for p q
    using foreign serveWS_never_writes [OF others]
    by (auto simp: foreign_never_def intro: writing.route_needs_foreign writing.route_needs_never split: option.split)
  show ?thesis
    unfolding routes_def Let_def list_all_append list.pred_inject
    by (intro conjI options login admin explain health_writes quiet behaves_listings behaves_lookups behaves_analytics TrueI
        writing.route_needs_secure writing.route_needs_never)
      (use others in \<open>auto simp: pattern_method_def\<close>)
qed

lemma data_told_part: "data_told S s s' \<Longrightarrow> data_told (\<lambda>_. True) s s'"
proof -
  have part: "filter (api_data S) bs = filter S (filter (api_data (\<lambda>_. True)) bs)" for bs
    unfolding filter_filter by (rule filter_cong) (auto simp: api_data_def)
  show "data_told S s s' \<Longrightarrow> data_told (\<lambda>_. True) s s'" unfolding data_told_def part [of "fst s"] part [of "fst s'"] by metis
qed

lemma foreign_part: "foreign_never (data_told (\<lambda>_. True)) sl \<Longrightarrow> foreign_never (data_told S) sl"
  unfolding foreign_never_def needs_def using data_told_part by blast

text \<open>What opens a socket is told without a session only by a channel that was attached without authenticator.\<close>

definition open_channel :: "('s, 'req, 'body) server_lib \<Rightarrow> bool" where
  "open_channel sl \<longleftrightarrow> (\<exists>we. sl_ws sl = Some we \<and> \<not> wc_auth (wv_cfg we))"

lemma serveWS_tells:
  assumes ws: "sl_ws sl = Some we" and A: "open_channel sl \<Longrightarrow> \<exists>b. socket_opening b \<and> S b \<Longrightarrow> A"
  shows "route_needs (admitted sl A) (data_told S) (route sl p (serveWS sl we))"
proof (rule telling.route_needs_route, rule needsI)
  fix r wr and s :: "'a app" and out wr' s' assume run: "serveWS sl we r (wr, s) = (out, wr', s')"
    and b: "data_told S (rw_body wr, ap_tables (fst s)) (rw_body wr', ap_tables (fst s'))"
  from run show "admitted sl A r (fst s)"
  proof (cases rule: serveWS_cases)
    case quiet
    then have "filter (api_data S) (rw_body wr') = filter (api_data S) (rw_body wr)" by (auto simp: filter_empty_conv)
    with b show ?thesis by (simp add: data_told_def)
  next
    case (told sn)
    with b have "S (Payload (P_Socket sn))" by (auto simp: data_told_def api_data_def split: if_splits)
    then have "open_channel sl \<Longrightarrow> A" using A by (auto simp: socket_opening_def)
    with told(2) ws show ?thesis by (auto simp: admitted_def open_channel_def)
  qed
qed

lemma routes_tell:
  assumes foreign: "foreign_never (data_told S) sl" and A: "open_channel sl \<Longrightarrow> \<exists>b. socket_opening b \<and> S b \<Longrightarrow> A"
  shows "list_all (route_needs (admitted sl A) (data_told S)) (routes sl)"
proof -
  have secured: "route_needs (admitted sl A) (data_told S) (secure sl p h)" for p h
    using telling.route_needs_any [of sl S p h] unfolding route_needs_def by (rule needs_weaken) (simp add: admitted_def)
  have role: "route_needs (admitted sl A) (data_told S) (secureRole sl role p h)" for role p h
    by (rule telling.route_needs_role) (auto simp: admitted_def signed_in_def split: result.splits)
  have options: "list_all (route_needs (admitted sl A) (data_told S)) (case sl_metrics sl of None \<Rightarrow> [] | Some h \<Rightarrow> [(p, h)])"
    "list_all (route_needs (admitted sl A) (data_told S)) (case sl_ws sl of None \<Rightarrow> [] | Some we \<Rightarrow> [route sl q (serveWS sl we)])" for p q
    using foreign serveWS_tells [OF _ A]
    by (auto simp: foreign_never_def intro: telling.route_needs_foreign split: option.split)
  show ?thesis
    unfolding routes_def Let_def list_all_append list.pred_inject
    by (intro conjI options role secured telling.route_needs_never health_tells serve_never_tells TrueI) simp_all
qed

lemma Routes_tell:
  assumes "foreign_never (data_told S) sl" and "open_channel sl \<Longrightarrow> \<exists>b. socket_opening b \<and> S b \<Longrightarrow> A"
    and run: "Routes sl newID now r (fresh_writer, (w, beside), lines) = (out, wr, (w', beside'), lines')"
    and "b \<in> set (rw_body wr)" "api_data S b"
  shows "admitted sl A r w"
proof -
  have "needs fst (admitted sl A) (data_told S) (mux_ServeHTTP sl (routes sl))"
    by (rule telling.needs_routes [OF routes_tell [OF assms(1,2)]], assumption, assumption, rule telling.C_cong)
  then have "needs fst (admitted sl A) (data_told S) (RequireSameOrigin (sl_json_ok sl) (sl_server sl) (mux_ServeHTTP sl (routes sl)))"
    by (rule needs_weaken [OF telling.needs_RequireSameOrigin]) simp
  from needsD [OF telling.needs_Routes [OF this] run] show ?thesis
    using assms(4,5) by (auto simp: data_told_def fresh_writer_def filter_empty_conv)
qed

lemma signed_in_verified:
  assumes "signed_in sl (\<lambda>_. True) r w"
  shows "\<exists>secret c w1 t. sv_signer (sl_server sl) = Some secret \<and> TokenFromRequest r \<noteq> ''''
      \<and> verifyRequest (sl_env sl) (sl_auth sl) (sl_server sl) r w = (Fine c, w1)
      \<and> Verify (al_tokens (sl_auth sl)) secret t (TokenFromRequest r) = Inr c"
proof -
  obtain x w1 where v: "verifyRequest (sl_env sl) (sl_auth sl) (sl_server sl) r w = (x, w1)" by fastforce
  with assms obtain c where c: "x = Fine c" by (auto simp: signed_in_def split: result.splits)
  with v show ?thesis
    by (auto simp: verifyRequest_def h_bind_def h_fail_def h_return_def clock_def Let_def split: option.splits if_splits sum.splits)
qed

section \<open>Properties\<close>

text \<open>
  C3: only an administrator changes anything.  Whenever one request to the whole server, through
  every middleware, the mux and the handler, changes a session, pitch, prediction, anomaly or stored
  aggregate, a signer is configured, the request carries a token that verifies with the role admin,
  it is a POST, and it either names no origin or an allowed one.  Other writers rest, and the
  scrape handler changes no rows.
\<close>

theorem only_admins_write:
  assumes "\<And>n t. rows (ev_others (sl_env sl) n t) = rows t" "foreign_never rows_changed sl"
    and "Routes sl newID now r (fresh_writer, (w, beside), lines) = (out, wr, (w', beside'), lines')"
    and "rows (ap_tables w') \<noteq> rows (ap_tables w)"
  shows "\<exists>secret c w1. sv_signer (sl_server sl) = Some secret
      \<and> verifyRequest (sl_env sl) (sl_auth sl) (sl_server sl) r w = (Fine c, w1) \<and> cl_Role c = RoleAdmin
      \<and> rq_Method r = ''POST'' \<and> (rq_Header r ''Origin'' = '''' \<or> AllowsOrigin (sv_cfg (sl_server sl)) (rq_Header r ''Origin''))"
proof -
  have others: "rows (ev_others (sl_env sl) n t) = R" if "rows t = R" for n t R using assms(1) that by simp
  have "needs fst (admin_post sl) rows_changed (mux_ServeHTTP sl (routes sl))"
    by (rule writing.needs_routes [OF routes_write [OF others assms(2)]], assumption, rule writing.C_cong)
  then have "needs fst (allowed_write sl) rows_changed (RequireSameOrigin (sl_json_ok sl) (sl_server sl) (mux_ServeHTTP sl (routes sl)))"
    unfolding allowed_write_def by (rule writing.needs_RequireSameOrigin)
  from needsD [OF checked_writing.needs_Routes [OF this] assms(3)] assms(4)
  have ok: "allowed_write sl r w" by (simp add: rows_changed_def)
  obtain x w1 where v: "verifyRequest (sl_env sl) (sl_auth sl) (sl_server sl) r w = (x, w1)" by fastforce
  with ok obtain c where c: "x = Fine c" "cl_Role c = RoleAdmin" "rq_Method r = ''POST''" "origin_ok (sl_server sl) r"
    by (auto simp: allowed_write_def admin_post_def signed_in_def split: result.splits)
  then obtain secret where "sv_signer (sl_server sl) = Some secret"
    using v by (auto simp: verifyRequest_def h_fail_def split: option.splits)
  with v c show ?thesis by (auto simp: origin_ok_def)
qed


text \<open>A server without metrics and WebSocket, and an administrator who acknowledges an anomaly.\<close>

definition demo_sl :: "(nat, predictRequest, predictRequest) server_lib" where
  "demo_sl = \<lparr>sl_server = demo_server, sl_env = demo_calls (\<lambda>_. None), sl_lists = demo_list_lib, sl_rollups = demo_rollup_lib demo_rollup, sl_avg = (\<lambda>_. None),
     sl_math = pl_math (demo_pipeline None), sl_backend = explain_backend, sl_auth = demo_auth, sl_json_ok = (\<lambda>_. True), sl_cookie_text = ck_Value,
     sl_escaped = rq_Path, sl_unescape = (\<lambda>s. s), sl_location = (\<lambda>r p. p), sl_metrics = None, sl_ws = None\<rparr>"

definition demo_token :: string where "demo_token = ''x.Yw.eC5Zdw''"

definition demo_admin :: http_request where
  "demo_admin = demo_action\<lparr>rq_Path := ''/api/v1/anomalies/8/acknowledge'', rq_Cookie := (\<lambda>k. if k = SessionCookie then Some demo_token else None)\<rparr>"

definition demo_app :: "api_world \<times> nat inference \<times> http_metrics" where
  "demo_app = (demo_service, (None, 0), \<lparr>hm_total = [], hm_inflight = 0\<rparr>)"

lemma demo_paths:
  "\<forall>p \<in> set patterns. match_segments (pattern_segments p) (path_segments ''/api/v1/anomalies/8/acknowledge'')
     = (if p = ''POST /api/v1/anomalies/{anomalyId}/acknowledge'' then Some [(''anomalyId'', ''8'')] else None)"
  by code_simp

lemma demo_clean: "cleanPath ''/api/v1/anomalies/8/acknowledge'' = ''/api/v1/anomalies/8/acknowledge''" "pattern_method ''POST /api/v1/anomalies/{anomalyId}/acknowledge'' = ''POST''"
  by code_simp+

lemma demo_verified: "Verify demo_token_lib ''k'' 40 demo_token = Inr demo_claims" "sanitizeID '''' = ''''" "demo_token \<noteq> ''''"
  by code_simp+

definition demo_handler :: "(api_payload, nat app) http_Handler" where
  "demo_handler = RequireRole (\<lambda>_. True) (demo_calls (\<lambda>_. None)) demo_auth demo_server RoleAdmin (serve demo_sl P_Anomaly (acknowledgeAnomaly demo_list_lib (demo_calls (\<lambda>_. None))))"

lemma demo_found:
  "find (\<lambda>rt. method_matches (pattern_method (fst rt)) ''POST''
       \<and> match_segments (pattern_segments (fst rt)) (path_segments ''/api/v1/anomalies/8/acknowledge'') \<noteq> None) (routes demo_sl)
   = Some (''POST /api/v1/anomalies/{anomalyId}/acknowledge'', demo_handler)"
proof -
  note paths = demo_paths [unfolded patterns_def, simplified]
  show ?thesis
    unfolding routes_def Let_def
    by (simp add: paths demo_sl_def demo_clean method_matches_def) (simp add: secureRole_def route_def demo_handler_def demo_sl_def)
qed

lemma demo_mux:
  assumes "rq_Method r = ''POST''" "rq_Path r = ''/api/v1/anomalies/8/acknowledge''"
  shows "mux_ServeHTTP demo_sl (routes demo_sl) r ws = demo_handler (with_path_values [(''anomalyId'', ''8'')] r) ws"
proof -
  have sl: "sl_escaped demo_sl = rq_Path" "sl_unescape demo_sl = (\<lambda>s. s)" by (simp_all add: demo_sl_def)
  have m: "route_match demo_sl r p = match_segments (pattern_segments p) (path_segments ''/api/v1/anomalies/8/acknowledge'')" for p
    using assms by (simp add: route_match_def request_path_def sl demo_clean)
  have "''POST /api/v1/anomalies/{anomalyId}/acknowledge'' \<in> set patterns" by (simp add: patterns_def)
  with demo_paths have v: "match_segments (pattern_segments ''POST /api/v1/anomalies/{anomalyId}/acknowledge'')
      (path_segments ''/api/v1/anomalies/8/acknowledge'') = Some [(''anomalyId'', ''8'')]" by simp
  have p: "request_path demo_sl r = sl_escaped demo_sl r" using assms by (simp add: request_path_def sl demo_clean)
  show ?thesis unfolding mux_ServeHTTP_def m p assms(1) demo_found by (simp add: v)
qed

definition demo_acked :: Anomaly where "demo_acked = demo_anomaly\<lparr>ao_AcknowledgedAt := Some 40\<rparr>"

definition demo_after :: api_world where
  "demo_after = demo_service\<lparr>ap_tables := (ap_tables demo_service)\<lparr>tb_anomalies := [demo_acked]\<rparr>, ap_calls := 3\<rparr>"

lemma demo_handled:
  assumes "TokenFromRequest r = demo_token" "rq_Method r \<noteq> ''HEAD''" "rq_PathValue r ''anomalyId'' = ''8''"
  shows "demo_handler r (wr, demo_service, x)
     = (Returned, WriteJSON (\<lambda>_. True) (r\<lparr>cx_Claims := Some demo_claims\<rparr>) 200 (Payload (P_Anomaly demo_acked)) wr, demo_after, x)"
proof -
  have i: "PathUUID (ql demo_list_lib) (r\<lparr>cx_Claims := Some demo_claims\<rparr>) ''anomalyId'' = Inr 8"
    using assms(3) by (simp add: PathUUID_def) code_simp
  have role: "cl_Role demo_claims = RoleAdmin" by code_simp
  show ?thesis using assms i role demo_verified
    by (simp add: demo_handler_def RequireRole_def RequireAuth_def verifyRequest_def demo_server_def h_bind_def clock_def h_return_def
        demo_calls_def demo_auth_def serve_def handler_def acknowledgeAnomaly_def transition_def sql_def AcknowledgeAnomaly_def
        demo_service_def demo_api_world_def demo_anomaly_def update_where_def map_result_def shown_def ok_json_def
        demo_sl_def demo_after_def demo_acked_def Let_def)
qed

lemma demo_served:
  "\<exists>wr b lines. Routes demo_sl ''id'' 0 demo_admin (fresh_writer, demo_app, []) = (Returned, wr, (demo_after, b), lines)
     \<and> rw_body wr = [Payload (P_Anomaly demo_acked)]"
proof -
  have r: "rq_Method demo_admin = ''POST''" "rq_Path demo_admin = ''/api/v1/anomalies/8/acknowledge''" "rq_Header demo_admin = (\<lambda>_. '''')"
    "rq_Cookie demo_admin SessionCookie = Some demo_token"
    by (simp_all add: demo_admin_def demo_action_def demo_get_def)
  have t: "TokenFromRequest r = demo_token" if "rq_Cookie r SessionCookie = Some demo_token" for r
    using that demo_verified(3) by (simp add: TokenFromRequest_def)
  have sl: "sl_json_ok demo_sl = (\<lambda>_. True)" by (simp add: demo_sl_def)
  show ?thesis
    by (simp add: Routes_def RequestID_def LimitBody_def SecurityHeaders_def Logging_def CORS_def Recovery_def Http.Timeout_def RequireSameOrigin_def
        r t sl demo_mux demo_handled demo_app_def demo_verified with_path_values_def Let_def WriteJSON_def encodes_def fresh_writer_def)
qed

lemma demo_foreign: "foreign_never bad demo_sl"
  by (simp add: foreign_never_def demo_sl_def)

theorem only_admins_write_witness:
  "\<exists>secret c w1. sv_signer (sl_server demo_sl) = Some secret
      \<and> verifyRequest (sl_env demo_sl) (sl_auth demo_sl) (sl_server demo_sl) demo_admin demo_service = (Fine c, w1) \<and> cl_Role c = RoleAdmin
      \<and> rq_Method demo_admin = ''POST''
      \<and> (rq_Header demo_admin ''Origin'' = '''' \<or> AllowsOrigin (sv_cfg (sl_server demo_sl)) (rq_Header demo_admin ''Origin''))"
proof -
  obtain wr b lines where run: "Routes demo_sl ''id'' 0 demo_admin (fresh_writer, demo_app, []) = (Returned, wr, (demo_after, b), lines)"
    using demo_served by blast
  have "rows (ap_tables demo_after) \<noteq> rows (ap_tables demo_service)"
    by (simp add: rows_def demo_after_def demo_acked_def demo_service_def demo_api_world_def demo_anomaly_def)
  moreover have "rows (ev_others (sl_env demo_sl) n t) = rows t" for n t by (simp add: demo_sl_def demo_calls_def)
  ultimately show ?thesis using only_admins_write [OF _ demo_foreign run [unfolded demo_app_def]] by blast
qed


end
