(* ===== verification/Replay.thy ===== *)
theory Replay
  imports Consumer "HOL-Library.Product_Lexorder" "HOL-Library.Sublist" "HOL-Library.Multiset"
begin

text \<open>
  internal/replay and cmd/replay: a tape of historical pitches as a stream of device events.
  Reading and filtering a tape, the synthetic clock of an outing, the simulator with its pacing,
  and the command that publishes to Kafka.  JSON, SHA-256, identifiers, random numbers and how a
  wait ends are parameters; what a run sends is compared with the plan of its tape.
\<close>

unbundle bit_operations_syntax

section \<open>The tape\<close>

text \<open>One line of a tape: the shape of the device event without its timing.\<close>

record TapeRecord =
  tr_ExternalGameRef :: string
  tr_AtBatNumber :: int
  tr_PitchNumber :: int
  tr_SourceGameDate :: string
  tr_Session :: SessionRef
  tr_Batter :: BatterRef
  tr_Context :: PitchContext
  tr_Measurement :: RawMeasurement
  tr_GroundTruth :: "GroundTruth option"

definition TapeRecord_PitchUID :: "TapeRecord \<Rightarrow> string" where
  "TapeRecord_PitchUID r = PitchUID (tr_ExternalGameRef r) (tr_AtBatNumber r) (tr_PitchNumber r)"

record TapeSession =
  so_UID :: string
  so_PitcherMLBAMID :: int
  so_GameRef :: string
  so_SourceGameDate :: string
  so_Opponent :: string
  so_Pitches :: "TapeRecord list"

record Tape =
  Sessions :: "TapeSession list"

definition PitchCount :: "Tape \<Rightarrow> nat" where
  "PitchCount t = foldl (\<lambda>n s. n + length (so_Pitches s)) 0 (Sessions t)"

text \<open>
  \<open>bufio.Scanner\<close> with \<open>ScanLines\<close> and the buffer of \<open>ReadTape\<close>: lines without their
  newline and one carriage return, an unterminated last line included; a line that does not fit
  the buffer ends the scan with an error.  \<open>read_err\<close> is what the reader ends with other than
  EOF; the scanner delivers what it had read and then reports it.
\<close>

definition MaxTokenSize :: nat where
  "MaxTokenSize = 1024 * 1024"

definition ErrTooLong :: goerr where
  "ErrTooLong = ErrorsNew ''bufio.ErrTooLong'' ''bufio.Scanner: token too long''"

definition scan_lines :: "string \<Rightarrow> string list" where
  "scan_lines content = (let ls = split_on (CHR 0x0A) content in if last ls = '''' then butlast ls else ls)"

definition dropCR :: "string \<Rightarrow> string" where
  "dropCR l = (if l \<noteq> '''' \<and> last l = CHR 0x0D then butlast l else l)"

definition scan_tokens :: "string \<Rightarrow> string list" where
  "scan_tokens content = map dropCR (takeWhile (\<lambda>l. length l < MaxTokenSize) (scan_lines content))"

definition scan_error :: "string \<Rightarrow> lib_error option \<Rightarrow> error" where
  "scan_error content read_err =
     (if \<exists>l \<in> set (scan_lines content). MaxTokenSize \<le> length l then Some ErrTooLong else map_option lib read_err)"

text \<open>The loop of \<open>ReadTape\<close>: the number of the last line, the map of sessions and their order.\<close>

type_synonym tape_acc = "(string \<rightharpoonup> TapeSession) \<times> string list"

definition add_record :: "TapeRecord \<Rightarrow> tape_acc \<Rightarrow> tape_acc" where
  "add_record r acc = (case acc of (byUID, order) \<Rightarrow>
     (let uid = SessionRef_SessionUID (tr_Session r) in
      case byUID uid of
        Some s \<Rightarrow> (byUID(uid \<mapsto> s\<lparr>so_Pitches := so_Pitches s @ [r]\<rparr>), order)
      | None \<Rightarrow>
          (byUID(uid \<mapsto> \<lparr>so_UID = uid, so_PitcherMLBAMID = PitcherMLBAMID (tr_Session r),
             so_GameRef = tr_ExternalGameRef r, so_SourceGameDate = tr_SourceGameDate r,
             so_Opponent = OpponentTeam (tr_Session r), so_Pitches = [r]\<rparr>), order @ [uid])))"

fun read_records ::
  "(string \<Rightarrow> lib_error + TapeRecord) \<Rightarrow> int \<Rightarrow> string list \<Rightarrow> tape_acc \<Rightarrow> goerr + tape_acc" where
  "read_records json_Unmarshal line [] acc = Inr acc"
| "read_records json_Unmarshal line (raw # raws) acc =
     (if length raw = 0 then read_records json_Unmarshal (line + 1) raws acc
      else (case json_Unmarshal raw of
          Inl err \<Rightarrow> Inl (Wrap (''tape line '' @ show_int (line + 1) @ '': '') (lib err) '''')
        | Inr r \<Rightarrow>
            if SessionRef_SessionUID (tr_Session r) = ''''
            then Inl (LibError False (''tape line '' @ show_int (line + 1) @ '': session_uid is required''))
            else read_records json_Unmarshal (line + 1) raws (add_record r acc)))"

text \<open>The comparison handed to \<open>sort.SliceStable\<close>, and a stable sort by it.\<close>

definition pitch_less :: "TapeRecord \<Rightarrow> TapeRecord \<Rightarrow> bool" where
  "pitch_less x y =
     (if tr_AtBatNumber x \<noteq> tr_AtBatNumber y then tr_AtBatNumber x < tr_AtBatNumber y
      else tr_PitchNumber x < tr_PitchNumber y)"

fun insert_stable :: "('a \<Rightarrow> 'a \<Rightarrow> bool) \<Rightarrow> 'a \<Rightarrow> 'a list \<Rightarrow> 'a list" where
  "insert_stable lt x [] = [x]"
| "insert_stable lt x (y # ys) = (if lt y x then y # insert_stable lt x ys else x # y # ys)"

definition SliceStable :: "('a \<Rightarrow> 'a \<Rightarrow> bool) \<Rightarrow> 'a list \<Rightarrow> 'a list" where
  "SliceStable lt xs = foldr (insert_stable lt) xs []"

definition ReadTape ::
  "(string \<Rightarrow> lib_error + TapeRecord) \<Rightarrow> string \<Rightarrow> lib_error option \<Rightarrow> goerr + Tape" where
  "ReadTape json_Unmarshal content read_err =
     (case read_records json_Unmarshal 0 (scan_tokens content) (Map.empty, []) of
        Inl err \<Rightarrow> Inl err
      | Inr (byUID, order) \<Rightarrow>
         (case scan_error content read_err of
            Some err \<Rightarrow> Inl (Wrap ''read tape: '' err '''')
          | None \<Rightarrow>
              if length order = 0 then Inl (LibError False ''tape is empty'')
              else Inr \<lparr>Sessions = map (\<lambda>s. s\<lparr>so_Pitches := SliceStable pitch_less (so_Pitches s)\<rparr>)
                         (List.map_filter byUID order)\<rparr>))"

text \<open>\<open>open_file\<close> is \<open>os.Open\<close> with the bytes the file then gives.\<close>

definition LoadTape ::
  "(string \<Rightarrow> lib_error + TapeRecord) \<Rightarrow> (string \<Rightarrow> lib_error + string \<times> lib_error option) \<Rightarrow> string \<Rightarrow> goerr + Tape" where
  "LoadTape json_Unmarshal open_file path =
     (case open_file path of
        Inl err \<Rightarrow> Inl (Wrap ''open tape: '' (lib err) '''')
      | Inr (content, read_err) \<Rightarrow> ReadTape json_Unmarshal content read_err)"

fun filter_sessions :: "int \<Rightarrow> string \<Rightarrow> string \<Rightarrow> TapeSession list \<Rightarrow> TapeSession list \<Rightarrow> TapeSession list" where
  "filter_sessions maxSessions pitcher game [] out = out"
| "filter_sessions maxSessions pitcher game (s # ss) out =
     (if game \<noteq> '''' \<and> so_GameRef s \<noteq> game then filter_sessions maxSessions pitcher game ss out
      else if pitcher \<noteq> '''' \<and> show_int (so_PitcherMLBAMID s) \<noteq> pitcher
        then filter_sessions maxSessions pitcher game ss out
      else if 0 < maxSessions \<and> maxSessions \<le> int (length (out @ [s])) then out @ [s]
      else filter_sessions maxSessions pitcher game ss (out @ [s]))"

definition Tape_Filter :: "int \<Rightarrow> string \<Rightarrow> string \<Rightarrow> Tape \<Rightarrow> Tape" where
  "Tape_Filter maxSessions pitcher game t = \<lparr>Sessions = filter_sessions maxSessions pitcher game (Sessions t) []\<rparr>"

section \<open>The synthetic clock\<close>

definition GapBasesEmpty :: duration where "GapBasesEmpty = 19 * Second"
definition GapRunnersOn :: duration where "GapRunnersOn = 23 * Second"
definition TwoStrikeExtra :: duration where "TwoStrikeExtra = 2 * Second"
definition AtBatBreak :: duration where "AtBatBreak = 25 * Second"
definition HalfInningBreak :: duration where "HalfInningBreak = 150 * Second"
definition JitterMin :: duration where "JitterMin = - 2 * Second"
definition JitterMax :: duration where "JitterMax = 4 * Second"
definition FirstPitchHour :: int where "FirstPitchHour = 19"
definition FirstPitchMinute :: int where "FirstPitchMinute = 10"

lemmas timing_defs = GapBasesEmpty_def GapRunnersOn_def TwoStrikeExtra_def AtBatBreak_def
  HalfInningBreak_def JitterMin_def JitterMax_def

text \<open>
  \<open>rand.New(rand.NewSource(seed))\<close> is the seed with the number of draws made so far; the
  function \<open>source\<close> of the definitions below gives the number behind each draw.
\<close>

record Clock =
  ck_seed :: int
  ck_draws :: nat
  ck_current :: time
  ck_lastAtBat :: int
  ck_lastInning :: int
  ck_started :: bool

text \<open>
  \<open>time.Parse("2006-01-02", s)\<close>: four, two and two digits with their hyphens, and a day
  that exists in the proleptic Gregorian calendar.
\<close>

definition leap_year :: "int \<Rightarrow> bool" where
  "leap_year y \<longleftrightarrow> y mod 4 = 0 \<and> (y mod 100 \<noteq> 0 \<or> y mod 400 = 0)"

definition days_in_month :: "int \<Rightarrow> int \<Rightarrow> int" where
  "days_in_month y m =
     (if m = 2 then (if leap_year y then 29 else 28) else if m \<in> {4, 6, 9, 11} then 30 else 31)"

definition days_before_month :: "int \<Rightarrow> int \<Rightarrow> int" where
  "days_before_month y m = sum_list (map (days_in_month y) [1..m - 1])"

definition days_before_year :: "int \<Rightarrow> int" where
  "days_before_year y = 365 * (y - 1) + (y - 1) div 4 - (y - 1) div 100 + (y - 1) div 400"

definition date_of :: "int \<Rightarrow> int \<Rightarrow> int \<Rightarrow> time" where
  "date_of y m d = (days_before_year y + days_before_month y m + (d - 1)) * (24 * Hour)"

definition time_Parse_date :: "string \<Rightarrow> time option" where
  "time_Parse_date s =
     (let y = take 4 s; m = take 2 (drop 5 s); d = take 2 (drop 8 s);
          yv = int (read_digits y); mv = int (read_digits m); dv = int (read_digits d) in
      if length s = 10 \<and> all_digits y \<and> s ! 4 = CHR ''-'' \<and> all_digits m \<and> s ! 7 = CHR ''-'' \<and> all_digits d
         \<and> 1 \<le> mv \<and> mv \<le> 12 \<and> 1 \<le> dv \<and> dv \<le> days_in_month yv mv
      then Some (date_of yv mv dv) else None)"

definition parseDate :: "time \<Rightarrow> string \<Rightarrow> time" where
  "parseDate now s =
     (case time_Parse_date s of Some t \<Rightarrow> t | None \<Rightarrow> now div (24 * Hour) * (24 * Hour))"

text \<open>\<open>time.Date\<close> on the year, month and day of a reading: that day at the given time, UTC.\<close>

definition at_time_of_day :: "time \<Rightarrow> int \<Rightarrow> int \<Rightarrow> time" where
  "at_time_of_day t h m = t div (24 * Hour) * (24 * Hour) + h * Hour + m * Minute"

definition NewClock :: "time \<Rightarrow> string \<Rightarrow> int \<Rightarrow> int \<Rightarrow> Clock" where
  "NewClock now sourceGameDate firstInning seed =
     (let start = at_time_of_day (parseDate now sourceGameDate) FirstPitchHour FirstPitchMinute;
          start = (if 1 < firstInning then start + go_int64 (go_int64 (firstInning - 1) * 20 * Minute) else start)
      in \<lparr>ck_seed = seed, ck_draws = 0, ck_current = start, ck_lastAtBat = 0, ck_lastInning = firstInning,
          ck_started = False\<rparr>)"

text \<open>\<open>r\<close> is the number the source gives; \<open>Int63n\<close> does not panic on this constant bound.\<close>

definition jitter :: "int \<Rightarrow> duration" where
  "jitter r = JitterMin + r mod (JitterMax - JitterMin + 1)"

lemma jitter_Int63n: "Int63n r (JitterMax - JitterMin + 1) = Some (jitter r - JitterMin)"
  by (simp add: Int63n_def jitter_def timing_defs)

definition Clock_gap :: "int \<Rightarrow> Clock \<Rightarrow> PitchContext \<Rightarrow> int \<Rightarrow> duration" where
  "Clock_gap r c ctx atBatNumber =
     (let gap = (if On1B ctx \<or> On2B ctx \<or> On3B ctx then GapRunnersOn else GapBasesEmpty);
          gap = (if 2 \<le> Strikes ctx then gap + TwoStrikeExtra else gap);
          gap = (if Inning ctx \<noteq> ck_lastInning c then gap + HalfInningBreak
                 else if atBatNumber \<noteq> ck_lastAtBat c then gap + AtBatBreak else gap);
          gap = gap + jitter r
      in if gap < Second then Second else gap)"

definition Clock_Next :: "(int \<Rightarrow> nat \<Rightarrow> int) \<Rightarrow> Clock \<Rightarrow> PitchContext \<Rightarrow> int \<Rightarrow> time \<times> Clock" where
  "Clock_Next source c ctx atBatNumber =
     (if \<not> ck_started c
      then (ck_current c, c\<lparr>ck_started := True, ck_lastAtBat := atBatNumber, ck_lastInning := Inning ctx\<rparr>)
      else (let t = ck_current c + Clock_gap (source (ck_seed c) (ck_draws c)) c ctx atBatNumber
        in (t, c\<lparr>ck_draws := ck_draws c + 1, ck_current := t, ck_lastAtBat := atBatNumber,
                 ck_lastInning := Inning ctx\<rparr>)))"

section \<open>The simulator\<close>

definition DeviceKey :: string where "DeviceKey = ''replay-sim-01''"
definition DeviceKind :: string where "DeviceKind = ''REPLAY_SIMULATOR''"

record SimConfig =
  Speed :: f64
  Seed :: int
  sim_Producer :: string

definition SimDefaultConfig :: SimConfig where
  "SimDefaultConfig = \<lparr>Speed = float64 30, Seed = 42, sim_Producer = ''pitchlab-replay/dev''\<rparr>"

text \<open>
  What a run meets: the JSON encoder and SHA-256, the identifiers and the clock readings of the
  envelopes (by their number), how each wait ends (nil, or the end of the context), the random
  numbers of a seed, the clock readings of \<open>parseDate\<close> (by the number of the outing), what the
  machine makes of a duration that is out of range, and the length of the whole run.
\<close>

record sim_env =
  json_Pitch :: "PitchRaw \<Rightarrow> lib_error + string"
  sim_sha256 :: "string \<Rightarrow> string"
  fresh_id :: "nat \<Rightarrow> lib_error + uuid"
  wall :: "nat \<Rightarrow> time"
  wait_ends :: "nat \<Rightarrow> error"
  source :: "int \<Rightarrow> nat \<Rightarrow> int"
  today :: "nat \<Rightarrow> time"
  out_of_range :: "f64 \<Rightarrow> duration"
  run_time :: duration

text \<open>
  What a run acts on: the state behind the emitter, the envelopes it has accepted, how many were
  built, the waits asked for, the outings begun, and the calls of the progress callback.
\<close>

record 'w sim =
  sim_app :: 'w
  sim_sent :: "Envelope list"
  sim_built :: nat
  sim_waits :: "duration list"
  sim_clocks :: nat
  sim_progress :: "(string \<times> int \<times> int \<times> time) list"

record Stats =
  st_Sessions :: int
  st_Pitches :: int
  st_Elapsed :: duration
  st_SimulatedSpan :: duration

type_synonym 'w emitter = "Envelope \<Rightarrow> 'w \<Rightarrow> error \<times> 'w"

definition sim_New :: "SimConfig \<Rightarrow> SimConfig" where
  "sim_New cfg = (if sim_Producer cfg = '''' then cfg\<lparr>sim_Producer := ''pitchlab-replay/dev''\<rparr> else cfg)"

text \<open>FNV-1a on 32-bit words.\<close>

definition hashString :: "string \<Rightarrow> 32 word" where
  "hashString s = foldl (\<lambda>h c. (h XOR of_nat (of_char c)) * 16777619) 2166136261 s"

definition session_seed :: "SimConfig \<Rightarrow> string \<Rightarrow> int" where
  "session_seed cfg uid = go_int64 (Seed cfg + uint (hashString uid))"

definition duration_of :: "(f64 \<Rightarrow> duration) \<Rightarrow> f64 \<Rightarrow> duration" where
  "duration_of wild x = (case x of
       Fin q \<Rightarrow> (let t = (if 0 \<le> q then \<lfloor>q\<rfloor> else - \<lfloor>- q\<rfloor>) in
                  if - (2 ^ 63) \<le> t \<and> t < 2 ^ 63 then t else wild x)
     | _ \<Rightarrow> wild x)"

definition pace :: "sim_env \<Rightarrow> SimConfig \<Rightarrow> duration \<Rightarrow> 'w sim \<Rightarrow> error \<times> 'w sim" where
  "pace ev cfg gap st =
     (if f64_le (Speed cfg) (Fin 0) then (None, st)
      else (let scaled = duration_of (out_of_range ev) (f64_div (float64 gap) (Speed cfg)) in
        if scaled \<le> 0 then (None, st)
        else (wait_ends ev (length (sim_waits st)), st\<lparr>sim_waits := sim_waits st @ [scaled]\<rparr>)))"

definition pitch_event :: "TapeRecord \<Rightarrow> time \<Rightarrow> PitchRaw" where
  "pitch_event r t =
     \<lparr>raw_DeviceID = DeviceKey, raw_DeviceKind = DeviceKind, ExternalGameRef = tr_ExternalGameRef r,
      AtBatNumber = tr_AtBatNumber r, PitchNumber = tr_PitchNumber r, ThrownAt = t,
      SourceGameDate = tr_SourceGameDate r, raw_Session = tr_Session r, raw_Batter = tr_Batter r,
      raw_Context = tr_Context r, raw_Measurement = tr_Measurement r, raw_GroundTruth = tr_GroundTruth r\<rparr>"

definition buildEvent ::
  "sim_env \<Rightarrow> SimConfig \<Rightarrow> TapeRecord \<Rightarrow> time \<Rightarrow> lib_error + uuid \<Rightarrow> time \<Rightarrow> goerr + Envelope" where
  "buildEvent ev cfg r t newID now =
     (case NewEnvelope TypePitchRaw (sim_Producer cfg)
             (IdempotencyKeyFor (sim_sha256 ev) [TapeRecord_PitchUID r])
             (SessionRef_SessionUID (tr_Session r)) t (json_Pitch ev (pitch_event r t)) newID now of
        Inl err \<Rightarrow> Inl err
      | Inr env \<Rightarrow> Inr (env\<lparr>Synthetic := True\<rparr>))"

text \<open>The pitches of one outing from number \<open>i\<close> on, with the time of the one before.\<close>

fun run_pitches ::
  "sim_env \<Rightarrow> SimConfig \<Rightarrow> 'w emitter \<Rightarrow> TapeSession \<Rightarrow> nat \<Rightarrow> time \<Rightarrow> time \<Rightarrow> Clock \<Rightarrow> TapeRecord list
   \<Rightarrow> Stats \<Rightarrow> 'w sim \<Rightarrow> error \<times> time \<times> time \<times> Stats \<times> 'w sim" where
  "run_pitches ev cfg emit s i previous sessionStart ck [] stats st = (None, previous, sessionStart, stats, st)"
| "run_pitches ev cfg emit s i previous sessionStart ck (r # rs) stats st =
     (case Clock_Next (source ev) ck (tr_Context r) (tr_AtBatNumber r) of (t, ck') \<Rightarrow>
      (case (if 0 < i then pace ev cfg (time_Sub t previous) st else (None, st)) of
         (Some err, st) \<Rightarrow> (Some err, previous, sessionStart, stats, st)
       | (None, st) \<Rightarrow>
          (case buildEvent ev cfg r t (fresh_id ev (sim_built st)) (wall ev (sim_built st)) of
             Inl err \<Rightarrow> (Some err, t, sessionStart, stats, st)
           | Inr env \<Rightarrow>
              (let st = st\<lparr>sim_built := sim_built st + 1\<rparr> in
               (case emit env (sim_app st) of
                  (Some err, w) \<Rightarrow>
                    (Some (Wrap (''emit '' @ TapeRecord_PitchUID r @ '': '') err ''''), t, sessionStart, stats,
                     st\<lparr>sim_app := w\<rparr>)
                | (None, w) \<Rightarrow>
                    run_pitches ev cfg emit s (i + 1) t (if i = 0 then t else sessionStart) ck' rs
                      (stats\<lparr>st_Pitches := st_Pitches stats + 1\<rparr>)
                      (st\<lparr>sim_app := w, sim_sent := sim_sent st @ [env],
                          sim_progress := sim_progress st
                            @ [(so_UID s, int i + 1, int (length (so_Pitches s)), t)]\<rparr>))))))"

definition session_clock :: "SimConfig \<Rightarrow> time \<Rightarrow> TapeSession \<Rightarrow> Clock" where
  "session_clock cfg now s =
     NewClock now (so_SourceGameDate s) (Inning (tr_Context (hd (so_Pitches s)))) (session_seed cfg (so_UID s))"

fun run_sessions ::
  "sim_env \<Rightarrow> SimConfig \<Rightarrow> 'w emitter \<Rightarrow> TapeSession list \<Rightarrow> Stats \<Rightarrow> 'w sim \<Rightarrow> error \<times> Stats \<times> 'w sim" where
  "run_sessions ev cfg emit [] stats st = (None, stats, st)"
| "run_sessions ev cfg emit (s # ss) stats st =
     (if length (so_Pitches s) = 0 then run_sessions ev cfg emit ss stats st
      else (case run_pitches ev cfg emit s 0 0 0 (session_clock cfg (today ev (sim_clocks st)) s) (so_Pitches s)
                   stats (st\<lparr>sim_clocks := sim_clocks st + 1\<rparr>) of
          (Some err, _, _, stats, st) \<Rightarrow> (Some err, stats, st)
        | (None, previous, sessionStart, stats, st) \<Rightarrow>
            run_sessions ev cfg emit ss
              (stats\<lparr>st_SimulatedSpan := go_int64 (st_SimulatedSpan stats + time_Sub previous sessionStart)\<rparr>) st))"

definition Run :: "sim_env \<Rightarrow> SimConfig \<Rightarrow> 'w emitter \<Rightarrow> Tape \<Rightarrow> 'w sim \<Rightarrow> error \<times> Stats \<times> 'w sim" where
  "Run ev cfg emit t st =
     (case run_sessions ev cfg emit (Sessions t)
             \<lparr>st_Sessions = int (length (Sessions t)), st_Pitches = 0, st_Elapsed = 0, st_SimulatedSpan = 0\<rparr> st of
        (Some err, stats, st) \<Rightarrow> (Some err, stats, st)
      | (None, stats, st) \<Rightarrow> (None, stats\<lparr>st_Elapsed := run_time ev\<rparr>, st))"

section \<open>The command\<close>

record replay_args =
  arg_tape :: string
  arg_topic :: string
  arg_speed :: f64
  arg_seed :: int
  arg_sessions :: int
  arg_pitcher :: string
  arg_game :: string
  arg_dryRun :: bool
  arg_version :: string

definition buildEmitter :: "codec \<Rightarrow> runtime \<Rightarrow> replay_args \<Rightarrow> 'w cstate emitter" where
  "buildEmitter cd rt args env w = (if arg_dryRun args then (None, w) else Publish cd rt (arg_topic args) env w)"

definition replay_config :: "replay_args \<Rightarrow> SimConfig" where
  "replay_config args =
     \<lparr>Speed = arg_speed args, Seed = arg_seed args, sim_Producer = ''pitchlab-replay/'' @ arg_version args\<rparr>"

text \<open>The error of \<open>run\<close>, and what the simulator was left with.\<close>

definition replay_run ::
  "(string \<Rightarrow> lib_error + TapeRecord) \<Rightarrow> (string \<Rightarrow> lib_error + string \<times> lib_error option) \<Rightarrow> sim_env
   \<Rightarrow> codec \<Rightarrow> runtime \<Rightarrow> replay_args \<Rightarrow> 'w cstate sim \<Rightarrow> error \<times> 'w cstate sim" where
  "replay_run json_Unmarshal open_file ev cd rt args st =
     (if arg_tape args = '''' then
        (Some (LibError False ''--tape is required; generate one with ml/scripts/export_replay_tape.py''), st)
      else (case LoadTape json_Unmarshal open_file (arg_tape args) of
          Inl err \<Rightarrow> (Some err, st)
        | Inr tape \<Rightarrow>
           (let tape = Tape_Filter (arg_sessions args) (arg_pitcher args) (arg_game args) tape in
            if length (Sessions tape) = 0 then (Some (LibError False ''no outing matched the filters''), st)
            else (case Run ev (sim_New (replay_config args)) (buildEmitter cd rt args) tape st of
                (Some err, stats, st) \<Rightarrow> (if errors_Is err context_Canceled then None else Some err, st)
              | (None, stats, st) \<Rightarrow> (None, st)))))"

definition replay_exit :: "error \<Rightarrow> int" where
  "replay_exit err = (case err of None \<Rightarrow> 0 | Some e \<Rightarrow> if errors_Is e context_Canceled then 0 else 1)"

section \<open>Pacing\<close>

lemma jitter_range: "JitterMin \<le> jitter r \<and> jitter r \<le> JitterMax"
  using pos_mod_bound [of "JitterMax - JitterMin + 1" r] pos_mod_sign [of "JitterMax - JitterMin + 1" r]
  by (auto simp: jitter_def timing_defs)

text \<open>The floor of one second in \<open>Next\<close> is never reached: the shortest gap is 17 seconds.\<close>

lemma gap_range: "17 * Second \<le> Clock_gap r c ctx ab \<and> Clock_gap r c ctx ab \<le> 179 * Second"
  using jitter_range [of r] by (auto simp: Clock_gap_def Let_def timing_defs)

fun clock_times :: "(int \<Rightarrow> nat \<Rightarrow> int) \<Rightarrow> Clock \<Rightarrow> TapeRecord list \<Rightarrow> time list" where
  "clock_times src ck [] = []"
| "clock_times src ck (r # rs) =
     (case Clock_Next src ck (tr_Context r) (tr_AtBatNumber r) of (t, ck') \<Rightarrow> t # clock_times src ck' rs)"

lemma length_clock_times [simp]: "length (clock_times src ck rs) = length rs"
  by (induction rs arbitrary: ck) (auto split: prod.splits)

definition plausible_gap :: "time \<Rightarrow> time \<Rightarrow> bool" where
  "plausible_gap t u \<longleftrightarrow> 17 * Second \<le> u - t \<and> u - t \<le> 179 * Second"

lemma clock_times_running: "ck_started ck \<Longrightarrow> successively plausible_gap (ck_current ck # clock_times src ck rs)"
proof (induction rs arbitrary: ck)
  case (Cons r rs)
  obtain t ck' where n: "Clock_Next src ck (tr_Context r) (tr_AtBatNumber r) = (t, ck')" by fastforce
  with Cons.prems gap_range [of _ ck "tr_Context r" "tr_AtBatNumber r"]
  have "plausible_gap (ck_current ck) t" "ck_started ck'" "ck_current ck' = t"
    by (auto simp: Clock_Next_def plausible_gap_def Let_def)
  with Cons.IH [of ck'] n show ?case by simp
qed simp

lemma clock_times_first:
  "\<not> ck_started ck \<Longrightarrow> rs \<noteq> [] \<Longrightarrow>
     hd (clock_times src ck rs) = ck_current ck \<and> successively plausible_gap (clock_times src ck rs)"
  using clock_times_running [of "ck\<lparr>ck_started := True, ck_lastAtBat := ab, ck_lastInning := inn\<rparr>" src "tl rs" for ab inn]
  by (cases rs) (auto simp: Clock_Next_def)

lemma NewClock_not_started: "\<not> ck_started (NewClock now d i seed)"
  by (simp add: NewClock_def Let_def)

lemma successively_from:
  "successively plausible_gap ts \<Longrightarrow> ts \<noteq> [] \<Longrightarrow> t \<in> set ts \<Longrightarrow> hd ts \<le> t"
proof (induction ts)
  case (Cons u us)
  show ?case
  proof (cases "us = []")
    case False
    with Cons.prems have "u \<le> hd us" by (cases us) (auto simp: plausible_gap_def)
    with Cons False show ?thesis by (auto simp: successively_Cons)
  qed (use Cons.prems in simp)
qed simp

section \<open>The plan of a tape\<close>

text \<open>What of an envelope does not depend on the run: all but the identifiers and the moment of production.\<close>

definition stable_part :: "Envelope \<Rightarrow> Envelope" where
  "stable_part e = e\<lparr>EventID := uuid_Nil, CorrelationID := uuid_Nil, ProducedAt := 0\<rparr>"

definition planned :: "sim_env \<Rightarrow> SimConfig \<Rightarrow> TapeRecord \<Rightarrow> time \<Rightarrow> goerr + Envelope" where
  "planned ev cfg r t = buildEvent ev cfg r t (Inr uuid_Nil) 0"

definition outing_plan :: "sim_env \<Rightarrow> SimConfig \<Rightarrow> time \<Rightarrow> TapeSession \<Rightarrow> (goerr + Envelope) list" where
  "outing_plan ev cfg now s =
     map2 (planned ev cfg) (so_Pitches s) (clock_times (source ev) (session_clock cfg now s) (so_Pitches s))"

definition tape_plan :: "sim_env \<Rightarrow> SimConfig \<Rightarrow> Tape \<Rightarrow> (goerr + Envelope) list" where
  "tape_plan ev cfg t = concat (map (outing_plan ev cfg 0) (Sessions t))"

abbreviation sent_plan :: "'w sim \<Rightarrow> (goerr + Envelope) list" where
  "sent_plan st \<equiv> map (\<lambda>e. Inr (stable_part e)) (sim_sent st)"

lemma buildEvent_Inr_iff:
  "buildEvent ev cfg r t i now = Inr e \<longleftrightarrow>
     (\<exists>d k. json_Pitch ev (pitch_event r t) = Inr d \<and> i = Inr k \<and>
        e = \<lparr>EventID = k, EventType = TypePitchRaw, env_SchemaVersion = SchemaVersion, OccurredAt = t,
             ProducedAt = now, Producer = sim_Producer cfg, CorrelationID = k, CausationID = None,
             IdempotencyKey = IdempotencyKeyFor (sim_sha256 ev) [TapeRecord_PitchUID r],
             PartitionKey = SessionRef_SessionUID (tr_Session r), Synthetic = True, Data = d\<rparr>)"
  by (auto simp: buildEvent_def NewEnvelope_def split: sum.splits)

lemma buildEvent_planned: "buildEvent ev cfg r t i now = Inr e \<Longrightarrow> planned ev cfg r t = Inr (stable_part e)"
  by (auto simp: planned_def buildEvent_Inr_iff stable_part_def uuid_Nil_def)

lemma pace_keeps: "pace ev cfg gap st = (err, st') \<Longrightarrow> sim_sent st' = sim_sent st \<and> sim_app st' = sim_app st
    \<and> sim_clocks st' = sim_clocks st \<and> sim_built st' = sim_built st"
  by (auto simp: pace_def Let_def split: if_splits)

text \<open>Every turn of the loop is one of four: interrupted in the wait, not built, refused, or sent.\<close>

lemma run_pitches_step:
  assumes run: "run_pitches ev cfg emit s i p0 s0 ck (r # rs) stats st = (err, p', s', stats', st')"
    and nxt: "Clock_Next (source ev) ck (tr_Context r) (tr_AtBatNumber r) = (t, ck')"
  obtains st1 e where "err = Some e" "st' = st1" "sim_sent st1 = sim_sent st" "sim_app st1 = sim_app st" "0 < i"
      "pace ev cfg (time_Sub t p0) st = (Some e, st1)"
  | st1 e where "err = Some e" "st' = st1" "sim_sent st1 = sim_sent st" "sim_app st1 = sim_app st"
      "buildEvent ev cfg r t (fresh_id ev (sim_built st)) (wall ev (sim_built st)) = Inl e"
  | env e w where "buildEvent ev cfg r t (fresh_id ev (sim_built st)) (wall ev (sim_built st)) = Inr env"
      "emit env (sim_app st) = (Some e, w)" "sim_sent st' = sim_sent st" "sim_app st' = w"
      "err = Some (Wrap (''emit '' @ TapeRecord_PitchUID r @ '': '') e '''')"
  | st1 env w where "buildEvent ev cfg r t (fresh_id ev (sim_built st)) (wall ev (sim_built st)) = Inr env"
      "emit env (sim_app st) = (None, w)" "sim_sent st1 = sim_sent st @ [env]" "sim_app st1 = w"
      "sim_clocks st1 = sim_clocks st"
      "run_pitches ev cfg emit s (i + 1) t (if i = 0 then t else s0) ck' rs
         (stats\<lparr>st_Pitches := st_Pitches stats + 1\<rparr>) st1 = (err, p', s', stats', st')"
proof -
  obtain e1 st1 where pc: "(if 0 < i then pace ev cfg (time_Sub t p0) st else (None, st)) = (e1, st1)"
    by fastforce
  then have keep: "sim_sent st1 = sim_sent st" "sim_app st1 = sim_app st" "sim_clocks st1 = sim_clocks st"
      "sim_built st1 = sim_built st"
    using pace_keeps [of ev cfg "time_Sub t p0" st e1 st1] by (auto split: if_splits)
  note run' = run [unfolded run_pitches.simps(2) nxt prod.case pc]
  show thesis
  proof (cases e1)
    case (Some e)
    with pc run' keep show thesis by (intro that(1) [of e st1]) (auto split: if_splits)
  next
    case None
    show thesis
    proof (cases "buildEvent ev cfg r t (fresh_id ev (sim_built st)) (wall ev (sim_built st))")
      case (Inl e)
      with None run' keep show thesis by (intro that(2) [of e st1]) auto
    next
      case (Inr env)
      obtain e2 w where em: "emit env (sim_app st) = (e2, w)" by fastforce
      show thesis
      proof (cases e2)
        case (Some e)
        with None run' keep Inr em show thesis by (intro that(3) [of env e w]) (auto simp: Let_def)
      next
        case e2: None
        with None run' keep Inr em show thesis
          by (intro that(4) [of env w "st1\<lparr>sim_built := sim_built st1 + 1, sim_app := w, sim_sent := sim_sent st1 @ [env],
                sim_progress := sim_progress st1 @ [(so_UID s, int i + 1, int (length (so_Pitches s)), t)]\<rparr>"])
            (auto simp: Let_def)
      qed
    qed
  qed
qed

lemma run_pitches_sent:
  "run_pitches ev cfg emit s i p0 s0 ck rs stats st = (err, p', s', stats', st') \<Longrightarrow>
     \<exists>n \<le> length rs. sent_plan st' = sent_plan st @ take n (map2 (planned ev cfg) rs (clock_times (source ev) ck rs))
       \<and> (err = None \<longrightarrow> n = length rs \<and> sim_clocks st' = sim_clocks st)"
proof (induction rs arbitrary: i p0 s0 ck stats st)
  case Nil
  then show ?case by auto
next
  case (Cons r rs)
  obtain t ck' where nxt: "Clock_Next (source ev) ck (tr_Context r) (tr_AtBatNumber r) = (t, ck')" by fastforce
  from Cons.prems show ?case
  proof (cases rule: run_pitches_step [OF _ nxt, consumes 1])
    case (4 st1 env w)
    from Cons.IH [OF 4(6)] obtain n where n: "n \<le> length rs"
      "sent_plan st' = sent_plan st1 @ take n (map2 (planned ev cfg) rs (clock_times (source ev) ck' rs))"
      "err = None \<longrightarrow> n = length rs \<and> sim_clocks st' = sim_clocks st1" by blast
    with 4 nxt show ?thesis
      by (intro exI [of _ "Suc n"]) (auto simp: buildEvent_planned)
  qed (auto intro: exI [of _ 0])
qed

definition dated :: "Tape \<Rightarrow> bool" where
  "dated t \<longleftrightarrow> (\<forall>s \<in> set (Sessions t). time_Parse_date (so_SourceGameDate s) \<noteq> None)"

lemma session_clock_dated:
  "time_Parse_date (so_SourceGameDate s) \<noteq> None \<Longrightarrow> session_clock cfg now s = session_clock cfg 0 s"
  by (auto simp: session_clock_def NewClock_def parseDate_def)

lemma outing_plan_Nil: "so_Pitches s = [] \<Longrightarrow> outing_plan ev cfg now s = []"
  by (simp add: outing_plan_def)

lemma length_outing_plan [simp]: "length (outing_plan ev cfg now s) = length (so_Pitches s)"
  by (simp add: outing_plan_def)

lemma run_sessions_sent:
  "run_sessions ev cfg emit ss stats st = (err, stats', st') \<Longrightarrow>
   \<forall>s \<in> set ss. time_Parse_date (so_SourceGameDate s) \<noteq> None \<Longrightarrow>
     \<exists>n. sent_plan st' = sent_plan st @ take n (concat (map (outing_plan ev cfg 0) ss))
       \<and> (err = None \<longrightarrow> n = length (concat (map (outing_plan ev cfg 0) ss)))"
proof (induction ss arbitrary: stats st)
  case (Cons s ss)
  show ?case
  proof (cases "so_Pitches s = []")
    case True
    with Cons show ?thesis by (simp add: outing_plan_Nil)
  next
    case False
    let ?ck = "session_clock cfg (today ev (sim_clocks st)) s"
    obtain e1 p1 s1 stats1 st1 where run: "run_pitches ev cfg emit s 0 0 0 ?ck (so_Pitches s) stats
        (st\<lparr>sim_clocks := sim_clocks st + 1\<rparr>) = (e1, p1, s1, stats1, st1)"
      using prod_cases5 by blast
    have ck: "?ck = session_clock cfg 0 s" using Cons.prems(2) by (intro session_clock_dated) simp
    from run_pitches_sent [OF run [unfolded ck]] obtain n where n: "n \<le> length (so_Pitches s)"
      "sent_plan st1 = sent_plan st @ take n (outing_plan ev cfg 0 s)" "e1 = None \<longrightarrow> n = length (so_Pitches s)"
      by (auto simp: outing_plan_def)
    show ?thesis
    proof (cases e1)
      case (Some e)
      with Cons.prems(1) False run n show ?thesis by (intro exI [of _ n]) auto
    next
      case None
      with Cons.prems(1) False run obtain stats2 where
        "run_sessions ev cfg emit ss stats2 st1 = (err, stats', st')" by auto
      from Cons.IH [OF this] Cons.prems(2) obtain m where
        "sent_plan st' = sent_plan st1 @ take m (concat (map (outing_plan ev cfg 0) ss))"
        "err = None \<longrightarrow> m = length (concat (map (outing_plan ev cfg 0) ss))" by auto
      with n None show ?thesis
        by (intro exI [of _ "length (so_Pitches s) + m"]) auto
    qed
  qed
qed auto

text \<open>What a run sends is a prefix of the plan of its tape; all of it, when the run ends without an error.\<close>

lemma Run_refines_plan:
  assumes "Run ev cfg emit t st = (err, stats, st')" and "dated t"
  shows "\<exists>n. sent_plan st' = sent_plan st @ take n (tape_plan ev cfg t) \<and> (err = None \<longrightarrow> n = length (tape_plan ev cfg t))"
proof -
  obtain stats0 stats1 where "run_sessions ev cfg emit (Sessions t) stats0 st = (err, stats1, st')"
    using assms(1) by (auto simp: Run_def split: prod.splits option.splits)
  from run_sessions_sent [OF this] assms(2) show ?thesis by (auto simp: tape_plan_def dated_def)
qed

text \<open>The plan sees neither the speed nor anything that changes from run to run.\<close>

lemma session_clock_seed: "Seed cfg = Seed cfg' \<Longrightarrow> session_clock cfg now s = session_clock cfg' now s"
  by (simp add: session_clock_def session_seed_def)

lemma planned_cong:
  "json_Pitch ev = json_Pitch ev' \<Longrightarrow> sim_sha256 ev = sim_sha256 ev' \<Longrightarrow> sim_Producer cfg = sim_Producer cfg' \<Longrightarrow>
     planned ev cfg = planned ev' cfg'"
  by (intro ext) (simp add: planned_def buildEvent_def)

lemma tape_plan_cong:
  assumes "json_Pitch ev = json_Pitch ev'" "sim_sha256 ev = sim_sha256 ev'" "source ev = source ev'"
    "sim_Producer cfg = sim_Producer cfg'" "Seed cfg = Seed cfg'"
  shows "tape_plan ev cfg t = tape_plan ev' cfg' t"
  using assms session_clock_seed [OF assms(5)] planned_cong [OF assms(1,2,4)]
  by (simp add: tape_plan_def outing_plan_def [abs_def])

subsection \<open>Filters\<close>

lemma filter_sessions_subseq: "\<exists>kept. filter_sessions n p g ss out = out @ kept \<and> subseq kept ss"
proof (induction n p g ss out rule: filter_sessions.induct)
  case (2 n p g s ss out)
  then show ?case by (auto simp: subseq_Cons')
qed simp

lemma Filter_subseq: "subseq (Sessions (Tape_Filter n p g t)) (Sessions t)"
  using filter_sessions_subseq [of n p g "Sessions t" "[]"] by (auto simp: Tape_Filter_def)

lemma Filter_identity: "n \<le> 0 \<Longrightarrow> Tape_Filter n '''' '''' t = t"
proof -
  assume n: "n \<le> 0"
  have "filter_sessions n '''' '''' ss out = out @ ss" for ss out
    using n by (induction ss arbitrary: out) auto
  then show ?thesis by (simp add: Tape_Filter_def)
qed

lemma Filter_dated: "dated t \<Longrightarrow> dated (Tape_Filter n p g t)"
  using Filter_subseq [of n p g t] by (auto simp: dated_def dest: list_emb_set)

lemma subseq_concat_map: "subseq xs ys \<Longrightarrow> subseq (concat (map f xs)) (concat (map f ys))"
  by (induction rule: list_emb.induct) (auto intro: list_emb_append_mono subseq_drop_many)

lemma Filter_plan: "subseq (tape_plan ev cfg (Tape_Filter n p g t)) (tape_plan ev cfg t)"
  unfolding tape_plan_def by (rule subseq_concat_map [OF Filter_subseq])

section \<open>Reading a tape\<close>

abbreviation rec_uid :: "TapeRecord \<Rightarrow> string" where
  "rec_uid r \<equiv> SessionRef_SessionUID (tr_Session r)"

definition pitch_key :: "TapeRecord \<Rightarrow> int \<times> int" where
  "pitch_key r = (tr_AtBatNumber r, tr_PitchNumber r)"

lemma pitch_less_key: "pitch_less x y \<longleftrightarrow> pitch_key x < pitch_key y"
  by (auto simp: pitch_less_def pitch_key_def less_prod_def' )

text \<open>\<open>sort.SliceStable\<close> with that comparison is the library's stable sort by the key.\<close>

lemma insert_stable_insort: "insert_stable pitch_less = insort_key pitch_key"
proof (intro ext)
  show "insert_stable pitch_less x ys = insort_key pitch_key x ys" for x ys
    by (induction ys) (auto simp: pitch_less_key)
qed

lemma SliceStable_sort: "SliceStable pitch_less xs = sort_key pitch_key xs"
  by (simp add: SliceStable_def insert_stable_insort sort_key_def)

definition records_of :: "(string \<Rightarrow> lib_error + TapeRecord) \<Rightarrow> string list \<Rightarrow> TapeRecord list" where
  "records_of json_Unmarshal raws =
     map (\<lambda>raw. projr (json_Unmarshal raw)) (filter (\<lambda>raw. raw \<noteq> '''') raws)"

lemma read_records_Inr:
  "read_records dec n raws acc = Inr acc' \<Longrightarrow>
     acc' = fold add_record (records_of dec raws) acc \<and> (\<forall>r \<in> set (records_of dec raws). rec_uid r \<noteq> '''')"
  by (induction dec n raws acc rule: read_records.induct)
    (auto simp: records_of_def split: if_splits sum.splits)

definition acc_ok :: "TapeRecord list \<Rightarrow> tape_acc \<Rightarrow> bool" where
  "acc_ok rs acc \<longleftrightarrow> distinct (snd acc) \<and> set (snd acc) = rec_uid ` set rs \<and> dom (fst acc) = set (snd acc) \<and>
     (\<forall>u s. fst acc u = Some s \<longrightarrow> so_UID s = u \<and> so_Pitches s = filter (\<lambda>r. rec_uid r = u) rs)"

lemma add_record_ok: "acc_ok rs acc \<Longrightarrow> acc_ok (rs @ [r]) (add_record r acc)"
proof (cases acc)
  case (Pair m ord)
  assume ok: "acc_ok rs acc"
  have none: "m u = None \<Longrightarrow> filter (\<lambda>r. rec_uid r = u) rs = []" for u
    using ok Pair by (auto simp: acc_ok_def filter_empty_conv)
  show ?thesis
    using ok none Pair
    by (cases "m (rec_uid r)") (auto simp: acc_ok_def add_record_def Let_def)
qed

lemma fold_add_record_ok: "acc_ok rs (fold add_record rs (Map.empty, []))"
  by (induction rs rule: rev_induct) (simp add: acc_ok_def, simp add: add_record_ok)

lemma map_filter_total: "set us \<subseteq> dom m \<Longrightarrow> List.map_filter m us = map (the \<circ> m) us"
  by (induction us) (auto simp: List.map_filter_simps)

lemma mset_partition:
  assumes "distinct us" "k ` set rs \<subseteq> set us"
  shows "mset (concat (map (\<lambda>u. filter (\<lambda>r. k r = u) rs) us)) = mset rs"
  using assms
proof (induction us arbitrary: rs)
  case (Cons u us)
  let ?rest = "filter (\<lambda>r. k r \<noteq> u) rs"
  have "k ` set ?rest \<subseteq> set us" using Cons.prems by auto
  with Cons.IH [of ?rest] Cons.prems(1)
  have ih: "mset (concat (map (\<lambda>v. filter (\<lambda>r. k r = v) ?rest) us)) = mset ?rest" by auto
  have "filter (\<lambda>r. k r = v) ?rest = filter (\<lambda>r. k r = v) rs" if "v \<in> set us" for v
    using that Cons.prems by (auto intro!: filter_cong)
  then have "map (\<lambda>v. filter (\<lambda>r. k r = v) ?rest) us = map (\<lambda>v. filter (\<lambda>r. k r = v) rs) us" by (intro map_cong) auto
  with ih have "mset (concat (map (\<lambda>v. filter (\<lambda>r. k r = v) rs) us)) = mset ?rest" by (simp only:)
  then show ?case using multiset_partition [of "mset rs" "\<lambda>r. k r = u"] by simp
qed simp

section \<open>What a replay guarantees\<close>

text \<open>
  Every record of the file is in exactly one outing, that of its session: the outing holds the
  records of its session, sorted by at-bat and pitch number and, where these agree, in the order
  of the file.
\<close>

lemma tape_partition:
  assumes "ReadTape dec content read_err = Inr t"
  defines "rs \<equiv> records_of dec (scan_tokens content)"
  shows "distinct (map so_UID (Sessions t)) \<and> Sessions t \<noteq> []
     \<and> mset (concat (map so_Pitches (Sessions t))) = mset rs
     \<and> (\<forall>s \<in> set (Sessions t). so_Pitches s \<noteq> []
          \<and> so_Pitches s = sort_key pitch_key (filter (\<lambda>r. rec_uid r = so_UID s) rs))"
proof -
  from assms(1) obtain m ord where rd: "read_records dec 0 (scan_tokens content) (Map.empty, []) = Inr (m, ord)"
    and t: "Sessions t = map (\<lambda>s. s\<lparr>so_Pitches := sort_key pitch_key (so_Pitches s)\<rparr>) (List.map_filter m ord)"
    and ne: "ord \<noteq> []"
    by (auto simp: ReadTape_def SliceStable_sort split: sum.splits prod.splits option.splits if_splits)
  from read_records_Inr [OF rd] have "(m, ord) = fold add_record rs (Map.empty, [])" by (simp add: rs_def)
  with fold_add_record_ok [of rs] have ok: "acc_ok rs (m, ord)" by simp
  then have dom: "set ord \<subseteq> dom m" by (simp add: acc_ok_def)
  have ss: "Sessions t = map (\<lambda>u. (the (m u))\<lparr>so_Pitches := sort_key pitch_key (filter (\<lambda>r. rec_uid r = u) rs)\<rparr>) ord"
  proof -
    have "so_Pitches (the (m u)) = filter (\<lambda>r. rec_uid r = u) rs" if "u \<in> set ord" for u
    proof -
      from dom that obtain s where "m u = Some s" by blast
      with ok show ?thesis by (simp add: acc_ok_def)
    qed
    then show ?thesis by (auto simp: t map_filter_total [OF dom])
  qed
  have uid: "so_UID (the (m u)) = u" if "u \<in> set ord" for u
  proof -
    from dom that obtain s where "m u = Some s" by blast
    with ok show ?thesis by (simp add: acc_ok_def)
  qed
  have uids: "map so_UID (Sessions t) = ord" using uid by (auto simp: ss intro!: map_idI)
  have "mset (concat (map so_Pitches (Sessions t))) = mset (concat (map (\<lambda>u. filter (\<lambda>r. rec_uid r = u) rs) ord))"
    by (simp add: ss mset_concat comp_def)
  also have "\<dots> = mset rs" using ok by (intro mset_partition) (auto simp: acc_ok_def)
  finally have "mset (concat (map so_Pitches (Sessions t))) = mset rs" .
  moreover have "so_Pitches s \<noteq> [] \<and> so_Pitches s = sort_key pitch_key (filter (\<lambda>r. rec_uid r = so_UID s) rs)"
    if "s \<in> set (Sessions t)" for s
  proof -
    from that obtain u where u: "u \<in> set ord"
      "s = (the (m u))\<lparr>so_Pitches := sort_key pitch_key (filter (\<lambda>r. rec_uid r = u) rs)\<rparr>" by (auto simp: ss)
    from u(1) ok have "u \<in> rec_uid ` set rs" by (simp add: acc_ok_def)
    then have "filter (\<lambda>r. rec_uid r = u) rs \<noteq> []" by (auto simp: filter_empty_conv)
    with u uid show ?thesis by (auto simp: set_empty [symmetric] simp del: set_empty)
  qed
  moreover have "distinct (map so_UID (Sessions t))" using ok by (simp add: uids acc_ok_def)
  moreover have "Sessions t \<noteq> []" using ne by (simp add: ss)
  ultimately show ?thesis by blast
qed

definition tape_ok :: "Tape \<Rightarrow> bool" where
  "tape_ok t \<longleftrightarrow> distinct (map so_UID (Sessions t)) \<and>
     (\<forall>s \<in> set (Sessions t). so_Pitches s \<noteq> [] \<and> so_UID s \<noteq> '''' \<and> (\<forall>r \<in> set (so_Pitches s). rec_uid r = so_UID s))"

lemma read_records_uids:
  assumes "ReadTape dec content read_err = Inr t" "r \<in> set (records_of dec (scan_tokens content))"
  shows "rec_uid r \<noteq> ''''"
proof -
  from assms(1) obtain acc where "read_records dec 0 (scan_tokens content) (Map.empty, []) = Inr acc"
    by (auto simp: ReadTape_def split: sum.splits)
  from read_records_Inr [OF this] assms(2) show ?thesis by blast
qed

lemma ReadTape_ok:
  assumes "ReadTape dec content read_err = Inr t"
  shows "tape_ok t"
proof -
  let ?rs = "records_of dec (scan_tokens content)"
  have dist: "distinct (map so_UID (Sessions t))" and
    each: "\<forall>s \<in> set (Sessions t). so_Pitches s \<noteq> [] \<and> so_Pitches s = sort_key pitch_key (filter (\<lambda>r. rec_uid r = so_UID s) ?rs)"
    using tape_partition [OF assms] by blast+
  have "so_Pitches s \<noteq> [] \<and> so_UID s \<noteq> '''' \<and> (\<forall>r \<in> set (so_Pitches s). rec_uid r = so_UID s)"
    if s: "s \<in> set (Sessions t)" for s
  proof -
    from each s have "so_Pitches s = sort_key pitch_key (filter (\<lambda>r. rec_uid r = so_UID s) ?rs)" by blast
    then have "set (so_Pitches s) = set (sort_key pitch_key (filter (\<lambda>r. rec_uid r = so_UID s) ?rs))" by (rule arg_cong)
    with each s have p: "so_Pitches s \<noteq> []" "set (so_Pitches s) = {r \<in> set ?rs. rec_uid r = so_UID s}" by auto
    then obtain r where "r \<in> set (so_Pitches s)" by (cases "so_Pitches s") auto
    with p read_records_uids [OF assms, of r] show ?thesis by auto
  qed
  with dist show ?thesis by (simp add: tape_ok_def)
qed

lemma subseq_distinct_map: "subseq xs ys \<Longrightarrow> distinct (map f ys) \<Longrightarrow> distinct (map f xs)"
  by (induction rule: list_emb.induct) (auto dest: list_emb_set)

lemma Filter_ok: "tape_ok t \<Longrightarrow> tape_ok (Tape_Filter n p g t)"
  using list_emb_set [OF Filter_subseq [of n p g t]] subseq_distinct_map [OF Filter_subseq [of n p g t], of so_UID]
  unfolding tape_ok_def by metis

section \<open>The times of an outing\<close>

definition outing_pairs :: "sim_env \<Rightarrow> SimConfig \<Rightarrow> TapeSession \<Rightarrow> (TapeRecord \<times> time) list" where
  "outing_pairs ev cfg s = zip (so_Pitches s) (clock_times (source ev) (session_clock cfg 0 s) (so_Pitches s))"

lemma tape_plan_pairs:
  "tape_plan ev cfg t = map (\<lambda>(r, u). planned ev cfg r u) (concat (map (outing_pairs ev cfg) (Sessions t)))"
  by (simp add: tape_plan_def outing_plan_def [abs_def] outing_pairs_def map_concat comp_def)

lemma map_eq_transfer: "map f xs = map g ys \<Longrightarrow> (\<And>x y. f x = g y \<Longrightarrow> h x = k y) \<Longrightarrow> map h xs = map k ys"
proof (induction xs arbitrary: ys)
  case (Cons x xs)
  then show ?case by (cases ys) auto
qed auto

lemma planned_keys: "planned ev cfg r u = Inr (stable_part e) \<Longrightarrow> (PartitionKey e, OccurredAt e) = (rec_uid r, u)"
  by (cases e) (auto simp: planned_def buildEvent_Inr_iff stable_part_def)

lemma sent_keys:
  assumes "map (\<lambda>e. Inr (stable_part e)) es = take n (tape_plan ev cfg t)"
  shows "map (\<lambda>e. (PartitionKey e, OccurredAt e)) es =
    take n (concat (map (\<lambda>s. map (\<lambda>(r, u). (rec_uid r, u)) (outing_pairs ev cfg s)) (Sessions t)))"
proof -
  have "map (\<lambda>e. Inr (stable_part e)) es
      = map (\<lambda>(r, u). planned ev cfg r u) (take n (concat (map (outing_pairs ev cfg) (Sessions t))))"
    using assms by (simp add: tape_plan_pairs take_map)
  then have "map (\<lambda>e. (PartitionKey e, OccurredAt e)) es
      = map (\<lambda>(r, u). (rec_uid r, u)) (take n (concat (map (outing_pairs ev cfg) (Sessions t))))"
    by (rule map_eq_transfer) (use planned_keys in \<open>force\<close>)
  then show ?thesis by (simp add: take_map [symmetric] map_concat comp_def)
qed

lemma concat_of_key:
  assumes "distinct (map k ss)" "\<forall>s \<in> set ss. \<forall>x \<in> set (f s). fst x = k s"
  shows "filter (\<lambda>x. fst x = u) (concat (map f ss)) = (case find (\<lambda>s. k s = u) ss of None \<Rightarrow> [] | Some s \<Rightarrow> f s)"
  using assms
proof (induction ss)
  case (Cons s ss)
  have all: "filter (\<lambda>x. fst x = u) (f s) = (if k s = u then f s else [])"
    using Cons.prems(2) by (auto simp: filter_id_conv filter_empty_conv)
  have "find (\<lambda>s'. k s' = u) ss = None" if "k s = u"
    using that Cons.prems(1) by (force simp: find_None_iff image_iff)
  with Cons all show ?case by auto
qed simp

lemma filter_take_prefix: "prefix (filter P (take n xs)) (filter P xs)"
  by (metis append_take_drop_id filter_append prefixI)

lemma successively_prefix: "prefix xs ys \<Longrightarrow> successively P ys \<Longrightarrow> successively P xs"
  by (auto simp: prefix_def successively_append_iff)

lemma outing_times_plausible:
  assumes "so_Pitches s \<noteq> []"
  shows "successively plausible_gap (map snd (outing_pairs ev cfg s))"
    and "hd (map snd (outing_pairs ev cfg s)) = ck_current (session_clock cfg 0 s)"
  using clock_times_first [of "session_clock cfg 0 s" "so_Pitches s" "source ev"] assms NewClock_not_started
  by (simp_all add: outing_pairs_def session_clock_def)

section \<open>Well-formed events\<close>

lemma run_pitches_built:
  "run_pitches ev cfg emit s i p0 s0 ck rs stats st = (err, p', s', stats', st') \<Longrightarrow> e \<in> set (sim_sent st') \<Longrightarrow>
     e \<in> set (sim_sent st) \<or> (\<exists>r t k. r \<in> set rs \<and> t \<in> set (clock_times (source ev) ck rs) \<and>
        buildEvent ev cfg r t (fresh_id ev k) (wall ev k) = Inr e)"
proof (induction rs arbitrary: i p0 s0 ck stats st)
  case (Cons r rs)
  obtain t ck' where nxt: "Clock_Next (source ev) ck (tr_Context r) (tr_AtBatNumber r) = (t, ck')" by fastforce
  from Cons.prems(1) show ?case
  proof (cases rule: run_pitches_step [OF _ nxt, consumes 1])
    case (4 st1 env w)
    with Cons.IH [OF 4(6) Cons.prems(2)] nxt show ?thesis by auto
  qed (use Cons.prems(2) in auto)
qed simp

lemma run_sessions_built:
  "run_sessions ev cfg emit ss stats st = (err, stats', st') \<Longrightarrow> e \<in> set (sim_sent st') \<Longrightarrow>
     e \<in> set (sim_sent st) \<or> (\<exists>s r t k now. s \<in> set ss \<and> r \<in> set (so_Pitches s) \<and>
        t \<in> set (clock_times (source ev) (session_clock cfg now s) (so_Pitches s)) \<and>
        buildEvent ev cfg r t (fresh_id ev k) (wall ev k) = Inr e)"
proof (induction ss arbitrary: stats st)
  case (Cons s ss)
  show ?case
  proof (cases "so_Pitches s = []")
    case True
    with Cons.prems(1) have "run_sessions ev cfg emit ss stats st = (err, stats', st')" by simp
    from Cons.IH [OF this Cons.prems(2)] show ?thesis by (meson list.set_intros(2))
  next
    case False
    let ?ck = "session_clock cfg (today ev (sim_clocks st)) s"
    obtain e1 p1 s1 stats1 st1 where run: "run_pitches ev cfg emit s 0 0 0 ?ck (so_Pitches s) stats
        (st\<lparr>sim_clocks := sim_clocks st + 1\<rparr>) = (e1, p1, s1, stats1, st1)"
      using prod_cases5 by blast
    have here: "e \<in> set (sim_sent st1) \<Longrightarrow> ?thesis"
      using run_pitches_built [OF run, of e] by auto
    show ?thesis
    proof (cases e1)
      case (Some x)
      with Cons.prems False run here show ?thesis by auto
    next
      case None
      with Cons.prems(1) False run obtain stats2 where
        "run_sessions ev cfg emit ss stats2 st1 = (err, stats', st')" by auto
      from Cons.IH [OF this Cons.prems(2)] here show ?thesis by (meson list.set_intros(2))
    qed
  qed
qed simp

lemma Run_built:
  assumes "Run ev cfg emit t st = (err, stats, st')" "sim_sent st = []" "e \<in> set (sim_sent st')"
  obtains s r u k now where "s \<in> set (Sessions t)" "r \<in> set (so_Pitches s)"
    "u \<in> set (clock_times (source ev) (session_clock cfg now s) (so_Pitches s))"
    "buildEvent ev cfg r u (fresh_id ev k) (wall ev k) = Inr e"
proof -
  obtain stats0 stats1 where "run_sessions ev cfg emit (Sessions t) stats0 st = (err, stats1, st')"
    using assms(1) by (auto simp: Run_def split: prod.splits option.splits)
  from run_sessions_built [OF this assms(3)] assms(2) that show thesis by auto
qed

text \<open>Outings of our era that begin before inning one million start after the zero time.\<close>

definition sane_start :: "Tape \<Rightarrow> bool" where
  "sane_start t \<longleftrightarrow> (\<forall>s \<in> set (Sessions t). Inning (tr_Context (hd (so_Pitches s))) \<le> 1000000 \<and>
     (case time_Parse_date (so_SourceGameDate s) of None \<Rightarrow> False | Some d \<Rightarrow> 0 \<le> d))"

lemma sane_start_clock: "sane_start t \<Longrightarrow> s \<in> set (Sessions t) \<Longrightarrow> 0 < ck_current (session_clock cfg now s)"
proof -
  assume a: "sane_start t" "s \<in> set (Sessions t)"
  then obtain d where d: "time_Parse_date (so_SourceGameDate s) = Some d" "0 \<le> d"
    by (auto simp: sane_start_def split: option.splits)
  let ?i = "Inning (tr_Context (hd (so_Pitches s)))"
  have "?i \<le> 1000000" using a by (simp add: sane_start_def)
  then have "go_int64 (go_int64 (?i - 1) * 20 * Minute) = (?i - 1) * 20 * Minute" if "1 < ?i"
    using that by (simp add: go_int64_id)
  moreover have "0 \<le> d div (24 * Hour)" using d(2) by (simp add: pos_imp_zdiv_nonneg_iff)
  ultimately show ?thesis
    using d by (auto simp: session_clock_def NewClock_def Let_def parseDate_def at_time_of_day_def
      FirstPitchHour_def FirstPitchMinute_def intro!: add_nonneg_pos)
qed

lemma Filter_sane: "sane_start t \<Longrightarrow> sane_start (Tape_Filter n p g t)"
  using list_emb_set [OF Filter_subseq [of n p g t]] unfolding sane_start_def by metis

section \<open>What an emitter has been given\<close>

text \<open>
  An emitter keeps a log: what it accepted is appended, and what it refused may be, when only the
  acknowledgement was lost.  \<open>logged\<close> relates the accepted events to the state behind the emitter.
\<close>

locale logging_emitter =
  fixes emit :: "'w emitter" and logged :: "Envelope list \<Rightarrow> 'w \<Rightarrow> bool"
  assumes accepted: "logged es w \<Longrightarrow> emit e w = (None, w') \<Longrightarrow> logged (es @ [e]) w'"
    and refused: "logged es w \<Longrightarrow> emit e w = (Some x, w') \<Longrightarrow> logged es w' \<or> logged (es @ [e]) w'"
begin

text \<open>A run that fails may have left one more event than it was told of.\<close>

abbreviation left :: "error \<Rightarrow> 'w sim \<Rightarrow> bool" where
  "left err st \<equiv> logged (sim_sent st) (sim_app st) \<or> err \<noteq> None \<and> (\<exists>e. logged (sim_sent st @ [e]) (sim_app st))"

lemma run_pitches_logged:
  "run_pitches ev cfg emit s i p0 s0 ck rs stats st = (err, p', s', stats', st') \<Longrightarrow>
     logged (sim_sent st) (sim_app st) \<Longrightarrow> left err st'"
proof (induction rs arbitrary: i p0 s0 ck stats st)
  case (Cons r rs)
  obtain t ck' where nxt: "Clock_Next (source ev) ck (tr_Context r) (tr_AtBatNumber r) = (t, ck')" by fastforce
  from Cons.prems(1) show ?case
  proof (cases rule: run_pitches_step [OF _ nxt, consumes 1])
    case (3 env e w)
    with refused [OF Cons.prems(2) 3(2)] show ?thesis by auto
  next
    case (4 st1 env w)
    with Cons.IH [OF 4(6)] accepted [OF Cons.prems(2) 4(2)] show ?thesis by simp
  qed (use Cons.prems(2) in auto)
qed simp

lemma run_sessions_logged:
  "run_sessions ev cfg emit ss stats st = (err, stats', st') \<Longrightarrow>
     logged (sim_sent st) (sim_app st) \<Longrightarrow> left err st'"
proof (induction ss arbitrary: stats st)
  case (Cons s ss)
  obtain e1 p1 s1 stats1 st1 where run: "run_pitches ev cfg emit s 0 0 0
      (session_clock cfg (today ev (sim_clocks st)) s) (so_Pitches s) stats
      (st\<lparr>sim_clocks := sim_clocks st + 1\<rparr>) = (e1, p1, s1, stats1, st1)"
    using prod_cases5 by blast
  from run_pitches_logged [OF this] Cons.prems(2) have "left e1 st1" by simp
  with Cons run show ?case by (cases e1) (auto split: if_splits)
qed simp

lemma Run_logged:
  "Run ev cfg emit t st = (err, stats, st') \<Longrightarrow> logged (sim_sent st) (sim_app st) \<Longrightarrow> left err st'"
  using run_sessions_logged by (fastforce simp: Run_def split: prod.splits option.splits)

end

definition pitch_message :: "codec \<Rightarrow> string \<Rightarrow> Envelope \<Rightarrow> kmsg" where
  "pitch_message cd topic e = envelope_message cd topic e (projr (marshal_envelope cd e))"

interpretation kafka: logging_emitter "buildEmitter cd rt args"
    "\<lambda>es w. written w = log0 @ (if arg_dryRun args then [] else map (pitch_message cd (arg_topic args)) es)"
  for cd rt args log0
  by unfold_locales
    (auto simp: buildEmitter_def Publish_def write_message_def Let_def pitch_message_def
      split: if_splits option.splits sum.splits prod.splits)

interpretation valid: logging_emitter "buildEmitter cd rt args"
    "\<lambda>es w. arg_dryRun args \<or> (\<forall>e \<in> set es. Validate e = None)" for cd rt args
  by unfold_locales
    (auto simp: buildEmitter_def Publish_def split: if_splits option.splits sum.splits prod.splits)

section \<open>An exit status of zero\<close>

text \<open>Nothing in the run reports the end of its context.\<close>

definition uninterrupted :: "sim_env \<Rightarrow> codec \<Rightarrow> runtime \<Rightarrow> bool" where
  "uninterrupted ev cd rt \<longleftrightarrow> (\<forall>k. wait_ends ev k = None) \<and> (\<forall>q. json_Pitch ev q \<noteq> Inl CtxCanceled) \<and>
     (\<forall>k. fresh_id ev k \<noteq> Inl CtxCanceled) \<and> (\<forall>n. write_fault rt n \<noteq> Some CtxCanceled) \<and>
     (\<forall>e. marshal_envelope cd e \<noteq> Inl CtxCanceled)"

lemma Canceled_simps [simp]:
  "errors_Is (Wrap pre e post) context_Canceled \<longleftrightarrow> errors_Is e context_Canceled"
  "errors_Is (PermanentError r (Some e)) context_Canceled \<longleftrightarrow> errors_Is e context_Canceled"
  "errors_Is (LibError n t) context_Canceled \<longleftrightarrow> False"
  "errors_Is (lib l) context_Canceled \<longleftrightarrow> l = CtxCanceled"
  by (auto simp: errors_Is_def context_Canceled_def) (cases l; simp add: context_Canceled_def)

lemma Validate_not_Canceled: "Validate e = Some err \<Longrightarrow> \<not> errors_Is err context_Canceled"
  using Validate_cases [of e err] by (auto simp: errors_Is_def envelope_error_defs context_Canceled_def)

lemma emit_not_Canceled:
  assumes "uninterrupted ev cd rt" "buildEmitter cd rt args e w = (Some err, w')"
  shows "\<not> errors_Is err context_Canceled"
  using assms Validate_not_Canceled
  by (auto simp: uninterrupted_def buildEmitter_def Publish_def write_message_def Let_def Permanent_def
      split: if_splits option.splits sum.splits)

lemma build_not_Canceled:
  assumes "uninterrupted ev cd rt" "buildEvent ev cfg r t (fresh_id ev k) now = Inl err"
  shows "\<not> errors_Is err context_Canceled"
  using assms by (auto simp: uninterrupted_def buildEvent_def NewEnvelope_def split: sum.splits)

lemma pace_not_interrupted: "uninterrupted ev cd rt \<Longrightarrow> pace ev cfg gap st \<noteq> (Some e, st')"
  by (auto simp: uninterrupted_def pace_def Let_def)

lemma run_pitches_not_Canceled:
  "run_pitches ev cfg (buildEmitter cd rt args) s i p0 s0 ck rs stats st = (Some err, p', s', stats', st') \<Longrightarrow>
     uninterrupted ev cd rt \<Longrightarrow> \<not> errors_Is err context_Canceled"
proof (induction rs arbitrary: i p0 s0 ck stats st)
  case (Cons r rs)
  obtain t ck' where nxt: "Clock_Next (source ev) ck (tr_Context r) (tr_AtBatNumber r) = (t, ck')" by fastforce
  from Cons.prems(1) show ?case
    by (cases rule: run_pitches_step [OF _ nxt, consumes 1])
      (use Cons.prems(2) Cons.IH in \<open>auto simp: pace_not_interrupted build_not_Canceled emit_not_Canceled dest: emit_not_Canceled build_not_Canceled\<close>)
qed simp

lemma run_sessions_not_Canceled:
  "run_sessions ev cfg (buildEmitter cd rt args) ss stats st = (Some err, stats', st') \<Longrightarrow>
     uninterrupted ev cd rt \<Longrightarrow> \<not> errors_Is err context_Canceled"
proof (induction ss arbitrary: stats st)
  case (Cons s ss)
  obtain e1 p1 s1 stats1 st1 where run: "run_pitches ev cfg (buildEmitter cd rt args) s 0 0 0
      (session_clock cfg (today ev (sim_clocks st)) s) (so_Pitches s) stats
      (st\<lparr>sim_clocks := sim_clocks st + 1\<rparr>) = (e1, p1, s1, stats1, st1)"
    using prod_cases5 by blast
  show ?case
  proof (cases e1)
    case None
    with Cons run show ?thesis by (auto split: if_splits)
  next
    case (Some e)
    from run_pitches_not_Canceled [OF run [unfolded Some] Cons.prems(2)] Cons run Some show ?thesis
      by (auto split: if_splits)
  qed
qed simp

lemma sum_foldl: "foldl (\<lambda>n s. n + f s) (k :: nat) xs = k + sum_list (map f xs)"
  by (induction xs arbitrary: k) auto

lemma length_tape_plan: "length (tape_plan ev cfg t) = PitchCount t"
  by (simp add: tape_plan_def PitchCount_def sum_foldl length_concat comp_def)

section \<open>A tape of two pitches\<close>

definition demo_ctx :: PitchContext where
  "demo_ctx = \<lparr>Balls = 0, Strikes = 2, OutsWhenUp = 0, Inning = 1, InningTopBot = ''Top'', On1B = False, On2B = False,
     On3B = False, BatScore = None, FldScore = None, NThruOrderPitcher = None\<rparr>"

definition demo_raw :: RawMeasurement where
  "demo_raw = \<lparr>PitchType = ''SL'', PitchName = '''', ReleaseSpeed = None, ReleaseSpinRate = None, SpinAxis = None,
     ReleasePosX = None, ReleasePosY = None, ReleasePosZ = None, ReleaseExtension = None, PfxX = None, PfxZ = None,
     PlateX = None, PlateZ = None, SzTop = None, SzBot = None, EffectiveSpeed = None, ArmAngle = None\<rparr>"

definition demo_record :: "int \<Rightarrow> TapeRecord" where
  "demo_record ab = \<lparr>tr_ExternalGameRef = ''747123'', tr_AtBatNumber = ab, tr_PitchNumber = 1,
     tr_SourceGameDate = ''2025-07-14'',
     tr_Session = \<lparr>SessionRef_SessionUID = ''747123:669373'', PitcherMLBAMID = 669373, PitcherName = '''',
       SessionRef_PThrows = ''R'', OpponentTeam = ''SEA''\<rparr>,
     tr_Batter = \<lparr>MLBAMID = 665742, Name = '''', BatterRef_Stand = ''L''\<rparr>,
     tr_Context = demo_ctx, tr_Measurement = demo_raw, tr_GroundTruth = None\<rparr>"

definition demo_decode :: "string \<Rightarrow> lib_error + TapeRecord" where
  "demo_decode raw = Inr (demo_record (if raw = ''b'' then 2 else 1))"

definition demo_content :: string where
  "demo_content = ''b'' @ [CHR 0x0A] @ ''a'' @ [CHR 0x0A]"

definition demo_session :: TapeSession where
  "demo_session = \<lparr>so_UID = ''747123:669373'', so_PitcherMLBAMID = 669373, so_GameRef = ''747123'',
     so_SourceGameDate = ''2025-07-14'', so_Opponent = ''SEA'', so_Pitches = [demo_record 1, demo_record 2]\<rparr>"

definition demo_tape :: Tape where
  "demo_tape = \<lparr>Sessions = [demo_session]\<rparr>"

definition demo_ev :: "error \<Rightarrow> sim_env" where
  "demo_ev e = \<lparr>json_Pitch = (\<lambda>_. Inr ''{}''), sim_sha256 = (\<lambda>s. s), fresh_id = (\<lambda>k. Inr (k + 1)), wall = (\<lambda>_. 0),
     wait_ends = (\<lambda>_. e), source = (\<lambda>seed k. seed), today = (\<lambda>_. 0), out_of_range = (\<lambda>_. Second), run_time = 0\<rparr>"

definition demo_config :: "f64 \<Rightarrow> SimConfig" where
  "demo_config speed = \<lparr>Speed = speed, Seed = 42, sim_Producer = ''pitchlab-replay/dev''\<rparr>"

definition demo_sim :: "'w \<Rightarrow> 'w sim" where
  "demo_sim w = \<lparr>sim_app = w, sim_sent = [], sim_built = 0, sim_waits = [], sim_clocks = 0, sim_progress = []\<rparr>"

definition demo_emit :: "unit emitter" where
  "demo_emit env w = (None, w)"

lemma demo_date: "time_Parse_date ''2025-07-14'' = Some (date_of 2025 7 14)"
  by code_simp

lemma demo_dated: "dated demo_tape"
  by (simp add: dated_def demo_tape_def demo_session_def demo_date)

lemma demo_start: "0 \<le> date_of 2025 7 14"
  by code_simp

lemma demo_sane: "sane_start demo_tape"
  using demo_start
  by (simp add: sane_start_def demo_tape_def demo_session_def demo_date demo_record_def demo_ctx_def)

lemma demo_tokens: "scan_tokens demo_content = [''b'', ''a'']"
  by (simp add: scan_tokens_def scan_lines_def demo_content_def dropCR_def MaxTokenSize_def)

lemma demo_scan: "scan_error demo_content None = None"
  by (simp add: scan_error_def scan_lines_def demo_content_def MaxTokenSize_def)

lemma demo_read: "ReadTape demo_decode demo_content None = Inr demo_tape"
  unfolding ReadTape_def demo_tokens demo_scan by code_simp

lemma demo_first: "fst (Run (demo_ev None) (demo_config (Fin 0)) demo_emit demo_tape (demo_sim ())) = None"
  by code_simp

text \<open>
  Every record of the file is in exactly one outing, that of its session: the outing holds the
  records of its session, sorted by at-bat and pitch number and, where these agree, in the order
  of the file.
\<close>

theorem tape_is_partition:
  assumes "ReadTape dec content read_err = Inr t"
  shows "distinct (map so_UID (Sessions t)) \<and> Sessions t \<noteq> []
     \<and> mset (concat (map so_Pitches (Sessions t))) = mset (records_of dec (scan_tokens content))
     \<and> (\<forall>s \<in> set (Sessions t). so_Pitches s = sort_key pitch_key
          (filter (\<lambda>r. rec_uid r = so_UID s) (records_of dec (scan_tokens content))))"
  using tape_partition [OF assms] by blast

text \<open>
  C31: a rehearsal holds: whatever the identifiers, clocks, waits, speed and filters of a second run,
  it sends events of the first run, in its order, equal in everything but the identifiers and the
  moment of production; with the same outings, a prefix of them.
\<close>

theorem rehearsal:
  assumes first: "Run ev cfg emit t st = (None, stats, st1)" and "sim_sent st = []"
    and second: "Run ev' cfg' emit' (Tape_Filter n p g t) st' = (err, stats', st2)" and "sim_sent st' = []"
    and same: "json_Pitch ev = json_Pitch ev'" "sim_sha256 ev = sim_sha256 ev'" "source ev = source ev'"
      "sim_Producer cfg = sim_Producer cfg'" "Seed cfg = Seed cfg'"
    and "dated t"
  shows "subseq (map stable_part (sim_sent st2)) (map stable_part (sim_sent st1))
     \<and> (n \<le> 0 \<and> p = '''' \<and> g = '''' \<longrightarrow> prefix (map stable_part (sim_sent st2)) (map stable_part (sim_sent st1)))"
proof -
  have inr: "sent_plan s = map Inr (map stable_part (sim_sent s))" for s :: "'x sim" by simp
  from Run_refines_plan [OF first] assms have s1: "map Inr (map stable_part (sim_sent st1)) = tape_plan ev cfg t"
    by (auto simp: comp_def)
  have cong: "tape_plan ev' cfg' u = tape_plan ev cfg u" for u
    using tape_plan_cong [OF same] by simp
  from Run_refines_plan [OF second] assms obtain m where
    s2: "map Inr (map stable_part (sim_sent st2)) = take m (tape_plan ev cfg (Tape_Filter n p g t))"
    by (auto simp: Filter_dated cong comp_def)
  have "subseq (map Inr (map stable_part (sim_sent st2)) :: (goerr + Envelope) list) (map Inr (map stable_part (sim_sent st1)))"
    unfolding s1 s2 using Filter_plan subseq_order.trans
    by (metis prefix_imp_subseq take_is_prefix)
  then have "subseq (map stable_part (sim_sent st2)) (map stable_part (sim_sent st1))"
    using subseq_map [of _ _ "projr"] by (fastforce simp: comp_def)
  moreover have "prefix (map stable_part (sim_sent st2)) (map stable_part (sim_sent st1))"
    if "n \<le> 0 \<and> p = '''' \<and> g = ''''"
  proof -
    have "prefix (map Inr (map stable_part (sim_sent st2)) :: (goerr + Envelope) list) (map Inr (map stable_part (sim_sent st1)))"
      unfolding s1 s2 using that by (simp add: Filter_identity take_is_prefix)
    from map_mono_prefix [OF this, of projr] show ?thesis by (simp add: comp_def)
  qed
  ultimately show ?thesis by blast
qed

text \<open>
  C32: on the partition of one outing the events of a run come 17 to 179 seconds apart, each after the
  one before it, from the first pitch that \<open>NewClock\<close> gives the outing on.
\<close>

theorem outing_paced:
  assumes run: "Run ev cfg emit t st = (err, stats, st')" "sim_sent st = []" and "tape_ok t" "dated t"
    and s: "s \<in> set (Sessions t)"
  defines "ts \<equiv> map OccurredAt (filter (\<lambda>e. PartitionKey e = so_UID s) (sim_sent st'))"
  shows "successively plausible_gap ts \<and> (ts \<noteq> [] \<longrightarrow> hd ts = ck_current (session_clock cfg 0 s))"
proof -
  from Run_refines_plan [OF run(1) assms(4)] run(2) obtain n where
    n: "map (\<lambda>e. Inr (stable_part e)) (sim_sent st') = take n (tape_plan ev cfg t)" by auto
  let ?pairs = "\<lambda>s. map (\<lambda>(r, u). (rec_uid r, u)) (outing_pairs ev cfg s)"
  have find: "find (\<lambda>x. so_UID x = so_UID s) (Sessions t) = Some s"
  proof (cases "find (\<lambda>x. so_UID x = so_UID s) (Sessions t)")
    case None
    with s show ?thesis by (auto simp: find_None_iff)
  next
    case (Some x)
    then have "x \<in> set (Sessions t)" "so_UID x = so_UID s" by (auto dest: find_Some_list)
    with s assms(3) have "x = s" by (auto simp: tape_ok_def distinct_map dest: inj_onD)
    with Some show ?thesis by simp
  qed
  have keys: "\<forall>x \<in> set (Sessions t). \<forall>p \<in> set (?pairs x). fst p = so_UID x"
    using assms(3) by (auto simp: tape_ok_def outing_pairs_def dest!: set_zip_leftD)
  have "filter (\<lambda>p. fst p = so_UID s) (concat (map ?pairs (Sessions t))) = ?pairs s"
    using concat_of_key [of so_UID "Sessions t" ?pairs "so_UID s"] assms(3) keys find by (simp add: tape_ok_def)
  moreover have "ts = map snd (filter (\<lambda>p. fst p = so_UID s) (map (\<lambda>e. (PartitionKey e, OccurredAt e)) (sim_sent st')))"
    by (simp add: ts_def filter_map comp_def)
  ultimately have pre: "prefix ts (map snd (?pairs s))"
    unfolding sent_keys [OF n] using filter_take_prefix map_mono_prefix by metis
  have snds: "map snd (?pairs s) = map snd (outing_pairs ev cfg s)" by (auto simp: comp_def case_prod_beta)
  have ne: "so_Pitches s \<noteq> []" using assms(3) s by (simp add: tape_ok_def)
  from pre snds outing_times_plausible [OF ne] have "successively plausible_gap ts"
    by (metis successively_prefix)
  moreover have "hd ts = ck_current (session_clock cfg 0 s)" if "ts \<noteq> []"
    using pre snds outing_times_plausible(2) [OF ne, of ev cfg] that
    by (metis hd_append2 prefix_def)
  ultimately show ?thesis by blast
qed

text \<open>
  C33: whatever the text of a tape, every event the simulator hands to its emitter passes the validation
  of the envelope, so that neither the producer nor a consumer refuses it; it is a raw pitch marked
  as synthetic, keyed by a session.
\<close>

theorem events_well_formed:
  assumes "ReadTape dec content read_err = Inr t" and "sane_start t"
    and run: "Run ev cfg emit (Tape_Filter n p g t) st = (err, stats, st')" "sim_sent st = []"
    and ids: "\<forall>k. fresh_id ev k \<noteq> Inr uuid_Nil" and json: "\<forall>q. json_Pitch ev q \<noteq> Inr ''''"
  shows "\<forall>e \<in> set (sim_sent st'). Validate e = None \<and> EventType e = TypePitchRaw \<and> Synthetic e
     \<and> PartitionKey e \<in> so_UID ` set (Sessions t)"
proof
  fix e assume e: "e \<in> set (sim_sent st')"
  let ?t = "Tape_Filter n p g t"
  from run e obtain s r u k now where s: "s \<in> set (Sessions ?t)" and r: "r \<in> set (so_Pitches s)"
    and u: "u \<in> set (clock_times (source ev) (session_clock cfg now s) (so_Pitches s))"
    and b: "buildEvent ev cfg r u (fresh_id ev k) (wall ev k) = Inr e" by (rule Run_built)
  have ok: "tape_ok ?t" "sane_start ?t"
    using assms(1,2) by (simp_all add: ReadTape_ok Filter_ok Filter_sane)
  have uid: "rec_uid r = so_UID s" "so_UID s \<noteq> ''''" "s \<in> set (Sessions t)"
    using ok(1) s r list_emb_set [OF Filter_subseq [of n p g t] s] by (auto simp: tape_ok_def)
  have "ck_current (session_clock cfg now s) \<le> u"
  proof -
    let ?ts = "clock_times (source ev) (session_clock cfg now s) (so_Pitches s)"
    have "so_Pitches s \<noteq> []" using r by auto
    moreover have "\<not> ck_started (session_clock cfg now s)" by (simp add: session_clock_def NewClock_not_started)
    ultimately have "hd ?ts = ck_current (session_clock cfg now s)" "successively plausible_gap ?ts"
      using clock_times_first by blast+
    moreover have "?ts \<noteq> []" using u by (metis empty_iff list.set(1))
    ultimately show ?thesis using successively_from [of ?ts u] u by metis
  qed
  with sane_start_clock [OF ok(2) s] have pos: "0 < u" by (metis less_le_trans)
  from b uid pos ids json show "Validate e = None \<and> EventType e = TypePitchRaw \<and> Synthetic e
     \<and> PartitionKey e \<in> so_UID ` set (Sessions t)"
    by (auto simp: buildEvent_Inr_iff Validate_None_iff IsZero_def TypePitchRaw_def IdempotencyKeyFor_def)
qed

text \<open>
  C34: the command against the broker: when nothing interrupts it, exit status zero means that every
  pitch of the outings asked for has been written to the topic, in the order of the plan, keyed by
  its session and equal to what any rehearsal of the tape sends.
\<close>

theorem exit_zero_published:
  assumes "replay_run dec open_file ev cd rt args st = (err, st')" and "replay_exit err = 0"
    and live: "\<not> arg_dryRun args" "sim_sent st = []" "uninterrupted ev cd rt"
    and "LoadTape dec open_file (arg_tape args) = Inr t" and "dated t"
  defines "t' \<equiv> Tape_Filter (arg_sessions args) (arg_pitcher args) (arg_game args) t"
  shows "\<exists>es. written (sim_app st') = written (sim_app st) @ map (pitch_message cd (arg_topic args)) es
     \<and> length es = PitchCount t' \<and> map (\<lambda>e. Inr (stable_part e)) es = tape_plan ev (replay_config args) t'
     \<and> (\<forall>e \<in> set es. Validate e = None)"
proof -
  let ?cfg = "replay_config args" and ?emit = "buildEmitter cd rt args :: 'a cstate emitter"
  have cfg: "sim_New ?cfg = ?cfg" by (simp add: sim_New_def replay_config_def)
  obtain rerr stats st1 where run: "Run ev ?cfg ?emit t' st = (rerr, stats, st1)" using prod_cases3 by blast
  have none: "rerr = None"
  proof (rule ccontr)
    assume "rerr \<noteq> None"
    then obtain e where e: "rerr = Some e" by blast
    with run obtain stats0 stats1 where "run_sessions ev ?cfg ?emit (Sessions t') stats0 st = (Some e, stats1, st1)"
      by (auto simp: Run_def split: prod.splits option.splits)
    from run_sessions_not_Canceled [OF this live(3)] have "\<not> errors_Is e context_Canceled" .
    with assms(1,2,6) run e cfg show False
      by (auto simp: replay_run_def t'_def [symmetric] Let_def replay_exit_def split: if_splits)
  qed
  with assms(1,2,6) run cfg have st1: "st' = st1"
    by (auto simp: replay_run_def t'_def [symmetric] Let_def replay_exit_def split: if_splits)
  have dated: "dated t'" using assms(7) by (simp add: t'_def Filter_dated)
  from Run_refines_plan [OF run dated] none live(2)
  have plan: "map (\<lambda>e. Inr (stable_part e)) (sim_sent st1) = tape_plan ev ?cfg t'" by simp
  from kafka.Run_logged [OF run, of "written (sim_app st)"] live none
  have w: "written (sim_app st1) = written (sim_app st) @ map (pitch_message cd (arg_topic args)) (sim_sent st1)" by simp
  from valid.Run_logged [OF run] live none have v: "\<forall>e \<in> set (sim_sent st1). Validate e = None" by simp
  from plan have "length (sim_sent st1) = PitchCount t'" by (metis length_map length_tape_plan)
  with w v plan st1 show ?thesis by blast
qed

lemma tape_is_partition_witness:
  "mset (concat (map so_Pitches (Sessions demo_tape))) = mset (records_of demo_decode (scan_tokens demo_content))"
  using tape_is_partition [OF demo_read] by blast

lemma run_triple: "Run ev cfg emit t st = (fst (Run ev cfg emit t st), fst (snd (Run ev cfg emit t st)), snd (snd (Run ev cfg emit t st)))"
  by simp

lemma rehearsal_witness:
  "prefix (map stable_part (sim_sent (snd (snd (Run (demo_ev (Some context_Canceled)) (demo_config NaN) demo_emit
       (Tape_Filter 0 '''' '''' demo_tape) (demo_sim ()))))))
     (map stable_part (sim_sent (snd (snd (Run (demo_ev None) (demo_config (Fin 0)) demo_emit demo_tape (demo_sim ()))))))"
  using rehearsal [OF run_triple [of "demo_ev None" "demo_config (Fin 0)" demo_emit demo_tape "demo_sim ()", unfolded demo_first] _
      run_triple [of "demo_ev (Some context_Canceled)" "demo_config NaN" demo_emit "Tape_Filter 0 '''' '''' demo_tape" "demo_sim ()"]
      _ _ _ _ _ _ demo_dated]
  by (simp add: demo_sim_def demo_ev_def demo_config_def)

lemma demo_ok: "tape_ok demo_tape"
  using ReadTape_ok [OF demo_read] .

lemma outing_paced_witness:
  "successively plausible_gap (map OccurredAt (filter (\<lambda>e. PartitionKey e = so_UID demo_session)
     (sim_sent (snd (snd (Run (demo_ev None) (demo_config (Fin 0)) demo_emit demo_tape (demo_sim ())))))))"
  using outing_paced [OF run_triple [of "demo_ev None" "demo_config (Fin 0)" demo_emit demo_tape "demo_sim ()"] _
      demo_ok demo_dated, of demo_session]
  by (simp add: demo_sim_def demo_tape_def)

lemma events_well_formed_witness:
  "list_all (\<lambda>e. Validate e = None) (sim_sent (snd (snd (Run (demo_ev None) (demo_config (Fin 0)) demo_emit
      (Tape_Filter 0 '''' '''' demo_tape) (demo_sim ())))))"
  using events_well_formed [OF demo_read demo_sane run_triple [of "demo_ev None" "demo_config (Fin 0)" demo_emit
      "Tape_Filter 0 '''' '''' demo_tape" "demo_sim ()"]]
  by (simp add: demo_sim_def demo_ev_def uuid_Nil_def list_all_iff)

definition demo_codec :: codec where
  "demo_codec = \<lparr>json_Envelope = (\<lambda>_. Inl (PlainErr '''')), json_Valid = (\<lambda>_. True), marshal_letter = (\<lambda>_. Inr ''{}''),
     marshal_envelope = (\<lambda>e. Inr (PartitionKey e)), uuid_String = (\<lambda>u. show_nat u)\<rparr>"

definition demo_broker :: runtime where
  "demo_broker = \<lparr>write_fault = (\<lambda>_. None), write_kept = (\<lambda>_. False), now_utc = 0, rand_source = (\<lambda>_. 0), ctx_err_after = (\<lambda>_. False),
     ctx_done_in_wait = (\<lambda>_. False)\<rparr>"

definition demo_args :: replay_args where
  "demo_args = \<lparr>arg_tape = ''t'', arg_topic = TopicPitchRaw, arg_speed = Fin 0, arg_seed = 42, arg_sessions = 0,
     arg_pitcher = '''', arg_game = '''', arg_dryRun = False, arg_version = ''dev''\<rparr>"

definition demo_state :: "unit cstate sim" where
  "demo_state = demo_sim \<lparr>app = (), written = [], writes = 0, results = [], dlq_metric = [], waits = []\<rparr>"

lemma demo_load: "LoadTape demo_decode (\<lambda>_. Inr (demo_content, None)) ''t'' = Inr demo_tape"
  by (simp add: LoadTape_def demo_read)

lemma demo_exit: "replay_exit (fst (replay_run demo_decode (\<lambda>_. Inr (demo_content, None)) (demo_ev None) demo_codec
    demo_broker demo_args demo_state)) = 0"
  unfolding replay_run_def demo_args_def replay_args.simps demo_load by code_simp

lemma exit_zero_published_witness:
  "length (written (sim_app (snd (replay_run demo_decode (\<lambda>_. Inr (demo_content, None)) (demo_ev None) demo_codec
     demo_broker demo_args demo_state)))) = 2"
proof -
  let ?r = "replay_run demo_decode (\<lambda>_. Inr (demo_content, None)) (demo_ev None) demo_codec demo_broker demo_args demo_state"
  have "PitchCount (Tape_Filter 0 '''' '''' demo_tape) = 2" by code_simp
  then show ?thesis
    using exit_zero_published [of demo_decode "\<lambda>_. Inr (demo_content, None)" "demo_ev None" demo_codec demo_broker demo_args
        demo_state "fst ?r" "snd ?r" demo_tape, OF _ demo_exit _ _ _ _ demo_dated]
    by (auto simp: demo_args_def demo_state_def demo_sim_def demo_load uninterrupted_def demo_ev_def demo_broker_def demo_codec_def)
qed

end
