(* ===== verification/DlqReplay.thy ===== *)
theory DlqReplay
  imports Delivery
begin

text \<open>
  cmd/dlq-replay: draining a dead-letter topic back into the topics its letters came from, together
  with the consumers that file what they cannot process into the topic being drained.  A drain reads
  the partitions one after another; between two reads the consumers work off part of what was
  replayed.  The decoder of a letter, the broker's answers and the consumers' pace are parameters.
\<close>

section \<open>Arguments, counters, environment\<close>

record drain_args =
  da_dlq :: string
  da_to :: string
  da_filter :: string
  da_dryRun :: bool
  da_limit :: int
  da_maxReplays :: int

definition default_args :: "string \<Rightarrow> drain_args" where
  "default_args topic = \<lparr>da_dlq = topic, da_to = '''', da_filter = '''', da_dryRun = False, da_limit = 0, da_maxReplays = 3\<rparr>"

text \<open>
  The state of a drain: the counters of \<open>run\<close>, the partitions of the dead-letter topic, what was
  published so far, and which of it the consumers have not come to yet.
\<close>

record drain =
  dr_read :: nat
  dr_replayed :: nat
  dr_skipped :: nat
  dr_exhausted :: nat
  dr_failed :: nat
  dr_byClass :: "string \<Rightarrow> nat"
  dr_logs :: "int \<Rightarrow> kmsg list"
  dr_published :: "kmsg list"
  dr_attempts :: nat
  dr_pending :: "kmsg list"

text \<open>
  The environment: the JSON decoder of a letter, how each write to a work topic ends, how many of
  the pending messages the consumers work off before the next read, the letter that a message makes
  them file (with its partition), and whether a read fails or is interrupted.
\<close>

record drain_env =
  json_Letter :: "string \<Rightarrow> lib_error + DeadLetter"
  publish_fault :: "nat \<Rightarrow> lib_error option"
  worked_off :: "nat \<Rightarrow> nat"
  react :: "kmsg \<Rightarrow> (int \<times> kmsg) option"
  read_fails :: "nat \<Rightarrow> bool"
  seek_fault :: "int \<Rightarrow> lib_error option"

section \<open>One letter\<close>

definition publishRaw :: "drain_env \<Rightarrow> string \<Rightarrow> string \<Rightarrow> string \<Rightarrow> int \<Rightarrow> drain \<Rightarrow> lib_error option \<times> drain" where
  "publishRaw ev topic key payload n st =
     (let m = \<lparr>m_Topic = topic, m_Partition = 0, m_Offset = 0, m_Key = key, m_Value = payload,
               m_Headers = [(''replayed_from_dlq'', ''true''), (ReplayCountHeader, show_int n)]\<rparr>;
          st' = st\<lparr>dr_attempts := dr_attempts st + 1\<rparr> in
      case publish_fault ev (dr_attempts st) of
        Some err \<Rightarrow> (Some err, st')
      | None \<Rightarrow> (None, st'\<lparr>dr_published := dr_published st @ [m], dr_pending := dr_pending st @ [m]\<rparr>))"

definition replay_letter :: "drain_args \<Rightarrow> drain_env \<Rightarrow> kmsg \<Rightarrow> drain \<Rightarrow> drain" where
  "replay_letter a ev msg st =
     (let st = st\<lparr>dr_read := dr_read st + 1\<rparr> in
      case json_Letter ev (m_Value msg) of
        Inl err \<Rightarrow> st\<lparr>dr_failed := dr_failed st + 1\<rparr>
      | Inr letter \<Rightarrow>
         (let class = ErrorClass (Failure letter);
              st = st\<lparr>dr_byClass := (dr_byClass st)(class := dr_byClass st class + 1)\<rparr> in
          if da_filter a \<noteq> '''' \<and> class \<noteq> da_filter a then st\<lparr>dr_skipped := dr_skipped st + 1\<rparr>
          else if 0 < da_maxReplays a \<and> da_maxReplays a \<le> ReplayCount letter
            then st\<lparr>dr_exhausted := dr_exhausted st + 1\<rparr>
          else (let topic = (if da_to a \<noteq> '''' then da_to a else OriginalTopic letter) in
            if topic = '''' then st\<lparr>dr_failed := dr_failed st + 1\<rparr>
            else if da_dryRun a then st\<lparr>dr_replayed := dr_replayed st + 1\<rparr>
            else (case publishRaw ev topic (OriginalKey letter) (OriginalPayload letter)
                        (go_int64 (ReplayCount letter + 1)) st of
                (Some err, st) \<Rightarrow> st\<lparr>dr_failed := dr_failed st + 1\<rparr>
              | (None, st) \<Rightarrow> st\<lparr>dr_replayed := dr_replayed st + 1\<rparr>))))"

section \<open>The drain\<close>

text \<open>What the consumers do between two reads: each message they come to may be filed again.\<close>

fun file_again :: "drain_env \<Rightarrow> kmsg list \<Rightarrow> (int \<Rightarrow> kmsg list) \<Rightarrow> (int \<Rightarrow> kmsg list)" where
  "file_again ev [] logs = logs"
| "file_again ev (m # ms) logs =
     file_again ev ms (case react ev m of None \<Rightarrow> logs | Some (p, letter) \<Rightarrow> logs(p := logs p @ [letter]))"

definition consumers_run :: "drain_env \<Rightarrow> drain \<Rightarrow> drain" where
  "consumers_run ev st =
     (let n = worked_off ev (dr_read st) in
      st\<lparr>dr_logs := file_again ev (take n (dr_pending st)) (dr_logs st), dr_pending := drop n (dr_pending st)\<rparr>)"

definition limit_reached :: "drain_args \<Rightarrow> drain \<Rightarrow> bool" where
  "limit_reached a st \<longleftrightarrow> 0 < da_limit a \<and> da_limit a \<le> int (dr_replayed st)"

text \<open>
  The loop over one partition, from position \<open>pos\<close> on; the first number is fuel, and \<open>None\<close> is
  that it ran out.  A read that finds no letter waits for the timeout and ends the partition.
\<close>

fun drainPartition :: "drain_args \<Rightarrow> drain_env \<Rightarrow> nat \<Rightarrow> int \<Rightarrow> nat \<Rightarrow> drain \<Rightarrow> drain option" where
  "drainPartition a ev 0 p pos st = None"
| "drainPartition a ev (Suc fuel) p pos st =
     (if limit_reached a st then Some st
      else (let st = consumers_run ev st in
        if read_fails ev (dr_read st) \<or> length (dr_logs st p) \<le> pos then Some st
        else drainPartition a ev fuel p (pos + 1) (replay_letter a ev (dr_logs st p ! pos) st)))"

text \<open>The loop over the partitions: the error with which \<open>run\<close> returns early, if any.\<close>

fun drain_partitions :: "drain_args \<Rightarrow> drain_env \<Rightarrow> nat \<Rightarrow> int list \<Rightarrow> drain \<Rightarrow> (error \<times> drain) option" where
  "drain_partitions a ev fuel [] st = Some (None, st)"
| "drain_partitions a ev fuel (p # ps) st =
     (if limit_reached a st then Some (None, st)
      else (case seek_fault ev p of
          Some err \<Rightarrow> Some (Some (Wrap (''seek to the start of '' @ da_dlq a @ '' partition '' @ show_int p @ '': '')
                              (lib err) ''''), st)
        | None \<Rightarrow> (case drainPartition a ev fuel p 0 st of
              None \<Rightarrow> None
            | Some st \<Rightarrow> drain_partitions a ev fuel ps st)))"

text \<open>\<open>found\<close> is what dialing the first broker and reading the partitions of the topic gives.\<close>

definition partitionsOf :: "string \<Rightarrow> string \<Rightarrow> lib_error + (lib_error + int list) \<Rightarrow> goerr + int list" where
  "partitionsOf broker topic found =
     (case found of
        Inl err \<Rightarrow> Inl (Wrap (''dial '' @ broker @ '': '') (lib err) '''')
      | Inr (Inl err) \<Rightarrow> Inl (Wrap (''read partitions of '' @ topic @ '': '') (lib err) '''')
      | Inr (Inr parts) \<Rightarrow>
          if length parts = 0 then Inl (LibError False (''topic '' @ topic @ '' has no partitions''))
          else Inr (sort parts))"

definition dlq_run ::
  "drain_args \<Rightarrow> drain_env \<Rightarrow> string \<Rightarrow> lib_error + (lib_error + int list) \<Rightarrow> nat \<Rightarrow> drain \<Rightarrow> (error \<times> drain) option" where
  "dlq_run a ev broker found fuel st =
     (if da_dlq a = '''' then Some (Some (LibError False ''--dlq is required''), st)
      else (case partitionsOf broker (da_dlq a) found of
          Inl err \<Rightarrow> Some (Some err, st)
        | Inr partitions \<Rightarrow>
           (case drain_partitions a ev fuel partitions st of
              None \<Rightarrow> None
            | Some (Some err, st) \<Rightarrow> Some (Some err, st)
            | Some (None, st) \<Rightarrow>
                Some (if 0 < dr_failed st
                      then Some (LibError False (show_nat (dr_failed st) @ '' letters could not be replayed'')) else None,
                      st))))"

definition drain_start :: "(int \<Rightarrow> kmsg list) \<Rightarrow> drain" where
  "drain_start logs = \<lparr>dr_read = 0, dr_replayed = 0, dr_skipped = 0, dr_exhausted = 0, dr_failed = 0,
     dr_byClass = (\<lambda>_. 0), dr_logs = logs, dr_published = [], dr_attempts = 0, dr_pending = []\<rparr>"

section \<open>What a replayed message is\<close>

text \<open>The message that replays a letter, and the letters a drain may replay.\<close>

definition replay_message :: "drain_args \<Rightarrow> DeadLetter \<Rightarrow> kmsg" where
  "replay_message a l =
     \<lparr>m_Topic = (if da_to a \<noteq> '''' then da_to a else OriginalTopic l), m_Partition = 0, m_Offset = 0,
      m_Key = OriginalKey l, m_Value = OriginalPayload l,
      m_Headers = [(''replayed_from_dlq'', ''true''), (ReplayCountHeader, show_int (go_int64 (ReplayCount l + 1)))]\<rparr>"

definition replayable :: "drain_args \<Rightarrow> DeadLetter \<Rightarrow> bool" where
  "replayable a l \<longleftrightarrow> (da_filter a = '''' \<or> ErrorClass (Failure l) = da_filter a)
     \<and> (0 < da_maxReplays a \<longrightarrow> ReplayCount l < da_maxReplays a) \<and> (da_to a \<noteq> '''' \<or> OriginalTopic l \<noteq> '''')
     \<and> \<not> da_dryRun a"

text \<open>Reading one letter counts it once and publishes at most the message that replays it.\<close>

definition letters_counted :: "drain \<Rightarrow> bool" where
  "letters_counted st \<longleftrightarrow> dr_read st = dr_replayed st + dr_skipped st + dr_exhausted st + dr_failed st
     \<and> length (dr_published st) \<le> dr_replayed st"

lemma replay_letter_step:
  "dr_read (replay_letter a ev msg st) = dr_read st + 1"
  "dr_logs (replay_letter a ev msg st) = dr_logs st"
  "(dr_published (replay_letter a ev msg st) = dr_published st \<and> dr_pending (replay_letter a ev msg st) = dr_pending st) \<or>
   (\<exists>l. json_Letter ev (m_Value msg) = Inr l \<and> replayable a l \<and>
      dr_published (replay_letter a ev msg st) = dr_published st @ [replay_message a l] \<and>
      dr_pending (replay_letter a ev msg st) = dr_pending st @ [replay_message a l])"
  "letters_counted st \<Longrightarrow> letters_counted (replay_letter a ev msg st)"
  by (auto simp: replay_letter_def publishRaw_def Let_def replay_message_def replayable_def letters_counted_def
      split: sum.splits option.splits if_splits)

lemma consumers_run_keeps [simp]:
  "dr_read (consumers_run ev st) = dr_read st" "dr_published (consumers_run ev st) = dr_published st"
  "letters_counted (consumers_run ev st) = letters_counted st"
  by (simp_all add: consumers_run_def Let_def letters_counted_def)

section \<open>Where the letters come from\<close>

text \<open>Every entry of the topic during a drain was there before it or is what the consumers made of a replay.\<close>

definition sourced :: "drain_args \<Rightarrow> drain_env \<Rightarrow> (int \<Rightarrow> kmsg list) \<Rightarrow> drain \<Rightarrow> bool" where
  "sourced a ev logs st \<longleftrightarrow>
     (\<forall>p. \<forall>e \<in> set (dr_logs st p). e \<in> set (logs p) \<or> (\<exists>m \<in> set (dr_published st). react ev m = Some (p, e)))
     \<and> set (dr_pending st) \<subseteq> set (dr_published st)
     \<and> (\<forall>m \<in> set (dr_published st). \<exists>q e l. e \<in> set (dr_logs st q) \<and> json_Letter ev (m_Value e) = Inr l
          \<and> replayable a l \<and> m = replay_message a l)
     \<and> letters_counted st"

lemma file_again_entries:
  "e \<in> set (file_again ev ms logs p) \<Longrightarrow> e \<in> set (logs p) \<or> (\<exists>m \<in> set ms. react ev m = Some (p, e))"
  by (induction ev ms logs rule: file_again.induct) (force split: option.splits if_splits)+

lemma file_again_mono: "set (logs p) \<subseteq> set (file_again ev ms logs p)"
  by (induction ev ms logs rule: file_again.induct) (fastforce split: option.splits)+

lemma consumers_run_sourced: "sourced a ev logs st \<Longrightarrow> sourced a ev logs (consumers_run ev st)"
proof -
  assume s: "sourced a ev logs st"
  let ?n = "worked_off ev (dr_read st)"
  have "e \<in> set (logs p) \<or> (\<exists>m \<in> set (dr_published st). react ev m = Some (p, e))"
    if "e \<in> set (dr_logs (consumers_run ev st) p)" for e p
    using file_again_entries [of e ev "take ?n (dr_pending st)" "dr_logs st" p] that s
    by (fastforce simp: consumers_run_def Let_def sourced_def dest: in_set_takeD)
  moreover have "set (dr_pending (consumers_run ev st)) \<subseteq> set (dr_published st)"
    using s by (auto simp: consumers_run_def Let_def sourced_def dest: in_set_dropD)
  moreover have "set (dr_logs st q) \<subseteq> set (dr_logs (consumers_run ev st) q)" for q
    using file_again_mono by (simp add: consumers_run_def Let_def)
  ultimately show ?thesis using s unfolding sourced_def by (simp add: subset_iff) blast
qed

lemma replay_letter_sourced:
  assumes s: "sourced a ev logs st" and e: "e \<in> set (dr_logs st p)"
  shows "sourced a ev logs (replay_letter a ev e st)"
  using replay_letter_step(3) [of a ev e st]
proof
  assume "dr_published (replay_letter a ev e st) = dr_published st \<and> dr_pending (replay_letter a ev e st) = dr_pending st"
  with s show ?thesis by (auto simp: sourced_def replay_letter_step)
next
  assume "\<exists>l. json_Letter ev (m_Value e) = Inr l \<and> replayable a l \<and>
      dr_published (replay_letter a ev e st) = dr_published st @ [replay_message a l] \<and>
      dr_pending (replay_letter a ev e st) = dr_pending st @ [replay_message a l]"
  then obtain l where l: "json_Letter ev (m_Value e) = Inr l" "replayable a l"
    "dr_published (replay_letter a ev e st) = dr_published st @ [replay_message a l]"
    "dr_pending (replay_letter a ev e st) = dr_pending st @ [replay_message a l]" by blast
  have "letters_counted (replay_letter a ev e st)" using s replay_letter_step(4) by (auto simp: sourced_def)
  with s e l show ?thesis unfolding sourced_def
    by (simp add: replay_letter_step(2)) blast
qed

lemma drainPartition_sourced:
  "drainPartition a ev fuel p pos st = Some st' \<Longrightarrow> sourced a ev logs st \<Longrightarrow> sourced a ev logs st'"
proof (induction a ev fuel p pos st rule: drainPartition.induct)
  case (2 a ev fuel p pos st)
  show ?case
  proof (cases "limit_reached a st \<or> read_fails ev (dr_read st) \<or> length (dr_logs (consumers_run ev st) p) \<le> pos")
    case True
    with 2 consumers_run_sourced show ?thesis by (auto simp: Let_def split: if_splits)
  next
    case False
    with 2(2) have "drainPartition a ev fuel p (pos + 1)
        (replay_letter a ev (dr_logs (consumers_run ev st) p ! pos) (consumers_run ev st)) = Some st'"
      by (simp add: Let_def)
    moreover have "sourced a ev logs (replay_letter a ev (dr_logs (consumers_run ev st) p ! pos) (consumers_run ev st))"
      using False 2(3) by (intro replay_letter_sourced [where p = p] consumers_run_sourced) simp_all
    ultimately show ?thesis using 2(1) [OF _ refl] False by simp
  qed
qed simp

lemma drain_partitions_sourced:
  "drain_partitions a ev fuel ps st = Some (err, st') \<Longrightarrow> sourced a ev logs st \<Longrightarrow> sourced a ev logs st'"
  by (induction a ev fuel ps st rule: drain_partitions.induct)
    (auto split: if_splits option.splits dest: drainPartition_sourced)

lemma drain_start_sourced: "sourced a ev logs (drain_start logs)"
  by (simp add: sourced_def drain_start_def letters_counted_def)

lemma dlq_run_sourced: "dlq_run a ev broker found fuel (drain_start logs) = Some (err, st) \<Longrightarrow> sourced a ev logs st"
  using drain_start_sourced [of a ev logs]
  by (auto simp: dlq_run_def split: if_splits sum.splits option.splits prod.splits dest: drain_partitions_sourced)

lemma replay_count_of_message:
  assumes "- (2 ^ 63) \<le> ReplayCount l" "ReplayCount l < 2 ^ 63 - 1"
  shows "replayCount (m_Headers (replay_message a l)) = max 0 (ReplayCount l + 1)"
  using assms by (auto simp: replay_message_def ReplayCountHeader_def go_int64_id Atoi_show_int max_def)

section \<open>A drain with a ceiling ends\<close>

text \<open>
  How often a letter can still come back: once more for each replay below the ceiling.  A message
  that waits for the consumers weighs what the letter they file for it would.
\<close>

definition letter_weight :: "drain_args \<Rightarrow> drain_env \<Rightarrow> kmsg \<Rightarrow> nat" where
  "letter_weight a ev e = (case json_Letter ev (m_Value e) of
     Inl _ \<Rightarrow> 1 | Inr l \<Rightarrow> nat (da_maxReplays a - ReplayCount l) + 1)"

definition message_weight :: "drain_args \<Rightarrow> kmsg \<Rightarrow> nat" where
  "message_weight a m = nat (da_maxReplays a - replayCount (m_Headers m)) + 1"

definition unread :: "drain_args \<Rightarrow> drain_env \<Rightarrow> (int \<times> nat) list \<Rightarrow> (int \<Rightarrow> kmsg list) \<Rightarrow> nat" where
  "unread a ev qs logs = (\<Sum>(q, k) \<leftarrow> qs. \<Sum>e \<leftarrow> drop k (logs q). letter_weight a ev e)"

definition work_left :: "drain_args \<Rightarrow> drain_env \<Rightarrow> (int \<times> nat) list \<Rightarrow> drain \<Rightarrow> nat" where
  "work_left a ev qs st = unread a ev qs (dr_logs st) + (\<Sum>m \<leftarrow> dr_pending st. message_weight a m)"

text \<open>What is assumed of the consumers: a letter they file carries at least the count of its message.\<close>

definition counts_carried :: "drain_env \<Rightarrow> bool" where
  "counts_carried ev \<longleftrightarrow> (\<forall>m p e l. react ev m = Some (p, e) \<longrightarrow> json_Letter ev (m_Value e) = Inr l \<longrightarrow>
     replayCount (m_Headers m) \<le> ReplayCount l)"

definition int64_counts :: "drain_env \<Rightarrow> bool" where
  "int64_counts ev \<longleftrightarrow> (\<forall>raw l. json_Letter ev raw = Inr l \<longrightarrow> - (2 ^ 63) \<le> ReplayCount l \<and> ReplayCount l < 2 ^ 63)"

lemma refiled_weight:
  "counts_carried ev \<Longrightarrow> react ev m = Some (p, e) \<Longrightarrow> letter_weight a ev e \<le> message_weight a m"
  by (auto simp: counts_carried_def letter_weight_def message_weight_def split: sum.splits) fastforce

lemma unread_append:
  assumes "distinct (map fst qs)"
  shows "unread a ev qs (logs(r := logs r @ [e])) \<le> unread a ev qs logs + letter_weight a ev e"
  using assms
proof (induction qs)
  case (Cons x qs)
  obtain q k where x: "x = (q, k)" by fastforce
  have eq: "unread a ev qs (logs(r := logs r @ [e])) = unread a ev qs logs" if "q = r"
  proof -
    have "r \<notin> fst ` set qs" using Cons.prems that x by auto
    then show ?thesis unfolding unread_def
      by (intro arg_cong [where f = sum_list] map_cong) (auto simp: image_iff)
  qed
  show ?case
  proof (cases "q = r")
    case True
    with eq show ?thesis
      by (cases "k \<le> length (logs r)") (simp_all add: unread_def x)
  next
    case False
    with Cons x show ?thesis by (simp add: unread_def)
  qed
qed (simp add: unread_def)

lemma file_again_weight:
  "distinct (map fst qs) \<Longrightarrow> counts_carried ev \<Longrightarrow>
     unread a ev qs (file_again ev ms logs) \<le> unread a ev qs logs + (\<Sum>m \<leftarrow> ms. message_weight a m)"
proof (induction ms arbitrary: logs)
  case (Cons m ms)
  show ?case
  proof (cases "react ev m")
    case None
    with Cons.IH [OF Cons.prems, of logs] show ?thesis by simp
  next
    case (Some x)
    obtain p e where x: "x = (p, e)" by fastforce
    have "unread a ev qs (file_again ev ms (logs(p := logs p @ [e])))
        \<le> unread a ev qs (logs(p := logs p @ [e])) + (\<Sum>m \<leftarrow> ms. message_weight a m)"
      using Cons by blast
    also have "\<dots> \<le> unread a ev qs logs + letter_weight a ev e + (\<Sum>m \<leftarrow> ms. message_weight a m)"
      using unread_append [OF Cons.prems(1)] by simp
    also have "letter_weight a ev e \<le> message_weight a m"
      using refiled_weight [OF Cons.prems(2)] Some x by simp
    finally show ?thesis using Some x by simp
  qed
qed simp

lemma consumers_run_work:
  assumes "distinct (map fst qs)" "counts_carried ev"
  shows "work_left a ev qs (consumers_run ev st) \<le> work_left a ev qs st"
proof -
  let ?n = "worked_off ev (dr_read st)"
  have "(\<Sum>m \<leftarrow> dr_pending st. message_weight a m)
      = (\<Sum>m \<leftarrow> take ?n (dr_pending st). message_weight a m) + (\<Sum>m \<leftarrow> drop ?n (dr_pending st). message_weight a m)"
    by (metis append_take_drop_id map_append sum_list_append)
  with file_again_weight [OF assms, of a "take ?n (dr_pending st)" "dr_logs st"]
  show ?thesis by (simp add: work_left_def consumers_run_def Let_def)
qed

lemma replay_letter_work:
  assumes "pos < length (dr_logs st p)" and "0 < da_maxReplays a" "da_maxReplays a < 2 ^ 63" and "int64_counts ev"
  shows "work_left a ev ((p, pos + 1) # qs) (replay_letter a ev (dr_logs st p ! pos) st) + 1
      \<le> work_left a ev ((p, pos) # qs) st"
proof -
  let ?e = "dr_logs st p ! pos"
  have split: "drop pos (dr_logs st p) = ?e # drop (pos + 1) (dr_logs st p)"
    using Cons_nth_drop_Suc [OF assms(1)] by simp
  have pos: "1 \<le> letter_weight a ev ?e" by (auto simp: letter_weight_def split: sum.splits)
  have "(\<Sum>m \<leftarrow> dr_pending (replay_letter a ev ?e st). message_weight a m) + 1
      \<le> (\<Sum>m \<leftarrow> dr_pending st. message_weight a m) + letter_weight a ev ?e"
    using replay_letter_step(3) [of a ev ?e st]
  proof
    assume "\<exists>l. json_Letter ev (m_Value ?e) = Inr l \<and> replayable a l \<and>
      dr_published (replay_letter a ev ?e st) = dr_published st @ [replay_message a l] \<and>
      dr_pending (replay_letter a ev ?e st) = dr_pending st @ [replay_message a l]"
    then obtain l where l: "json_Letter ev (m_Value ?e) = Inr l" "replayable a l"
      "dr_pending (replay_letter a ev ?e st) = dr_pending st @ [replay_message a l]" by blast
    from l(1) assms(4) have "- (2 ^ 63) \<le> ReplayCount l" by (auto simp: int64_counts_def)
    moreover have "ReplayCount l < da_maxReplays a" using l(2) assms(2) by (simp add: replayable_def)
    ultimately have "message_weight a (replay_message a l) + 1 \<le> letter_weight a ev ?e"
      using assms(3) l(1) by (simp add: message_weight_def letter_weight_def replay_count_of_message)
    with l(3) show ?thesis by simp
  qed (use pos in simp)
  then show ?thesis by (simp add: work_left_def unread_def split replay_letter_step(2))
qed

lemma work_left_less: "work_left a ev qs st \<le> work_left a ev (x # qs) st"
  by (simp add: work_left_def unread_def split: prod.splits)

lemma drainPartition_ends:
  assumes "0 < da_maxReplays a" "da_maxReplays a < 2 ^ 63" "int64_counts ev" "counts_carried ev"
  shows "distinct (p # map fst qs) \<Longrightarrow> work_left a ev ((p, pos) # qs) st < fuel \<Longrightarrow>
    \<exists>st'. drainPartition a ev fuel p pos st = Some st' \<and> dr_read st \<le> dr_read st' \<and>
       dr_read st' + work_left a ev qs st' \<le> dr_read st + work_left a ev ((p, pos) # qs) st"
proof (induction fuel arbitrary: pos st)
  case (Suc fuel)
  let ?st = "consumers_run ev st"
  have c: "work_left a ev ((p, pos) # qs) ?st \<le> work_left a ev ((p, pos) # qs) st"
    using Suc.prems(1) assms(4) by (intro consumers_run_work) simp_all
  consider "limit_reached a st" | "\<not> limit_reached a st" "read_fails ev (dr_read st) \<or> length (dr_logs ?st p) \<le> pos"
    | "\<not> limit_reached a st" "\<not> read_fails ev (dr_read st)" "pos < length (dr_logs ?st p)" by fastforce
  then show ?case
  proof cases
    case 1
    then show ?thesis using work_left_less [of a ev qs st "(p, pos)"] by simp
  next
    case 2
    then show ?thesis using work_left_less [of a ev qs ?st "(p, pos)"] c by (auto simp: Let_def)
  next
    case 3
    let ?st2 = "replay_letter a ev (dr_logs ?st p ! pos) ?st"
    from replay_letter_work [OF 3(3) assms(1-3)]
    have w: "work_left a ev ((p, pos + 1) # qs) ?st2 + 1 \<le> work_left a ev ((p, pos) # qs) st"
      using c by (rule le_trans)
    with Suc.prems(2) have "work_left a ev ((p, pos + 1) # qs) ?st2 < fuel" by simp
    from Suc.IH [OF Suc.prems(1) this] obtain st' where "drainPartition a ev fuel p (pos + 1) ?st2 = Some st'"
      "dr_read ?st2 \<le> dr_read st'" "dr_read st' + work_left a ev qs st' \<le> dr_read ?st2 + work_left a ev ((p, pos + 1) # qs) ?st2" by blast
    with 3 w show ?thesis by (simp add: Let_def replay_letter_step(1))
  qed
qed simp

lemma drain_partitions_ends:
  assumes "0 < da_maxReplays a" "da_maxReplays a < 2 ^ 63" "int64_counts ev" "counts_carried ev"
  shows "distinct ps \<Longrightarrow> work_left a ev (map (\<lambda>q. (q, 0)) ps) st < fuel \<Longrightarrow>
    \<exists>err st'. drain_partitions a ev fuel ps st = Some (err, st') \<and>
       dr_read st' \<le> dr_read st + work_left a ev (map (\<lambda>q. (q, 0)) ps) st"
proof (induction ps arbitrary: st)
  case (Cons p ps)
  let ?qs = "map (\<lambda>q. (q, 0)) ps"
  have "distinct (p # map fst ?qs)" using Cons.prems(1) by (simp add: comp_def)
  from drainPartition_ends [OF assms this, of 0 st fuel] Cons.prems(2) obtain st1 where
    s1: "drainPartition a ev fuel p 0 st = Some st1"
    "dr_read st \<le> dr_read st1" "dr_read st1 + work_left a ev ?qs st1 \<le> dr_read st + work_left a ev ((p, 0) # ?qs) st" by auto
  show ?case
  proof (cases "limit_reached a st \<or> seek_fault ev p \<noteq> None")
    case True
    then show ?thesis by auto
  next
    case False
    have "work_left a ev ?qs st1 < fuel" using s1 Cons.prems(2) by simp
    from Cons.IH [OF _ this] Cons.prems(1) s1 False show ?thesis by fastforce
  qed
qed simp

text \<open>
  Without a ceiling, and with consumers that file every replayed message again, a drain reads on
  for as long as it is let.
\<close>

definition never_fixed :: "drain_env \<Rightarrow> int \<Rightarrow> bool" where
  "never_fixed ev p \<longleftrightarrow> (\<forall>n. 0 < worked_off ev n) \<and> (\<forall>n. \<not> read_fails ev n) \<and> (\<forall>n. publish_fault ev n = None) \<and>
     (\<forall>m. \<exists>e l. react ev m = Some (p, e) \<and> json_Letter ev (m_Value e) = Inr l \<and> OriginalTopic l \<noteq> '''')"

lemma drainPartition_unending:
  assumes "never_fixed ev p" "da_maxReplays a = 0" "da_limit a = 0" "da_filter a = ''''" "\<not> da_dryRun a"
  shows "pos \<le> length (dr_logs st p) \<Longrightarrow> pos < length (dr_logs st p) + length (dr_pending st) \<Longrightarrow>
     \<forall>e \<in> set (dr_logs st p). \<exists>l. json_Letter ev (m_Value e) = Inr l \<and> OriginalTopic l \<noteq> '''' \<Longrightarrow>
     drainPartition a ev fuel p pos st = None"
proof (induction fuel arbitrary: pos st)
  case (Suc fuel)
  have grow: "length (file_again ev ms logs p) = length (logs p) + length ms" for ms logs
  proof (induction ms arbitrary: logs)
    case (Cons m ms)
    from assms(1) obtain e where "react ev m = Some (p, e)" unfolding never_fixed_def by blast
    with Cons show ?case by simp
  qed simp
  let ?st = "consumers_run ev st" and ?n = "worked_off ev (dr_read st)"
  let ?st2 = "replay_letter a ev (dr_logs ?st p ! pos) ?st"
  have n: "0 < ?n" using assms(1) by (simp add: never_fixed_def)
  have lens: "length (dr_logs ?st p) = length (dr_logs st p) + min ?n (length (dr_pending st))"
    "length (dr_pending ?st) = length (dr_pending st) - ?n"
    by (simp_all add: consumers_run_def Let_def grow min.commute)
  have good: "\<forall>e \<in> set (dr_logs ?st p). \<exists>l. json_Letter ev (m_Value e) = Inr l \<and> OriginalTopic l \<noteq> ''''"
  proof
    fix e assume "e \<in> set (dr_logs ?st p)"
    with file_again_entries [of e ev "take ?n (dr_pending st)" "dr_logs st" p]
    have "e \<in> set (dr_logs st p) \<or> (\<exists>m. react ev m = Some (p, e))"
      by (auto simp: consumers_run_def Let_def)
    with Suc.prems(3) assms(1) show "\<exists>l. json_Letter ev (m_Value e) = Inr l \<and> OriginalTopic l \<noteq> ''''"
      unfolding never_fixed_def by (metis option.inject prod.inject)
  qed
  have pos: "pos < length (dr_logs ?st p)" using Suc.prems(1,2) n lens by (auto simp: min_def)
  then obtain l where l: "json_Letter ev (m_Value (dr_logs ?st p ! pos)) = Inr l" "OriginalTopic l \<noteq> ''''"
    using good nth_mem by blast
  have pend: "length (dr_pending ?st2) = length (dr_pending ?st) + 1"
    using l assms by (simp add: replay_letter_def publishRaw_def Let_def never_fixed_def)
  have "drainPartition a ev fuel p (pos + 1) ?st2 = None"
    using pos good pend by (intro Suc.IH) (auto simp: replay_letter_step(2))
  with assms pos show ?case by (simp add: Let_def limit_reached_def never_fixed_def)
qed simp

lemma no_ceiling_never_ends:
  assumes "never_fixed ev p" "da_maxReplays a = 0" "da_limit a = 0" "da_filter a = ''''" "\<not> da_dryRun a"
    and "logs p = [e]" "json_Letter ev (m_Value e) = Inr l" "OriginalTopic l \<noteq> ''''" "seek_fault ev p = None" "da_dlq a \<noteq> ''''"
  shows "dlq_run a ev broker (Inr (Inr [p])) fuel (drain_start logs) = None"
  using drainPartition_unending [OF assms(1-5), of 0 "drain_start logs" fuel] assms(6-)
  by (simp add: dlq_run_def partitionsOf_def drain_start_def limit_reached_def assms(3))

section \<open>The consumers behind the topic\<close>

text \<open>
  The letter that the consumer of theory Consumer files for a replayed message, if it files one;
  the handler, its world and the broker may be different for every message.
\<close>

definition files_again ::
  "codec \<Rightarrow> ConsumerConfig \<Rightarrow> (kmsg \<Rightarrow> runtime) \<Rightarrow> (kmsg \<Rightarrow> 'w handler) \<Rightarrow> (kmsg \<Rightarrow> 'w) \<Rightarrow> (kmsg \<Rightarrow> int)
   \<Rightarrow> kmsg \<Rightarrow> (int \<times> kmsg) option" where
  "files_again cd c rt h w part m =
     (case processMessage cd c (rt m) (h m) m (idle (w m)) of
        None \<Rightarrow> None
      | Some st \<Rightarrow> (case written st of [] \<Rightarrow> None | e # _ \<Rightarrow> Some (part m, e)))"

definition is_letter_of :: "codec \<Rightarrow> ConsumerConfig \<Rightarrow> kmsg \<Rightarrow> kmsg \<Rightarrow> bool" where
  "is_letter_of cd c m e \<longleftrightarrow> (\<exists>l. marshal_letter cd l = Inr (m_Value e) \<and> ReplayCount l = replayCount (m_Headers m)
     \<and> OriginalPayload l = m_Value m \<and> OriginalKey l = m_Key m \<and> OriginalTopic l = m_Topic m)"

lemma deadLetter_letter:
  "e \<in> set (written (deadLetter cd c rt m cls cause n st)) \<Longrightarrow> e \<in> set (written st) \<or> is_letter_of cd c m e"
  by (auto simp: deadLetter_def write_message_def Let_def is_letter_of_def dlq_message_def letter_for_def
      split: if_splits sum.splits option.splits)

lemma recordProcessed_written: "written (recordProcessed r n st) = written st"
  by (simp add: recordProcessed_def)

lemma attempt_loop_letter:
  "attempt_loop cd c rt h m env n a le st = Some st' \<Longrightarrow> e \<in> set (written st') \<Longrightarrow>
     e \<in> set (written st) \<or> is_letter_of cd c m e"
proof (induction cd c rt h m env n a le st rule: attempt_loop.induct)
  case (1 cd c rt handle msg env attempt lastErr st)
  then show ?case using deadLetter_letter by (fastforce simp: recordProcessed_written split: option.splits)
next
  case (2 cd c rt handle msg env left attempt lastErr st)
  obtain err w where h: "handle env (app st) = (err, w)" by fastforce
  show ?case
  proof (cases err)
    case None
    with 2 h show ?thesis by (auto simp: recordProcessed_written)
  next
    case (Some x)
    with 2 h show ?thesis
      using deadLetter_letter [of e cd c rt msg "errorClass x" x attempt "st\<lparr>app := w\<rparr>"]
      by (fastforce simp: recordProcessed_written Let_def split: Class.splits if_splits option.splits)
  qed
qed

lemma files_again_letter: "files_again cd c rt h w part m = Some (p, e) \<Longrightarrow> is_letter_of cd c m e"
proof -
  assume f: "files_again cd c rt h w part m = Some (p, e)"
  then obtain st where st: "processMessage cd c (rt m) (h m) m (idle (w m)) = Some st" "e \<in> set (written st)"
    by (auto simp: files_again_def split: option.splits list.splits)
  show ?thesis
  proof (cases "Parse (json_Envelope cd) (m_Value m)")
    case (Inl err)
    with st deadLetter_letter [of e cd c "rt m" m] show ?thesis
      by (fastforce simp: processMessage_def recordProcessed_written idle_def)
  next
    case (Inr env)
    with st attempt_loop_letter [of cd c "rt m" "h m" m env _ _ _ "idle (w m)" st e] show ?thesis
      by (auto simp: processMessage_def idle_def)
  qed
qed

text \<open>What the drain decodes of a letter: at least the count that was encoded.\<close>

definition count_decoded :: "codec \<Rightarrow> drain_env \<Rightarrow> bool" where
  "count_decoded cd ev \<longleftrightarrow> (\<forall>l b l'. marshal_letter cd l = Inr b \<longrightarrow> - (2 ^ 63) \<le> ReplayCount l \<longrightarrow> ReplayCount l < 2 ^ 63 \<longrightarrow>
     json_Letter ev b = Inr l' \<longrightarrow> ReplayCount l' = ReplayCount l)"

lemma consumers_carry_counts:
  assumes "count_decoded cd ev" "react ev = files_again cd c rt h w part"
  shows "counts_carried ev"
proof -
  have "replayCount (m_Headers m) \<le> ReplayCount l"
    if "react ev m = Some (p, e)" "json_Letter ev (m_Value e) = Inr l" for m p e l
  proof -
    from that(1) assms(2) have "is_letter_of cd c m e" by (simp add: files_again_letter)
    then obtain l0 where "marshal_letter cd l0 = Inr (m_Value e)" "ReplayCount l0 = replayCount (m_Headers m)"
      by (auto simp: is_letter_of_def)
    with assms(1) that(2) replayCount_range [of "m_Headers m"] show ?thesis
      unfolding count_decoded_def by fastforce
  qed
  then show ?thesis by (auto simp: counts_carried_def)
qed

section \<open>A message that always fails\<close>

definition bad_letter :: "int \<Rightarrow> DeadLetter" where
  "bad_letter n = \<lparr>OriginalPayload = ''{'', OriginalEvent = None, OriginalTopic = TopicPitchRaw, OriginalPartition = 0,
     OriginalOffset = 9, OriginalKey = ''k'', ReplayCount = n,
     Failure = \<lparr>ErrorClass = ''DESERIALIZATION'', ErrorMessage = '''', Attempts = 1, FailedAt = 1,
       fail_Consumer = ''pitchlab-processor'', ConsumerGroup = ''g'', fail_CorrelationID = ''''\<rparr>\<rparr>"

definition counting_codec :: codec where
  "counting_codec = plain_codec\<lparr>marshal_letter := (\<lambda>l. Inr (show_int (ReplayCount l)))\<rparr>"

definition bad_env :: drain_env where
  "bad_env = \<lparr>json_Letter = (\<lambda>b. case strconv_Atoi b of None \<Rightarrow> Inl (PlainErr '''') | Some n \<Rightarrow> Inr (bad_letter n)),
     publish_fault = (\<lambda>_. None), worked_off = (\<lambda>_. 1),
     react = files_again counting_codec raw_consumer (\<lambda>_. calm) (\<lambda>_ e w. (None, w)) (\<lambda>_. ()) (\<lambda>_. 0),
     read_fails = (\<lambda>_. False), seek_fault = (\<lambda>_. None)\<rparr>"

definition bad_logs :: "int \<Rightarrow> kmsg list" where
  "bad_logs p = (if p = 0 then [garbage\<lparr>m_Topic := TopicPitchRawDLQ, m_Value := ''0''\<rparr>] else [])"

lemma bad_counts: "int64_counts bad_env"
  by (auto simp: int64_counts_def bad_env_def strconv_Atoi_def bad_letter_def Let_def split: option.splits prod.splits if_splits)

lemma bad_decoded: "count_decoded counting_codec bad_env"
  by (auto simp: count_decoded_def counting_codec_def bad_env_def bad_letter_def Atoi_show_int)

lemma bad_weight: "(\<Sum>p \<leftarrow> [0]. \<Sum>e \<leftarrow> bad_logs p. letter_weight (default_args TopicPitchRawDLQ) bad_env e) = 4"
  by code_simp

lemma bad_drain:
  "map_option (\<lambda>(err, st). (err, dr_read st, dr_replayed st, dr_exhausted st, length (dr_published st)))
     (dlq_run (default_args TopicPitchRawDLQ) bad_env ''b'' (Inr (Inr [0])) 5 (drain_start bad_logs))
   = Some (None, 4, 3, 1, 3)"
  by code_simp

section \<open>What a drain guarantees\<close>

text \<open>
  C35: a drain with a ceiling ends, although it reads from the topic into which the consumers file what
  it replays: it reads at most as many letters as the topic held, each counted once more for every
  replay the ceiling still allows it.  The consumers are those of theory Consumer, with any handler
  and at any pace.
\<close>

theorem drain_ends:
  assumes "0 < da_maxReplays a" "da_maxReplays a < 2 ^ 63" "int64_counts ev" "count_decoded cd ev"
    and "react ev = files_again cd c rt h w part" and "distinct parts" and "(\<Sum>p \<leftarrow> parts. \<Sum>e \<leftarrow> logs p. letter_weight a ev e) < fuel"
  shows "\<exists>err st. dlq_run a ev broker (Inr (Inr parts)) fuel (drain_start logs) = Some (err, st)
     \<and> dr_read st \<le> (\<Sum>p \<leftarrow> parts. \<Sum>e \<leftarrow> logs p. letter_weight a ev e)"
proof -
  let ?W = "\<lambda>ps. \<Sum>p \<leftarrow> ps. \<Sum>e \<leftarrow> logs p. letter_weight a ev e"
  have carried: "counts_carried ev" using assms(4,5) by (rule consumers_carry_counts)
  have work: "work_left a ev (map (\<lambda>q. (q, 0)) ps) (drain_start logs) = ?W ps" for ps
    by (simp add: work_left_def unread_def drain_start_def comp_def)
  have perm: "?W (sort parts) = ?W parts"
    using assms(6) by (simp add: sum_list_distinct_conv_sum_set)
  have "distinct (sort parts)" using assms(6) by simp
  from drain_partitions_ends [OF assms(1-3) carried this, of "drain_start logs" fuel] assms(7)
  obtain err st where "drain_partitions a ev fuel (sort parts) (drain_start logs) = Some (err, st)"
    "dr_read st \<le> ?W parts" by (auto simp: work perm) (simp add: drain_start_def)
  then show ?thesis
    by (cases "da_dlq a = '''' \<or> parts = []"; cases err) (auto simp: dlq_run_def partitionsOf_def drain_start_def)
qed

text \<open>
  C36: everything a drain publishes is the preserved bytes and key of a letter in the topic that the
  filter wants and the ceiling allows, with the count one higher, whatever the drain ended with; every
  letter it read is counted as replayed, skipped, exhausted or failed, and without an error none failed.
\<close>

theorem drain_faithful:
  assumes "dlq_run a ev broker found fuel (drain_start logs) = Some (err, st)"
  shows "(\<forall>m \<in> set (dr_published st). \<exists>q e l. e \<in> set (dr_logs st q) \<and> json_Letter ev (m_Value e) = Inr l
            \<and> replayable a l \<and> m = replay_message a l)
     \<and> dr_read st = dr_replayed st + dr_skipped st + dr_exhausted st + dr_failed st
     \<and> length (dr_published st) \<le> dr_replayed st \<and> (err = None \<longrightarrow> dr_failed st = 0)"
proof -
  have "err = None \<longrightarrow> dr_failed st = 0"
    using assms by (auto simp: dlq_run_def split: if_splits sum.splits option.splits prod.splits)
  with dlq_run_sourced [OF assms] show ?thesis unfolding sourced_def letters_counted_def by blast
qed

lemma drain_ends_witness:
  "\<exists>err st. dlq_run (default_args TopicPitchRawDLQ) bad_env ''b'' (Inr (Inr [0])) 5 (drain_start bad_logs) = Some (err, st)
     \<and> dr_read st \<le> 4"
proof -
  have react: "react bad_env = files_again counting_codec raw_consumer (\<lambda>_. calm) (\<lambda>_ e w. (None, w)) (\<lambda>_. ()) (\<lambda>_. 0)"
    by (simp add: bad_env_def)
  show ?thesis
    using drain_ends [OF _ _ bad_counts bad_decoded react, of "default_args TopicPitchRawDLQ" "[0]" bad_logs 5 "''b''"] bad_weight
    by (simp add: default_args_def)
qed

lemma drain_faithful_witness:
  "\<exists>st :: drain. list_all (\<lambda>m. \<exists>(e :: kmsg) l. json_Letter bad_env (m_Value e) = Inr l
        \<and> m = replay_message (default_args TopicPitchRawDLQ) l) (dr_published st)
     \<and> length (dr_published st) = 3 \<and> dr_failed st = 0"
proof -
  obtain st where st: "dlq_run (default_args TopicPitchRawDLQ) bad_env ''b'' (Inr (Inr [0])) 5 (drain_start bad_logs) = Some (None, st)"
    "length (dr_published st) = 3"
    using bad_drain by (auto simp: map_option_eq_Some split: prod.splits)
  note f = drain_faithful [OF st(1)]
  have "list_all (\<lambda>m. \<exists>(e :: kmsg) l. json_Letter bad_env (m_Value e) = Inr l
      \<and> m = replay_message (default_args TopicPitchRawDLQ) l) (dr_published st)"
    unfolding list_all_iff using f by meson
  moreover have "dr_failed st = 0" using f by simp
  ultimately show ?thesis using st(2) by blast
qed

end
